(* ===== verification/Iron_Prelude.thy ===== *)
theory Iron_Prelude
  imports Main "HOL-Library.Word"
begin

text \<open>
  Shared vocabulary of the development: the fixed-width integers and byte strings the Rust code
  uses, its checked arithmetic, big-endian encodings, the result type of fallible operations, and
  the collections of facts the component theories add to.

  A fallible Rust function returns \<open>'e + 'a\<close>: \<open>Inl\<close> is \<open>Err\<close> and \<open>Inr\<close> is \<open>Ok\<close>.
  Lengths and indices of type \<open>usize\<close> are \<open>nat\<close>: a \<open>Vec\<close> never holds more than
  \<open>isize::MAX\<close> bytes, so its length always fits.
\<close>

section \<open>Collections of facts\<close>

named_theorems result_iff \<open>inversion of operations that return a result\<close>
named_theorems step_defs \<open>definitions of the operations of the state machines\<close>
named_theorems inv_defs \<open>definitions of invariants\<close>

section \<open>Machine integers\<close>

type_synonym u8 = "8 word"
type_synonym u16 = "16 word"
type_synonym u32 = "32 word"
type_synonym u64 = "64 word"
type_synonym bytes = "u8 list"

definition checked_add :: "'a::len word \<Rightarrow> 'a word \<Rightarrow> 'a word option" where
  "checked_add a b = (if unat a + unat b < 2 ^ LENGTH('a) then Some (a + b) else None)"

lemma checked_add_Some_iff [result_iff]:
  "checked_add a b = Some c \<longleftrightarrow> unat c = unat a + unat b"
proof
  assume "checked_add a b = Some c"
  then show "unat c = unat a + unat b"
    by (auto simp: checked_add_def unat_word_ariths split: if_splits)
next
  assume eq: "unat c = unat a + unat b"
  moreover have "unat c < 2 ^ LENGTH('a)" by simp
  ultimately have "unat a + unat b < 2 ^ LENGTH('a)" by simp
  moreover have "c = a + b"
    using eq word_arith_nat_add [of a b] by (metis unat_of_nat unsigned_less mod_less word_unat_eq_iff)
  ultimately show "checked_add a b = Some c" by (simp add: checked_add_def)
qed

lemma checked_add_code [code]: "checked_add a b = (if a \<le> a + b then Some (a + b) else None)"
proof -
  have "uint a + uint b = int (unat a + unat b)" by simp
  then have "a \<le> a + b \<longleftrightarrow> int (unat a + unat b) < int (2 ^ LENGTH('a))"
    using no_olen_add [of a b] by simp
  then show ?thesis by (simp only: checked_add_def of_nat_less_iff)
qed

lemma checked_add_None_iff:
  "checked_add a b = None \<longleftrightarrow> 2 ^ LENGTH('a) \<le> unat a + unat (b :: 'a::len word)"
  by (simp add: checked_add_def not_less)

lemma checked_add_one_less: "checked_add a 1 = Some c \<Longrightarrow> a < c"
  by (simp add: checked_add_Some_iff word_less_nat_alt)

lemma checked_add_one_word: "checked_add a 1 = Some c \<Longrightarrow> c = a + 1"
  by (simp add: checked_add_def split: if_splits)

text \<open>The length of a slice as the \<open>u64\<close> the code casts or converts it to.\<close>

definition len64 :: "'a list \<Rightarrow> u64" where
  "len64 xs = word_of_nat (length xs)"

lemma unat_len64: "length xs < 2 ^ 64 \<Longrightarrow> unat (len64 xs) = length xs"
  by (simp add: len64_def unat_of_nat)

lemma unat_len64_le: "unat (len64 xs) \<le> length xs"
  by (simp add: len64_def unat_of_nat)

section \<open>Results\<close>

definition ok_or :: "'a option \<Rightarrow> 'e \<Rightarrow> 'e + 'a" where
  "ok_or x e = (case x of None \<Rightarrow> Inl e | Some v \<Rightarrow> Inr v)"

lemma ok_or_simps [simp]:
  "ok_or None e = Inl e"
  "ok_or (Some v) e = Inr v"
  by (simp_all add: ok_or_def)

lemma ok_or_Inr_iff [result_iff]: "ok_or x e = Inr v \<longleftrightarrow> x = Some v"
  by (simp add: ok_or_def split: option.split)

lemma ok_or_Inl_iff [result_iff]: "ok_or x e = Inl e' \<longleftrightarrow> x = None \<and> e' = e"
  by (auto simp: ok_or_def split: option.split)

definition and_then :: "'e + 'a \<Rightarrow> ('a \<Rightarrow> 'e + 'b) \<Rightarrow> 'e + 'b" where
  "and_then r f = (case r of Inl e \<Rightarrow> Inl e | Inr v \<Rightarrow> f v)"

lemma and_then_simps [simp]:
  "and_then (Inl e) f = Inl e"
  "and_then (Inr v) f = f v"
  by (simp_all add: and_then_def)

lemma and_then_Inr_iff [result_iff]:
  "and_then r f = Inr w \<longleftrightarrow> (\<exists>v. r = Inr v \<and> f v = Inr w)"
  by (simp add: and_then_def split: sum.split)

lemma and_then_Inl_iff [result_iff]:
  "and_then r f = Inl e \<longleftrightarrow> r = Inl e \<or> (\<exists>v. r = Inr v \<and> f v = Inl e)"
  by (simp add: and_then_def split: sum.split)

definition is_ok :: "'e + 'a \<Rightarrow> bool" where
  "is_ok r = (case r of Inl _ \<Rightarrow> False | Inr _ \<Rightarrow> True)"

lemma is_ok_simps [simp]: "is_ok (Inr v)" "\<not> is_ok (Inl e)"
  by (simp_all add: is_ok_def)

lemma is_ok_iff: "is_ok r \<longleftrightarrow> (\<exists>v. r = Inr v)"
  by (simp add: is_ok_def split: sum.split)

text \<open>\<open>Result::map_err\<close>.\<close>

definition map_err :: "('d \<Rightarrow> 'e) \<Rightarrow> 'd + 'a \<Rightarrow> 'e + 'a" where
  "map_err f r = (case r of Inl e \<Rightarrow> Inl (f e) | Inr v \<Rightarrow> Inr v)"

lemma map_err_simps [simp]: "map_err f (Inr v) = Inr v" "map_err f (Inl e) = Inl (f e)"
  by (simp_all add: map_err_def)

lemma map_err_Inr_iff [result_iff]: "map_err f r = Inr v \<longleftrightarrow> r = Inr v"
  by (simp add: map_err_def split: sum.split)

section \<open>Big-endian encodings\<close>

text \<open>\<open>be_bytes n x\<close> is the low \<open>n\<close> bytes of \<open>x\<close>, most significant first.\<close>

fun be_bytes :: "nat \<Rightarrow> nat \<Rightarrow> bytes" where
  "be_bytes 0 x = []"
| "be_bytes (Suc n) x = word_of_nat (x div 256 ^ n) # be_bytes n x"

fun be_value :: "bytes \<Rightarrow> nat" where
  "be_value [] = 0"
| "be_value (b # bs) = unat b * 256 ^ length bs + be_value bs"

lemma be_bytes_numeral:
  "be_bytes (numeral k) x = word_of_nat (x div 256 ^ pred_numeral k) # be_bytes (pred_numeral k) x"
  by (simp add: numeral_eq_Suc)

lemma length_be_bytes [simp]: "length (be_bytes n x) = n"
  by (induction n) auto

lemma be_value_be_bytes: "be_value (be_bytes n x) = x mod 256 ^ n"
proof (induction n)
  case 0
  then show ?case by simp
next
  case (Suc n)
  have "x mod (256 ^ n * 256) = 256 ^ n * (x div 256 ^ n mod 256) + x mod 256 ^ n"
    by (rule mod_mult2_eq)
  then show ?case
    using Suc by (simp add: unat_of_nat take_bit_eq_mod ac_simps)
qed

lemma be_value_bound: "be_value bs < 256 ^ length bs"
proof (induction bs)
  case Nil
  then show ?case by simp
next
  case (Cons b bs)
  have "unat b < 2 ^ LENGTH(8)" by (rule unsigned_less)
  then have "unat b \<le> 255" by simp
  then have "unat b * 256 ^ length bs \<le> 255 * 256 ^ length bs" by (rule mult_le_mono1)
  with Cons show ?case unfolding be_value.simps length_Cons power_Suc by linarith
qed

lemma be_bytes_mod: "be_bytes n (x mod 256 ^ n) = be_bytes n x"
proof -
  have "be_bytes k (x mod 256 ^ n) = be_bytes k x" if "k \<le> n" for k
    using that
  proof (induction k)
    case 0
    then show ?case by simp
  next
    case (Suc k)
    have dvd: "(256::nat) ^ Suc k dvd 256 ^ n" using Suc.prems by (rule le_imp_power_dvd)
    have digit: "y div 256 ^ k mod 256 = y mod 256 ^ Suc k div 256 ^ k" for y :: nat
      by (simp add: mod_mult2_eq mult.commute [of 256])
    have "(x mod 256 ^ n) div 256 ^ k mod 256 = x div 256 ^ k mod 256"
      using dvd by (simp only: digit mod_mod_cancel)
    then have "(word_of_nat ((x mod 256 ^ n) div 256 ^ k) :: u8) = word_of_nat (x div 256 ^ k)"
      by (simp add: word_unat_eq_iff unat_of_nat)
    with Suc show ?case by simp
  qed
  then show ?thesis by simp
qed

lemma be_bytes_be_value: "be_bytes (length bs) (be_value bs) = bs"
proof (induction bs)
  case Nil
  then show ?case by simp
next
  case (Cons b bs)
  let ?n = "length bs"
  have "be_bytes ?n (unat b * 256 ^ ?n + be_value bs) = be_bytes ?n (be_value bs)"
    using be_bytes_mod [of ?n "unat b * 256 ^ ?n + be_value bs"] be_bytes_mod [of ?n "be_value bs"]
    by simp
  moreover have "(unat b * 256 ^ ?n + be_value bs) div 256 ^ ?n = unat b"
    using be_value_bound [of bs] by simp
  ultimately show ?case using Cons by simp
qed

definition be16 :: "u16 \<Rightarrow> bytes" where "be16 w = be_bytes 2 (unat w)"
definition be32 :: "u32 \<Rightarrow> bytes" where "be32 w = be_bytes 4 (unat w)"
definition be64 :: "u64 \<Rightarrow> bytes" where "be64 w = be_bytes 8 (unat w)"

definition from_be16 :: "bytes \<Rightarrow> u16" where "from_be16 bs = word_of_nat (be_value bs)"
definition from_be32 :: "bytes \<Rightarrow> u32" where "from_be32 bs = word_of_nat (be_value bs)"
definition from_be64 :: "bytes \<Rightarrow> u64" where "from_be64 bs = word_of_nat (be_value bs)"

lemma length_be [simp]: "length (be16 a) = 2" "length (be32 b) = 4" "length (be64 c) = 8"
  by (simp_all add: be16_def be32_def be64_def)

lemma from_be_be [simp]:
  "from_be16 (be16 a) = a" "from_be32 (be32 b) = b" "from_be64 (be64 c) = c"
  using unsigned_less [of a, where ?'a = nat] unsigned_less [of b, where ?'a = nat]
    unsigned_less [of c, where ?'a = nat]
  by (simp_all add: from_be16_def be16_def from_be32_def be32_def from_be64_def be64_def
      be_value_be_bytes)

lemma be_from_be:
  "length bs = 2 \<Longrightarrow> be16 (from_be16 bs) = bs"
  "length bs = 4 \<Longrightarrow> be32 (from_be32 bs) = bs"
  "length bs = 8 \<Longrightarrow> be64 (from_be64 bs) = bs"
  using be_value_bound [of bs] be_bytes_be_value [of bs]
  by (simp_all add: from_be16_def be16_def from_be32_def be32_def from_be64_def be64_def
      unat_of_nat)

lemma be_inject [simp]:
  "be16 a = be16 a' \<longleftrightarrow> a = a'" "be32 b = be32 b' \<longleftrightarrow> b = b'" "be64 c = be64 c' \<longleftrightarrow> c = c'"
  by (metis from_be_be)+

section \<open>Lists\<close>

lemma take_append_exact [simp]: "take (length xs) (xs @ ys) = xs"
  by simp

lemma sum_list_filter_le: "sum_list (map f (filter P xs)) \<le> sum_list (map (f :: 'a \<Rightarrow> nat) xs)"
  by (induction xs) auto

text \<open>\<open>Iterator::position\<close> and \<open>VecDeque::remove\<close>.\<close>

fun find_position :: "('a \<Rightarrow> bool) \<Rightarrow> 'a list \<Rightarrow> nat option" where
  "find_position P [] = None"
| "find_position P (x # xs) = (if P x then Some 0 else map_option Suc (find_position P xs))"

definition remove_nth :: "nat \<Rightarrow> 'a list \<Rightarrow> 'a list" where
  "remove_nth n xs = take n xs @ drop (Suc n) xs"

fun remove_first :: "('a \<Rightarrow> bool) \<Rightarrow> 'a list \<Rightarrow> 'a list option" where
  "remove_first P [] = None"
| "remove_first P (x # xs) =
     (if P x then Some xs else map_option ((#) x) (remove_first P xs))"

lemma find_position_None_iff: "find_position P xs = None \<longleftrightarrow> (\<forall>x\<in>set xs. \<not> P x)"
  by (induction xs) auto

lemma find_position_SomeD:
  "find_position P xs = Some n \<Longrightarrow>
     n < length xs \<and> P (xs ! n) \<and> (\<forall>x\<in>set (take n xs). \<not> P x)"
  by (induction xs arbitrary: n) (auto split: if_splits)

lemma remove_nth_Cons [simp]:
  "remove_nth 0 (x # xs) = xs" "remove_nth (Suc n) (x # xs) = x # remove_nth n xs"
  by (simp_all add: remove_nth_def)

lemma remove_first_map:
  "(\<And>x. x \<in> set xs \<Longrightarrow> P x \<longleftrightarrow> Q (f x)) \<Longrightarrow>
     remove_first Q (map f xs) = map_option (\<lambda>n. map f (remove_nth n xs)) (find_position P xs)"
  by (induction xs) (auto simp: option.map_comp comp_def)

lemma remove_first_Some_length: "remove_first P xs = Some ys \<Longrightarrow> length xs = Suc (length ys)"
  by (induction xs arbitrary: ys) (auto split: if_splits)

lemma remove_first_Some_mset:
  "remove_first P xs = Some ys \<Longrightarrow> \<exists>us v vs. xs = us @ v # vs \<and> ys = us @ vs \<and> P v \<and> (\<forall>u\<in>set us. \<not> P u)"
proof (induction xs arbitrary: ys)
  case (Cons x xs)
  show ?case
  proof (cases "P x")
    case True
    with Cons.prems show ?thesis by (intro exI [of _ "[]"]) auto
  next
    case False
    with Cons.prems obtain zs where zs: "remove_first P xs = Some zs" "ys = x # zs" by auto
    from Cons.IH [OF zs(1)] obtain us v vs
      where "xs = us @ v # vs" "zs = us @ vs" "P v" "\<forall>u\<in>set us. \<not> P u" by blast
    with zs(2) False show ?thesis by (intro exI [of _ "x # us"]) auto
  qed
qed simp

lemma remove_first_None_iff: "remove_first P xs = None \<longleftrightarrow> (\<forall>x\<in>set xs. \<not> P x)"
  by (induction xs) auto

lemma remove_nth_split:
  "n < length xs \<Longrightarrow>
     \<exists>us vs. xs = us @ xs ! n # vs \<and> remove_nth n xs = us @ vs \<and> length us = n"
  by (intro exI [of _ "take n xs"] exI [of _ "drop (Suc n) xs"])
    (auto simp: remove_nth_def id_take_nth_drop)

section \<open>Shared state\<close>

text \<open>A value behind a \<open>Mutex\<close>. The lock is held for a whole call, so calls do not interleave; it is
  poisoned once a call panicked.\<close>

record 's mutex =
  mx_poisoned :: bool
  mx_value :: 's

definition unlocked :: "'s \<Rightarrow> 's mutex" where
  "unlocked s = \<lparr>mx_poisoned = False, mx_value = s\<rparr>"

section \<open>Runs and refinement\<close>

text \<open>A component is a state type and a step function that takes an operation and returns its
  result and the next state. A run performs a list of operations.\<close>

fun run_ops :: "('op \<Rightarrow> 's \<Rightarrow> 'r \<times> 's) \<Rightarrow> 'op list \<Rightarrow> 's \<Rightarrow> 'r list \<times> 's" where
  "run_ops step [] s = ([], s)"
| "run_ops step (op # ops) s =
     (let (r, s') = step op s; (rs, s'') = run_ops step ops s' in (r # rs, s''))"

text \<open>The contract of a component against an abstract specification: every operation keeps the
  invariant and returns what the specification returns on the abstracted state.\<close>

locale refined_component =
  fixes cinv :: "'s \<Rightarrow> bool"
    and abst :: "'s \<Rightarrow> 'a"
    and cstep :: "'op \<Rightarrow> 's \<Rightarrow> 'r \<times> 's"
    and astep :: "'op \<Rightarrow> 'a \<Rightarrow> 'r \<times> 'a"
    and allowed :: "'op \<Rightarrow> bool"
  assumes step_inv: "cinv s \<Longrightarrow> allowed op \<Longrightarrow> cinv (snd (cstep op s))"
    and step_refines: "cinv s \<Longrightarrow> allowed op \<Longrightarrow> astep op (abst s) = map_prod id abst (cstep op s)"
begin

lemma run_inv: "cinv s \<Longrightarrow> list_all allowed ops \<Longrightarrow> cinv (snd (run_ops cstep ops s))"
proof (induction ops arbitrary: s)
  case (Cons op ops)
  then have "cinv (snd (cstep op s))" by (simp add: step_inv)
  with Cons show ?case by (simp add: split_beta Let_def)
qed simp

lemma run_refines:
  "cinv s \<Longrightarrow> list_all allowed ops \<Longrightarrow>
     run_ops astep ops (abst s) = map_prod id abst (run_ops cstep ops s)"
proof (induction ops arbitrary: s)
  case (Cons op ops)
  then have "cinv (snd (cstep op s))" by (simp add: step_inv)
  with Cons show ?case by (simp add: split_beta Let_def step_refines)
qed simp

end

end
