(* ===== verification/Iron_Id.thy ===== *)
theory Iron_Id
  imports Iron_Prelude "HOL-Library.List_Lexorder" "HOL-Library.Char_ord"
begin

text \<open>
  The validated scalar types of \<open>iron-core\<close> (\<open>id.rs\<close>, \<open>limits.rs\<close>) and the error type
  their constructors return (\<open>error.rs\<close>).

  A \<open>&str\<close> is its UTF-8 byte sequence, a \<open>string\<close> of one \<open>char\<close> per byte. A
  \<open>[u8; N]\<close> is a byte list; that its length is \<open>N\<close> is a hypothesis where it matters. The
  \<open>macro_rules!\<close> templates are one definition each, applied per generated type. The error
  payloads of \<open>uuid\<close> and \<open>url\<close>, crates that are not part of the repository, are left out
  of the error values.
\<close>

section \<open>Errors (error.rs)\<close>

datatype parse_int_error = Empty | InvalidDigit | PosOverflow

datatype validation_error = ValidationError (ve_field_path: string) (ve_code: string) (ve_message: string)

datatype core_error =
    InvalidUuid string
  | ZeroIdentifier string
  | GeneratedZeroIdentifier string
  | InvalidText string string
  | InvalidInteger string parse_int_error
  | ZeroValue string
  | ValueOutOfRange string u64 u64 u64
  | InvalidPeerEndpointUrl
  | InvalidPeerEndpointScheme
  | MissingPeerEndpointHost
  | PeerEndpointCredentialsNotAllowed
  | PeerEndpointQueryNotAllowed
  | PeerEndpointFragmentNotAllowed
  | UnsupportedEnvelopeVersion u16
  | PayloadTooLarge u64 u32
  | DeliveryAttemptOverflow
  | InvalidFingerprint string
  | SequenceExhausted string
  | OutcomeTooLarge u64 u32
  | Validation "validation_error list"

section \<open>Opaque identifiers (the opaque_id macro)\<close>

definition OPAQUE_ID_BYTES :: nat where "OPAQUE_ID_BYTES = 16"

datatype cluster_id = ClusterId (cluster_bytes: bytes)
datatype message_id = MessageId (message_bytes: bytes)
datatype correlation_id = CorrelationId (correlation_bytes: bytes)
datatype client_request_id = ClientRequestId (client_request_bytes: bytes)
datatype timer_id = TimerId (timer_bytes: bytes)

definition opaque_from_bytes :: "string \<Rightarrow> (bytes \<Rightarrow> 'i) \<Rightarrow> bytes \<Rightarrow> core_error + 'i" where
  "opaque_from_bytes kind mk bs =
     (if bs = replicate OPAQUE_ID_BYTES 0 then Inl (ZeroIdentifier kind) else Inr (mk bs))"

text \<open>\<open>generate\<close> asks an \<open>IdGenerator\<close> for the bytes; the generator is the function
  \<open>next_id\<close> on its own state.\<close>

definition opaque_generate ::
  "string \<Rightarrow> (bytes \<Rightarrow> 'i) \<Rightarrow> ('g \<Rightarrow> bytes \<times> 'g) \<Rightarrow> 'g \<Rightarrow> (core_error + 'i) \<times> 'g" where
  "opaque_generate kind mk next_id g =
     (case next_id g of (bs, g') \<Rightarrow>
       (if bs = replicate OPAQUE_ID_BYTES 0 then Inl (GeneratedZeroIdentifier kind)
        else Inr (mk bs), g'))"

definition cluster_id_from_bytes :: "bytes \<Rightarrow> core_error + cluster_id" where
  "cluster_id_from_bytes = opaque_from_bytes ''cluster ID'' ClusterId"

definition message_id_from_bytes :: "bytes \<Rightarrow> core_error + message_id" where
  "message_id_from_bytes = opaque_from_bytes ''message ID'' MessageId"

definition correlation_id_from_bytes :: "bytes \<Rightarrow> core_error + correlation_id" where
  "correlation_id_from_bytes = opaque_from_bytes ''correlation ID'' CorrelationId"

definition message_id_generate ::
  "('g \<Rightarrow> bytes \<times> 'g) \<Rightarrow> 'g \<Rightarrow> (core_error + message_id) \<times> 'g" where
  "message_id_generate = opaque_generate ''message ID'' MessageId"

definition correlation_of_message :: "message_id \<Rightarrow> correlation_id" where
  "correlation_of_message m = CorrelationId (message_bytes m)"

definition opaque_ok :: "bytes \<Rightarrow> bool" where
  "opaque_ok bs \<longleftrightarrow> length bs = OPAQUE_ID_BYTES \<and> bs \<noteq> replicate OPAQUE_ID_BYTES 0"

lemma opaque_from_bytes_Inr_iff [result_iff]:
  "opaque_from_bytes kind mk bs = Inr i \<longleftrightarrow> bs \<noteq> replicate OPAQUE_ID_BYTES 0 \<and> i = mk bs"
  by (auto simp: opaque_from_bytes_def)

lemma opaque_from_bytes_ok: "opaque_ok bs \<Longrightarrow> opaque_from_bytes kind mk bs = Inr (mk bs)"
  by (simp add: opaque_from_bytes_def opaque_ok_def)

lemmas id_from_bytes_defs =
  cluster_id_from_bytes_def message_id_from_bytes_def correlation_id_from_bytes_def

section \<open>Node identifiers\<close>

definition MAX_TEXT_ID_BYTES :: nat where "MAX_TEXT_ID_BYTES = 64"

definition is_lower_alphanumeric :: "char \<Rightarrow> bool" where
  "is_lower_alphanumeric c \<longleftrightarrow>
     CHR ''a'' \<le> c \<and> c \<le> CHR ''z'' \<or> CHR ''0'' \<le> c \<and> c \<le> CHR ''9''"

definition validate_node_id :: "string \<Rightarrow> core_error + unit" where
  "validate_node_id input =
     (if input = [] then Inl (InvalidText ''node ID'' ''must contain at least one byte'')
      else if length input > MAX_TEXT_ID_BYTES
        then Inl (InvalidText ''node ID'' ''must contain at most 64 bytes'')
      else if \<not> list_all (\<lambda>b. is_lower_alphanumeric b \<or> b = CHR ''-'') input
        then Inl (InvalidText ''node ID'' ''contains a disallowed byte'')
      else if \<not> is_lower_alphanumeric (hd input) \<or> \<not> is_lower_alphanumeric (last input)
        then Inl (InvalidText ''node ID'' ''must begin and end with a lowercase letter or digit'')
      else Inr ())"

datatype node_id = NodeId (node_str: string)

definition node_id_parse :: "string \<Rightarrow> core_error + node_id" where
  "node_id_parse input = and_then (validate_node_id input) (\<lambda>_. Inr (NodeId input))"

definition node_id_ok :: "node_id \<Rightarrow> bool" where
  "node_id_ok n \<longleftrightarrow> validate_node_id (node_str n) = Inr ()"

lemma node_id_parse_Inr_iff [result_iff]:
  "node_id_parse s = Inr n \<longleftrightarrow> n = NodeId s \<and> node_id_ok n"
  by (auto simp: node_id_parse_def node_id_ok_def and_then_Inr_iff)

text \<open>The derived \<open>Ord\<close>: byte-wise lexicographic, the order a \<open>BTreeSet<NodeId>\<close> iterates in.\<close>

instantiation node_id :: linorder
begin

definition less_eq_node_id :: "node_id \<Rightarrow> node_id \<Rightarrow> bool" where
  "less_eq_node_id a b \<longleftrightarrow> node_str a \<le> node_str b"

definition less_node_id :: "node_id \<Rightarrow> node_id \<Rightarrow> bool" where
  "less_node_id a b \<longleftrightarrow> node_str a < node_str b"

instance
  by standard
    (auto simp: less_eq_node_id_def less_node_id_def node_id.expand intro: linear)

end

section \<open>Names (the validated_name macro)\<close>

definition validate_name :: "string \<Rightarrow> string \<Rightarrow> core_error + unit" where
  "validate_name kind input =
     (if input = [] then Inl (InvalidText kind ''must contain at least one byte'')
      else if length input > MAX_TEXT_ID_BYTES
        then Inl (InvalidText kind ''must contain at most 64 bytes'')
      else if \<not> list_all (\<lambda>b. is_lower_alphanumeric b \<or> b \<in> {CHR ''-'', CHR ''_'', CHR ''.''}) input
        then Inl (InvalidText kind ''contains a disallowed byte'')
      else Inr ())"

datatype protocol_name = ProtocolName (protocol_str: string)
datatype message_type = MessageType (type_str: string)

definition protocol_name_parse :: "string \<Rightarrow> core_error + protocol_name" where
  "protocol_name_parse input =
     and_then (validate_name ''protocol name'' input) (\<lambda>_. Inr (ProtocolName input))"

definition message_type_parse :: "string \<Rightarrow> core_error + message_type" where
  "message_type_parse input =
     and_then (validate_name ''message type'' input) (\<lambda>_. Inr (MessageType input))"

definition protocol_name_ok :: "protocol_name \<Rightarrow> bool" where
  "protocol_name_ok n \<longleftrightarrow> validate_name ''protocol name'' (protocol_str n) = Inr ()"

definition message_type_ok :: "message_type \<Rightarrow> bool" where
  "message_type_ok n \<longleftrightarrow> validate_name ''message type'' (type_str n) = Inr ()"

lemma protocol_name_parse_Inr_iff [result_iff]:
  "protocol_name_parse s = Inr n \<longleftrightarrow> n = ProtocolName s \<and> protocol_name_ok n"
  by (auto simp: protocol_name_parse_def protocol_name_ok_def and_then_Inr_iff)

lemma message_type_parse_Inr_iff [result_iff]:
  "message_type_parse s = Inr n \<longleftrightarrow> n = MessageType s \<and> message_type_ok n"
  by (auto simp: message_type_parse_def message_type_ok_def and_then_Inr_iff)

section \<open>Nonzero integers (the nonzero_integer macro)\<close>

datatype lsn = Lsn (lsn_get: u64)
datatype schema_version = SchemaVersion (schema_get: u16)
datatype envelope_version = EnvelopeVersion (envelope_version_get: u16)

definition nonzero_new :: "string \<Rightarrow> ('a::len word \<Rightarrow> 'i) \<Rightarrow> 'a word \<Rightarrow> core_error + 'i" where
  "nonzero_new kind mk v = (if v = 0 then Inl (ZeroValue kind) else Inr (mk v))"

definition lsn_new :: "u64 \<Rightarrow> core_error + lsn" where
  "lsn_new = nonzero_new ''LSN'' Lsn"

definition schema_version_new :: "u16 \<Rightarrow> core_error + schema_version" where
  "schema_version_new = nonzero_new ''schema version'' SchemaVersion"

definition envelope_version_new :: "u16 \<Rightarrow> core_error + envelope_version" where
  "envelope_version_new = nonzero_new ''envelope version'' EnvelopeVersion"

definition lsn_ok :: "lsn \<Rightarrow> bool" where "lsn_ok l \<longleftrightarrow> lsn_get l \<noteq> 0"
definition schema_ok :: "schema_version \<Rightarrow> bool" where "schema_ok v \<longleftrightarrow> schema_get v \<noteq> 0"

lemma nonzero_new_Inr_iff [result_iff]: "nonzero_new kind mk v = Inr i \<longleftrightarrow> v \<noteq> 0 \<and> i = mk v"
  by (auto simp: nonzero_new_def)

definition LSN_FIRST :: lsn where "LSN_FIRST = Lsn 1"

definition checked_successor :: "lsn \<Rightarrow> lsn option" where
  "checked_successor l = (case checked_add (lsn_get l) 1 of Some v \<Rightarrow> Some (Lsn v) | None \<Rightarrow> None)"

definition ENVELOPE_V1 :: envelope_version where "ENVELOPE_V1 = EnvelopeVersion 1"

lemma checked_successor_Some_iff [result_iff]:
  "checked_successor l = Some l' \<longleftrightarrow> unat (lsn_get l') = Suc (unat (lsn_get l))"
proof -
  have "checked_successor l = Some l' \<longleftrightarrow> checked_add (lsn_get l) 1 = Some (lsn_get l')"
    by (cases l') (auto simp: checked_successor_def split: option.split)
  then show ?thesis by (simp add: checked_add_Some_iff)
qed

text \<open>\<open>str::parse\<close> for an unsigned integer whose largest value is \<open>limit\<close>: an optional leading
  \<open>+\<close>, then decimal digits, read left to right with both overflow checks.\<close>

definition to_digit :: "char \<Rightarrow> nat option" where
  "to_digit c = (if CHR ''0'' \<le> c \<and> c \<le> CHR ''9'' then Some (of_char c - 48) else None)"

fun parse_digits :: "nat \<Rightarrow> nat \<Rightarrow> string \<Rightarrow> parse_int_error + nat" where
  "parse_digits limit acc [] = Inr acc"
| "parse_digits limit acc (c # cs) =
     (case to_digit c of
        None \<Rightarrow> Inl InvalidDigit
      | Some d \<Rightarrow>
          if acc * 10 > limit then Inl PosOverflow
          else if acc * 10 + d > limit then Inl PosOverflow
          else parse_digits limit (acc * 10 + d) cs)"

definition parse_unsigned :: "nat \<Rightarrow> string \<Rightarrow> parse_int_error + nat" where
  "parse_unsigned limit s =
     (case s of
        [] \<Rightarrow> Inl Empty
      | c # cs \<Rightarrow>
          if cs = [] \<and> c \<in> {CHR ''+'', CHR ''-''} then Inl InvalidDigit
          else if c = CHR ''+'' then parse_digits limit 0 cs
          else parse_digits limit 0 s)"

definition nonzero_parse ::
  "string \<Rightarrow> ('a::len word \<Rightarrow> 'i) \<Rightarrow> string \<Rightarrow> core_error + 'i" where
  "nonzero_parse kind mk input =
     (case parse_unsigned (2 ^ LENGTH('a) - 1) input of
        Inl e \<Rightarrow> Inl (InvalidInteger kind e)
      | Inr v \<Rightarrow> nonzero_new kind mk (word_of_nat v))"

lemma parse_digits_bound: "parse_digits limit acc s = Inr v \<Longrightarrow> acc \<le> limit \<Longrightarrow> v \<le> limit"
  by (induction limit acc s rule: parse_digits.induct) (auto split: option.splits if_splits)

lemma parse_unsigned_bound: "parse_unsigned limit s = Inr v \<Longrightarrow> v \<le> limit"
  by (auto simp: parse_unsigned_def simp del: parse_digits.simps
      split: list.splits if_splits dest!: parse_digits_bound)

section \<open>Bounded limits (limits.rs)\<close>

definition KIBIBYTE :: u32 where "KIBIBYTE = 1024"
definition MEBIBYTE :: u32 where "MEBIBYTE = 1024 * KIBIBYTE"
definition GIBIBYTE :: u32 where "GIBIBYTE = 1024 * MEBIBYTE"

definition WAL_FRAME_OVERHEAD_BYTES :: u32 where "WAL_FRAME_OVERHEAD_BYTES = 40"
definition MIN_RECORD_BYTES :: u32 where "MIN_RECORD_BYTES = KIBIBYTE"
definition MAX_RECORD_BYTES :: u32 where "MAX_RECORD_BYTES = 64 * MEBIBYTE"
definition MIN_MESSAGE_BYTES :: u32 where "MIN_MESSAGE_BYTES = 1"
definition MAX_MESSAGE_BYTES :: u32 where "MAX_MESSAGE_BYTES = 64 * MEBIBYTE"
definition DEFAULT_MAX_MESSAGE_BYTES :: u32 where "DEFAULT_MAX_MESSAGE_BYTES = 4 * MEBIBYTE"
definition MIN_TIMEOUT_MILLIS :: u32 where "MIN_TIMEOUT_MILLIS = 1"
definition MAX_TIMEOUT_MILLIS :: u32 where "MAX_TIMEOUT_MILLIS = 300000"
definition MIN_TOTAL_OUTCOME_BYTES :: u32 where "MIN_TOTAL_OUTCOME_BYTES = 64 * KIBIBYTE"
definition MAX_TOTAL_OUTCOME_BYTES :: u32 where "MAX_TOTAL_OUTCOME_BYTES = GIBIBYTE"

lemmas limit_defs = KIBIBYTE_def MEBIBYTE_def GIBIBYTE_def WAL_FRAME_OVERHEAD_BYTES_def
  MIN_RECORD_BYTES_def MAX_RECORD_BYTES_def MIN_MESSAGE_BYTES_def MAX_MESSAGE_BYTES_def
  DEFAULT_MAX_MESSAGE_BYTES_def MIN_TIMEOUT_MILLIS_def MAX_TIMEOUT_MILLIS_def
  MIN_TOTAL_OUTCOME_BYTES_def MAX_TOTAL_OUTCOME_BYTES_def

definition bounded_u32_new :: "string \<Rightarrow> u32 \<Rightarrow> u32 \<Rightarrow> u64 \<Rightarrow> core_error + u32" where
  "bounded_u32_new kind minimum maximum value =
     (let out_of_range = ValueOutOfRange kind value (ucast minimum) (ucast maximum)
      in if \<not> (ucast minimum \<le> value \<and> value \<le> ucast maximum) then Inl out_of_range
         else if unat value < 2 ^ 32 then Inr (ucast value)
         else Inl out_of_range)"

definition bounded_u32_parse :: "string \<Rightarrow> u32 \<Rightarrow> u32 \<Rightarrow> string \<Rightarrow> core_error + u32" where
  "bounded_u32_parse kind minimum maximum input =
     (case parse_unsigned (2 ^ 64 - 1) input of
        Inl e \<Rightarrow> Inl (InvalidInteger kind e)
      | Inr v \<Rightarrow> bounded_u32_new kind minimum maximum (word_of_nat v))"

definition max_record_bytes_new :: "u64 \<Rightarrow> core_error + u32" where
  "max_record_bytes_new =
     bounded_u32_new ''maximum WAL record bytes'' MIN_RECORD_BYTES MAX_RECORD_BYTES"

definition max_message_bytes_new :: "u64 \<Rightarrow> core_error + u32" where
  "max_message_bytes_new =
     bounded_u32_new ''maximum message bytes'' MIN_MESSAGE_BYTES MAX_MESSAGE_BYTES"

definition timeout_millis_new :: "u64 \<Rightarrow> core_error + u32" where
  "timeout_millis_new =
     bounded_u32_new ''timeout milliseconds'' MIN_TIMEOUT_MILLIS MAX_TIMEOUT_MILLIS"

definition max_dedup_entries_new :: "u64 \<Rightarrow> core_error + u32" where
  "max_dedup_entries_new = bounded_u32_new ''maximum dedup entries'' 1 (-1)"

definition max_outcome_bytes_new :: "u64 \<Rightarrow> core_error + u32" where
  "max_outcome_bytes_new =
     bounded_u32_new ''maximum dedup outcome bytes'' 1 MAX_TOTAL_OUTCOME_BYTES"

definition max_total_outcome_bytes_new :: "u64 \<Rightarrow> core_error + u32" where
  "max_total_outcome_bytes_new =
     bounded_u32_new ''maximum total dedup outcome bytes''
       MIN_TOTAL_OUTCOME_BYTES MAX_TOTAL_OUTCOME_BYTES"

definition max_unsynced_records_new :: "u64 \<Rightarrow> core_error + u32" where
  "max_unsynced_records_new = bounded_u32_new ''maximum unsynced WAL records'' 1 (-1)"

lemma unat_ucast_32_64 [simp]: "unat (ucast (w :: u32) :: u64) = unat w"
proof -
  have "unat w < 2 ^ LENGTH(32)" by (rule unsigned_less)
  then show ?thesis by (simp add: unsigned_ucast_eq take_bit_nat_eq_self)
qed

lemma bounded_u32_new_Inr_iff [result_iff]:
  "bounded_u32_new kind lo hi v = Inr r \<longleftrightarrow> lo \<le> r \<and> r \<le> hi \<and> unat r = unat v"
proof -
  have "unat (ucast v :: u32) = unat v" if "unat v < 2 ^ 32"
    using that by (simp add: unsigned_ucast_eq take_bit_nat_eq_self)
  moreover have "unat v < 2 ^ 32" if "unat v \<le> unat hi"
    using that unsigned_less [of hi, where ?'a = nat] by simp
  ultimately show ?thesis
    unfolding bounded_u32_new_def Let_def word_le_nat_alt
    by (auto simp: word_unat_eq_iff)
qed

end
