(* ===== verification/Iron_Envelope.thy ===== *)
theory Iron_Envelope
  imports Iron_Id
begin

text \<open>
  The protocol-neutral envelope of \<open>iron-core/src/envelope.rs\<close>: the validated constructor,
  retries and responses, the semantic fingerprint and its hexadecimal text form.

  \<open>Sha256\<close> comes from the crate \<open>sha2\<close>, which is not part of the repository: it is the
  parameter \<open>sha\<close>, a function of the bytes fed to the digest. A panic (\<open>expect\<close>) is \<open>None\<close>.
\<close>

section \<open>Envelopes\<close>

record envelope_fields =
  fld_cluster_id :: cluster_id
  fld_source :: node_id
  fld_destination :: node_id
  fld_message_id :: message_id
  fld_correlation_id :: "correlation_id option"
  fld_protocol :: protocol_name
  fld_message_type :: message_type
  fld_schema_version :: schema_version
  fld_delivery_attempt :: u32
  fld_payload :: bytes

record envelope_v1 =
  env_cluster_id :: cluster_id
  env_source :: node_id
  env_destination :: node_id
  env_message_id :: message_id
  env_correlation_id :: "correlation_id option"
  env_protocol :: protocol_name
  env_message_type :: message_type
  env_schema_version :: schema_version
  env_delivery_attempt :: u32
  env_payload :: bytes

datatype envelope = V1 (as_v1: envelope_v1)

definition fields_new ::
  "cluster_id \<Rightarrow> node_id \<Rightarrow> node_id \<Rightarrow> message_id \<Rightarrow> correlation_id option \<Rightarrow> protocol_name
   \<Rightarrow> message_type \<Rightarrow> schema_version \<Rightarrow> u32 \<Rightarrow> bytes \<Rightarrow> envelope_fields" where
  "fields_new cluster src dst mid corr protocol mtype schema attempt payload =
     \<lparr> fld_cluster_id = cluster, fld_source = src, fld_destination = dst,
       fld_message_id = mid, fld_correlation_id = corr, fld_protocol = protocol,
       fld_message_type = mtype, fld_schema_version = schema,
       fld_delivery_attempt = attempt, fld_payload = payload \<rparr>"

definition fields_initial ::
  "cluster_id \<Rightarrow> node_id \<Rightarrow> node_id \<Rightarrow> message_id \<Rightarrow> correlation_id option \<Rightarrow> protocol_name
   \<Rightarrow> message_type \<Rightarrow> schema_version \<Rightarrow> bytes \<Rightarrow> envelope_fields" where
  "fields_initial cluster src dst mid corr protocol mtype schema payload =
     fields_new cluster src dst mid corr protocol mtype schema 0 payload"

lemmas fields_defs = fields_new_def fields_initial_def

definition from_fields :: "envelope_fields \<Rightarrow> u32 \<Rightarrow> core_error + envelope_v1" where
  "from_fields f max_message_bytes =
     (let payload_length = len64 (fld_payload f)
      in if payload_length > ucast max_message_bytes
         then Inl (PayloadTooLarge payload_length max_message_bytes)
         else Inr \<lparr> env_cluster_id = fld_cluster_id f, env_source = fld_source f,
                    env_destination = fld_destination f, env_message_id = fld_message_id f,
                    env_correlation_id = fld_correlation_id f, env_protocol = fld_protocol f,
                    env_message_type = fld_message_type f,
                    env_schema_version = fld_schema_version f,
                    env_delivery_attempt = fld_delivery_attempt f,
                    env_payload = fld_payload f \<rparr>)"

definition new_v1 :: "envelope_fields \<Rightarrow> u32 \<Rightarrow> core_error + envelope" where
  "new_v1 f max_message_bytes = and_then (from_fields f max_message_bytes) (\<lambda>e. Inr (V1 e))"

definition try_from_version :: "u16 \<Rightarrow> envelope_fields \<Rightarrow> u32 \<Rightarrow> core_error + envelope" where
  "try_from_version version f max_message_bytes =
     (if version \<noteq> envelope_version_get ENVELOPE_V1
      then Inl (UnsupportedEnvelopeVersion version)
      else new_v1 f max_message_bytes)"

text \<open>The version and the parts of an envelope.\<close>

definition envelope_version_of :: "envelope \<Rightarrow> envelope_version" where
  "envelope_version_of e = (case e of V1 _ \<Rightarrow> ENVELOPE_V1)"

definition envelope_cluster_id :: "envelope \<Rightarrow> cluster_id" where
  [simp]: "envelope_cluster_id e = env_cluster_id (as_v1 e)"

definition envelope_source :: "envelope \<Rightarrow> node_id" where
  [simp]: "envelope_source e = env_source (as_v1 e)"

definition envelope_destination :: "envelope \<Rightarrow> node_id" where
  [simp]: "envelope_destination e = env_destination (as_v1 e)"

definition envelope_message_id :: "envelope \<Rightarrow> message_id" where
  [simp]: "envelope_message_id e = env_message_id (as_v1 e)"

definition envelope_correlation_id :: "envelope \<Rightarrow> correlation_id option" where
  [simp]: "envelope_correlation_id e = env_correlation_id (as_v1 e)"

definition envelope_protocol :: "envelope \<Rightarrow> protocol_name" where
  [simp]: "envelope_protocol e = env_protocol (as_v1 e)"

definition envelope_message_type :: "envelope \<Rightarrow> message_type" where
  [simp]: "envelope_message_type e = env_message_type (as_v1 e)"

definition envelope_schema_version :: "envelope \<Rightarrow> schema_version" where
  [simp]: "envelope_schema_version e = env_schema_version (as_v1 e)"

definition envelope_delivery_attempt :: "envelope \<Rightarrow> u32" where
  [simp]: "envelope_delivery_attempt e = env_delivery_attempt (as_v1 e)"

definition envelope_payload :: "envelope \<Rightarrow> bytes" where
  [simp]: "envelope_payload e = env_payload (as_v1 e)"

definition response_v1 ::
  "envelope \<Rightarrow> ('g \<Rightarrow> bytes \<times> 'g) \<Rightarrow> 'g \<Rightarrow> message_type \<Rightarrow> schema_version \<Rightarrow> bytes \<Rightarrow> u32
   \<Rightarrow> (core_error + envelope) \<times> 'g" where
  "response_v1 request next_id g mtype schema payload max_message_bytes =
     (case message_id_generate next_id g of
        (Inl e, g') \<Rightarrow> (Inl e, g')
      | (Inr mid, g') \<Rightarrow>
          (new_v1
             (fields_initial (envelope_cluster_id request) (envelope_destination request)
                (envelope_source request) mid
                (Some (correlation_of_message (envelope_message_id request)))
                (envelope_protocol request) mtype schema payload)
             max_message_bytes, g'))"

definition retry :: "envelope \<Rightarrow> core_error + envelope" where
  "retry e =
     and_then (ok_or (checked_add (env_delivery_attempt (as_v1 e)) 1) DeliveryAttemptOverflow)
       (\<lambda>attempt. Inr (V1 ((as_v1 e)\<lparr>env_delivery_attempt := attempt\<rparr>)))"

text \<open>What every envelope built through the constructors satisfies: its parts were validated.\<close>

definition envelope_ok :: "u32 \<Rightarrow> envelope \<Rightarrow> bool" where
  "envelope_ok max_message_bytes e \<longleftrightarrow>
     opaque_ok (cluster_bytes (env_cluster_id (as_v1 e)))
   \<and> node_id_ok (env_source (as_v1 e)) \<and> node_id_ok (env_destination (as_v1 e))
   \<and> opaque_ok (message_bytes (env_message_id (as_v1 e)))
   \<and> pred_option (\<lambda>c. opaque_ok (correlation_bytes c)) (env_correlation_id (as_v1 e))
   \<and> protocol_name_ok (env_protocol (as_v1 e)) \<and> message_type_ok (env_message_type (as_v1 e))
   \<and> schema_ok (env_schema_version (as_v1 e))
   \<and> length (env_payload (as_v1 e)) \<le> unat max_message_bytes"

lemma from_fields_Inr_iff [result_iff]:
  assumes "length (fld_payload f) < 2 ^ 64"
  shows "from_fields f m = Inr e \<longleftrightarrow>
    length (fld_payload f) \<le> unat m \<and>
    e = \<lparr> env_cluster_id = fld_cluster_id f, env_source = fld_source f,
          env_destination = fld_destination f, env_message_id = fld_message_id f,
          env_correlation_id = fld_correlation_id f, env_protocol = fld_protocol f,
          env_message_type = fld_message_type f, env_schema_version = fld_schema_version f,
          env_delivery_attempt = fld_delivery_attempt f, env_payload = fld_payload f \<rparr>"
  using unat_len64 [OF assms] by (auto simp: from_fields_def Let_def word_less_nat_alt)

lemma retry_Inr_iff [result_iff]:
  "retry e = Inr e' \<longleftrightarrow>
     (\<exists>a. unat a = Suc (unat (env_delivery_attempt (as_v1 e))) \<and>
          e' = V1 ((as_v1 e)\<lparr>env_delivery_attempt := a\<rparr>))"
  by (auto simp: retry_def result_iff)

section \<open>The semantic fingerprint\<close>

definition FINGERPRINT_FORMAT_VERSION :: u16 where "FINGERPRINT_FORMAT_VERSION = 1"

definition str_bytes :: "string \<Rightarrow> bytes" where
  "str_bytes s = map of_char s"

definition FINGERPRINT_MAGIC :: bytes where "FINGERPRINT_MAGIC = str_bytes ''ICFP''"

text \<open>The digest is the byte string fed to it so far; \<open>update_field\<close> panics on a field whose
  length does not fit the 32-bit prefix.\<close>

definition update_field :: "bytes \<Rightarrow> bytes \<Rightarrow> bytes option" where
  "update_field digest field =
     (if length field < 2 ^ 32
      then Some (digest @ be32 (word_of_nat (length field)) @ field) else None)"

fun update_fields :: "bytes \<Rightarrow> bytes list \<Rightarrow> bytes option" where
  "update_fields digest [] = Some digest"
| "update_fields digest (f # fs) = Option.bind (update_field digest f) (\<lambda>d. update_fields d fs)"

definition semantic_fields :: "envelope_v1 \<Rightarrow> bytes list" where
  "semantic_fields e =
     [ cluster_bytes (env_cluster_id e),
       str_bytes (node_str (env_source e)),
       str_bytes (node_str (env_destination e)),
       message_bytes (env_message_id e),
       (case env_correlation_id e of Some c \<Rightarrow> correlation_bytes c | None \<Rightarrow> []),
       str_bytes (protocol_str (env_protocol e)),
       str_bytes (type_str (env_message_type e)),
       be16 (schema_get (env_schema_version e)),
       env_payload e ]"

definition fingerprint_input :: "envelope_v1 \<Rightarrow> bytes option" where
  "fingerprint_input e =
     update_fields (FINGERPRINT_MAGIC @ be16 FINGERPRINT_FORMAT_VERSION) (semantic_fields e)"

datatype semantic_fingerprint = SemanticFingerprint (fingerprint_bytes: bytes)

definition semantic_fingerprint :: "(bytes \<Rightarrow> bytes) \<Rightarrow> envelope \<Rightarrow> semantic_fingerprint option"
  where "semantic_fingerprint sha e =
     map_option (\<lambda>input. SemanticFingerprint (sha input)) (fingerprint_input (as_v1 e))"

subsection \<open>The encoding is injective\<close>

lemma of_char_u8_inject: "(of_char c :: u8) = of_char d \<longleftrightarrow> c = d"
proof -
  have "unat (of_char x :: u8) = of_char x" for x
  proof -
    have "(of_char x :: u8) = word_of_nat (of_char x)" by (simp only: of_nat_of_char)
    then have "unat (of_char x :: u8) = of_char x mod 2 ^ LENGTH(8)" by (simp only: unat_of_nat)
    then show ?thesis by simp
  qed
  then show ?thesis by (metis of_char_eq_iff)
qed

lemma str_bytes_inject [simp]: "str_bytes s = str_bytes t \<longleftrightarrow> s = t"
  by (simp add: str_bytes_def inj_map_eq_map inj_def of_char_u8_inject)

lemma length_str_bytes [simp]: "length (str_bytes s) = length s"
  by (simp add: str_bytes_def)

lemma be32_length_inject:
  assumes "be32 (word_of_nat (length f)) @ f @ r = be32 (word_of_nat (length g)) @ g @ s"
    and "length f < 2 ^ 32" and "length g < 2 ^ 32"
  shows "f = g \<and> r = s"
proof -
  from assms(1) have "(word_of_nat (length f) :: u32) = word_of_nat (length g)"
    and eq: "f @ r = g @ s" by (simp_all add: append_eq_append_conv)
  then have "length f = length g"
    using assms(2,3) by (simp add: word_of_nat_eq_iff take_bit_nat_eq_self)
  with eq show ?thesis by simp
qed

lemma update_fields_Some:
  "update_fields d fs = Some r \<longleftrightarrow>
     list_all (\<lambda>f. length f < 2 ^ 32) fs \<and>
     r = d @ concat (map (\<lambda>f. be32 (word_of_nat (length f)) @ f) fs)"
  by (induction fs arbitrary: d) (auto simp: update_field_def)

lemma update_fields_inject:
  assumes "update_fields d fs = Some r" and "update_fields d gs = Some r"
    and "length fs = length gs"
  shows "fs = gs"
proof -
  have "concat (map (\<lambda>f. be32 (word_of_nat (length f)) @ f) fs) =
      concat (map (\<lambda>f. be32 (word_of_nat (length f)) @ f) gs)"
    using assms(1,2) by (auto simp: update_fields_Some)
  moreover have "list_all (\<lambda>f. length f < 2 ^ 32) fs" "list_all (\<lambda>f. length f < 2 ^ 32) gs"
    using assms(1,2) by (simp_all add: update_fields_Some)
  ultimately show ?thesis
    using assms(3)
  proof (induction fs gs rule: list_induct2')
    case (4 x xs y ys)
    then have "x = y \<and> concat (map (\<lambda>f. be32 (word_of_nat (length f)) @ f) xs) =
        concat (map (\<lambda>f. be32 (word_of_nat (length f)) @ f) ys)"
      by (intro be32_length_inject) simp_all
    with 4 show ?case by simp
  qed simp_all
qed

lemma semantic_fields_inject:
  assumes "semantic_fields a = semantic_fields b"
    and "envelope_ok m (V1 a)" and "envelope_ok m' (V1 b)"
    and "env_delivery_attempt a = env_delivery_attempt b"
  shows "a = b"
proof -
  have "env_correlation_id a = env_correlation_id b"
    using assms(1-3)
    by (auto simp: semantic_fields_def envelope_ok_def opaque_ok_def OPAQUE_ID_BYTES_def
        intro: correlation_id.expand split: option.splits)
  with assms(1,4) show ?thesis
    by (auto simp: semantic_fields_def intro!: envelope_v1.equality
        intro: cluster_id.expand node_id.expand message_id.expand protocol_name.expand
          message_type.expand schema_version.expand)
qed

lemma text_ok_length:
  "node_id_ok n \<Longrightarrow> length (node_str n) \<le> 64"
  "protocol_name_ok p \<Longrightarrow> length (protocol_str p) \<le> 64"
  "message_type_ok t \<Longrightarrow> length (type_str t) \<le> 64"
  by (auto simp: node_id_ok_def validate_node_id_def protocol_name_ok_def message_type_ok_def
      validate_name_def MAX_TEXT_ID_BYTES_def split: if_splits)

lemma semantic_fields_short:
  assumes "envelope_ok m e"
  shows "list_all (\<lambda>f. length f < 2 ^ 32) (semantic_fields (as_v1 e))"
proof -
  have "unat m < 2 ^ LENGTH(32)" by (rule unsigned_less)
  then have "length (env_payload (as_v1 e)) < 4294967296"
    using assms by (simp add: envelope_ok_def)
  then show ?thesis
    using assms
    by (auto simp: semantic_fields_def envelope_ok_def opaque_ok_def OPAQUE_ID_BYTES_def
        split: option.split dest!: text_ok_length)
qed

section \<open>The text form of a fingerprint\<close>

definition HEX_REASON :: string where
  "HEX_REASON = ''must contain exactly 64 lowercase hexadecimal characters''"

definition decode_lower_hex :: "char \<Rightarrow> core_error + u8" where
  "decode_lower_hex b =
     (if CHR ''0'' \<le> b \<and> b \<le> CHR ''9'' then Inr (of_char b - of_char (CHR ''0''))
      else if CHR ''a'' \<le> b \<and> b \<le> CHR ''f'' then Inr (of_char b - of_char (CHR ''a'') + 10)
      else Inl (InvalidFingerprint HEX_REASON))"

fun decode_hex_pairs :: "string \<Rightarrow> core_error + bytes" where
  "decode_hex_pairs (h # l # rest) =
     and_then (decode_lower_hex h) (\<lambda>high.
     and_then (decode_lower_hex l) (\<lambda>low.
     and_then (decode_hex_pairs rest) (\<lambda>bs.
       Inr (or (push_bit 4 high) low # bs))))"
| "decode_hex_pairs _ = Inr []"

definition fingerprint_parse :: "string \<Rightarrow> core_error + semantic_fingerprint" where
  "fingerprint_parse input =
     (if length input \<noteq> 64 then Inl (InvalidFingerprint HEX_REASON)
      else and_then (decode_hex_pairs input) (\<lambda>bs. Inr (SemanticFingerprint bs)))"

text \<open>\<open>{byte:02x}\<close> of \<open>core::fmt\<close>: two lowercase hexadecimal digits.\<close>

definition hex_digit :: "nat \<Rightarrow> char" where
  "hex_digit n = char_of (if n < 10 then 48 + n else 87 + n)"

definition hex_byte :: "u8 \<Rightarrow> string" where
  "hex_byte b = [hex_digit (unat b div 16), hex_digit (unat b mod 16)]"

definition fingerprint_display :: "semantic_fingerprint \<Rightarrow> string" where
  "fingerprint_display fp = concat (map hex_byte (fingerprint_bytes fp))"

lemma or_nibbles: "b < 16 \<Longrightarrow> or (push_bit 4 a) b = a * 16 + (b :: nat)"
proof -
  assume "b < 16"
  then have b: "take_bit 4 b = b" by (simp add: take_bit_nat_eq_self)
  have "and (push_bit 4 a) (take_bit 4 b) = 0"
    by (rule bit_eqI) (simp add: bit_simps)
  then have "or (push_bit 4 a) b = push_bit 4 a + b"
    using b by (simp add: disjunctive_add_eq_or)
  then show ?thesis by (simp add: push_bit_eq_mult)
qed

lemma decode_hex_digit: "n < 16 \<Longrightarrow> decode_lower_hex (hex_digit n) = Inr (word_of_nat n)"
proof -
  have "list_all (\<lambda>n. decode_lower_hex (hex_digit n) = Inr (word_of_nat n)) [0..<16]"
    by code_simp
  then show "n < 16 \<Longrightarrow> ?thesis" by (simp add: list_all_iff)
qed

lemma decode_lower_hex_Inr:
  assumes "decode_lower_hex c = Inr v"
  shows "unat v < 16 \<and> hex_digit (unat v) = c"
proof -
  have "list_all (\<lambda>n. case decode_lower_hex (char_of (n :: nat)) of
      Inl _ \<Rightarrow> True | Inr v \<Rightarrow> unat v < 16 \<and> hex_digit (unat v) = char_of n)
    ([48..<58] @ [97..<103])"
    by code_simp
  moreover have "of_char c \<in> {48..<58::nat} \<union> {97..<103}"
    using assms by (simp add: decode_lower_hex_def less_eq_char_def split: if_splits)
  then have "of_char c \<in> set ([48..<58::nat] @ [97..<103])" by (simp only: set_append set_upt)
  ultimately have "case decode_lower_hex (char_of (of_char c :: nat)) of
      Inl _ \<Rightarrow> True | Inr v \<Rightarrow> unat v < 16 \<and> hex_digit (unat v) = char_of (of_char c :: nat)"
    unfolding list_all_iff by (rule bspec)
  with assms show ?thesis by simp
qed

lemma unat_nibbles:
  assumes "unat (l :: u8) < 16" and "unat (h :: u8) < 16"
  shows "unat (or (push_bit 4 h) l) = unat h * 16 + unat l"
proof -
  have "unat (push_bit 4 h) = take_bit LENGTH(8) (push_bit 4 (unat h))"
    by (rule unsigned_push_bit_eq)
  also have "\<dots> = push_bit 4 (unat h)"
    using assms(2) by (simp add: take_bit_nat_eq_self push_bit_eq_mult)
  finally have "unat (or (push_bit 4 h) l) = or (push_bit 4 (unat h)) (unat l)"
    by (simp only: unsigned_or_eq)
  then show ?thesis using assms(1) by (simp only: or_nibbles)
qed

lemma decode_hex_byte: "or (push_bit 4 (word_of_nat (unat b div 16))) (word_of_nat (unat b mod 16)) = (b :: u8)"
proof -
  have b: "unat b < 256" using unsigned_less [of b, where ?'a = nat] by simp
  then have "unat (word_of_nat (unat b div 16) :: u8) = unat b div 16"
    and "unat (word_of_nat (unat b mod 16) :: u8) = unat b mod 16"
    by (simp_all add: unat_of_nat)
  then show ?thesis
    using b by (simp add: word_unat_eq_iff unat_nibbles less_mult_imp_div_less)
qed

lemma decode_hex_pairs_display: "decode_hex_pairs (concat (map hex_byte bs)) = Inr bs"
proof (induction bs)
  case Nil
  then show ?case by simp
next
  case (Cons b bs)
  have "unat b div 16 < 16" "unat b mod 16 < 16"
    using unsigned_less [of b, where ?'a = nat] by (simp_all add: less_mult_imp_div_less)
  with Cons show ?case
    by (simp add: hex_byte_def decode_hex_digit decode_hex_byte)
qed

lemma display_decode_hex_pairs:
  "decode_hex_pairs s = Inr bs \<Longrightarrow> even (length s) \<Longrightarrow> concat (map hex_byte bs) = s"
proof (induction s arbitrary: bs rule: decode_hex_pairs.induct)
  case (1 h l rest)
  then obtain hi lo bs' where dec: "decode_lower_hex h = Inr hi" "decode_lower_hex l = Inr lo"
      "decode_hex_pairs rest = Inr bs'" and bs: "bs = or (push_bit 4 hi) lo # bs'"
    by (auto simp: and_then_Inr_iff)
  moreover from dec(3) "1.prems"(2) have "concat (map hex_byte bs') = rest"
    using "1.IH" by simp
  moreover from dec(1,2) have "unat hi < 16 \<and> hex_digit (unat hi) = h"
      "unat lo < 16 \<and> hex_digit (unat lo) = l"
    by (simp_all add: decode_lower_hex_Inr)
  moreover from this have "hex_byte (or (push_bit 4 hi) lo) = [h, l]"
    by (simp add: hex_byte_def unat_nibbles)
  ultimately show ?case by simp
qed auto

lemma length_decode_hex_pairs: "decode_hex_pairs s = Inr bs \<Longrightarrow> length bs = length s div 2"
  by (induction s arbitrary: bs rule: decode_hex_pairs.induct) (auto simp: and_then_Inr_iff)

end
