(* ===== verification/Envelope_Properties.thy ===== *)
theory Envelope_Properties
  imports Iron_Envelope
begin

text \<open>
  The properties of envelopes: the operations keep them valid, and the semantic fingerprint tells
  requests apart exactly up to the delivery attempt.
\<close>

section \<open>Operations\<close>

definition same_request :: "envelope \<Rightarrow> envelope \<Rightarrow> bool" where
  "same_request a b \<longleftrightarrow> as_v1 b = (as_v1 a)\<lparr>env_delivery_attempt := env_delivery_attempt (as_v1 b)\<rparr>"

lemma retry_result:
  assumes "envelope_ok m e"
  shows "case retry e of
      Inl err \<Rightarrow> err = DeliveryAttemptOverflow \<and> env_delivery_attempt (as_v1 e) = - 1
    | Inr e' \<Rightarrow> envelope_ok m e' \<and> same_request e e' \<and>
        unat (env_delivery_attempt (as_v1 e')) = Suc (unat (env_delivery_attempt (as_v1 e)))"
proof (cases "retry e")
  case (Inl err)
  then have "err = DeliveryAttemptOverflow" "checked_add (env_delivery_attempt (as_v1 e)) 1 = None"
    by (auto simp: retry_def result_iff)
  moreover have "unat (env_delivery_attempt (as_v1 e)) < 2 ^ LENGTH(32)" by (rule unsigned_less)
  ultimately have "unat (env_delivery_attempt (as_v1 e)) = unat (- 1 :: u32)"
    by (simp add: checked_add_None_iff unsigned_minus_1_eq_mask mask_eq_exp_minus_1)
  with \<open>err = DeliveryAttemptOverflow\<close> show ?thesis using Inl by (simp add: word_unat_eq_iff)
next
  case (Inr e')
  then have "envelope_ok m e' \<and> same_request e e' \<and>
      unat (env_delivery_attempt (as_v1 e')) = Suc (unat (env_delivery_attempt (as_v1 e)))"
    using assms by (auto simp: result_iff envelope_ok_def same_request_def)
  then show ?thesis by (simp add: Inr)
qed

lemma response_result:
  assumes "envelope_ok m request" and "message_type_ok mtype" and "schema_ok schema"
    and "length payload < 2 ^ 64" and "length (fst (next_id g)) = OPAQUE_ID_BYTES"
  shows "case response_v1 request next_id g mtype schema payload m' of (res, g') \<Rightarrow>
      g' = snd (next_id g) \<and>
      (case res of
         Inl err \<Rightarrow>
           err = GeneratedZeroIdentifier ''message ID'' \<and> fst (next_id g) = replicate OPAQUE_ID_BYTES 0 \<or>
           err = PayloadTooLarge (len64 payload) m' \<and> fst (next_id g) \<noteq> replicate OPAQUE_ID_BYTES 0 \<and>
             unat m' < length payload
       | Inr r \<Rightarrow> envelope_ok m' r \<and>
           env_message_id (as_v1 r) = MessageId (fst (next_id g)) \<and>
           env_correlation_id (as_v1 r) = Some (CorrelationId (message_bytes (env_message_id (as_v1 request)))) \<and>
           env_cluster_id (as_v1 r) = env_cluster_id (as_v1 request) \<and>
           env_source (as_v1 r) = env_destination (as_v1 request) \<and>
           env_destination (as_v1 r) = env_source (as_v1 request) \<and>
           env_protocol (as_v1 r) = env_protocol (as_v1 request) \<and>
           env_message_type (as_v1 r) = mtype \<and> env_schema_version (as_v1 r) = schema \<and>
           env_payload (as_v1 r) = payload \<and> env_delivery_attempt (as_v1 r) = 0)"
proof (cases "fst (next_id g) = replicate OPAQUE_ID_BYTES 0")
  case True
  then show ?thesis
    by (cases "next_id g") (simp add: response_v1_def message_id_generate_def opaque_generate_def)
next
  case False
  then show ?thesis
    using assms unat_len64 [OF assms(4)]
    by (cases "next_id g") (auto simp: response_v1_def message_id_generate_def opaque_generate_def new_v1_def from_fields_def
        fields_defs Let_def envelope_ok_def opaque_ok_def correlation_of_message_def word_less_nat_alt)
qed

section \<open>Fingerprints\<close>

lemma semantic_fields_attempt [simp]:
  "semantic_fields (e\<lparr>env_delivery_attempt := n\<rparr>) = semantic_fields e"
  by (simp add: semantic_fields_def)

lemma fingerprint_input_eq_iff:
  assumes "envelope_ok m a" and "envelope_ok m' b"
  shows "fingerprint_input (as_v1 a) = fingerprint_input (as_v1 b) \<longleftrightarrow> same_request a b"
proof
  assume eq: "fingerprint_input (as_v1 a) = fingerprint_input (as_v1 b)"
  obtain i where i: "fingerprint_input (as_v1 a) = Some i"
    using semantic_fields_short [OF assms(1)] by (simp add: fingerprint_input_def update_fields_Some)
  have "semantic_fields (as_v1 a) = semantic_fields (as_v1 b)"
  proof (rule update_fields_inject)
    show "update_fields (FINGERPRINT_MAGIC @ be16 FINGERPRINT_FORMAT_VERSION) (semantic_fields (as_v1 a)) = Some i"
      "update_fields (FINGERPRINT_MAGIC @ be16 FINGERPRINT_FORMAT_VERSION) (semantic_fields (as_v1 b)) = Some i"
      using i eq by (simp_all add: fingerprint_input_def)
  qed (simp add: semantic_fields_def)
  moreover have "envelope_ok m (V1 ((as_v1 a)\<lparr>env_delivery_attempt := env_delivery_attempt (as_v1 b)\<rparr>))"
    using assms(1) by (simp add: envelope_ok_def)
  moreover have "envelope_ok m' (V1 (as_v1 b))" using assms(2) by simp
  ultimately have "(as_v1 a)\<lparr>env_delivery_attempt := env_delivery_attempt (as_v1 b)\<rparr> = as_v1 b"
    using semantic_fields_inject [of "(as_v1 a)\<lparr>env_delivery_attempt := env_delivery_attempt (as_v1 b)\<rparr>" "as_v1 b" m m']
    by simp
  then show "same_request a b" by (simp add: same_request_def)
next
  assume "same_request a b"
  then have "semantic_fields (as_v1 b) = semantic_fields (as_v1 a)"
    by (metis same_request_def semantic_fields_attempt)
  then show "fingerprint_input (as_v1 a) = fingerprint_input (as_v1 b)" by (simp add: fingerprint_input_def)
qed

section \<open>Properties\<close>

text \<open>C34: The semantic fingerprint identifies a request: on valid envelopes the bytes that are hashed are always
  defined (no length prefix overflows), and they are equal for two envelopes exactly when these differ
  in nothing but the delivery attempt. \<close>

theorem fingerprint_identifies_requests:
  assumes "envelope_ok m a" and "envelope_ok m' b"
  shows "fingerprint_input (as_v1 a) \<noteq> None \<and>
    (fingerprint_input (as_v1 a) = fingerprint_input (as_v1 b) \<longleftrightarrow> same_request a b)"
  using fingerprint_input_eq_iff [OF assms] semantic_fields_short [OF assms(1)]
  by (simp add: fingerprint_input_def update_fields_Some)

text \<open>C35: The operations on envelopes keep them valid. A retry of a valid envelope is valid, the same
  request and one attempt later, and fails only at the last attempt. A response is a valid first attempt
  whose message id is the one the generator returned; its correlation id is the message id of the request,
  its routing is that of the request swapped, its cluster and protocol are those of the request, and its
  type, schema version and payload are the given ones. It fails with the error for a zero identifier only
  when the generator returned zeroes, and otherwise only when the payload is above the limit. \<close>

theorem envelope_operations_valid:
  assumes "envelope_ok m e" and "message_type_ok mtype" and "schema_ok schema"
    and "length payload < 2 ^ 64" and "length (fst (next_id g)) = OPAQUE_ID_BYTES"
  shows "(case retry e of
      Inl err \<Rightarrow> err = DeliveryAttemptOverflow \<and> env_delivery_attempt (as_v1 e) = - 1
    | Inr e' \<Rightarrow> envelope_ok m e' \<and> same_request e e' \<and>
        unat (env_delivery_attempt (as_v1 e')) = Suc (unat (env_delivery_attempt (as_v1 e)))) \<and>
    (case response_v1 e next_id g mtype schema payload m' of (res, g') \<Rightarrow>
      g' = snd (next_id g) \<and>
      (case res of
         Inl err \<Rightarrow>
           err = GeneratedZeroIdentifier ''message ID'' \<and> fst (next_id g) = replicate OPAQUE_ID_BYTES 0 \<or>
           err = PayloadTooLarge (len64 payload) m' \<and> fst (next_id g) \<noteq> replicate OPAQUE_ID_BYTES 0 \<and>
             unat m' < length payload
       | Inr r \<Rightarrow> envelope_ok m' r \<and>
           env_message_id (as_v1 r) = MessageId (fst (next_id g)) \<and>
           env_correlation_id (as_v1 r) = Some (CorrelationId (message_bytes (env_message_id (as_v1 e)))) \<and>
           env_cluster_id (as_v1 r) = env_cluster_id (as_v1 e) \<and>
           env_source (as_v1 r) = env_destination (as_v1 e) \<and>
           env_destination (as_v1 r) = env_source (as_v1 e) \<and>
           env_protocol (as_v1 r) = env_protocol (as_v1 e) \<and>
           env_message_type (as_v1 r) = mtype \<and> env_schema_version (as_v1 r) = schema \<and>
           env_payload (as_v1 r) = payload \<and> env_delivery_attempt (as_v1 r) = 0))"
  by (intro conjI retry_result [OF assms(1)] response_result [where next_id = next_id and g = g, OF assms])

definition sample_envelope :: envelope where
  "sample_envelope = V1
     \<lparr>env_cluster_id = ClusterId (replicate 16 1), env_source = NodeId ''a'', env_destination = NodeId ''b'',
      env_message_id = MessageId (replicate 16 2), env_correlation_id = None,
      env_protocol = ProtocolName ''raft'', env_message_type = MessageType ''append'',
      env_schema_version = SchemaVersion 1, env_delivery_attempt = 0, env_payload = [104, 105]\<rparr>"

lemma sample_envelope_ok: "envelope_ok 1024 sample_envelope"
proof -
  have "validate_node_id ''a'' = Inr ()" "validate_node_id ''b'' = Inr ()"
    "validate_name ''protocol name'' ''raft'' = Inr ()" "validate_name ''message type'' ''append'' = Inr ()"
    by code_simp+
  then show ?thesis
    by (simp add: envelope_ok_def sample_envelope_def opaque_ok_def OPAQUE_ID_BYTES_def node_id_ok_def
        protocol_name_ok_def message_type_ok_def schema_ok_def replicate_eq_replicate)
qed


theorem fingerprint_identifies_requests_witness:
  "\<exists>e'. retry sample_envelope = Inr e' \<and>
     fingerprint_input (as_v1 sample_envelope) = fingerprint_input (as_v1 e')"
proof -
  obtain e' where e': "retry sample_envelope = Inr e'" by (simp add: retry_def sample_envelope_def checked_add_def)
  from retry_result [OF sample_envelope_ok] e' have "envelope_ok 1024 e'" "same_request sample_envelope e'" by simp_all
  with fingerprint_identifies_requests [OF sample_envelope_ok, of 1024 e'] e' show ?thesis by blast
qed

theorem envelope_operations_valid_witness:
  "\<exists>r. fst (response_v1 sample_envelope (\<lambda>n. (replicate 16 n, n)) 7 (MessageType ''ack'') (SchemaVersion 1) [1, 2] 16) = Inr r \<and>
     env_message_id (as_v1 r) = MessageId (replicate 16 7) \<and> env_destination (as_v1 r) = NodeId ''a'' \<and>
     env_message_type (as_v1 r) = MessageType ''ack'' \<and> envelope_ok 16 r"
proof -
  let ?r = "response_v1 sample_envelope (\<lambda>n. (replicate 16 n, n)) 7 (MessageType ''ack'') (SchemaVersion 1) [1, 2] 16"
  have t: "message_type_ok (MessageType ''ack'')"
    unfolding message_type_ok_def by code_simp
  have s: "schema_ok (SchemaVersion 1)" by (simp add: schema_ok_def)
  have l: "length ([1, 2] :: bytes) < 2 ^ 64" "length (fst (replicate 16 (7::u8), 7::u8)) = OPAQUE_ID_BYTES"
    by (simp_all add: OPAQUE_ID_BYTES_def)
  have "\<not> isl (fst ?r)" by code_simp
  then obtain r g where r: "?r = (Inr r, g)" by (cases ?r; cases "fst ?r") auto
  from envelope_operations_valid [OF sample_envelope_ok t s l(1), of "\<lambda>n. (replicate 16 n, n)" 7 16] l(2) r
  have "env_message_id (as_v1 r) = MessageId (replicate 16 7)" "env_message_type (as_v1 r) = MessageType ''ack''"
    "env_destination (as_v1 r) = env_source (as_v1 sample_envelope)" "envelope_ok 16 r"
    by simp_all
  with r show ?thesis by (simp add: sample_envelope_def)
qed

end
