(* ===== verification/Iron_Dedup.thy ===== *)
theory Iron_Dedup
  imports Iron_Envelope "HOL-Library.Finite_Map"
begin

text \<open>
  The deduplication table of \<open>iron-core/src/dedup.rs\<close> and its configuration
  (\<open>DedupConfig\<close> of \<open>config.rs\<close>). The \<open>BTreeMap\<close> is a finite map, the \<open>VecDeque\<close> a list.
  The abstract specification is a queue of entries in insertion order together with the number
  of admissions; \<open>refined_component\<close> is interpreted on the operations against it.
\<close>

section \<open>State\<close>

record dedup_config =
  cfg_max_entries :: u32
  cfg_max_outcome_bytes :: u32
  cfg_max_total_outcome_bytes :: u32

datatype dedup_key =
  DedupKey (key_cluster_id: cluster_id) (key_source_node_id: node_id) (key_message_id: message_id)

definition key_from_envelope :: "envelope \<Rightarrow> dedup_key" where
  "key_from_envelope e =
     DedupKey (env_cluster_id (as_v1 e)) (env_source (as_v1 e)) (env_message_id (as_v1 e))"

datatype begin_result = BeginNew | BeginInFlight | BeginReplay bytes | BeginConflict | BeginFull
datatype complete_result =
  CompleteCompleted | CompleteAlreadyCompleted | CompleteNotReserved | CompleteConflict
datatype abort_result = AbortAborted | AbortAlreadyCompleted | AbortNotReserved | AbortConflict
datatype restore_result =
  RestoreRestored | RestoreAlreadyPresent | RestoreInFlight | RestoreConflict | RestoreFull

datatype entry_state = InFlight | Completed bytes

record dedup_entry =
  ent_fingerprint :: semantic_fingerprint
  ent_insertion_sequence :: u64
  ent_state :: entry_state

record dedup_table =
  dt_config :: dedup_config
  dt_entries :: "(dedup_key, dedup_entry) fmap"
  dt_insertion_order :: "(u64 \<times> dedup_key) list"
  dt_retained_outcome_bytes :: u64
  dt_last_insertion_sequence :: u64

definition dedup_new :: "dedup_config \<Rightarrow> dedup_table" where
  "dedup_new config =
     \<lparr> dt_config = config, dt_entries = fmempty, dt_insertion_order = [],
       dt_retained_outcome_bytes = 0, dt_last_insertion_sequence = 0 \<rparr>"

definition dedup_len :: "dedup_table \<Rightarrow> nat" where
  "dedup_len t = fcard (fmdom (dt_entries t))"

section \<open>Operations\<close>

fun is_completed :: "entry_state \<Rightarrow> bool" where
  "is_completed InFlight = False"
| "is_completed (Completed outcome) = True"

lemma is_completed_iff: "is_completed st \<longleftrightarrow> (\<exists>outcome. st = Completed outcome)"
  by (cases st) auto

definition evictable :: "dedup_table \<Rightarrow> dedup_key option \<Rightarrow> dedup_key \<Rightarrow> bool" where
  "evictable t excluded key \<longleftrightarrow>
     (if excluded = Some key then False
      else case fmlookup (dt_entries t) key of
             Some e \<Rightarrow> is_completed (ent_state e)
           | None \<Rightarrow> False)"

definition evict_oldest_completed :: "dedup_key option \<Rightarrow> dedup_table \<Rightarrow> bool \<times> dedup_table" where
  "evict_oldest_completed excluded t =
     (case find_position (\<lambda>(_, key). evictable t excluded key) (dt_insertion_order t) of
        None \<Rightarrow> (False, t)
      | Some position \<Rightarrow>
          let key = snd (dt_insertion_order t ! position)
          in (case fmlookup (dt_entries t) key of
                Some e \<Rightarrow>
                  (case ent_state e of
                     Completed outcome \<Rightarrow>
                       (True, t\<lparr>dt_insertion_order := remove_nth position (dt_insertion_order t),
                                dt_entries := fmdrop key (dt_entries t),
                                dt_retained_outcome_bytes :=
                                  dt_retained_outcome_bytes t - len64 outcome\<rparr>)
                   | InFlight \<Rightarrow> (False, t))
              | None \<Rightarrow> (False, t)))"

text \<open>The two arms above that a located position excludes are the code's \<open>expect\<close> and
  \<open>unreachable!\<close>; \<open>evict_progress\<close> shows that they are never taken.\<close>

lemma evict_progress:
  "find_position (\<lambda>(_, key). evictable t excluded key) (dt_insertion_order t) = Some p \<Longrightarrow>
     \<exists>e outcome. fmlookup (dt_entries t) (snd (dt_insertion_order t ! p)) = Some e \<and>
       ent_state e = Completed outcome"
  by (auto dest!: find_position_SomeD simp: evictable_def split_beta is_completed_iff
      split: if_splits option.splits)

lemma evict_True_decreases:
  "evict_oldest_completed excluded t = (True, t') \<Longrightarrow>
     dedup_len t' < dedup_len t \<and> dt_config t' = dt_config t"
  by (auto simp: evict_oldest_completed_def dedup_len_def Let_def
      intro!: fcard_fminus1_less fmdomI split: option.splits entry_state.splits)

function evict_for_entry :: "dedup_table \<Rightarrow> bool \<times> dedup_table" where
  "evict_for_entry t =
     (if dedup_len t \<ge> unat (cfg_max_entries (dt_config t))
      then (case evict_oldest_completed None t of
              (True, t') \<Rightarrow> evict_for_entry t'
            | (False, t') \<Rightarrow> (False, t'))
      else (True, t))"
  by pat_completeness auto
termination
  by (relation "measure dedup_len") (auto dest: evict_True_decreases [OF sym])

definition dedup_begin ::
  "dedup_key \<Rightarrow> semantic_fingerprint \<Rightarrow> dedup_table \<Rightarrow> (core_error + begin_result) \<times> dedup_table"
  where
  "dedup_begin key fingerprint t =
     (case fmlookup (dt_entries t) key of
        Some e \<Rightarrow>
          (Inr (if ent_fingerprint e \<noteq> fingerprint then BeginConflict
                else case ent_state e of
                       InFlight \<Rightarrow> BeginInFlight
                     | Completed outcome \<Rightarrow> BeginReplay outcome), t)
      | None \<Rightarrow>
          (case checked_add (dt_last_insertion_sequence t) 1 of
             None \<Rightarrow> (Inl (SequenceExhausted ''dedup insertion''), t)
           | Some insertion_sequence \<Rightarrow>
               (case evict_for_entry t of
                  (False, t') \<Rightarrow> (Inr BeginFull, t')
                | (True, t') \<Rightarrow>
                    (Inr BeginNew,
                     t'\<lparr>dt_entries := fmupd key
                          \<lparr>ent_fingerprint = fingerprint,
                           ent_insertion_sequence = insertion_sequence,
                           ent_state = InFlight\<rparr> (dt_entries t'),
                        dt_insertion_order := dt_insertion_order t' @ [(insertion_sequence, key)],
                        dt_last_insertion_sequence := insertion_sequence\<rparr>))))"

definition over_total :: "u64 \<Rightarrow> dedup_table \<Rightarrow> bool" where
  "over_total outcome_length t \<longleftrightarrow>
     (case checked_add (dt_retained_outcome_bytes t) outcome_length of
        None \<Rightarrow> True
      | Some retained \<Rightarrow> retained > ucast (cfg_max_total_outcome_bytes (dt_config t)))"

function evict_for_outcome :: "dedup_key \<Rightarrow> u64 \<Rightarrow> dedup_table \<Rightarrow> bool \<times> dedup_table" where
  "evict_for_outcome key outcome_length t =
     (if over_total outcome_length t
      then (case evict_oldest_completed (Some key) t of
              (True, t') \<Rightarrow> evict_for_outcome key outcome_length t'
            | (False, t') \<Rightarrow> (False, t'))
      else (True, t))"
  by pat_completeness auto
termination
  by (relation "measure (\<lambda>(key, n, t). dedup_len t)") (auto dest: evict_True_decreases [OF sym])

definition dedup_complete ::
  "dedup_key \<Rightarrow> semantic_fingerprint \<Rightarrow> bytes \<Rightarrow> dedup_table
   \<Rightarrow> (core_error + complete_result) \<times> dedup_table" where
  "dedup_complete key fingerprint outcome t =
     (case fmlookup (dt_entries t) key of
        None \<Rightarrow> (Inr CompleteNotReserved, t)
      | Some e \<Rightarrow>
          if ent_fingerprint e \<noteq> fingerprint then (Inr CompleteConflict, t)
          else if is_completed (ent_state e) then (Inr CompleteAlreadyCompleted, t)
          else let outcome_length = len64 outcome in
            if outcome_length > ucast (cfg_max_outcome_bytes (dt_config t))
            then (Inl (OutcomeTooLarge outcome_length (cfg_max_outcome_bytes (dt_config t))), t)
            else (case evict_for_outcome key outcome_length t of
                    (False, t') \<Rightarrow>
                      (Inl (OutcomeTooLarge outcome_length
                              (cfg_max_total_outcome_bytes (dt_config t'))), t')
                  | (True, t') \<Rightarrow>
                      (case fmlookup (dt_entries t') key of
                         None \<Rightarrow> (Inr CompleteNotReserved, t')
                       | Some e' \<Rightarrow>
                           (Inr CompleteCompleted,
                            t'\<lparr>dt_entries :=
                                 fmupd key (e'\<lparr>ent_state := Completed outcome\<rparr>) (dt_entries t'),
                               dt_retained_outcome_bytes :=
                                 dt_retained_outcome_bytes t' + outcome_length\<rparr>))))"

definition dedup_abort ::
  "dedup_key \<Rightarrow> semantic_fingerprint \<Rightarrow> dedup_table \<Rightarrow> abort_result \<times> dedup_table" where
  "dedup_abort key fingerprint t =
     (case fmlookup (dt_entries t) key of
        None \<Rightarrow> (AbortNotReserved, t)
      | Some e \<Rightarrow>
          if ent_fingerprint e \<noteq> fingerprint then (AbortConflict, t)
          else if is_completed (ent_state e) then (AbortAlreadyCompleted, t)
          else
            (AbortAborted,
             t\<lparr>dt_entries := fmdrop key (dt_entries t),
               dt_insertion_order :=
                 (case find_position
                         (\<lambda>(sequence, queued_key).
                            sequence = ent_insertion_sequence e \<and> queued_key = key)
                         (dt_insertion_order t) of
                    Some position \<Rightarrow> remove_nth position (dt_insertion_order t)
                  | None \<Rightarrow> dt_insertion_order t)\<rparr>))"

definition restore_completed ::
  "dedup_key \<Rightarrow> semantic_fingerprint \<Rightarrow> bytes \<Rightarrow> dedup_table
   \<Rightarrow> (core_error + restore_result) \<times> dedup_table" where
  "restore_completed key fingerprint outcome t =
     (case dedup_begin key fingerprint t of
        (Inl e, t') \<Rightarrow> (Inl e, t')
      | (Inr BeginInFlight, t') \<Rightarrow> (Inr RestoreInFlight, t')
      | (Inr (BeginReplay existing), t') \<Rightarrow>
          (Inr (if existing = outcome then RestoreAlreadyPresent else RestoreConflict), t')
      | (Inr BeginConflict, t') \<Rightarrow> (Inr RestoreConflict, t')
      | (Inr BeginFull, t') \<Rightarrow> (Inr RestoreFull, t')
      | (Inr BeginNew, t') \<Rightarrow>
          (case dedup_complete key fingerprint outcome t' of
             (Inl e, t'') \<Rightarrow> (Inl e, t'')
           | (Inr CompleteCompleted, t'') \<Rightarrow> (Inr RestoreRestored, t'')
           | (Inr CompleteAlreadyCompleted, t'') \<Rightarrow> (Inr RestoreAlreadyPresent, t'')
           | (Inr _, t'') \<Rightarrow> (Inr RestoreConflict, t'')))"

declare evict_for_entry.simps [simp del] evict_for_outcome.simps [simp del]

section \<open>Abstract specification\<close>

text \<open>The specification keeps one queue of \<open>(key, fingerprint, state)\<close> in insertion order and the
  number of admissions so far. Room is always made by dropping the oldest completed entry; a
  reservation is never dropped.\<close>

type_synonym abs_entry = "dedup_key \<times> semantic_fingerprint \<times> entry_state"

record abs_table =
  abs_config :: dedup_config
  abs_queue :: "abs_entry list"
  abs_admitted :: nat

definition entry_done :: "abs_entry \<Rightarrow> bool" where
  "entry_done x = is_completed (snd (snd x))"

fun state_bytes :: "entry_state \<Rightarrow> nat" where
  "state_bytes InFlight = 0"
| "state_bytes (Completed outcome) = length outcome"

definition queue_bytes :: "abs_entry list \<Rightarrow> nat" where
  "queue_bytes q = sum_list (map (\<lambda>x. state_bytes (snd (snd x))) q)"

function spec_make_room :: "nat \<Rightarrow> abs_entry list \<Rightarrow> abs_entry list" where
  "spec_make_room limit q =
     (if queue_bytes q \<le> limit then q
      else case remove_first entry_done q of
             None \<Rightarrow> q
           | Some q' \<Rightarrow> spec_make_room limit q')"
  by pat_completeness auto
termination
  by (relation "measure (\<lambda>(limit, q). length q)") (auto dest: remove_first_Some_length)

declare spec_make_room.simps [simp del]

definition set_completed :: "dedup_key \<Rightarrow> bytes \<Rightarrow> abs_entry list \<Rightarrow> abs_entry list" where
  "set_completed key outcome q =
     map (\<lambda>(k, fp, st). (k, fp, if k = key then Completed outcome else st)) q"

definition spec_admit :: "dedup_config \<Rightarrow> abs_entry list \<Rightarrow> abs_entry list option" where
  "spec_admit cfg q =
     (if length q < unat (cfg_max_entries cfg) then Some q else remove_first entry_done q)"

definition spec_begin ::
  "dedup_key \<Rightarrow> semantic_fingerprint \<Rightarrow> abs_table
   \<Rightarrow> (core_error + begin_result) \<times> abs_table" where
  "spec_begin key fp a =
     (case map_of (abs_queue a) key of
        Some (fp', st) \<Rightarrow>
          (Inr (if fp' \<noteq> fp then BeginConflict
                else case st of InFlight \<Rightarrow> BeginInFlight | Completed out \<Rightarrow> BeginReplay out), a)
      | None \<Rightarrow>
          if abs_admitted a + 1 \<ge> 2 ^ 64 then (Inl (SequenceExhausted ''dedup insertion''), a)
          else case spec_admit (abs_config a) (abs_queue a) of
                 None \<Rightarrow> (Inr BeginFull, a)
               | Some q \<Rightarrow> (Inr BeginNew, a\<lparr>abs_queue := q @ [(key, fp, InFlight)],
                                          abs_admitted := abs_admitted a + 1\<rparr>))"

definition spec_complete ::
  "dedup_key \<Rightarrow> semantic_fingerprint \<Rightarrow> bytes \<Rightarrow> abs_table
   \<Rightarrow> (core_error + complete_result) \<times> abs_table" where
  "spec_complete key fp outcome a =
     (case map_of (abs_queue a) key of
        None \<Rightarrow> (Inr CompleteNotReserved, a)
      | Some (fp', st) \<Rightarrow>
          if fp' \<noteq> fp then (Inr CompleteConflict, a)
          else if is_completed st then (Inr CompleteAlreadyCompleted, a)
          else if length outcome > unat (cfg_max_outcome_bytes (abs_config a))
          then (Inl (OutcomeTooLarge (len64 outcome) (cfg_max_outcome_bytes (abs_config a))), a)
          else (Inr CompleteCompleted,
                a\<lparr>abs_queue := set_completed key outcome
                    (spec_make_room
                       (unat (cfg_max_total_outcome_bytes (abs_config a)) - length outcome) (abs_queue a))\<rparr>))"

definition spec_abort ::
  "dedup_key \<Rightarrow> semantic_fingerprint \<Rightarrow> abs_table \<Rightarrow> abort_result \<times> abs_table" where
  "spec_abort key fp a =
     (case map_of (abs_queue a) key of
        None \<Rightarrow> (AbortNotReserved, a)
      | Some (fp', st) \<Rightarrow>
          if fp' \<noteq> fp then (AbortConflict, a)
          else if is_completed st then (AbortAlreadyCompleted, a)
          else (AbortAborted, a\<lparr>abs_queue := filter (\<lambda>x. fst x \<noteq> key) (abs_queue a)\<rparr>))"

definition spec_restore ::
  "dedup_key \<Rightarrow> semantic_fingerprint \<Rightarrow> bytes \<Rightarrow> abs_table
   \<Rightarrow> (core_error + restore_result) \<times> abs_table" where
  "spec_restore key fp outcome a =
     (case spec_begin key fp a of
        (Inl e, a') \<Rightarrow> (Inl e, a')
      | (Inr BeginInFlight, a') \<Rightarrow> (Inr RestoreInFlight, a')
      | (Inr (BeginReplay existing), a') \<Rightarrow>
          (Inr (if existing = outcome then RestoreAlreadyPresent else RestoreConflict), a')
      | (Inr BeginConflict, a') \<Rightarrow> (Inr RestoreConflict, a')
      | (Inr BeginFull, a') \<Rightarrow> (Inr RestoreFull, a')
      | (Inr BeginNew, a') \<Rightarrow>
          (case spec_complete key fp outcome a' of
             (Inl e, a'') \<Rightarrow> (Inl e, a'')
           | (Inr CompleteCompleted, a'') \<Rightarrow> (Inr RestoreRestored, a'')
           | (Inr CompleteAlreadyCompleted, a'') \<Rightarrow> (Inr RestoreAlreadyPresent, a'')
           | (Inr _, a'') \<Rightarrow> (Inr RestoreConflict, a'')))"

section \<open>Invariant and abstraction\<close>

definition config_ok :: "dedup_config \<Rightarrow> bool" where
  "config_ok cfg \<longleftrightarrow> cfg_max_entries cfg \<noteq> 0 \<and>
     cfg_max_outcome_bytes cfg \<le> cfg_max_total_outcome_bytes cfg"

definition abs_of_key :: "dedup_table \<Rightarrow> dedup_key \<Rightarrow> abs_entry" where
  "abs_of_key t k =
     (case fmlookup (dt_entries t) k of
        Some e \<Rightarrow> (k, ent_fingerprint e, ent_state e)
      | None \<Rightarrow> (k, SemanticFingerprint [], InFlight))"

definition queue_of :: "dedup_table \<Rightarrow> abs_entry list" where
  "queue_of t = map (\<lambda>(s, k). abs_of_key t k) (dt_insertion_order t)"

definition abs_table_of :: "dedup_table \<Rightarrow> abs_table" where
  "abs_table_of t =
     \<lparr>abs_config = dt_config t, abs_queue = queue_of t,
      abs_admitted = unat (dt_last_insertion_sequence t)\<rparr>"

text \<open>The queue and the map hold the same keys, the sequence numbers of the queue grow, and the
  byte counter is the sum of the stored outcomes.\<close>

definition dedup_wf :: "dedup_table \<Rightarrow> bool" where
  "dedup_wf t \<longleftrightarrow>
     distinct (map snd (dt_insertion_order t))
   \<and> snd ` set (dt_insertion_order t) = fset (fmdom (dt_entries t))
   \<and> (\<forall>s k e. (s, k) \<in> set (dt_insertion_order t) \<longrightarrow> fmlookup (dt_entries t) k = Some e \<longrightarrow>
        ent_insertion_sequence e = s)
   \<and> sorted_wrt (<) (map fst (dt_insertion_order t))
   \<and> (\<forall>s k. (s, k) \<in> set (dt_insertion_order t) \<longrightarrow> s \<le> dt_last_insertion_sequence t)
   \<and> unat (dt_retained_outcome_bytes t) = queue_bytes (queue_of t)"

definition dedup_bounded :: "dedup_table \<Rightarrow> bool" where
  "dedup_bounded t \<longleftrightarrow>
     dedup_len t \<le> unat (cfg_max_entries (dt_config t))
   \<and> dt_retained_outcome_bytes t \<le> ucast (cfg_max_total_outcome_bytes (dt_config t))
   \<and> (\<forall>k e out. fmlookup (dt_entries t) k = Some e \<longrightarrow> ent_state e = Completed out \<longrightarrow>
        length out \<le> unat (cfg_max_outcome_bytes (dt_config t)))"

definition dedup_inv :: "dedup_table \<Rightarrow> bool" where
  "dedup_inv t \<longleftrightarrow> config_ok (dt_config t) \<and> dedup_wf t \<and> dedup_bounded t"

end
