(* ===== verification/Dedup_Refinement.thy ===== *)
theory Dedup_Refinement
  imports Iron_Dedup
begin

text \<open>
  The operations of the deduplication table refine the bounded queue of their specification, and
  what follows from it: bounds, first-in-first-out eviction, protection of reservations, exact
  replay and recovery.
\<close>

section \<open>Refinement\<close>

lemma queue_bytes_simps [simp]:
  "queue_bytes [] = 0"
  "queue_bytes (x # q) = state_bytes (snd (snd x)) + queue_bytes q"
  "queue_bytes (q @ q') = queue_bytes q + queue_bytes q'"
  by (simp_all add: queue_bytes_def)

lemma state_bytes_done: "\<not> is_completed st \<Longrightarrow> state_bytes st = 0"
  by (cases st) auto

lemma fst_abs_of_key [simp]: "fst (abs_of_key t k) = k"
  by (simp add: abs_of_key_def split: option.split)

lemma abs_of_key_Some:
  "fmlookup (dt_entries t) k = Some e \<Longrightarrow> abs_of_key t k = (k, ent_fingerprint e, ent_state e)"
  by (simp add: abs_of_key_def)

lemma map_fst_queue_of: "map fst (queue_of t) = map snd (dt_insertion_order t)"
  by (simp add: queue_of_def split_beta)

lemma in_snd_image: "k \<in> snd ` A \<longleftrightarrow> (\<exists>s. (s, k) \<in> A)"
  by force

lemma dedup_wf_keys:
  assumes "dedup_wf t"
  shows "(\<exists>s. (s, k) \<in> set (dt_insertion_order t)) \<longleftrightarrow> fmlookup (dt_entries t) k \<noteq> None"
proof -
  have "k \<in> snd ` set (dt_insertion_order t) \<longleftrightarrow> k |\<in>| fmdom (dt_entries t)"
    using assms by (simp add: dedup_wf_def)
  then show ?thesis by (auto simp: fmlookup_dom_iff in_snd_image)
qed

lemma map_of_queue_of:
  assumes "dedup_wf t"
  shows "map_of (queue_of t) k =
    map_option (\<lambda>e. (ent_fingerprint e, ent_state e)) (fmlookup (dt_entries t) k)"
proof (cases "fmlookup (dt_entries t) k")
  case None
  then have "k \<notin> fst ` set (queue_of t)"
    using dedup_wf_keys [OF assms, of k] by (auto simp: queue_of_def)
  with None show ?thesis by (simp add: map_of_eq_None_iff)
next
  case (Some e)
  then obtain s where "(s, k) \<in> set (dt_insertion_order t)"
    using dedup_wf_keys [OF assms, of k] by auto
  then have "(k, ent_fingerprint e, ent_state e) \<in> set (queue_of t)"
    using Some by (force simp: queue_of_def abs_of_key_def)
  moreover have "distinct (map fst (queue_of t))"
    using assms by (simp add: map_fst_queue_of dedup_wf_def)
  ultimately show ?thesis using Some by (simp add: map_of_is_SomeI)
qed

lemma dedup_len_queue:
  assumes "dedup_wf t"
  shows "dedup_len t = length (queue_of t)"
proof -
  have "dedup_len t = card (set (map snd (dt_insertion_order t)))"
    using assms by (simp add: dedup_len_def fcard.rep_eq dedup_wf_def)
  also have "\<dots> = length (queue_of t)"
    using assms by (simp only: dedup_wf_def distinct_card queue_of_def length_map)
  finally show ?thesis .
qed

lemma queue_of_cong:
  "dt_insertion_order t' = xs \<Longrightarrow>
   (\<And>s k. (s, k) \<in> set xs \<Longrightarrow> fmlookup (dt_entries t') k = fmlookup (dt_entries t) k) \<Longrightarrow>
   queue_of t' = map (\<lambda>(s, k). abs_of_key t k) xs"
  by (auto simp: queue_of_def abs_of_key_def)

text \<open>Removing, adding and completing one entry keep the table well formed.\<close>

lemma dedup_wf_remove:
  assumes wf: "dedup_wf t"
    and split: "dt_insertion_order t = us @ (s, k) # vs"
    and e: "fmlookup (dt_entries t) k = Some e"
    and bytes: "unat r + state_bytes (ent_state e) = unat (dt_retained_outcome_bytes t)"
    and t': "t' = t\<lparr>dt_insertion_order := us @ vs, dt_entries := fmdrop k (dt_entries t),
               dt_retained_outcome_bytes := r\<rparr>"
  shows "dedup_wf t'" and "queue_of t' = map (\<lambda>(s, k). abs_of_key t k) (us @ vs)"
proof -
  have fresh: "k \<notin> snd ` set (us @ vs)"
    using wf by (auto simp: dedup_wf_def split)
  then show q: "queue_of t' = map (\<lambda>(s, k). abs_of_key t k) (us @ vs)"
    by (intro queue_of_cong) (force simp: t')+
  have "queue_bytes (queue_of t) = queue_bytes (queue_of t') + state_bytes (ent_state e)"
    unfolding q by (simp add: queue_of_def split abs_of_key_Some [OF e])
  then have "unat r = queue_bytes (queue_of t')"
    using wf bytes by (simp add: dedup_wf_def)
  moreover have "snd ` set (us @ vs) = fset (fmdom (dt_entries t)) - {k}"
    using wf fresh by (auto simp: dedup_wf_def split)
  ultimately show "dedup_wf t'"
    using wf fresh by (auto simp: dedup_wf_def t' split sorted_wrt_append)
qed

lemma dedup_wf_add:
  assumes wf: "dedup_wf t" and new: "fmlookup (dt_entries t) k = None"
    and s: "dt_last_insertion_sequence t < s"
    and t': "t' = t\<lparr>dt_entries := fmupd k
               \<lparr>ent_fingerprint = fp, ent_insertion_sequence = s, ent_state = InFlight\<rparr>
               (dt_entries t),
               dt_insertion_order := dt_insertion_order t @ [(s, k)],
               dt_last_insertion_sequence := s\<rparr>"
  shows "dedup_wf t'" and "queue_of t' = queue_of t @ [(k, fp, InFlight)]"
proof -
  have fresh: "k \<notin> snd ` set (dt_insertion_order t)"
    using dedup_wf_keys [OF wf, of k] new by force
  then have "fmlookup (dt_entries t') k' = fmlookup (dt_entries t) k'"
    if "(s', k') \<in> set (dt_insertion_order t)" for s' k'
    using that by (force simp: t')
  then show q: "queue_of t' = queue_of t @ [(k, fp, InFlight)]"
    by (auto simp: queue_of_def t' abs_of_key_def)
  have "queue_bytes (queue_of t') = unat (dt_retained_outcome_bytes t)"
    using wf by (simp add: q dedup_wf_def)
  moreover have old: "(s', k') \<in> set (dt_insertion_order t) \<Longrightarrow> s' < s \<and> s' \<le> s \<and> k' \<noteq> k" for s' k'
    using wf fresh s by (auto simp: dedup_wf_def in_snd_image dest: le_less_trans less_imp_le)
  moreover have "sorted_wrt (<) (map fst (dt_insertion_order t'))"
    using wf old by (auto simp: dedup_wf_def t' sorted_wrt_append)
  moreover have "distinct (map snd (dt_insertion_order t'))"
    using wf fresh by (simp add: dedup_wf_def t')
  moreover have "snd ` set (dt_insertion_order t') = fset (fmdom (dt_entries t'))"
    using wf by (simp add: dedup_wf_def t')
  ultimately show "dedup_wf t'"
    using wf by (auto simp: dedup_wf_def t')
qed

lemma dedup_wf_set_completed:
  assumes wf: "dedup_wf t" and e: "fmlookup (dt_entries t) k = Some e"
    and fl: "ent_state e = InFlight"
    and r: "unat r = unat (dt_retained_outcome_bytes t) + length out"
    and t': "t' = t\<lparr>dt_entries := fmupd k (e\<lparr>ent_state := Completed out\<rparr>) (dt_entries t),
               dt_retained_outcome_bytes := r\<rparr>"
  shows "dedup_wf t'" and "queue_of t' = set_completed k out (queue_of t)"
proof -
  show q: "queue_of t' = set_completed k out (queue_of t)"
    using e by (auto simp: queue_of_def set_completed_def t' abs_of_key_def split: option.split)
  obtain s where "(s, k) \<in> set (dt_insertion_order t)"
    using dedup_wf_keys [OF wf, of k] e by auto
  then obtain us vs where split: "dt_insertion_order t = us @ (s, k) # vs"
    by (meson split_list)
  then have fresh: "k \<notin> snd ` set (us @ vs)"
    using wf by (auto simp: dedup_wf_def)
  then have fresh_us: "k \<notin> snd ` set us" and fresh_vs: "k \<notin> snd ` set vs" by auto
  have t'e: "fmlookup (dt_entries t') k = Some (e\<lparr>ent_state := Completed out\<rparr>)"
    and t'o: "dt_insertion_order t' = dt_insertion_order t" by (simp_all add: t')
  have same: "map (\<lambda>(s, k). abs_of_key t' k) xs = map (\<lambda>(s, k). abs_of_key t k) xs"
    if "k \<notin> snd ` set xs" for xs
    using that by (force simp: t' abs_of_key_def)
  have "queue_bytes (queue_of t') = queue_bytes (queue_of t) + length out"
  proof -
    have "queue_of t' = map (\<lambda>(s, k). abs_of_key t k) us @
        (k, ent_fingerprint e, Completed out) # map (\<lambda>(s, k). abs_of_key t k) vs"
      using fresh_us fresh_vs
      by (simp add: queue_of_def same split t'o abs_of_key_Some [OF t'e])
    then show ?thesis
      using fl by (simp add: queue_of_def [of t] split abs_of_key_Some [OF e])
  qed
  then show "dedup_wf t'"
    using wf e r by (auto simp: dedup_wf_def t' fmdomI)
qed

lemma queue_bytes_mem: "x \<in> set q \<Longrightarrow> state_bytes (snd (snd x)) \<le> queue_bytes q"
  by (induction q) auto

lemma evict_refines:
  assumes wf: "dedup_wf t"
  shows "case remove_first (\<lambda>x. entry_done x \<and> excluded \<noteq> Some (fst x)) (queue_of t) of
      None \<Rightarrow> evict_oldest_completed excluded t = (False, t)
    | Some q \<Rightarrow> \<exists>t'. evict_oldest_completed excluded t = (True, t') \<and> dedup_wf t' \<and>
        queue_of t' = q \<and> dt_config t' = dt_config t \<and>
        dt_last_insertion_sequence t' = dt_last_insertion_sequence t"
proof -
  let ?P = "\<lambda>(s, k). evictable t excluded k"
  let ?Q = "\<lambda>x. entry_done x \<and> excluded \<noteq> Some (fst x)"
  have pq: "?P x \<longleftrightarrow> ?Q (case x of (s, k) \<Rightarrow> abs_of_key t k)" for x
    by (auto simp: evictable_def entry_done_def abs_of_key_def split_beta split: option.split)
  have rf: "remove_first ?Q (queue_of t) =
      map_option (\<lambda>n. map (\<lambda>(s, k). abs_of_key t k) (remove_nth n (dt_insertion_order t)))
        (find_position ?P (dt_insertion_order t))"
    unfolding queue_of_def by (rule remove_first_map, rule pq)
  show ?thesis
  proof (cases "find_position ?P (dt_insertion_order t)")
    case None
    with rf show ?thesis by (simp add: evict_oldest_completed_def)
  next
    case (Some p)
    obtain s k where sk: "dt_insertion_order t ! p = (s, k)" by (cases "dt_insertion_order t ! p")
    from evict_progress [OF Some] obtain e out
      where e: "fmlookup (dt_entries t) k = Some e" "ent_state e = Completed out"
      by (auto simp: sk)
    from Some have "p < length (dt_insertion_order t)" by (auto dest: find_position_SomeD)
    then obtain us vs where split: "dt_insertion_order t = us @ (s, k) # vs"
        and rem: "remove_nth p (dt_insertion_order t) = us @ vs"
      using remove_nth_split [of p "dt_insertion_order t"] sk by auto
    define r where "r = dt_retained_outcome_bytes t - len64 out"
    have "abs_of_key t k \<in> set (queue_of t)"
      by (auto simp: queue_of_def split)
    then have le: "length out \<le> unat (dt_retained_outcome_bytes t)"
      using wf queue_bytes_mem [of "abs_of_key t k" "queue_of t"] e
      by (simp add: dedup_wf_def abs_of_key_Some)
    then have u: "unat (len64 out) = length out"
      using unsigned_less [of "dt_retained_outcome_bytes t", where ?'a = nat]
      by (intro unat_len64) simp
    have bytes: "unat r + state_bytes (ent_state e) = unat (dt_retained_outcome_bytes t)"
      using le u e(2) by (simp add: r_def unat_sub word_le_nat_alt)
    define t' where "t' = t\<lparr>dt_insertion_order := us @ vs, dt_entries := fmdrop k (dt_entries t),
        dt_retained_outcome_bytes := r\<rparr>"
    have "evict_oldest_completed excluded t = (True, t')"
      by (simp add: evict_oldest_completed_def Some sk e rem t'_def r_def)
    moreover note dedup_wf_remove [OF wf split e(1) bytes t'_def]
    ultimately show ?thesis
      using rf Some by (auto simp: rem t'_def)
  qed
qed

lemma evict_for_entry_refines:
  assumes "dedup_wf t" and "dedup_len t \<le> unat (cfg_max_entries (dt_config t))"
    and "cfg_max_entries (dt_config t) \<noteq> 0"
  shows "case spec_admit (dt_config t) (queue_of t) of
      None \<Rightarrow> evict_for_entry t = (False, t)
    | Some q \<Rightarrow> \<exists>t'. evict_for_entry t = (True, t') \<and> dedup_wf t' \<and> queue_of t' = q \<and>
        dt_config t' = dt_config t \<and>
        dt_last_insertion_sequence t' = dt_last_insertion_sequence t"
proof (cases "length (queue_of t) < unat (cfg_max_entries (dt_config t))")
  case True
  then show ?thesis
    using assms(1) by (subst evict_for_entry.simps) (simp add: dedup_len_queue spec_admit_def)
next
  case False
  show ?thesis
  proof (cases "remove_first entry_done (queue_of t)")
    case None
    with evict_refines [OF assms(1), of None] False assms(1) show ?thesis
      by (subst evict_for_entry.simps) (simp add: dedup_len_queue spec_admit_def)
  next
    case (Some q)
    with evict_refines [OF assms(1), of None] obtain t'
      where t': "evict_oldest_completed None t = (True, t')" "dedup_wf t'" "queue_of t' = q"
        "dt_config t' = dt_config t"
        "dt_last_insertion_sequence t' = dt_last_insertion_sequence t"
      by auto
    have "length q < unat (cfg_max_entries (dt_config t))"
      using Some assms(1,2) by (auto simp: dedup_len_queue dest: remove_first_Some_length)
    then have "evict_for_entry t' = (True, t')"
      using t' by (subst evict_for_entry.simps) (simp add: dedup_len_queue)
    then have "evict_for_entry t = (True, t')"
      using False t'(1) assms(1) by (subst evict_for_entry.simps) (simp add: dedup_len_queue)
    with t' False Some show ?thesis by (simp add: spec_admit_def)
  qed
qed

lemma done_not_reserved:
  assumes "map_of q key = Some (fp, InFlight)" and "distinct (map fst q)"
    and "x \<in> set q" and "entry_done x"
  shows "fst x \<noteq> key"
proof -
  have "map_of q (fst x) = Some (snd x)" using assms(2,3) by simp
  with assms(1,4) show ?thesis by (auto simp: entry_done_def)
qed

lemma not_done_excluded:
  assumes "map_of q key = Some (fp, InFlight)" and "distinct (map fst q)"
  shows "remove_first (\<lambda>x. entry_done x \<and> Some key \<noteq> Some (fst x)) q = remove_first entry_done q"
  using remove_first_map [of q entry_done "\<lambda>x. entry_done x \<and> Some key \<noteq> Some (fst x)" id]
    remove_first_map [of q entry_done entry_done id] done_not_reserved [OF assms] by auto

lemma over_total_iff:
  "over_total n t \<longleftrightarrow> unat (dt_retained_outcome_bytes t) + unat n
     > unat (cfg_max_total_outcome_bytes (dt_config t))"
proof -
  have "unat (cfg_max_total_outcome_bytes (dt_config t)) < 2 ^ 64"
    using unsigned_less [of "cfg_max_total_outcome_bytes (dt_config t)", where ?'a = nat] by simp
  then show ?thesis
    by (auto simp: over_total_def word_less_nat_alt checked_add_Some_iff checked_add_None_iff
        split: option.split)
qed

lemma evict_for_outcome_refines:
  assumes "dedup_wf t" and "map_of (queue_of t) key = Some (fp, InFlight)"
    and "unat n \<le> unat (cfg_max_total_outcome_bytes (dt_config t))"
  shows "\<exists>t'. evict_for_outcome key n t = (True, t') \<and> dedup_wf t' \<and>
    queue_of t' =
      spec_make_room (unat (cfg_max_total_outcome_bytes (dt_config t)) - unat n) (queue_of t) \<and>
    map_of (queue_of t') key = Some (fp, InFlight) \<and> dt_config t' = dt_config t \<and>
    dt_last_insertion_sequence t' = dt_last_insertion_sequence t \<and> \<not> over_total n t'"
  using assms
proof (induction t rule: measure_induct_rule [where f = dedup_len])
  case (less t)
  let ?limit = "unat (cfg_max_total_outcome_bytes (dt_config t)) - unat n"
  have wf: "dedup_wf t" and key: "map_of (queue_of t) key = Some (fp, InFlight)"
    by (fact less.prems)+
  have bytes: "unat (dt_retained_outcome_bytes t) = queue_bytes (queue_of t)"
    and dist: "distinct (map fst (queue_of t))"
    using wf by (simp_all add: dedup_wf_def map_fst_queue_of)
  show ?case
  proof (cases "over_total n t")
    case False
    then have "queue_bytes (queue_of t) \<le> ?limit"
      using less.prems(3) bytes by (simp add: over_total_iff)
    then have "spec_make_room ?limit (queue_of t) = queue_of t"
      by (subst spec_make_room.simps) simp
    with False wf key show ?thesis
      by (subst evict_for_outcome.simps) simp
  next
    case True
    then have over: "\<not> queue_bytes (queue_of t) \<le> ?limit"
      using less.prems(3) bytes by (simp add: over_total_iff)
    note ev = evict_refines [OF wf, of "Some key", unfolded not_done_excluded [OF key dist]]
    have "remove_first entry_done (queue_of t) \<noteq> None"
    proof
      assume "remove_first entry_done (queue_of t) = None"
      then have "\<forall>x \<in> set (queue_of t). state_bytes (snd (snd x)) = 0"
        by (auto simp: remove_first_None_iff entry_done_def state_bytes_done)
      then have "queue_bytes (queue_of t) = 0" by (simp add: queue_bytes_def)
      with over show False by simp
    qed
    then obtain q where q: "remove_first entry_done (queue_of t) = Some q" by blast
    with ev obtain t' where t': "evict_oldest_completed (Some key) t = (True, t')" "dedup_wf t'"
        "queue_of t' = q" "dt_config t' = dt_config t"
        "dt_last_insertion_sequence t' = dt_last_insertion_sequence t"
      by auto
    from remove_first_Some_mset [OF q] obtain us v vs
      where uv: "queue_of t = us @ v # vs" "q = us @ vs" "entry_done v" by blast
    have "fst v \<noteq> key"
      using uv by (intro done_not_reserved [OF key dist]) auto
    then have "map_of q key = Some (fp, InFlight)"
      using key uv by (cases v) (auto simp: map_add_def split: option.splits)
    with less.IH [of t'] t' less.prems(3) evict_True_decreases [OF t'(1)]
    obtain t'' where "evict_for_outcome key n t' = (True, t'')" "dedup_wf t''"
        "queue_of t'' = spec_make_room ?limit q" "map_of (queue_of t'') key = Some (fp, InFlight)"
        "dt_config t'' = dt_config t"
        "dt_last_insertion_sequence t'' = dt_last_insertion_sequence t" "\<not> over_total n t''"
      by auto
    moreover have "evict_for_outcome key n t = evict_for_outcome key n t'"
      using True t'(1) by (subst evict_for_outcome.simps) simp
    moreover have "spec_make_room ?limit (queue_of t) = spec_make_room ?limit q"
      using over q by (subst spec_make_room.simps) simp
    ultimately show ?thesis by simp
  qed
qed

section \<open>The operations refine the specification\<close>

definition queue_bounded :: "dedup_config \<Rightarrow> abs_entry list \<Rightarrow> bool" where
  "queue_bounded cfg q \<longleftrightarrow>
     length q \<le> unat (cfg_max_entries cfg)
   \<and> queue_bytes q \<le> unat (cfg_max_total_outcome_bytes cfg)
   \<and> (\<forall>x \<in> set q. state_bytes (snd (snd x)) \<le> unat (cfg_max_outcome_bytes cfg))"

lemma state_bytes_le_iff:
  "state_bytes st \<le> m \<longleftrightarrow> (\<forall>out. st = Completed out \<longrightarrow> length out \<le> m)"
  by (cases st) auto

lemma all_map_option_Some:
  "(\<forall>k y. map_option f (m k) = Some y \<longrightarrow> P y) \<longleftrightarrow> (\<forall>k x. m k = Some x \<longrightarrow> P (f x))"
  by blast

lemma dedup_bounded_iff:
  assumes wf: "dedup_wf t"
  shows "dedup_bounded t \<longleftrightarrow> queue_bounded (dt_config t) (queue_of t)"
proof -
  have "(\<forall>k e out. fmlookup (dt_entries t) k = Some e \<longrightarrow> ent_state e = Completed out \<longrightarrow>
        length out \<le> m) \<longleftrightarrow> (\<forall>x \<in> set (queue_of t). state_bytes (snd (snd x)) \<le> m)" for m
  proof -
    have mem: "(k, st) \<in> set (queue_of t) \<longleftrightarrow> map_of (queue_of t) k = Some st" for k st
      using wf by (simp add: map_of_eq_Some_iff map_fst_queue_of dedup_wf_def)
    have "(\<forall>x \<in> set (queue_of t). state_bytes (snd (snd x)) \<le> m) \<longleftrightarrow>
        (\<forall>k st. (k, st) \<in> set (queue_of t) \<longrightarrow> state_bytes (snd st) \<le> m)"
      by force
    also have "\<dots> \<longleftrightarrow> (\<forall>k st. map_option (\<lambda>e. (ent_fingerprint e, ent_state e))
        (fmlookup (dt_entries t) k) = Some st \<longrightarrow> state_bytes (snd st) \<le> m)"
      by (simp only: mem map_of_queue_of [OF wf])
    also have "\<dots> \<longleftrightarrow> (\<forall>k e. fmlookup (dt_entries t) k = Some e \<longrightarrow> state_bytes (ent_state e) \<le> m)"
      by (simp only: all_map_option_Some snd_conv)
    finally have "(\<forall>x \<in> set (queue_of t). state_bytes (snd (snd x)) \<le> m) \<longleftrightarrow>
        (\<forall>k e. fmlookup (dt_entries t) k = Some e \<longrightarrow> state_bytes (ent_state e) \<le> m)" .
    then show ?thesis by (simp add: state_bytes_le_iff)
  qed
  moreover have "unat (dt_retained_outcome_bytes t) = queue_bytes (queue_of t)"
    using wf by (simp add: dedup_wf_def)
  ultimately show ?thesis
    by (simp add: dedup_bounded_def queue_bounded_def dedup_len_queue [OF wf] word_le_nat_alt)
qed

lemma queue_bounded_remove_first:
  assumes "queue_bounded cfg q" and "remove_first P q = Some q'"
  shows "queue_bounded cfg q' \<and> length q' < length q"
  using assms(1) remove_first_Some_mset [OF assms(2)] by (auto simp: queue_bounded_def)

lemma queue_bounded_make_room: "queue_bounded cfg q \<Longrightarrow> queue_bounded cfg (spec_make_room limit q)"
proof (induction limit q rule: spec_make_room.induct)
  case (1 limit q)
  then show ?case
    by (subst spec_make_room.simps) (auto dest: queue_bounded_remove_first split: option.split)
qed

lemma queue_bounded_filter:
  assumes "queue_bounded cfg q"
  shows "queue_bounded cfg (filter P q)"
  using assms le_trans [OF length_filter_le [of P q]]
    le_trans [OF sum_list_filter_le [of "\<lambda>x. state_bytes (snd (snd x))" P q]]
  by (simp add: queue_bounded_def queue_bytes_def)

lemma set_completed_bytes:
  assumes "map_of q key = Some (fp, InFlight)" and "distinct (map fst q)"
  shows "queue_bytes (set_completed key out q) = queue_bytes q + length out"
    and "x \<in> set (set_completed key out q) \<Longrightarrow> x \<in> set q \<or> state_bytes (snd (snd x)) = length out"
proof -
  obtain us vs where q: "q = us @ (key, fp, InFlight) # vs"
    using assms(1) by (meson map_of_SomeD split_list)
  have "set_completed key out xs = xs" if "key \<notin> fst ` set xs" for xs
    using that by (force simp: set_completed_def intro: map_idI)
  moreover have "key \<notin> fst ` set us" "key \<notin> fst ` set vs"
    using assms(2) q by auto
  moreover have "set_completed key out q = set_completed key out us @
      (key, fp, Completed out) # set_completed key out vs"
    by (simp add: q set_completed_def)
  ultimately show "queue_bytes (set_completed key out q) = queue_bytes q + length out"
    and "x \<in> set (set_completed key out q) \<Longrightarrow> x \<in> set q \<or> state_bytes (snd (snd x)) = length out"
    by (auto simp: q)
qed

lemma dedup_inv_iff: "dedup_inv t \<longleftrightarrow> config_ok (dt_config t) \<and> dedup_wf t \<and>
    queue_bounded (dt_config t) (queue_of t)"
  by (auto simp: dedup_inv_def dedup_bounded_iff)

lemma dedup_begin_refines:
  assumes inv: "dedup_inv t"
  shows "dedup_inv (snd (dedup_begin key fp t)) \<and>
    spec_begin key fp (abs_table_of t) = map_prod id abs_table_of (dedup_begin key fp t)"
proof -
  have wf: "dedup_wf t" and cfg: "config_ok (dt_config t)"
    and bnd: "queue_bounded (dt_config t) (queue_of t)"
    using inv by (simp_all add: dedup_inv_iff)
  note mo = map_of_queue_of [OF wf, of key]
  show ?thesis
  proof (cases "fmlookup (dt_entries t) key")
    case (Some e)
    with mo inv show ?thesis
      by (auto simp: dedup_begin_def spec_begin_def abs_table_of_def split: entry_state.split)
  next
    case None
    show ?thesis
    proof (cases "checked_add (dt_last_insertion_sequence t) 1")
      case no: None
      then have "2 ^ 64 \<le> unat (dt_last_insertion_sequence t) + 1"
        by (simp add: checked_add_None_iff)
      with None mo inv no show ?thesis
        by (simp add: dedup_begin_def spec_begin_def abs_table_of_def)
    next
      case (Some s)
      then have s: "unat s = unat (dt_last_insertion_sequence t) + 1"
        by (simp add: checked_add_Some_iff)
      then have fits: "\<not> 2 ^ 64 \<le> unat (dt_last_insertion_sequence t) + 1"
        using unsigned_less [of s, where ?'a = nat] by simp
      have less: "dt_last_insertion_sequence t < s"
        using s by (simp add: word_less_nat_alt)
      let ?q = "spec_admit (dt_config t) (queue_of t)"
      have ev: "case ?q of None \<Rightarrow> evict_for_entry t = (False, t)
        | Some q \<Rightarrow> \<exists>t'. evict_for_entry t = (True, t') \<and> dedup_wf t' \<and> queue_of t' = q \<and>
            dt_config t' = dt_config t \<and>
            dt_last_insertion_sequence t' = dt_last_insertion_sequence t"
        using bnd cfg wf
        by (intro evict_for_entry_refines)
          (simp_all add: queue_bounded_def config_ok_def dedup_len_queue)
      show ?thesis
      proof (cases ?q)
        case q: None
        with ev have "evict_for_entry t = (False, t)" by simp
        with None Some mo q fits inv show ?thesis
          by (simp add: dedup_begin_def spec_begin_def abs_table_of_def)
      next
        case q: (Some q)
        with ev obtain t' where t': "evict_for_entry t = (True, t')" "dedup_wf t'"
            "queue_of t' = q" "dt_config t' = dt_config t"
            "dt_last_insertion_sequence t' = dt_last_insertion_sequence t"
          by (simp only: option.case) blast
        have sub: "queue_bounded (dt_config t) q \<and> length q < unat (cfg_max_entries (dt_config t))
            \<and> set q \<subseteq> set (queue_of t)"
        proof (cases "length (queue_of t) < unat (cfg_max_entries (dt_config t))")
          case True
          with q bnd show ?thesis by (simp add: spec_admit_def)
        next
          case False
          with q have rf: "remove_first entry_done (queue_of t) = Some q"
            by (simp add: spec_admit_def)
          from queue_bounded_remove_first [OF bnd rf] remove_first_Some_mset [OF rf] bnd
          show ?thesis by (auto simp: queue_bounded_def)
        qed
        have "map_of q key = None"
          using sub mo None by (auto simp: map_of_eq_None_iff)
        then have new: "fmlookup (dt_entries t') key = None"
          using map_of_queue_of [OF t'(2), of key] t'(3) by simp
        define t'' where "t'' = t'\<lparr>dt_entries := fmupd key
               \<lparr>ent_fingerprint = fp, ent_insertion_sequence = s, ent_state = InFlight\<rparr>
               (dt_entries t'),
               dt_insertion_order := dt_insertion_order t' @ [(s, key)],
               dt_last_insertion_sequence := s\<rparr>"
        have wf'': "dedup_wf t''" and q'': "queue_of t'' = q @ [(key, fp, InFlight)]"
          using dedup_wf_add [OF t'(2) new _ t''_def] less t'(3,5) by simp_all
        have run: "dedup_begin key fp t = (Inr BeginNew, t'')"
          by (simp add: dedup_begin_def None Some t'(1) t''_def)
        have "dt_config t'' = dt_config t" by (simp add: t''_def t'(4))
        then have "queue_bounded (dt_config t'') (queue_of t'')"
          using sub by (auto simp: q'' queue_bounded_def)
        then have "dedup_inv t''"
          using cfg wf'' by (simp add: dedup_inv_iff t''_def t'(4))
        moreover have "abs_table_of t'' = (abs_table_of t)\<lparr>abs_queue := q @ [(key, fp, InFlight)],
            abs_admitted := abs_admitted (abs_table_of t) + 1\<rparr>"
          using s q'' by (simp add: abs_table_of_def t''_def t'(4))
        ultimately show ?thesis
          using mo None fits q by (simp add: run spec_begin_def) (simp add: abs_table_of_def)
      qed
    qed
  qed
qed

lemma dedup_complete_refines:
  assumes inv: "dedup_inv t" and len: "length out < 2 ^ 64"
  shows "dedup_inv (snd (dedup_complete key fp out t)) \<and>
    spec_complete key fp out (abs_table_of t) =
      map_prod id abs_table_of (dedup_complete key fp out t)"
proof -
  have wf: "dedup_wf t" and cfg: "config_ok (dt_config t)"
    and bnd: "queue_bounded (dt_config t) (queue_of t)"
    using inv by (simp_all add: dedup_inv_iff)
  let ?max = "cfg_max_outcome_bytes (dt_config t)"
  let ?total = "cfg_max_total_outcome_bytes (dt_config t)"
  note mo = map_of_queue_of [OF wf, of key]
  have u: "unat (len64 out) = length out" using len by (rule unat_len64)
  show ?thesis
  proof (cases "\<exists>e. fmlookup (dt_entries t) key = Some e \<and> ent_fingerprint e = fp \<and>
      ent_state e = InFlight \<and> length out \<le> unat ?max")
    case False
    then show ?thesis
      using inv mo u
      by (auto simp: dedup_complete_def spec_complete_def abs_table_of_def Let_def
          word_less_nat_alt is_completed_iff split: option.split)
        (metis entry_state.exhaust not_le)+
  next
    case True
    then obtain e where e: "fmlookup (dt_entries t) key = Some e" "ent_fingerprint e = fp"
        "ent_state e = InFlight" and le: "length out \<le> unat ?max" by blast
    have key: "map_of (queue_of t) key = Some (fp, InFlight)" using mo e by simp
    have "unat ?max \<le> unat ?total" using cfg by (simp add: config_ok_def word_le_nat_alt)
    then have tot: "unat (len64 out) \<le> unat ?total" using le u by simp
    from evict_for_outcome_refines [OF wf key tot] obtain t' where t':
        "evict_for_outcome key (len64 out) t = (True, t')" "dedup_wf t'"
        "queue_of t' = spec_make_room (unat ?total - length out) (queue_of t)"
        "map_of (queue_of t') key = Some (fp, InFlight)" "dt_config t' = dt_config t"
        "dt_last_insertion_sequence t' = dt_last_insertion_sequence t"
        "\<not> over_total (len64 out) t'"
      using u by auto
    from t'(4) obtain e' where e': "fmlookup (dt_entries t') key = Some e'"
        "ent_fingerprint e' = fp" "ent_state e' = InFlight"
      by (auto simp: map_of_queue_of [OF t'(2)])
    define t'' where "t'' = t'\<lparr>dt_entries := fmupd key (e'\<lparr>ent_state := Completed out\<rparr>) (dt_entries t'),
        dt_retained_outcome_bytes := dt_retained_outcome_bytes t' + len64 out\<rparr>"
    have room: "unat (dt_retained_outcome_bytes t') + length out \<le> unat ?total"
      using t'(5,7) u by (simp add: over_total_iff)
    have "unat ?total < 2 ^ 64" using unsigned_less [of ?total, where ?'a = nat] by simp
    then have r: "unat (dt_retained_outcome_bytes t' + len64 out) =
        unat (dt_retained_outcome_bytes t') + length out"
      using room u by (simp add: unat_word_ariths)
    note wf'' = dedup_wf_set_completed [OF t'(2) e'(1,3) r t''_def]
    have run: "dedup_complete key fp out t = (Inr CompleteCompleted, t'')"
      using e le u
      by (simp add: dedup_complete_def t'(1) e'(1) t''_def Let_def word_less_nat_alt)
    have dist: "distinct (map fst (queue_of t'))"
      using t'(2) by (simp add: dedup_wf_def map_fst_queue_of)
    have "queue_bounded (dt_config t) (queue_of t')"
      using bnd by (simp add: t'(3) queue_bounded_make_room)
    moreover have "queue_bytes (queue_of t') = unat (dt_retained_outcome_bytes t')"
      using t'(2) by (simp add: dedup_wf_def)
    moreover have "length (set_completed key out q) = length q" for q
      by (simp add: set_completed_def)
    moreover from calculation(1) have "state_bytes (snd (snd x)) \<le> unat ?max"
      if "x \<in> set (set_completed key out (queue_of t'))" for x
      using set_completed_bytes(2) [OF t'(4) dist that] le by (auto simp: queue_bounded_def)
    ultimately have "queue_bounded (dt_config t) (set_completed key out (queue_of t'))"
      using room set_completed_bytes(1) [OF t'(4) dist, where out = out]
      by (simp add: queue_bounded_def)
    then have "dedup_inv t''"
      using cfg wf'' by (simp add: dedup_inv_iff) (simp add: t''_def t'(5))
    moreover have "abs_table_of t'' = (abs_table_of t)\<lparr>abs_queue := set_completed key out
        (spec_make_room (unat ?total - length out) (queue_of t))\<rparr>"
      using wf''(2) t'(3) by (simp add: abs_table_of_def) (simp add: t''_def t'(5,6))
    ultimately show ?thesis
      using key le by (simp add: run spec_complete_def) (simp add: abs_table_of_def)
  qed
qed

lemma dedup_abort_refines:
  assumes inv: "dedup_inv t"
  shows "dedup_inv (snd (dedup_abort key fp t)) \<and>
    spec_abort key fp (abs_table_of t) = map_prod id abs_table_of (dedup_abort key fp t)"
proof -
  have wf: "dedup_wf t" and cfg: "config_ok (dt_config t)"
    and bnd: "queue_bounded (dt_config t) (queue_of t)"
    using inv by (simp_all add: dedup_inv_iff)
  note mo = map_of_queue_of [OF wf, of key]
  show ?thesis
  proof (cases "\<exists>e. fmlookup (dt_entries t) key = Some e \<and> ent_fingerprint e = fp \<and>
      ent_state e = InFlight")
    case False
    then show ?thesis
      using inv mo
      by (auto simp: dedup_abort_def spec_abort_def abs_table_of_def is_completed_iff
          split: option.split) (metis entry_state.exhaust)+
  next
    case True
    then obtain e where e: "fmlookup (dt_entries t) key = Some e" "ent_fingerprint e = fp"
        "ent_state e = InFlight" by blast
    let ?order = "dt_insertion_order t"
    let ?P = "\<lambda>(s, k). s = ent_insertion_sequence e \<and> k = key"
    obtain s where s: "(s, key) \<in> set ?order" using dedup_wf_keys [OF wf, of key] e by auto
    then have "s = ent_insertion_sequence e" using wf e by (auto simp: dedup_wf_def)
    with s have "find_position ?P ?order \<noteq> None" by (auto simp: find_position_None_iff)
    then obtain p where p: "find_position ?P ?order = Some p" by blast
    then have pl: "p < length ?order" and pk: "?order ! p = (ent_insertion_sequence e, key)"
      by (auto dest: find_position_SomeD)
    obtain us vs where split: "?order = us @ (ent_insertion_sequence e, key) # vs"
        and rem: "remove_nth p ?order = us @ vs"
      using remove_nth_split [OF pl] pk by auto
    define t' where "t' = t\<lparr>dt_insertion_order := us @ vs, dt_entries := fmdrop key (dt_entries t),
        dt_retained_outcome_bytes := dt_retained_outcome_bytes t\<rparr>"
    have wf': "dedup_wf t'" and q: "queue_of t' = map (\<lambda>(s, k). abs_of_key t k) (us @ vs)"
      using dedup_wf_remove [OF wf split e(1) _ t'_def] e(3) by simp_all
    have run: "dedup_abort key fp t = (AbortAborted, t')"
      using e by (simp add: dedup_abort_def p rem t'_def)
    have fresh: "key \<notin> snd ` set (us @ vs)" using wf by (auto simp: dedup_wf_def split)
    have keep: "filter (\<lambda>x. fst x \<noteq> key) (map (\<lambda>(s, k). abs_of_key t k) xs) =
        map (\<lambda>(s, k). abs_of_key t k) xs" if "key \<notin> snd ` set xs" for xs
      using that by (simp add: filter_id_conv split_beta) (metis image_eqI)
    have "filter (\<lambda>x. fst x \<noteq> key) (queue_of t) = queue_of t'"
      using fresh keep [of us] keep [of vs] by (simp add: queue_of_def [of t] split q image_Un)
    moreover from this have "queue_bounded (dt_config t) (queue_of t')"
      using queue_bounded_filter [OF bnd] by metis
    ultimately show ?thesis
      using wf' cfg e mo
      by (simp add: run spec_abort_def dedup_inv_iff) (simp add: abs_table_of_def t'_def)
  qed
qed

lemma dedup_restore_refines:
  assumes inv: "dedup_inv t" and len: "length out < 2 ^ 64"
  shows "dedup_inv (snd (restore_completed key fp out t)) \<and>
    spec_restore key fp out (abs_table_of t) =
      map_prod id abs_table_of (restore_completed key fp out t)"
proof -
  obtain r t' where b: "dedup_begin key fp t = (r, t')" by (cases "dedup_begin key fp t")
  with dedup_begin_refines [OF inv, of key fp] have inv': "dedup_inv t'"
    and sb: "spec_begin key fp (abs_table_of t) = (r, abs_table_of t')" by simp_all
  obtain r' t'' where c: "dedup_complete key fp out t' = (r', t'')"
    by (cases "dedup_complete key fp out t'")
  with dedup_complete_refines [OF inv' len, of key fp] have inv'': "dedup_inv t''"
    and sc: "spec_complete key fp out (abs_table_of t') = (r', abs_table_of t'')" by simp_all
  show ?thesis
    using inv' inv''
    by (simp add: restore_completed_def spec_restore_def b c sb sc
        split: sum.split begin_result.split complete_result.split)
qed

datatype dedup_op =
    OpBegin dedup_key semantic_fingerprint
  | OpComplete dedup_key semantic_fingerprint bytes
  | OpAbort dedup_key semantic_fingerprint
  | OpRestore dedup_key semantic_fingerprint bytes

datatype dedup_result =
    ResBegin "core_error + begin_result"
  | ResComplete "core_error + complete_result"
  | ResAbort abort_result
  | ResRestore "core_error + restore_result"

fun dedup_step :: "dedup_op \<Rightarrow> dedup_table \<Rightarrow> dedup_result \<times> dedup_table" where
  "dedup_step (OpBegin k fp) t = map_prod ResBegin id (dedup_begin k fp t)"
| "dedup_step (OpComplete k fp out) t = map_prod ResComplete id (dedup_complete k fp out t)"
| "dedup_step (OpAbort k fp) t = map_prod ResAbort id (dedup_abort k fp t)"
| "dedup_step (OpRestore k fp out) t = map_prod ResRestore id (restore_completed k fp out t)"

fun spec_step :: "dedup_op \<Rightarrow> abs_table \<Rightarrow> dedup_result \<times> abs_table" where
  "spec_step (OpBegin k fp) t = map_prod ResBegin id (spec_begin k fp t)"
| "spec_step (OpComplete k fp out) t = map_prod ResComplete id (spec_complete k fp out t)"
| "spec_step (OpAbort k fp) t = map_prod ResAbort id (spec_abort k fp t)"
| "spec_step (OpRestore k fp out) t = map_prod ResRestore id (spec_restore k fp out t)"

fun op_key :: "dedup_op \<Rightarrow> dedup_key" where
  "op_key (OpBegin k fp) = k"
| "op_key (OpComplete k fp out) = k"
| "op_key (OpAbort k fp) = k"
| "op_key (OpRestore k fp out) = k"

text \<open>Outcomes are byte vectors, so their lengths fit a \<open>u64\<close>.\<close>

fun dedup_op_ok :: "dedup_op \<Rightarrow> bool" where
  "dedup_op_ok (OpComplete k fp out) \<longleftrightarrow> length out < 2 ^ 64"
| "dedup_op_ok (OpRestore k fp out) \<longleftrightarrow> length out < 2 ^ 64"
| "dedup_op_ok _ \<longleftrightarrow> True"

interpretation dedup: refined_component dedup_inv abs_table_of dedup_step spec_step dedup_op_ok
proof
  fix t op
  assume inv: "dedup_inv t" and ok: "dedup_op_ok op"
  note refines = dedup_begin_refines [OF inv] dedup_complete_refines [OF inv]
    dedup_abort_refines [OF inv] dedup_restore_refines [OF inv]
  show "dedup_inv (snd (dedup_step op t))"
    using refines ok by (cases op) (simp_all add: snd_map_prod)
  show "spec_step op (abs_table_of t) = map_prod id abs_table_of (dedup_step op t)"
    using refines ok by (cases op) (simp_all add: prod.map_comp comp_def id_def)
qed

lemma dedup_inv_new: "config_ok cfg \<Longrightarrow> dedup_inv (dedup_new cfg)"
  by (simp add: dedup_inv_def dedup_new_def dedup_wf_def dedup_bounded_def dedup_len_def
      queue_of_def fcard_fempty)

section \<open>Facts about the specification\<close>

lemma remove_first_done_keeps:
  assumes "remove_first entry_done q = Some q'" and "distinct (map fst q)"
  shows "map_of q k = Some (fp, InFlight) \<Longrightarrow> map_of q' k = Some (fp, InFlight)"
    and "distinct (map fst q')" and "set q' \<subseteq> set q"
proof -
  from remove_first_Some_mset [OF assms(1)] obtain us v vs
    where uv: "q = us @ v # vs" "q' = us @ vs" "entry_done v" by blast
  then show "distinct (map fst q')" and "set q' \<subseteq> set q" using assms(2) by auto
  assume k: "map_of q k = Some (fp, InFlight)"
  then have "(k, fp, InFlight) \<in> set q" by (rule map_of_SomeD)
  then have "(k, fp, InFlight) \<in> set q'" using uv by (auto simp: entry_done_def)
  with \<open>distinct (map fst q')\<close> show "map_of q' k = Some (fp, InFlight)" by simp
qed

lemma make_room_keeps:
  assumes "distinct (map fst q)"
  shows "distinct (map fst (spec_make_room limit q))"
    and "map_of q k = Some (fp, InFlight) \<Longrightarrow>
      map_of (spec_make_room limit q) k = Some (fp, InFlight)"
    and "set (spec_make_room limit q) \<subseteq> set q"
proof -
  have "distinct (map fst (spec_make_room limit q)) \<and>
    (map_of q k = Some (fp, InFlight) \<longrightarrow> map_of (spec_make_room limit q) k = Some (fp, InFlight))
    \<and> set (spec_make_room limit q) \<subseteq> set q"
    using assms
  proof (induction limit q rule: spec_make_room.induct)
    case (1 limit q)
    show ?case
    proof (cases "queue_bytes q \<le> limit \<or> remove_first entry_done q = None")
      case True
      then have "spec_make_room limit q = q" by (subst spec_make_room.simps) auto
      with "1.prems" show ?thesis by simp
    next
      case False
      then obtain q' where q': "remove_first entry_done q = Some q'" by auto
      with False have "spec_make_room limit q = spec_make_room limit q'"
        by (subst spec_make_room.simps) simp
      with remove_first_done_keeps [OF q' "1.prems"] "1.IH" [OF _ q'] False show ?thesis
        by auto
    qed
  qed
  then show "distinct (map fst (spec_make_room limit q))"
    and "map_of q k = Some (fp, InFlight) \<Longrightarrow>
      map_of (spec_make_room limit q) k = Some (fp, InFlight)"
    and "set (spec_make_room limit q) \<subseteq> set q" by blast+
qed

lemma map_of_set_completed:
  "map_of (set_completed key out q) k =
     map_option (\<lambda>(fp, st). (fp, if k = key then Completed out else st)) (map_of q k)"
  by (induction q) (auto simp: set_completed_def)

lemma spec_admit_keeps:
  assumes "spec_admit cfg q = Some q'" and "distinct (map fst q)"
  shows "map_of q k = Some (fp, InFlight) \<Longrightarrow> map_of q' k = Some (fp, InFlight)"
    and "distinct (map fst q')" and "set q' \<subseteq> set q"
  using assms remove_first_done_keeps [of q q']
  by (auto simp: spec_admit_def split: if_splits)

lemma map_of_append_fresh: "map_of q k = Some v \<Longrightarrow> map_of (q @ q') k = Some v"
  by (simp add: map_add_def)

lemma map_of_filter_other: "k \<noteq> key \<Longrightarrow> map_of (filter (\<lambda>x. fst x \<noteq> key) q) k = map_of q k"
  by (induction q) auto

lemma spec_begin_keeps:
  assumes "distinct (map fst (abs_queue a))"
  shows "map_of (abs_queue a) k = Some (fp', InFlight) \<Longrightarrow>
      map_of (abs_queue (snd (spec_begin key fp a))) k = Some (fp', InFlight)"
    and "distinct (map fst (abs_queue (snd (spec_begin key fp a))))"
proof -
  show "map_of (abs_queue (snd (spec_begin key fp a))) k = Some (fp', InFlight)"
    if "map_of (abs_queue a) k = Some (fp', InFlight)"
    using that spec_admit_keeps(1) [OF _ assms]
    by (auto simp: spec_begin_def map_of_append_fresh simp del: map_of_append split: option.split)
  show "distinct (map fst (abs_queue (snd (spec_begin key fp a))))"
    using assms spec_admit_keeps(2,3) [OF _ assms]
    by (force simp: spec_begin_def map_of_eq_None_iff split: option.split)
qed

lemma spec_complete_keeps:
  assumes "distinct (map fst (abs_queue a))" and "k \<noteq> key"
    and "map_of (abs_queue a) k = Some (fp', InFlight)"
  shows "map_of (abs_queue (snd (spec_complete key fp out a))) k = Some (fp', InFlight)"
  using assms make_room_keeps(2) [OF assms(1,3)]
  by (auto simp: spec_complete_def map_of_set_completed split: option.split)

lemma spec_complete_stores:
  assumes "spec_complete key fp out a = (Inr CompleteCompleted, a')"
    and "distinct (map fst (abs_queue a))"
  shows "map_of (abs_queue a') key = Some (fp, Completed out)"
proof -
  obtain st where "map_of (abs_queue a) key = Some (fp, st)" and "\<not> is_completed st"
    and a': "a' = a\<lparr>abs_queue := set_completed key out (spec_make_room
      (unat (cfg_max_total_outcome_bytes (abs_config a)) - length out) (abs_queue a))\<rparr>"
    using assms(1) by (auto simp: spec_complete_def split: option.splits if_splits)
  moreover from this have "st = InFlight" by (cases st) simp_all
  ultimately show ?thesis
    using make_room_keeps(2) [OF assms(2)] by (simp add: map_of_set_completed)
qed

lemma spec_step_keeps_reserved:
  assumes "distinct (map fst (abs_queue a))" and "op_key op \<noteq> k"
    and "map_of (abs_queue a) k = Some (fp, InFlight)"
  shows "map_of (abs_queue (snd (spec_step op a))) k = Some (fp, InFlight)"
proof (cases op)
  case (OpBegin key f)
  with assms spec_begin_keeps(1) show ?thesis by simp
next
  case (OpComplete key f out)
  with assms spec_complete_keeps show ?thesis by simp
next
  case (OpAbort key f)
  with assms show ?thesis
    by (auto simp: spec_abort_def map_of_filter_other split: option.split)
next
  case (OpRestore key f out)
  obtain r a' where b: "spec_begin key f a = (r, a')" by (cases "spec_begin key f a")
  obtain r' a'' where c: "spec_complete key f out a' = (r', a'')"
    by (cases "spec_complete key f out a'")
  have a': "map_of (abs_queue a') k = Some (fp, InFlight)" "distinct (map fst (abs_queue a'))"
    using spec_begin_keeps [OF assms(1), where key = key and fp = f] assms(3) b by auto
  have "map_of (abs_queue a'') k = Some (fp, InFlight)"
    using spec_complete_keeps [OF a'(2) _ a'(1), of key f out] c assms(2) OpRestore by simp
  with a' show ?thesis
    by (simp add: OpRestore spec_restore_def b c
        split: sum.split begin_result.split complete_result.split)
qed

lemma spec_step_config: "abs_config (snd (spec_step op a)) = abs_config a"
  by (cases op)
    (auto simp: spec_begin_def spec_complete_def spec_abort_def spec_restore_def
      split: option.split sum.split begin_result.split complete_result.split prod.split if_splits)

lemma dedup_step_config: "dedup_inv t \<Longrightarrow> dedup_op_ok op \<Longrightarrow>
    dt_config (snd (dedup_step op t)) = dt_config t"
  using dedup.step_refines [of t op] spec_step_config [of op "abs_table_of t"]
  by (cases "dedup_step op t") (simp add: abs_table_of_def)

lemma dedup_run_config: "dedup_inv t \<Longrightarrow> list_all dedup_op_ok ops \<Longrightarrow>
    dt_config (snd (run_ops dedup_step ops t)) = dt_config t"
proof (induction ops arbitrary: t)
  case (Cons op ops)
  then have "dedup_inv (snd (dedup_step op t))" by (simp add: dedup.step_inv)
  with Cons show ?case by (simp add: split_beta Let_def dedup_step_config)
qed simp

lemma dedup_inv_distinct: "dedup_inv t \<Longrightarrow> distinct (map fst (queue_of t))"
  by (simp add: dedup_inv_def dedup_wf_def map_fst_queue_of)

text \<open>Restoring records into a table that holds only completed entries.\<close>

definition done_table :: "abs_table \<Rightarrow> bool" where
  "done_table a \<longleftrightarrow> distinct (map fst (abs_queue a)) \<and> (\<forall>x \<in> set (abs_queue a). entry_done x)
     \<and> config_ok (abs_config a)"

definition restored :: "(core_error + restore_result) \<Rightarrow> bool" where
  "restored r \<longleftrightarrow> r = Inr RestoreRestored \<or> r = Inr RestoreAlreadyPresent \<or> r = Inr RestoreConflict"

lemma set_completed_done:
  "\<forall>x \<in> set q. fst x \<noteq> key \<longrightarrow> entry_done x \<Longrightarrow> \<forall>x \<in> set (set_completed key out q). entry_done x"
  by (auto simp: set_completed_def entry_done_def split: if_splits)

lemma spec_admit_done:
  assumes "done_table a"
  shows "\<exists>q. spec_admit (abs_config a) (abs_queue a) = Some q \<and> distinct (map fst q) \<and>
    set q \<subseteq> set (abs_queue a)"
proof -
  have "remove_first entry_done (abs_queue a) \<noteq> None"
    if "\<not> length (abs_queue a) < unat (cfg_max_entries (abs_config a))"
  proof -
    have "0 < unat (cfg_max_entries (abs_config a))"
      using assms by (simp add: done_table_def config_ok_def unat_gt_0)
    with that have "abs_queue a \<noteq> []" by auto
    then show ?thesis
      using assms by (cases "abs_queue a") (auto simp: done_table_def remove_first_None_iff)
  qed
  then obtain q where "spec_admit (abs_config a) (abs_queue a) = Some q"
    by (cases "length (abs_queue a) < unat (cfg_max_entries (abs_config a))")
      (auto simp: spec_admit_def)
  with spec_admit_keeps(2,3) [OF this] assms show ?thesis by (auto simp: done_table_def)
qed

lemma spec_restore_done:
  assumes a: "done_table a" and count: "abs_admitted a + 1 < 2 ^ 64"
    and out: "length out \<le> unat (cfg_max_outcome_bytes (abs_config a))"
    and step: "spec_restore key fp out a = (r, a')"
  shows "restored r \<and> done_table a' \<and> abs_config a' = abs_config a \<and>
    abs_admitted a' \<le> abs_admitted a + 1"
proof (cases "map_of (abs_queue a) key")
  case (Some v)
  obtain f st where v: "v = (f, st)" by (cases v)
  then have "(key, f, st) \<in> set (abs_queue a)" using Some by (simp add: map_of_SomeD)
  then obtain o' where "st = Completed o'"
    using a by (cases st) (auto simp: done_table_def entry_done_def)
  with Some v step a show ?thesis
    by (auto simp: spec_restore_def spec_begin_def restored_def split: if_splits)
next
  case None
  obtain q where q: "spec_admit (abs_config a) (abs_queue a) = Some q" "distinct (map fst q)"
      "set q \<subseteq> set (abs_queue a)"
    using spec_admit_done [OF a] by blast
  define a1 where "a1 = a\<lparr>abs_queue := q @ [(key, fp, InFlight)], abs_admitted := abs_admitted a + 1\<rparr>"
  have b: "spec_begin key fp a = (Inr BeginNew, a1)"
    using None q(1) count by (simp add: spec_begin_def a1_def)
  have fresh: "key \<notin> fst ` set q" using None q(3) by (auto simp: map_of_eq_None_iff)
  then have "map_of q key = None" by (simp add: map_of_eq_None_iff)
  then have mo: "map_of (abs_queue a1) key = Some (fp, InFlight)"
    by (simp add: a1_def map_add_def)
  have dist: "distinct (map fst (abs_queue a1))" using q(2) fresh by (simp add: a1_def)
  let ?q2 = "spec_make_room (unat (cfg_max_total_outcome_bytes (abs_config a)) - length out) (abs_queue a1)"
  have c: "spec_complete key fp out a1 =
      (Inr CompleteCompleted, a1\<lparr>abs_queue := set_completed key out ?q2\<rparr>)"
    using mo out by (simp add: spec_complete_def a1_def)
  have "\<forall>x \<in> set ?q2. fst x \<noteq> key \<longrightarrow> entry_done x"
    using make_room_keeps(3) [OF dist] q(3) a by (fastforce simp: a1_def done_table_def)
  moreover have "map fst (set_completed key out ?q2) = map fst ?q2"
    by (auto simp: set_completed_def)
  ultimately show ?thesis
    using step b c a make_room_keeps(1) [OF dist] set_completed_done
    by (auto simp: spec_restore_def restored_def done_table_def a1_def)
qed

section \<open>Properties\<close>

text \<open>C5: A run of any operations on a new table returns exactly what the bounded
  first-in-first-out queue of the specification returns, and ends in the state the queue stands
  for. \<close>

theorem dedup_refines_bounded_queue:
  assumes "config_ok cfg" and "list_all dedup_op_ok ops"
  shows "run_ops spec_step ops (abs_table_of (dedup_new cfg)) =
    map_prod id abs_table_of (run_ops dedup_step ops (dedup_new cfg))"
  using dedup.run_refines [OF dedup_inv_new] assms by blast

definition sample_key :: "u8 \<Rightarrow> dedup_key" where
  "sample_key b = DedupKey (ClusterId (replicate 15 0 @ [1])) (NodeId ''source'')
     (MessageId (replicate 15 0 @ [b]))"

definition sample_config :: dedup_config where
  "sample_config = \<lparr>cfg_max_entries = 2, cfg_max_outcome_bytes = 16,
     cfg_max_total_outcome_bytes = 65536\<rparr>"

definition sample_print :: "u8 \<Rightarrow> semantic_fingerprint" where
  "sample_print b = SemanticFingerprint (replicate 31 0 @ [b])"

lemma sample_config_ok: "config_ok sample_config"
  by (simp add: config_ok_def sample_config_def)

theorem dedup_refines_bounded_queue_witness:
  "run_ops spec_step [OpBegin (sample_key 1) (sample_print 1),
       OpComplete (sample_key 1) (sample_print 1) [7]] (abs_table_of (dedup_new sample_config)) =
    map_prod id abs_table_of (run_ops dedup_step [OpBegin (sample_key 1) (sample_print 1),
       OpComplete (sample_key 1) (sample_print 1) [7]] (dedup_new sample_config))"
  by (rule dedup_refines_bounded_queue) (simp_all add: sample_config_ok)

text \<open>C6: After any operations the table holds at most \<open>max_entries\<close> entries, retains at most
  \<open>max_total_outcome_bytes\<close> bytes, stores no outcome above \<open>max_outcome_bytes\<close>, and its queue,
  map and byte counter agree. \<close>

theorem dedup_always_bounded:
  assumes "config_ok cfg" and "list_all dedup_op_ok ops"
    and "t = snd (run_ops dedup_step ops (dedup_new cfg))"
  shows "dt_config t = cfg \<and> dedup_wf t \<and> dedup_len t \<le> unat (cfg_max_entries cfg) \<and>
    dt_retained_outcome_bytes t \<le> ucast (cfg_max_total_outcome_bytes cfg) \<and>
    (\<forall>k e out. fmlookup (dt_entries t) k = Some e \<longrightarrow> ent_state e = Completed out \<longrightarrow>
       length out \<le> unat (cfg_max_outcome_bytes cfg))"
proof -
  have "dedup_inv t" and "dt_config t = dt_config (dedup_new cfg)"
    using dedup.run_inv [OF dedup_inv_new] dedup_run_config [OF dedup_inv_new] assms by simp_all
  then show ?thesis by (simp add: dedup_inv_def dedup_bounded_def dedup_new_def)
qed

theorem dedup_always_bounded_witness:
  "dedup_len (snd (run_ops dedup_step [OpBegin (sample_key 1) (sample_print 1),
     OpRestore (sample_key 2) (sample_print 2) [7]] (dedup_new sample_config)))
    \<le> unat (cfg_max_entries sample_config)"
  using dedup_always_bounded [OF sample_config_ok _ refl,
      of "[OpBegin (sample_key 1) (sample_print 1), OpRestore (sample_key 2) (sample_print 2) [7]]"]
  by (simp del: run_ops.simps)

text \<open>A reservation is never evicted: whatever operation runs on another key, an entry in
  flight stays in flight with its fingerprint. \<close>

lemma dedup_reservation_protected:
  assumes inv: "dedup_inv t" and ok: "dedup_op_ok op" and other: "op_key op \<noteq> k"
    and e: "fmlookup (dt_entries t) k = Some e" "ent_state e = InFlight"
  shows "\<exists>e'. fmlookup (dt_entries (snd (dedup_step op t))) k = Some e' \<and>
    ent_fingerprint e' = ent_fingerprint e \<and> ent_state e' = InFlight"
proof -
  have "map_of (abs_queue (abs_table_of t)) k = Some (ent_fingerprint e, InFlight)"
    using inv e by (simp add: abs_table_of_def map_of_queue_of dedup_inv_def)
  then have "map_of (abs_queue (snd (spec_step op (abs_table_of t)))) k =
      Some (ent_fingerprint e, InFlight)"
    using inv other
    by (intro spec_step_keeps_reserved) (simp_all add: abs_table_of_def dedup_inv_distinct)
  then have "map_of (queue_of (snd (dedup_step op t))) k = Some (ent_fingerprint e, InFlight)"
    using dedup.step_refines [OF inv ok] by (simp add: abs_table_of_def)
  moreover have "dedup_wf (snd (dedup_step op t))"
    using dedup.step_inv [OF inv ok] by (simp add: dedup_inv_def)
  ultimately show ?thesis by (auto simp: map_of_queue_of)
qed

lemma begin_sample:
  "dedup_begin (sample_key 1) (sample_print 1) (dedup_new sample_config) =
   (Inr BeginNew,
    \<lparr>dt_config = sample_config,
     dt_entries = fmupd (sample_key 1) \<lparr>ent_fingerprint = sample_print 1,
       ent_insertion_sequence = 1, ent_state = InFlight\<rparr> fmempty,
     dt_insertion_order = [(1, sample_key 1)], dt_retained_outcome_bytes = 0,
     dt_last_insertion_sequence = 1\<rparr>)"
  by (simp add: dedup_begin_def dedup_new_def evict_for_entry.simps sample_config_def
      dedup_len_def checked_add_def fcard_fempty)

lemma reserved_sample:
  "dedup_inv (snd (dedup_begin (sample_key 1) (sample_print 1) (dedup_new sample_config)))"
  "fmlookup (dt_entries (snd (dedup_begin (sample_key 1) (sample_print 1)
     (dedup_new sample_config)))) (sample_key 1) =
     Some \<lparr>ent_fingerprint = sample_print 1, ent_insertion_sequence = 1, ent_state = InFlight\<rparr>"
  using dedup_begin_refines [OF dedup_inv_new [OF sample_config_ok]]
  by (blast, simp add: begin_sample)

text \<open>C7: Once an outcome is recorded, a duplicate of the message replays exactly those bytes, the
  same key with another fingerprint is a conflict, and neither changes the table. \<close>

theorem dedup_replays_recorded_outcome:
  assumes inv: "dedup_inv t" and len: "length out < 2 ^ 64"
    and fin: "dedup_complete key fp out t = (Inr CompleteCompleted, t')"
  shows "dedup_begin key fp' t' = (Inr (if fp' = fp then BeginReplay out else BeginConflict), t')"
proof -
  have "dedup_inv t'" and spec: "spec_complete key fp out (abs_table_of t) =
      (Inr CompleteCompleted, abs_table_of t')"
    using dedup_complete_refines [OF inv len, of key fp] fin by simp_all
  then have "dedup_wf t'" by (simp add: dedup_inv_def)
  have "map_of (abs_queue (abs_table_of t')) key = Some (fp, Completed out)"
    by (rule spec_complete_stores [OF spec]) (simp add: abs_table_of_def dedup_inv_distinct [OF inv])
  then show ?thesis
    using \<open>dedup_wf t'\<close>
    by (auto simp: abs_table_of_def map_of_queue_of dedup_begin_def)
qed

lemma complete_sample:
  "dedup_complete (sample_key 1) (sample_print 1) [7]
     (snd (dedup_begin (sample_key 1) (sample_print 1) (dedup_new sample_config))) =
   (Inr CompleteCompleted, snd (dedup_complete (sample_key 1) (sample_print 1) [7]
     (snd (dedup_begin (sample_key 1) (sample_print 1) (dedup_new sample_config)))))"
  unfolding begin_sample
  by (simp add: sample_config_def dedup_complete_def evict_for_outcome.simps
      over_total_def len64_def checked_add_def)

theorem dedup_replays_recorded_outcome_witness:
  "fst (dedup_begin (sample_key 1) (sample_print 1) (snd (dedup_complete (sample_key 1) (sample_print 1)
     [7] (snd (dedup_begin (sample_key 1) (sample_print 1) (dedup_new sample_config)))))) =
   Inr (BeginReplay [7])"
  using dedup_replays_recorded_outcome [OF reserved_sample(1) _ complete_sample, of "sample_print 1"]
  by simp

text \<open>A reservation whose outcome respects the per-outcome limit is always completed: room is
  made by evicting other entries, and the total limit never rejects it. \<close>

lemma dedup_complete_always_stores:
  assumes inv: "dedup_inv t"
    and e: "fmlookup (dt_entries t) key = Some e" "ent_fingerprint e = fp" "ent_state e = InFlight"
    and len: "length out \<le> unat (cfg_max_outcome_bytes (dt_config t))"
  shows "\<exists>t'. dedup_complete key fp out t = (Inr CompleteCompleted, t') \<and>
    map_option ent_state (fmlookup (dt_entries t') key) = Some (Completed out)"
proof -
  have "unat (cfg_max_outcome_bytes (dt_config t)) < 2 ^ LENGTH(32)" by (rule unsigned_less)
  then have len64: "length out < 2 ^ 64" using len by simp
  obtain r t' where c: "dedup_complete key fp out t = (r, t')" by fastforce
  have wf': "dedup_wf t'" and spec: "spec_complete key fp out (abs_table_of t) = (r, abs_table_of t')"
    using dedup_complete_refines [OF inv len64, of key fp] c by (simp_all add: dedup_inv_def)
  have q: "map_of (queue_of t) key = Some (fp, InFlight)"
    using inv e by (simp add: map_of_queue_of dedup_inv_def)
  have r: "r = Inr CompleteCompleted"
    using spec q len by (simp add: spec_complete_def abs_table_of_def)
  have "map_of (abs_queue (abs_table_of t')) key = Some (fp, Completed out)"
    by (rule spec_complete_stores [OF spec [unfolded r]])
      (simp add: abs_table_of_def dedup_inv_distinct [OF inv])
  with r c wf' show ?thesis by (auto simp: abs_table_of_def map_of_queue_of)
qed

lemma restore_run_done:
  assumes "dedup_inv t" and "done_table (abs_table_of t)"
    and "unat (dt_last_insertion_sequence t) + length recs < 2 ^ 64"
    and "\<forall>(k, fp, out) \<in> set recs. length out \<le> unat (cfg_max_outcome_bytes (dt_config t))"
  shows "(\<forall>r \<in> set (fst (run_ops dedup_step (map (\<lambda>(k, fp, out). OpRestore k fp out) recs) t)).
        \<exists>r'. r = ResRestore r' \<and> restored r') \<and>
    done_table (abs_table_of (snd (run_ops dedup_step (map (\<lambda>(k, fp, out). OpRestore k fp out) recs) t)))"
  using assms
proof (induction recs arbitrary: t)
  case (Cons x recs)
  obtain k fp out where x: "x = (k, fp, out)" by (cases x)
  obtain r t' where c: "restore_completed k fp out t = (r, t')" by fastforce
  have "unat (cfg_max_outcome_bytes (dt_config t)) < 2 ^ LENGTH(32)" by (rule unsigned_less)
  then have len: "length out < 2 ^ 64" using Cons.prems x by simp
  have inv': "dedup_inv t'" and spec: "spec_restore k fp out (abs_table_of t) = (r, abs_table_of t')"
    using dedup_restore_refines [OF Cons.prems(1) len, of k fp] c by simp_all
  have step: "restored r \<and> done_table (abs_table_of t') \<and>
      abs_config (abs_table_of t') = abs_config (abs_table_of t) \<and>
      abs_admitted (abs_table_of t') \<le> abs_admitted (abs_table_of t) + 1"
    using Cons.prems x
    by (intro spec_restore_done [OF _ _ _ spec]) (simp_all add: abs_table_of_def)
  then have "dt_config t' = dt_config t"
    and "unat (dt_last_insertion_sequence t') \<le> unat (dt_last_insertion_sequence t) + 1"
    by (simp_all add: abs_table_of_def)
  with Cons.IH [OF inv'] Cons.prems step x c show ?case by (simp add: split_beta)
qed simp

text \<open>C8: Recovery never fails for lack of room: restoring any sequence of recorded outcomes into a
  new table succeeds for each of them, evicting older outcomes, and leaves no reservation. \<close>

theorem dedup_recovery_restores_everything:
  assumes "config_ok cfg" and "length recs < 2 ^ 64"
    and "\<forall>(k, fp, out) \<in> set recs. length out \<le> unat (cfg_max_outcome_bytes cfg)"
    and "run_ops dedup_step (map (\<lambda>(k, fp, out). OpRestore k fp out) recs) (dedup_new cfg) = (rs, t)"
  shows "(\<forall>r \<in> set rs. \<exists>r'. r = ResRestore r' \<and> restored r') \<and>
    (\<forall>k e. fmlookup (dt_entries t) k = Some e \<longrightarrow> is_completed (ent_state e))"
proof -
  let ?ops = "map (\<lambda>(k, fp, out). OpRestore k fp out) recs"
  have done_new: "done_table (abs_table_of (dedup_new cfg))"
    using assms(1) by (simp add: done_table_def abs_table_of_def queue_of_def dedup_new_def)
  have main: "(\<forall>r \<in> set rs. \<exists>r'. r = ResRestore r' \<and> restored r') \<and> done_table (abs_table_of t)"
    using restore_run_done [OF dedup_inv_new [OF assms(1)] done_new, of recs] assms(2-4)
    by (simp add: dedup_new_def)
  have small: "length out < 2 ^ 64" if "(k, fp, out) \<in> set recs" for k fp out
  proof -
    have "unat (cfg_max_outcome_bytes cfg) < 2 ^ LENGTH(32)" by (rule unsigned_less)
    with assms(3) that show ?thesis by fastforce
  qed
  have "list_all dedup_op_ok ?ops" using small by (auto simp: list_all_iff)
  then have "dedup_wf t"
    using dedup.run_inv [OF dedup_inv_new [OF assms(1)], of ?ops] assms(4)
    by (simp add: dedup_inv_def)
  then have "is_completed (ent_state e)" if "fmlookup (dt_entries t) k = Some e" for k e
    using main that map_of_queue_of [of t k]
    by (auto simp: done_table_def abs_table_of_def entry_done_def dest: map_of_SomeD)
  with main show ?thesis by blast
qed

theorem dedup_recovery_restores_everything_witness:
  "list_all (\<lambda>r. \<exists>r'. r = ResRestore r' \<and> restored r')
     (fst (run_ops dedup_step [OpRestore (sample_key 1) (sample_print 1) [7],
       OpRestore (sample_key 2) (sample_print 2) [8], OpRestore (sample_key 3) (sample_print 3) [9]]
       (dedup_new sample_config)))"
  using dedup_recovery_restores_everything [OF sample_config_ok _ _ surjective_pairing,
      of "[(sample_key 1, sample_print 1, [7]), (sample_key 2, sample_print 2, [8]),
           (sample_key 3, sample_print 3, [9])]"]
  by (simp add: sample_config_def list_all_iff del: run_ops.simps dedup_step.simps)

end
