(* ===== verification/Wal_Format.thy ===== *)
theory Wal_Format
  imports Iron_Id
begin

text \<open>
  The frame format of \<open>iron-wal\<close> (\<open>format.rs\<close>, with the errors of \<open>error.rs\<close> and the
  record types of \<open>record.rs\<close>).

  \<open>crc32c\<close> is a crate that is not part of the repository: it is the parameter \<open>crc\<close> of every
  definition that computes a checksum. File offsets and lengths, \<open>u64\<close> in the code, are
  \<open>nat\<close> here, with the checked additions of the code written out as \<open>checked_add64\<close>.
\<close>

section \<open>Errors (error.rs)\<close>

datatype io_error = IoError nat | UnexpectedEof

datatype corruption_kind =
    BadMagic
  | HeaderChecksum
  | PayloadChecksum
  | LengthMismatch
  | ZeroRecordMetadata
  | LsnSequence u64 u64

datatype unsupported_field = FieldFormatVersion | FieldHeaderLength | FieldFlags

datatype wal_error =
    AlreadyOpen
  | WalIo string io_error
  | UnsupportedFormat nat unsupported_field u64
  | Corruption nat "lsn option" corruption_kind
  | TornTail nat nat "lsn option"
  | RecordTooLarge u64 u32
  | OnDiskRecordTooLarge nat u32 u32
  | ZeroRecordKind
  | LsnExhausted
  | Poisoned

section \<open>Records (record.rs)\<close>

record wal_record_input =
  inp_record_kind :: u16
  inp_schema_version :: schema_version
  inp_payload :: bytes

definition wal_record_input_new ::
  "u16 \<Rightarrow> schema_version \<Rightarrow> bytes \<Rightarrow> wal_error + wal_record_input" where
  "wal_record_input_new kind schema payload =
     (if kind = 0 then Inl ZeroRecordKind
      else Inr \<lparr>inp_record_kind = kind, inp_schema_version = schema, inp_payload = payload\<rparr>)"

record wal_record =
  rec_lsn :: lsn
  rec_record_kind :: u16
  rec_schema_version :: schema_version
  rec_payload :: bytes

definition from_validated :: "lsn \<Rightarrow> u16 \<Rightarrow> schema_version \<Rightarrow> bytes \<Rightarrow> wal_record" where
  "from_validated l kind schema payload =
     \<lparr>rec_lsn = l, rec_record_kind = kind, rec_schema_version = schema, rec_payload = payload\<rparr>"

record tail_repair_report =
  repair_offset :: nat
  repair_bytes_removed :: nat
  repair_last_valid_lsn :: "lsn option"

record replay_report =
  report_record_count :: nat
  report_last_lsn :: "lsn option"
  report_durable_file_length :: nat
  report_tail_repair :: "tail_repair_report option"

record replay =
  replay_records :: "wal_record list"
  replay_report :: replay_report

record append_outcome =
  outcome_lsn :: lsn
  outcome_durable_through :: "lsn option"

section \<open>Frames (format.rs)\<close>

definition checked_add64 :: "nat \<Rightarrow> nat \<Rightarrow> nat option" where
  "checked_add64 a b = (if a + b < 2 ^ 64 then Some (a + b) else None)"

definition MAGIC :: bytes where "MAGIC = [73, 67, 87, 76]"
definition FORMAT_VERSION :: u16 where "FORMAT_VERSION = 1"
definition HEADER_LEN :: nat where "HEADER_LEN = 40"
definition HEADER_LEN_U16 :: u16 where "HEADER_LEN_U16 = 40"
definition HEADER_LEN_U32 :: u32 where "HEADER_LEN_U32 = 40"
definition FLAGS_V1 :: u32 where "FLAGS_V1 = 0"

lemmas frame_constants = MAGIC_def FORMAT_VERSION_def HEADER_LEN_def HEADER_LEN_U16_def
  HEADER_LEN_U32_def FLAGS_V1_def

record decoded_header =
  dh_total_frame_len :: u32
  dh_lsn_raw :: u64
  dh_record_kind :: u16
  dh_schema_version_raw :: u16
  dh_payload_len :: u32
  dh_payload_crc32c :: u32

text \<open>The first 36 bytes of a frame, which the header checksum covers.\<close>

definition frame_prefix :: "u32 \<Rightarrow> u64 \<Rightarrow> u16 \<Rightarrow> u16 \<Rightarrow> u32 \<Rightarrow> u32 \<Rightarrow> bytes" where
  "frame_prefix total_frame_len lsn_raw kind schema payload_len payload_crc =
     MAGIC @ be16 FORMAT_VERSION @ be16 HEADER_LEN_U16 @ be32 total_frame_len @ be32 FLAGS_V1 @
     be64 lsn_raw @ be16 kind @ be16 schema @ be32 payload_len @ be32 payload_crc"

definition encode_frame ::
  "(bytes \<Rightarrow> u32) \<Rightarrow> lsn \<Rightarrow> wal_record_input \<Rightarrow> wal_error + bytes" where
  "encode_frame crc l r =
     (let payload = inp_payload r; maximum = - 1 - HEADER_LEN_U32
      in if length payload \<ge> 2 ^ 32 then Inl (RecordTooLarge (len64 payload) maximum)
         else let payload_len = word_of_nat (length payload) in
           (case checked_add HEADER_LEN_U32 payload_len of
              None \<Rightarrow> Inl (RecordTooLarge (ucast payload_len) maximum)
            | Some total_frame_len \<Rightarrow>
                let prefix = frame_prefix total_frame_len (lsn_get l) (inp_record_kind r)
                      (schema_get (inp_schema_version r)) payload_len (crc payload)
                in Inr (prefix @ be32 (crc prefix) @ payload)))"

definition read_u16 :: "bytes \<Rightarrow> nat \<Rightarrow> u16" where
  "read_u16 bs offset = from_be16 (take 2 (drop offset bs))"

definition read_u32 :: "bytes \<Rightarrow> nat \<Rightarrow> u32" where
  "read_u32 bs offset = from_be32 (take 4 (drop offset bs))"

definition read_u64 :: "bytes \<Rightarrow> nat \<Rightarrow> u64" where
  "read_u64 bs offset = from_be64 (take 8 (drop offset bs))"

definition decode_header ::
  "(bytes \<Rightarrow> u32) \<Rightarrow> bytes \<Rightarrow> nat \<Rightarrow> lsn option \<Rightarrow> wal_error + decoded_header" where
  "decode_header crc header offset last_valid_lsn =
     (if take 4 header \<noteq> MAGIC then Inl (Corruption offset last_valid_lsn BadMagic)
      else if read_u32 header 36 \<noteq> crc (take 36 header)
        then Inl (Corruption offset last_valid_lsn HeaderChecksum)
      else if read_u16 header 4 \<noteq> FORMAT_VERSION
        then Inl (UnsupportedFormat offset FieldFormatVersion (ucast (read_u16 header 4)))
      else if read_u16 header 6 \<noteq> HEADER_LEN_U16
        then Inl (UnsupportedFormat offset FieldHeaderLength (ucast (read_u16 header 6)))
      else if read_u32 header 12 \<noteq> FLAGS_V1
        then Inl (UnsupportedFormat offset FieldFlags (ucast (read_u32 header 12)))
      else (case checked_add HEADER_LEN_U32 (read_u32 header 28) of
              None \<Rightarrow> Inl (Corruption offset last_valid_lsn LengthMismatch)
            | Some expected_frame_len \<Rightarrow>
                if read_u32 header 8 \<noteq> expected_frame_len
                then Inl (Corruption offset last_valid_lsn LengthMismatch)
                else if read_u16 header 24 = 0 \<or> read_u16 header 26 = 0
                then Inl (Corruption offset last_valid_lsn ZeroRecordMetadata)
                else Inr \<lparr>dh_total_frame_len = read_u32 header 8, dh_lsn_raw = read_u64 header 16,
                          dh_record_kind = read_u16 header 24,
                          dh_schema_version_raw = read_u16 header 26,
                          dh_payload_len = read_u32 header 28,
                          dh_payload_crc32c = read_u32 header 32\<rparr>))"

definition validate_payload_checksum ::
  "(bytes \<Rightarrow> u32) \<Rightarrow> bytes \<Rightarrow> u32 \<Rightarrow> nat \<Rightarrow> lsn option \<Rightarrow> wal_error + unit" where
  "validate_payload_checksum crc payload expected offset last_valid_lsn =
     (if crc payload \<noteq> expected then Inl (Corruption offset last_valid_lsn PayloadChecksum)
      else Inr ())"

definition validate_lsn :: "u64 \<Rightarrow> lsn option \<Rightarrow> nat \<Rightarrow> wal_error + lsn" where
  "validate_lsn actual last_valid_lsn offset =
     and_then (case last_valid_lsn of
                 Some previous \<Rightarrow> ok_or (checked_successor previous) LsnExhausted
               | None \<Rightarrow> Inr LSN_FIRST)
       (\<lambda>expected.
          if actual \<noteq> lsn_get expected
          then Inl (Corruption offset last_valid_lsn (LsnSequence (lsn_get expected) actual))
          else Inr expected)"

definition decode_schema_version ::
  "u16 \<Rightarrow> nat \<Rightarrow> lsn option \<Rightarrow> wal_error + schema_version" where
  "decode_schema_version raw offset last_valid_lsn =
     (case schema_version_new raw of
        Inl _ \<Rightarrow> Inl (Corruption offset last_valid_lsn ZeroRecordMetadata)
      | Inr v \<Rightarrow> Inr v)"

section \<open>Encoding and decoding agree\<close>

lemma length_frame_prefix [simp]: "length (frame_prefix t l k s p c) = 36"
  by (simp add: frame_prefix_def MAGIC_def)

lemma read_frame_prefix [simp]:
  "take 4 (frame_prefix t l k s p c) = MAGIC"
  "read_u16 (frame_prefix t l k s p c @ rest) 4 = FORMAT_VERSION"
  "read_u16 (frame_prefix t l k s p c @ rest) 6 = HEADER_LEN_U16"
  "read_u32 (frame_prefix t l k s p c @ rest) 8 = t"
  "read_u32 (frame_prefix t l k s p c @ rest) 12 = FLAGS_V1"
  "read_u64 (frame_prefix t l k s p c @ rest) 16 = l"
  "read_u16 (frame_prefix t l k s p c @ rest) 24 = k"
  "read_u16 (frame_prefix t l k s p c @ rest) 26 = s"
  "read_u32 (frame_prefix t l k s p c @ rest) 28 = p"
  "read_u32 (frame_prefix t l k s p c @ rest) 32 = c"
  "read_u32 (frame_prefix t l k s p c @ be32 x) 36 = x"
  "take 36 (frame_prefix t l k s p c @ rest) = frame_prefix t l k s p c"
  by (simp_all add: read_u16_def read_u32_def read_u64_def frame_prefix_def MAGIC_def)

text \<open>The header of a record, when it can be encoded.\<close>

definition header_of :: "(bytes \<Rightarrow> u32) \<Rightarrow> lsn \<Rightarrow> wal_record_input \<Rightarrow> decoded_header" where
  "header_of crc l r =
     \<lparr>dh_total_frame_len = HEADER_LEN_U32 + word_of_nat (length (inp_payload r)),
      dh_lsn_raw = lsn_get l, dh_record_kind = inp_record_kind r,
      dh_schema_version_raw = schema_get (inp_schema_version r),
      dh_payload_len = word_of_nat (length (inp_payload r)),
      dh_payload_crc32c = crc (inp_payload r)\<rparr>"

definition header_bytes :: "(bytes \<Rightarrow> u32) \<Rightarrow> decoded_header \<Rightarrow> bytes" where
  "header_bytes crc d =
     (let prefix = frame_prefix (dh_total_frame_len d) (dh_lsn_raw d) (dh_record_kind d)
            (dh_schema_version_raw d) (dh_payload_len d) (dh_payload_crc32c d)
      in prefix @ be32 (crc prefix))"

lemma length_header_bytes [simp]: "length (header_bytes crc d) = 40"
  by (simp add: header_bytes_def Let_def)

lemma checked_header_len:
  "checked_add HEADER_LEN_U32 p = Some t \<longleftrightarrow> unat t = 40 + unat p"
  by (simp add: checked_add_Some_iff HEADER_LEN_U32_def)

lemma encode_frame_Inr_iff [result_iff]:
  "encode_frame crc l r = Inr frame \<longleftrightarrow>
     length (inp_payload r) + 40 < 2 ^ 32 \<and> frame = header_bytes crc (header_of crc l r) @ inp_payload r"
proof -
  have "unat (word_of_nat (length (inp_payload r)) :: u32) = length (inp_payload r)"
    if "length (inp_payload r) < 2 ^ 32"
    using that by (simp add: unat_of_nat)
  then show ?thesis
    by (auto simp: encode_frame_def Let_def checked_add_def HEADER_LEN_U32_def header_bytes_def
        header_of_def)
qed

definition header_valid :: "decoded_header \<Rightarrow> bool" where
  "header_valid d \<longleftrightarrow> unat (dh_total_frame_len d) = 40 + unat (dh_payload_len d) \<and>
     dh_record_kind d \<noteq> 0 \<and> dh_schema_version_raw d \<noteq> 0"

lemma decode_header_bytes:
  "header_valid d \<Longrightarrow> decode_header crc (header_bytes crc d) offset prev = Inr d"
  using checked_header_len [of "dh_payload_len d" "dh_total_frame_len d"]
  by (simp add: decode_header_def header_bytes_def Let_def header_valid_def)

lemma split_at: "xs = take n xs @ drop n xs"
  by simp

lemma header_split:
  assumes "length header = 40"
  shows "header = take 4 header @ be16 (read_u16 header 4) @ be16 (read_u16 header 6) @
    be32 (read_u32 header 8) @ be32 (read_u32 header 12) @ be64 (read_u64 header 16) @
    be16 (read_u16 header 24) @ be16 (read_u16 header 26) @ be32 (read_u32 header 28) @
    be32 (read_u32 header 32) @ be32 (read_u32 header 36)"
proof -
  have part: "drop n header = take k (drop n header) @ drop (n + k) header" for n k
    by (simp flip: drop_drop add: add.commute)
  have "header = take 4 header @ drop 4 header" by simp
  also have "drop 4 header = take 2 (drop 4 header) @ take 2 (drop 6 header) @
      take 4 (drop 8 header) @ take 4 (drop 12 header) @ take 8 (drop 16 header) @
      take 2 (drop 24 header) @ take 2 (drop 26 header) @ take 4 (drop 28 header) @
      take 4 (drop 32 header) @ take 4 (drop 36 header) @ drop 40 header"
    using part [of 4 2] part [of 6 2] part [of 8 4] part [of 12 4] part [of 16 8] part [of 24 2]
      part [of 26 2] part [of 28 4] part [of 32 4] part [of 36 4]
    by simp
  finally show ?thesis
    using assms by (simp add: read_u16_def read_u32_def read_u64_def be_from_be)
qed

lemma decode_header_Inr:
  assumes "decode_header crc header offset prev = Inr d" and "length header = 40"
  shows "header_valid d \<and> header = header_bytes crc d"
proof -
  have ok: "take 4 header = MAGIC" "read_u32 header 36 = crc (take 36 header)"
    "read_u16 header 4 = FORMAT_VERSION" "read_u16 header 6 = HEADER_LEN_U16"
    "read_u32 header 12 = FLAGS_V1" and d: "d = \<lparr>dh_total_frame_len = read_u32 header 8,
      dh_lsn_raw = read_u64 header 16, dh_record_kind = read_u16 header 24,
      dh_schema_version_raw = read_u16 header 26, dh_payload_len = read_u32 header 28,
      dh_payload_crc32c = read_u32 header 32\<rparr>"
    and "checked_add HEADER_LEN_U32 (read_u32 header 28) = Some (read_u32 header 8)"
    and "read_u16 header 24 \<noteq> 0" "read_u16 header 26 \<noteq> 0"
    using assms(1) by (auto simp: decode_header_def split: if_splits option.splits)
  then have "header_valid d" by (simp add: header_valid_def checked_header_len)
  moreover have split: "header = frame_prefix (dh_total_frame_len d) (dh_lsn_raw d)
      (dh_record_kind d) (dh_schema_version_raw d) (dh_payload_len d) (dh_payload_crc32c d) @
      be32 (crc (take 36 header))"
    using header_split [OF assms(2)] ok unfolding d frame_prefix_def by simp
  moreover from arg_cong [OF split, of "take 36"]
  have "take 36 header = frame_prefix (dh_total_frame_len d) (dh_lsn_raw d)
      (dh_record_kind d) (dh_schema_version_raw d) (dh_payload_len d) (dh_payload_crc32c d)"
    by simp
  ultimately show ?thesis by (simp add: header_bytes_def Let_def)
qed

lemma header_valid_header_of:
  assumes "length (inp_payload r) + 40 < 2 ^ 32" and "inp_record_kind r \<noteq> 0"
    and "schema_ok (inp_schema_version r)"
  shows "header_valid (header_of crc l r)"
    and "unat (dh_payload_len (header_of crc l r)) = length (inp_payload r)"
    and "unat (dh_total_frame_len (header_of crc l r)) = 40 + length (inp_payload r)"
proof -
  have n: "unat (word_of_nat (length (inp_payload r)) :: u32) = length (inp_payload r)"
    using assms(1) by (simp add: unat_of_nat)
  then have "unat (40 + word_of_nat (length (inp_payload r)) :: u32) = 40 + length (inp_payload r)"
    using assms(1) by (simp add: unat_word_ariths)
  with n assms(2,3) show "header_valid (header_of crc l r)"
    and "unat (dh_payload_len (header_of crc l r)) = length (inp_payload r)"
    and "unat (dh_total_frame_len (header_of crc l r)) = 40 + length (inp_payload r)"
    by (simp_all add: header_valid_def header_of_def HEADER_LEN_U32_def schema_ok_def)
qed

lemma decode_schema_version_Inr_iff [result_iff]:
  "decode_schema_version raw offset prev = Inr v \<longleftrightarrow> raw \<noteq> 0 \<and> v = SchemaVersion raw"
  by (auto simp: decode_schema_version_def schema_version_new_def nonzero_new_def)

text \<open>The LSN after \<open>prev\<close>, as the reader checks it and the writer assigns it.\<close>

definition next_lsn :: "lsn option \<Rightarrow> lsn option" where
  "next_lsn prev = (case prev of Some previous \<Rightarrow> checked_successor previous | None \<Rightarrow> Some LSN_FIRST)"

lemma validate_lsn_Inr_iff [result_iff]:
  "validate_lsn raw prev offset = Inr l \<longleftrightarrow> next_lsn prev = Some l \<and> raw = lsn_get l"
  by (auto simp: validate_lsn_def next_lsn_def result_iff split: option.split)

lemma validate_payload_checksum_Inr_iff [result_iff]:
  "validate_payload_checksum crc payload expected offset prev = Inr u \<longleftrightarrow> crc payload = expected"
  by (simp add: validate_payload_checksum_def)

end
