(* ===== verification/Wal_Io.thy ===== *)
theory Wal_Io
  imports Wal_Format
begin

text \<open>
  The file behind a log: the operations of the trait \<open>WalIo\<close> (\<open>iron-wal/src/writer.rs\<close>) and
  of \<open>std::io\<close> that the reader and the writer call on it.

  The file is its contents, the cursor, the contents that the last successful \<open>sync_data\<close> put on
  stable storage, and the faults still to come: each call takes the next one from \<open>io_script\<close>,
  so a script describes any interleaving of failures and an empty script a healthy device. A failed
  \<open>write_all\<close> leaves the given number of bytes of its buffer in the file. Every other failed call
  has no effect.
\<close>

record wal_file =
  io_bytes :: bytes
  io_pos :: nat
  io_synced :: bytes
  io_script :: "(io_error \<times> nat) option list"

definition healthy :: "wal_file \<Rightarrow> bool" where
  "healthy f \<longleftrightarrow> io_script f = []"

definition io_decide :: "wal_file \<Rightarrow> (io_error \<times> nat) option \<times> wal_file" where
  "io_decide f =
     (case io_script f of
        [] \<Rightarrow> (None, f)
      | fault # faults \<Rightarrow> (fault, f\<lparr>io_script := faults\<rparr>))"

definition io_call :: "(wal_file \<Rightarrow> (io_error + 'a) \<times> wal_file) \<Rightarrow> wal_file \<Rightarrow> (io_error + 'a) \<times> wal_file"
  where "io_call action f =
     (case io_decide f of
        (Some (e, _), f') \<Rightarrow> (Inl e, f')
      | (None, f') \<Rightarrow> action f')"

definition file_len :: "wal_file \<Rightarrow> (io_error + nat) \<times> wal_file" where
  "file_len = io_call (\<lambda>f. (Inr (length (io_bytes f)), f))"

definition seek_start :: "nat \<Rightarrow> wal_file \<Rightarrow> (io_error + unit) \<times> wal_file" where
  "seek_start pos = io_call (\<lambda>f. (Inr (), f\<lparr>io_pos := pos\<rparr>))"

definition read_exact :: "nat \<Rightarrow> wal_file \<Rightarrow> (io_error + bytes) \<times> wal_file" where
  "read_exact n = io_call (\<lambda>f.
     if io_pos f + n \<le> length (io_bytes f)
     then (Inr (take n (drop (io_pos f) (io_bytes f))), f\<lparr>io_pos := io_pos f + n\<rparr>)
     else (Inl UnexpectedEof, f\<lparr>io_pos := max (io_pos f) (length (io_bytes f))\<rparr>))"

text \<open>Writing at the cursor overwrites, extends, and fills a gap before the cursor with zeros.\<close>

definition overwrite :: "bytes \<Rightarrow> nat \<Rightarrow> bytes \<Rightarrow> bytes" where
  "overwrite old pos new =
     take pos old @ replicate (pos - length old) 0 @ new @ drop (pos + length new) old"

definition put_bytes :: "bytes \<Rightarrow> wal_file \<Rightarrow> wal_file" where
  "put_bytes buf f =
     f\<lparr>io_bytes := overwrite (io_bytes f) (io_pos f) buf, io_pos := io_pos f + length buf\<rparr>"

definition write_all :: "bytes \<Rightarrow> wal_file \<Rightarrow> (io_error + unit) \<times> wal_file" where
  "write_all buf f =
     (case io_decide f of
        (Some (e, n), f') \<Rightarrow> (Inl e, if n = 0 then f' else put_bytes (take n buf) f')
      | (None, f') \<Rightarrow> (Inr (), put_bytes buf f'))"

definition set_len :: "nat \<Rightarrow> wal_file \<Rightarrow> (io_error + unit) \<times> wal_file" where
  "set_len n = io_call (\<lambda>f.
     (Inr (), f\<lparr>io_bytes := take n (io_bytes f) @ replicate (n - length (io_bytes f)) 0\<rparr>))"

definition sync_data :: "wal_file \<Rightarrow> (io_error + unit) \<times> wal_file" where
  "sync_data = io_call (\<lambda>f. (Inr (), f\<lparr>io_synced := io_bytes f\<rparr>))"

lemma io_decide_healthy [simp]: "healthy f \<Longrightarrow> io_decide f = (None, f)"
  by (simp add: io_decide_def healthy_def)

lemma healthy_update [simp]:
  "healthy (f\<lparr>io_bytes := b\<rparr>) = healthy f" "healthy (f\<lparr>io_pos := p\<rparr>) = healthy f"
  "healthy (f\<lparr>io_synced := b\<rparr>) = healthy f"
  by (simp_all add: healthy_def)

text \<open>On a healthy device every call that stays inside the file succeeds.\<close>

lemma io_healthy:
  assumes "healthy f"
  shows "file_len f = (Inr (length (io_bytes f)), f)"
    and "seek_start pos f = (Inr (), f\<lparr>io_pos := pos\<rparr>)"
    and "io_pos f + n \<le> length (io_bytes f) \<Longrightarrow>
      read_exact n f = (Inr (take n (drop (io_pos f) (io_bytes f))), f\<lparr>io_pos := io_pos f + n\<rparr>)"
    and "write_all buf f = (Inr (), put_bytes buf f)"
    and "n \<le> length (io_bytes f) \<Longrightarrow> set_len n f = (Inr (), f\<lparr>io_bytes := take n (io_bytes f)\<rparr>)"
    and "sync_data f = (Inr (), f\<lparr>io_synced := io_bytes f\<rparr>)"
  using assms
  by (simp_all add: io_call_def file_len_def seek_start_def read_exact_def write_all_def
      set_len_def sync_data_def)

text \<open>What each call can do, whatever the faults.\<close>

lemma io_decide_bytes:
  "io_decide f = (d, f') \<Longrightarrow> io_bytes f' = io_bytes f \<and> io_pos f' = io_pos f \<and> io_synced f' = io_synced f"
  by (auto simp: io_decide_def split: list.splits)

lemma file_len_cases:
  assumes "file_len f = (r, f')"
  shows "io_bytes f' = io_bytes f \<and> io_synced f' = io_synced f \<and> io_pos f' = io_pos f \<and>
    (\<forall>n. r = Inr n \<longrightarrow> n = length (io_bytes f))"
  using assms by (auto simp: file_len_def io_call_def dest: io_decide_bytes split: prod.splits option.splits)

lemma seek_start_cases:
  assumes "seek_start p f = (r, f')"
  shows "io_bytes f' = io_bytes f \<and> io_synced f' = io_synced f \<and> (\<forall>u. r = Inr u \<longrightarrow> io_pos f' = p)"
  using assms by (auto simp: seek_start_def io_call_def dest: io_decide_bytes split: prod.splits option.splits)

lemma read_exact_cases:
  assumes "read_exact n f = (r, f')"
  shows "io_bytes f' = io_bytes f \<and> io_synced f' = io_synced f \<and>
    (\<forall>bs. r = Inr bs \<longrightarrow> io_pos f + n \<le> length (io_bytes f) \<and> io_pos f' = io_pos f + n \<and>
       bs = take n (drop (io_pos f) (io_bytes f)))"
  using assms
  by (auto simp: read_exact_def io_call_def dest: io_decide_bytes
      split: prod.splits option.splits if_splits)

lemma set_len_cases:
  assumes "set_len n f = (r, f')"
  shows "io_synced f' = io_synced f \<and>
    io_bytes f' = (if is_ok r then take n (io_bytes f) @ replicate (n - length (io_bytes f)) 0
                   else io_bytes f)"
  using assms by (auto simp: set_len_def io_call_def dest: io_decide_bytes split: prod.splits option.splits)

lemma sync_data_cases:
  assumes "sync_data f = (r, f')"
  shows "io_bytes f' = io_bytes f \<and> io_pos f' = io_pos f \<and>
    io_synced f' = (if is_ok r then io_bytes f else io_synced f)"
  using assms by (auto simp: sync_data_def io_call_def dest: io_decide_bytes split: prod.splits option.splits)

lemma overwrite_end: "overwrite old (length old) new = old @ new"
  by (simp add: overwrite_def)

lemma write_all_cases:
  assumes "write_all buf f = (r, f')" and "io_pos f = length (io_bytes f)"
  shows "io_synced f' = io_synced f \<and>
    (\<exists>n. io_bytes f' = io_bytes f @ take n buf \<and> (is_ok r \<longrightarrow> take n buf = buf))"
proof (cases "io_decide f")
  case (Pair d g)
  with io_decide_bytes [OF Pair] assms show ?thesis
    by (cases d) (auto simp: write_all_def put_bytes_def overwrite_end split: if_splits
        intro: exI [of _ "length buf"] exI [of _ 0])
qed

end
