(* ===== verification/Wal_Reader.thy ===== *)
theory Wal_Reader
  imports Wal_Io
begin

text \<open>
  Recovery of a log (\<open>iron-wal/src/reader.rs\<close>): the scan from byte zero and the treatment of an
  incomplete trailing frame.
\<close>

datatype tail_repair = Reject | Truncate

definition finish_torn_tail ::
  "wal_file \<Rightarrow> wal_record list \<Rightarrow> nat \<Rightarrow> lsn option \<Rightarrow> nat \<Rightarrow> nat \<Rightarrow> tail_repair
   \<Rightarrow> (wal_error + replay) \<times> wal_file" where
  "finish_torn_tail f records record_count last_valid_lsn offset file_length tail_policy =
     (case tail_policy of
        Reject \<Rightarrow> (Inl (TornTail offset file_length last_valid_lsn), f)
      | Truncate \<Rightarrow>
          (case set_len offset f of
             (Inl e, f') \<Rightarrow> (Inl (WalIo ''truncating torn WAL tail'' e), f')
           | (Inr _, f') \<Rightarrow>
               (case sync_data f' of
                  (Inl e, f'') \<Rightarrow> (Inl (WalIo ''synchronizing repaired WAL tail'' e), f'')
                | (Inr _, f'') \<Rightarrow>
                    (Inr \<lparr>replay_records = records,
                          replay_report =
                            \<lparr>report_record_count = record_count,
                             report_last_lsn = last_valid_lsn,
                             report_durable_file_length = offset,
                             report_tail_repair = Some
                               \<lparr>repair_offset = offset,
                                repair_bytes_removed = file_length - offset,
                                repair_last_valid_lsn = last_valid_lsn\<rparr>\<rparr>\<rparr>, f''))))"

text \<open>One turn of the loop up to the push: the frame at \<open>offset\<close> is complete and valid, or it is
  torn.\<close>

datatype scan_step = ScanTorn | ScanRecord wal_record nat

definition scan_frame ::
  "(bytes \<Rightarrow> u32) \<Rightarrow> u32 \<Rightarrow> nat \<Rightarrow> nat \<Rightarrow> lsn option \<Rightarrow> wal_file
   \<Rightarrow> (wal_error + scan_step) \<times> wal_file" where
  "scan_frame crc max_record_bytes file_length offset last_valid_lsn f =
     (if file_length - offset < HEADER_LEN then (Inr ScanTorn, f)
      else case read_exact HEADER_LEN f of
        (Inl e, f) \<Rightarrow> (Inl (WalIo ''reading WAL header'' e), f)
      | (Inr header, f) \<Rightarrow>
          (case decode_header crc header offset last_valid_lsn of
             Inl e \<Rightarrow> (Inl e, f)
           | Inr decoded \<Rightarrow>
               if dh_payload_len decoded > max_record_bytes
               then (Inl (OnDiskRecordTooLarge offset (dh_payload_len decoded) max_record_bytes), f)
               else (case checked_add64 offset (unat (dh_total_frame_len decoded)) of
                  None \<Rightarrow> (Inl (Corruption offset last_valid_lsn LengthMismatch), f)
                | Some frame_end \<Rightarrow>
                    if frame_end > file_length then (Inr ScanTorn, f)
                    else (case read_exact (unat (dh_payload_len decoded)) f of
                       (Inl e, f) \<Rightarrow> (Inl (WalIo ''reading WAL payload'' e), f)
                     | (Inr payload, f) \<Rightarrow>
                         (and_then (validate_payload_checksum crc payload
                              (dh_payload_crc32c decoded) offset last_valid_lsn) (\<lambda>_.
                          and_then (validate_lsn (dh_lsn_raw decoded) last_valid_lsn offset) (\<lambda>l.
                          and_then (decode_schema_version (dh_schema_version_raw decoded) offset
                              last_valid_lsn) (\<lambda>schema_version.
                            Inr (ScanRecord (from_validated l (dh_record_kind decoded)
                                   schema_version payload) frame_end)))), f)))))"

lemma scan_frame_progress:
  "scan_frame crc m file_length offset prev f = (Inr (ScanRecord r frame_end), f') \<Longrightarrow> offset < frame_end"
  by (auto simp: scan_frame_def checked_add64_def result_iff decode_header_def checked_header_len
      HEADER_LEN_U32_def
      split: if_splits prod.splits sum.splits option.splits)

function scan_loop ::
  "(bytes \<Rightarrow> u32) \<Rightarrow> u32 \<Rightarrow> tail_repair \<Rightarrow> nat \<Rightarrow> nat \<Rightarrow> lsn option \<Rightarrow> wal_record list \<Rightarrow> nat
   \<Rightarrow> wal_file \<Rightarrow> (wal_error + replay) \<times> wal_file" where
  "scan_loop crc max_record_bytes tail_policy file_length offset last_valid_lsn records
     record_count f =
     (if offset < file_length
      then (case scan_frame crc max_record_bytes file_length offset last_valid_lsn f of
              (Inl e, f') \<Rightarrow> (Inl e, f')
            | (Inr ScanTorn, f') \<Rightarrow>
                finish_torn_tail f' records record_count last_valid_lsn offset file_length tail_policy
            | (Inr (ScanRecord r frame_end), f') \<Rightarrow>
                (case checked_add64 record_count 1 of
                   None \<Rightarrow> (Inl LsnExhausted, f')
                 | Some count \<Rightarrow>
                     scan_loop crc max_record_bytes tail_policy file_length frame_end
                       (Some (rec_lsn r)) (records @ [r]) count f'))
      else (Inr \<lparr>replay_records = records,
                 replay_report = \<lparr>report_record_count = record_count,
                   report_last_lsn = last_valid_lsn,
                   report_durable_file_length = file_length,
                   report_tail_repair = None\<rparr>\<rparr>, f))"
  by pat_completeness auto
termination
  by (relation "measure (\<lambda>(crc, m, p, file_length, offset, prev, rs, c, f). file_length - offset)")
    (auto dest!: scan_frame_progress [OF sym])

declare scan_loop.simps [simp del]

definition scan ::
  "(bytes \<Rightarrow> u32) \<Rightarrow> u32 \<Rightarrow> tail_repair \<Rightarrow> wal_file \<Rightarrow> (wal_error + replay) \<times> wal_file" where
  "scan crc max_record_bytes tail_policy f =
     (case file_len f of
        (Inl e, f) \<Rightarrow> (Inl (WalIo ''reading file length'' e), f)
      | (Inr file_length, f) \<Rightarrow>
          (case seek_start 0 f of
             (Inl e, f) \<Rightarrow> (Inl (WalIo ''seeking to WAL start'' e), f)
           | (Inr _, f) \<Rightarrow>
               scan_loop crc max_record_bytes tail_policy file_length 0 None [] 0 f))"

section \<open>Logs\<close>

text \<open>The bytes of a log that holds given records, starting after LSN \<open>prev\<close>, and the records a reader
  should return for it.\<close>

fun log_bytes :: "(bytes \<Rightarrow> u32) \<Rightarrow> lsn option \<Rightarrow> wal_record_input list \<Rightarrow> bytes option" where
  "log_bytes crc prev [] = Some []"
| "log_bytes crc prev (r # rs) =
     (case next_lsn prev of
        None \<Rightarrow> None
      | Some l \<Rightarrow>
          (case encode_frame crc l r of
             Inl _ \<Rightarrow> None
           | Inr frame \<Rightarrow> map_option (\<lambda>bs. frame @ bs) (log_bytes crc (Some l) rs)))"

fun log_records :: "lsn option \<Rightarrow> wal_record_input list \<Rightarrow> wal_record list" where
  "log_records prev [] = []"
| "log_records prev (r # rs) =
     (case next_lsn prev of
        None \<Rightarrow> []
      | Some l \<Rightarrow>
          from_validated l (inp_record_kind r) (inp_schema_version r) (inp_payload r)
          # log_records (Some l) rs)"

fun log_last :: "lsn option \<Rightarrow> wal_record_input list \<Rightarrow> lsn option" where
  "log_last prev [] = prev"
| "log_last prev (r # rs) = log_last (next_lsn prev) rs"

definition record_ok :: "u32 \<Rightarrow> wal_record_input \<Rightarrow> bool" where
  "record_ok max_record_bytes r \<longleftrightarrow> inp_record_kind r \<noteq> 0 \<and> schema_ok (inp_schema_version r) \<and>
     length (inp_payload r) \<le> unat max_record_bytes"

lemma record_okD:
  assumes "record_ok m r" and "encode_frame crc l r = Inr frame"
  shows "header_valid (header_of crc l r)"
    and "unat (dh_payload_len (header_of crc l r)) = length (inp_payload r)"
    and "unat (dh_total_frame_len (header_of crc l r)) = 40 + length (inp_payload r)"
    and "frame = header_bytes crc (header_of crc l r) @ inp_payload r"
    and "length frame = 40 + length (inp_payload r)"
    and "\<not> m < dh_payload_len (header_of crc l r)"
  using assms header_valid_header_of [of r crc l]
  by (auto simp: record_ok_def encode_frame_Inr_iff word_less_nat_alt)

lemma frame_length: "encode_frame crc l r = Inr frame \<Longrightarrow> length frame = 40 + length (inp_payload r)"
  by (auto simp: encode_frame_Inr_iff)

section \<open>Reading one frame\<close>

text \<open>A complete frame with a valid header reaches the checks on its payload and its LSN.\<close>

lemma scan_frame_body:
  assumes f: "healthy f" "io_pos f = length pre"
      "io_bytes f = pre @ header_bytes crc (header_of crc l r) @ payload @ rest"
    and r: "record_ok m r" "encode_frame crc l r = Inr frame"
      "length payload = length (inp_payload r)"
    and len: "length (io_bytes f) < 2 ^ 64"
  shows "scan_frame crc m (length (io_bytes f)) (length pre) prev f =
    (and_then (validate_payload_checksum crc payload (crc (inp_payload r)) (length pre) prev) (\<lambda>_.
     and_then (validate_lsn (lsn_get l) prev (length pre)) (\<lambda>l'.
       Inr (ScanRecord (from_validated l' (inp_record_kind r) (inp_schema_version r) payload)
         (length pre + length frame)))), f\<lparr>io_pos := length pre + length frame\<rparr>)"
proof -
  note d = record_okD [OF r(1,2)]
  let ?h = "header_bytes crc (header_of crc l r)"
  have "read_exact HEADER_LEN f = (Inr ?h, f\<lparr>io_pos := length pre + 40\<rparr>)"
    using f by (simp add: io_healthy HEADER_LEN_def)
  moreover have "read_exact (length (inp_payload r)) (f\<lparr>io_pos := length pre + 40\<rparr>) =
      (Inr payload, f\<lparr>io_pos := length pre + length frame\<rparr>)"
    using f d(5) r(3) by (subst io_healthy) (simp_all add: add.assoc)
  moreover have "checked_add64 (length pre) (40 + length (inp_payload r)) =
      Some (length pre + length frame)"
    using len f d(5) r(3) by (simp add: checked_add64_def)
  moreover have "decode_schema_version (schema_get (inp_schema_version r)) (length pre) prev =
      Inr (inp_schema_version r)"
    using r(1) by (simp add: decode_schema_version_Inr_iff record_ok_def schema_ok_def)
  moreover have "dh_payload_crc32c (header_of crc l r) = crc (inp_payload r)"
    "dh_lsn_raw (header_of crc l r) = lsn_get l"
    "dh_schema_version_raw (header_of crc l r) = schema_get (inp_schema_version r)"
    "dh_record_kind (header_of crc l r) = inp_record_kind r"
    by (simp_all add: header_of_def)
  moreover have "HEADER_LEN \<le> length (io_bytes f) - length pre"
    "length pre + length frame \<le> length (io_bytes f)"
    using f(3) d(5) r(3) by (simp_all add: HEADER_LEN_def)
  ultimately show ?thesis
    using d(1-3,6) by (simp add: scan_frame_def decode_header_bytes)
qed

lemma scan_frame_complete:
  assumes f: "healthy f" "io_pos f = length pre" "io_bytes f = pre @ frame @ rest"
    and r: "record_ok m r" "encode_frame crc l r = Inr frame" "next_lsn prev = Some l"
    and len: "length (io_bytes f) < 2 ^ 64"
  shows "scan_frame crc m (length (io_bytes f)) (length pre) prev f =
    (Inr (ScanRecord (from_validated l (inp_record_kind r) (inp_schema_version r) (inp_payload r))
       (length pre + length frame)), f\<lparr>io_pos := length pre + length frame\<rparr>)"
proof -
  have "validate_lsn (lsn_get l) prev (length pre) = Inr l"
    using r(3) by (simp add: validate_lsn_Inr_iff)
  then show ?thesis
    using scan_frame_body [OF f(1,2) _ r(1,2) refl len, of rest prev] f(3) record_okD(4) [OF r(1,2)]
    by (simp add: validate_payload_checksum_def)
qed

lemma scan_frame_torn:
  assumes f: "healthy f" "io_pos f = length pre" "io_bytes f = pre @ part"
    and r: "record_ok m r" "encode_frame crc l r = Inr (part @ missing)"
    and part: "missing \<noteq> []"
    and len: "length (io_bytes f) < 2 ^ 63"
  shows "\<exists>p. scan_frame crc m (length (io_bytes f)) (length pre) prev f =
    (Inr ScanTorn, f\<lparr>io_pos := p\<rparr>)"
proof (cases "length part < 40")
  case True
  then show ?thesis using f by (auto simp: scan_frame_def HEADER_LEN_def intro!: exI [of _ "io_pos f"])
next
  case False
  note d = record_okD [OF r]
  let ?h = "header_bytes crc (header_of crc l r)"
  have "take 40 part = take 40 (part @ missing)" using False by simp
  then have "take 40 part = ?h" by (subst (asm) d(4)) simp
  then have "read_exact HEADER_LEN f = (Inr ?h, f\<lparr>io_pos := length pre + 40\<rparr>)"
    using f False by (simp add: io_healthy HEADER_LEN_def)
  moreover have "length part < 40 + length (inp_payload r)"
    using d(5) part by (cases missing) simp_all
  moreover have "unat (dh_total_frame_len (header_of crc l r)) < 2 ^ LENGTH(32)" by (rule unsigned_less)
  ultimately show ?thesis
    using f d(1,2,3,6) False len
    by (auto simp: scan_frame_def HEADER_LEN_def decode_header_bytes checked_add64_def)
qed

lemma header_of_decoded:
  assumes "header_valid d" and "length payload = unat (dh_payload_len d)"
    and "crc payload = dh_payload_crc32c d" and "dh_lsn_raw d = lsn_get l"
  shows "encode_frame crc l \<lparr>inp_record_kind = dh_record_kind d,
      inp_schema_version = SchemaVersion (dh_schema_version_raw d), inp_payload = payload\<rparr> =
    Inr (header_bytes crc d @ payload)"
proof -
  have total: "checked_add HEADER_LEN_U32 (dh_payload_len d) = Some (dh_total_frame_len d)"
    using assms(1) by (simp add: header_valid_def checked_header_len)
  then have "HEADER_LEN_U32 + dh_payload_len d = dh_total_frame_len d"
    by (simp add: checked_add_def split: if_splits)
  moreover have "unat (dh_total_frame_len d) < 2 ^ LENGTH(32)" by (rule unsigned_less)
  then have "length payload + 40 < 2 ^ 32"
    using assms(1,2) by (simp add: header_valid_def)
  ultimately show ?thesis
    using assms by (simp add: encode_frame_Inr_iff header_of_def header_bytes_def)
qed

lemma scan_frame_sound:
  assumes "scan_frame crc m (length (io_bytes f)) offset prev f = (res, f')"
    and "io_pos f = offset"
  shows "io_bytes f' = io_bytes f \<and> io_synced f' = io_synced f \<and>
    (\<forall>r e. res = Inr (ScanRecord r e) \<longrightarrow>
       (\<exists>inp frame l. next_lsn prev = Some l \<and> encode_frame crc l inp = Inr frame \<and>
          record_ok m inp \<and>
          r = from_validated l (inp_record_kind inp) (inp_schema_version inp) (inp_payload inp) \<and>
          e = offset + length frame \<and> e \<le> length (io_bytes f) \<and> io_pos f' = e \<and>
          take (length frame) (drop offset (io_bytes f)) = frame))"
proof (intro conjI allI impI)
  show "io_bytes f' = io_bytes f" "io_synced f' = io_synced f"
    using assms by (auto simp: scan_frame_def split: if_splits prod.splits sum.splits option.splits
        dest!: read_exact_cases)
next
  fix r e
  assume "res = Inr (ScanRecord r e)"
  with assms obtain header g d payload l where
    h: "read_exact HEADER_LEN f = (Inr header, g)"
    and d: "decode_header crc header offset prev = Inr d" "\<not> m < dh_payload_len d"
    and e: "checked_add64 offset (unat (dh_total_frame_len d)) = Some e" "e \<le> length (io_bytes f)"
    and p: "read_exact (unat (dh_payload_len d)) g = (Inr payload, f')"
    and v: "crc payload = dh_payload_crc32c d" "next_lsn prev = Some l" "dh_lsn_raw d = lsn_get l"
    and r: "r = from_validated l (dh_record_kind d) (SchemaVersion (dh_schema_version_raw d)) payload"
    by (auto simp: scan_frame_def result_iff split: if_splits prod.splits sum.splits option.splits)
  let ?inp = "\<lparr>inp_record_kind = dh_record_kind d,
      inp_schema_version = SchemaVersion (dh_schema_version_raw d), inp_payload = payload\<rparr>"
  have header: "header = take 40 (drop offset (io_bytes f))" "length header = 40"
    "io_pos g = offset + 40" "io_bytes g = io_bytes f"
    using read_exact_cases [OF h] assms(2) by (auto simp: HEADER_LEN_def)
  have valid: "header_valid d" "header = header_bytes crc d"
    using decode_header_Inr [OF d(1) header(2)] by simp_all
  have payload: "payload = take (unat (dh_payload_len d)) (drop (offset + 40) (io_bytes f))"
    "length payload = unat (dh_payload_len d)" "io_pos f' = offset + 40 + unat (dh_payload_len d)"
    using read_exact_cases [OF p] header by auto
  have frame: "encode_frame crc l ?inp = Inr (header @ payload)"
    using header_of_decoded [of d payload crc l] valid payload(2) v by simp
  have "e = offset + length (header @ payload)"
    using e(1) valid(1) header(2) payload(2)
    by (simp add: checked_add64_def header_valid_def split: if_splits)
  moreover have "take (40 + unat (dh_payload_len d)) (drop offset (io_bytes f)) = header @ payload"
    by (simp only: take_add drop_drop header(1) payload(1) add.commute [of 40 offset])
  moreover have "record_ok m ?inp"
    using valid(1) d(2) payload(2)
    by (simp add: record_ok_def header_valid_def schema_ok_def word_less_nat_alt)
  ultimately show "\<exists>inp frame l. next_lsn prev = Some l \<and> encode_frame crc l inp = Inr frame \<and>
      record_ok m inp \<and>
      r = from_validated l (inp_record_kind inp) (inp_schema_version inp) (inp_payload inp) \<and>
      e = offset + length frame \<and> e \<le> length (io_bytes f) \<and> io_pos f' = e \<and>
      take (length frame) (drop offset (io_bytes f)) = frame"
    using v(2) frame r e(2) header(2) payload(2,3)
    by (intro exI [of _ ?inp] exI [of _ "header @ payload"] exI [of _ l]) simp
qed

section \<open>Scanning a log\<close>

lemma io_pos_same: "io_pos f = p \<Longrightarrow> f\<lparr>io_pos := p\<rparr> = f"
  by auto

lemma next_lsn_prefix:
  "log_bytes crc prev (r # rs) = Some bs \<longleftrightarrow>
     (\<exists>l frame bs'. next_lsn prev = Some l \<and> encode_frame crc l r = Inr frame \<and>
        log_bytes crc (Some l) rs = Some bs' \<and> bs = frame @ bs')"
  by (auto split: option.splits sum.splits)

lemma log_bytes_length: "log_bytes crc prev rs = Some bs \<Longrightarrow> 40 * length rs \<le> length bs"
  by (induction rs arbitrary: prev bs) (auto simp: next_lsn_prefix simp del: log_bytes.simps(2)
      dest!: frame_length, fastforce)

definition replay_of :: "wal_record list \<Rightarrow> nat \<Rightarrow> lsn option \<Rightarrow> nat \<Rightarrow> tail_repair_report option \<Rightarrow> replay" where
  "replay_of records count prev len repair =
     \<lparr>replay_records = records, replay_report = \<lparr>report_record_count = count,
        report_last_lsn = prev, report_durable_file_length = len, report_tail_repair = repair\<rparr>\<rparr>"

lemma scan_loop_frames:
  assumes "healthy f" and "io_pos f = length pre" and "io_bytes f = pre @ bs @ rest"
    and "log_bytes crc prev rs = Some bs" and "list_all (record_ok m) rs"
    and "length (io_bytes f) < 2 ^ 63" and "count + length rs < 2 ^ 64"
  shows "scan_loop crc m policy (length (io_bytes f)) (length pre) prev records count f =
    scan_loop crc m policy (length (io_bytes f)) (length pre + length bs) (log_last prev rs)
      (records @ log_records prev rs) (count + length rs) (f\<lparr>io_pos := length pre + length bs\<rparr>)"
  using assms
proof (induction rs arbitrary: f pre prev bs records count)
  case Nil
  then show ?case by (simp add: io_pos_same)
next
  case (Cons r rs)
  from Cons.prems(4) obtain l frame bs' where l: "next_lsn prev = Some l"
    and frame: "encode_frame crc l r = Inr frame"
    and bs': "log_bytes crc (Some l) rs = Some bs'" and bs: "bs = frame @ bs'"
    by (auto simp: next_lsn_prefix simp del: log_bytes.simps(2))
  let ?g = "f\<lparr>io_pos := length pre + length frame\<rparr>"
  let ?rec = "from_validated l (inp_record_kind r) (inp_schema_version r) (inp_payload r)"
  have "scan_frame crc m (length (io_bytes f)) (length pre) prev f =
      (Inr (ScanRecord ?rec (length pre + length frame)), ?g)"
    using Cons.prems l frame bs
    by (intro scan_frame_complete [where rest = "bs' @ rest"]) simp_all
  moreover have "checked_add64 count 1 = Some (count + 1)"
    using Cons.prems(7) by (simp add: checked_add64_def)
  moreover have "length pre < length (io_bytes f)"
    using Cons.prems(3) bs frame_length [OF frame] by simp
  ultimately have "scan_loop crc m policy (length (io_bytes f)) (length pre) prev records count f =
      scan_loop crc m policy (length (io_bytes f)) (length (pre @ frame)) (Some l)
        (records @ [?rec]) (count + 1) ?g"
    by (subst scan_loop.simps) (simp add: from_validated_def)
  also have "\<dots> = scan_loop crc m policy (length (io_bytes ?g)) (length (pre @ frame) + length bs')
      (log_last (Some l) rs) ((records @ [?rec]) @ log_records (Some l) rs) (count + 1 + length rs)
      (?g\<lparr>io_pos := length (pre @ frame) + length bs'\<rparr>)"
    using Cons.IH [where f = ?g and pre = "pre @ frame" and bs = bs' and prev = "Some l" and
        records = "records @ [?rec]" and count = "count + 1"]
      Cons.prems bs bs' by simp
  finally show ?case using l bs by (simp add: add.assoc)
qed

lemma scan_loop_sound:
  assumes "scan_loop crc m policy (length (io_bytes f)) offset prev records count f = (Inr rep, f')"
    and "io_pos f = offset" and "offset \<le> length (io_bytes f)"
  shows "\<exists>rs bs repair. log_bytes crc prev rs = Some bs \<and> list_all (record_ok m) rs \<and>
    take (offset + length bs) (io_bytes f) = take offset (io_bytes f) @ bs \<and>
    rep = replay_of (records @ log_records prev rs) (count + length rs) (log_last prev rs)
      (offset + length bs) repair \<and>
    io_bytes f' = take (offset + length bs) (io_bytes f) \<and>
    (case repair of
       None \<Rightarrow> offset + length bs = length (io_bytes f) \<and> io_synced f' = io_synced f
     | Some rp \<Rightarrow> policy = Truncate \<and> offset + length bs < length (io_bytes f) \<and>
         io_synced f' = io_bytes f' \<and>
         rp = \<lparr>repair_offset = offset + length bs,
               repair_bytes_removed = length (io_bytes f) - (offset + length bs),
               repair_last_valid_lsn = log_last prev rs\<rparr>)"
  using assms
proof (induction crc m policy "length (io_bytes f)" offset prev records count f
    rule: scan_loop.induct)
  case (1 crc m policy offset prev records count f)
  show ?case
  proof (cases "offset < length (io_bytes f)")
    case False
    with 1 show ?thesis
      by (intro exI [of _ "[]"] exI [of _ None]) (auto simp: scan_loop.simps replay_of_def)
  next
    case True
    obtain res g where s: "scan_frame crc m (length (io_bytes f)) offset prev f = (res, g)"
      by fastforce
    note sound = scan_frame_sound [OF s 1(3)]
    show ?thesis
    proof (cases res)
      case (Inl e)
      with 1(2) s True show ?thesis by (simp add: scan_loop.simps)
    next
      case (Inr st)
      show ?thesis
      proof (cases st)
        case ScanTorn
        with 1(2) s True Inr have "finish_torn_tail g records count prev offset
            (length (io_bytes f)) policy = (Inr rep, f')"
          by (simp add: scan_loop.simps)
        with sound 1(3) True show ?thesis
          by (intro exI [of _ "[]"] exI [of _ "report_tail_repair (replay_report rep)"])
            (auto simp: finish_torn_tail_def replay_of_def dest!: set_len_cases sync_data_cases
              split: tail_repair.splits prod.splits sum.splits)
      next
        case (ScanRecord r e)
        with sound Inr obtain inp frame l where l: "next_lsn prev = Some l"
          and frame: "encode_frame crc l inp = Inr frame" and ok: "record_ok m inp"
          and r: "r = from_validated l (inp_record_kind inp) (inp_schema_version inp) (inp_payload inp)"
          and e: "e = offset + length frame" "e \<le> length (io_bytes f)" "io_pos g = e"
          and bytes: "take (length frame) (drop offset (io_bytes f)) = frame" "io_bytes g = io_bytes f"
            "io_synced g = io_synced f"
          by blast
        from 1(2) s True Inr ScanRecord obtain c where c: "checked_add64 count 1 = Some c"
          by (auto simp: scan_loop.simps split: option.splits)
        then have c': "c = count + 1" by (simp add: checked_add64_def split: if_splits)
        have rec: "scan_loop crc m policy (length (io_bytes g)) e (Some (rec_lsn r)) (records @ [r]) c g =
            (Inr rep, f')"
          using 1(2) s True Inr ScanRecord c bytes by (simp add: scan_loop.simps)
        have "rec_lsn r = l" by (simp add: r from_validated_def)
        obtain rs bs repair where IH: "log_bytes crc (Some l) rs = Some bs" "list_all (record_ok m) rs"
          "take (e + length bs) (io_bytes f) = take e (io_bytes f) @ bs"
          "rep = replay_of ((records @ [r]) @ log_records (Some l) rs) (c + length rs)
             (log_last (Some l) rs) (e + length bs) repair"
          "io_bytes f' = take (e + length bs) (io_bytes f)"
          "case repair of
             None \<Rightarrow> e + length bs = length (io_bytes f) \<and> io_synced f' = io_synced f
           | Some rp \<Rightarrow> policy = Truncate \<and> e + length bs < length (io_bytes f) \<and>
               io_synced f' = io_bytes f' \<and>
               rp = \<lparr>repair_offset = e + length bs,
                     repair_bytes_removed = length (io_bytes f) - (e + length bs),
                     repair_last_valid_lsn = log_last (Some l) rs\<rparr>"
          using 1(1) [OF True s [symmetric] Inr ScanRecord c _ rec] e(2,3)
          unfolding bytes(2,3) \<open>rec_lsn r = l\<close> by blast
        have "take e (io_bytes f) = take offset (io_bytes f) @ frame"
          using bytes(1) e(1) by (simp add: take_add)
        with IH l frame ok r e(1) c' show ?thesis
          by (intro exI [of _ "inp # rs"] exI [of _ "frame @ bs"] exI [of _ repair])
            (cases repair; simp add: add.assoc)
      qed
    qed
  qed
qed

text \<open>A frame is reported torn only where no complete frame starts.\<close>

definition complete_frame_at :: "(bytes \<Rightarrow> u32) \<Rightarrow> u32 \<Rightarrow> bytes \<Rightarrow> bool" where
  "complete_frame_at crc m bs \<longleftrightarrow>
     (\<exists>l r frame rest. record_ok m r \<and> encode_frame crc l r = Inr frame \<and> bs = frame @ rest)"

lemma scan_frame_torn_incomplete:
  assumes "scan_frame crc m (length (io_bytes f)) offset prev f = (Inr ScanTorn, f')"
    and "io_pos f = offset"
  shows "\<not> complete_frame_at crc m (drop offset (io_bytes f))"
proof
  assume "complete_frame_at crc m (drop offset (io_bytes f))"
  then obtain l r frame rest where r: "record_ok m r" "encode_frame crc l r = Inr frame"
    and bs: "drop offset (io_bytes f) = frame @ rest"
    by (auto simp: complete_frame_at_def)
  note d = record_okD [OF r]
  have len: "length (io_bytes f) - offset = length frame + length rest"
    using arg_cong [OF bs, of length] by simp
  have header: "take 40 (drop offset (io_bytes f)) = header_bytes crc (header_of crc l r)"
    unfolding bs by (subst d(4)) simp
  have long: "\<not> length (io_bytes f) - offset < HEADER_LEN"
    using len d(5) by (simp add: HEADER_LEN_def)
  obtain x g where x: "read_exact HEADER_LEN f = (x, g)" by fastforce
  show False
  proof (cases x)
    case (Inl e)
    with assms(1) long x show ?thesis by (simp add: scan_frame_def)
  next
    case (Inr h)
    with read_exact_cases [OF x] assms(2) header have h: "h = header_bytes crc (header_of crc l r)"
      by (simp add: HEADER_LEN_def)
    have "\<not> offset + (40 + length (inp_payload r)) > length (io_bytes f)"
      using len d(5) by simp
    with assms(1) long x Inr d(1,2,3,6) h show ?thesis
      by (auto simp: scan_frame_def decode_header_bytes checked_add64_def result_iff
          split: if_splits prod.splits sum.splits)
  qed
qed

lemma scan_loop_repairs:
  assumes "scan_loop crc m policy (length (io_bytes f)) offset prev records count f = (res, f')"
    and "io_pos f = offset" and "offset \<le> length (io_bytes f)"
  shows "io_bytes f' = io_bytes f \<or>
    policy = Truncate \<and> (\<exists>rs bs. log_bytes crc prev rs = Some bs \<and> list_all (record_ok m) rs \<and>
      take (offset + length bs) (io_bytes f) = take offset (io_bytes f) @ bs \<and>
      io_bytes f' = take (offset + length bs) (io_bytes f) \<and>
      \<not> complete_frame_at crc m (drop (offset + length bs) (io_bytes f)))"
  using assms
proof (induction crc m policy "length (io_bytes f)" offset prev records count f
    rule: scan_loop.induct)
  case (1 crc m policy offset prev records count f)
  show ?case
  proof (cases "offset < length (io_bytes f)")
    case False
    with 1 show ?thesis by (simp add: scan_loop.simps)
  next
    case True
    obtain sres g where s: "scan_frame crc m (length (io_bytes f)) offset prev f = (sres, g)"
      by fastforce
    note sound = scan_frame_sound [OF s 1(3)]
    show ?thesis
    proof (cases sres)
      case (Inl e)
      with 1(2) s True sound show ?thesis by (simp add: scan_loop.simps)
    next
      case (Inr st)
      show ?thesis
      proof (cases st)
        case ScanTorn
        with 1(2) s True Inr have "finish_torn_tail g records count prev offset
            (length (io_bytes f)) policy = (res, f')"
          by (simp add: scan_loop.simps)
        moreover have "\<not> complete_frame_at crc m (drop offset (io_bytes f))"
          using scan_frame_torn_incomplete [of crc m f offset prev g] s Inr ScanTorn 1(3) by simp
        ultimately show ?thesis
          using sound 1(4)
          by (cases "io_bytes f' = io_bytes f")
            (auto simp: finish_torn_tail_def dest!: set_len_cases sync_data_cases
              split: tail_repair.splits prod.splits sum.splits intro!: exI [of _ "[]"])
      next
        case (ScanRecord r e)
        with sound Inr obtain inp frame l where l: "next_lsn prev = Some l"
          and frame: "encode_frame crc l inp = Inr frame" and ok: "record_ok m inp"
          and r: "r = from_validated l (inp_record_kind inp) (inp_schema_version inp) (inp_payload inp)"
          and e: "e = offset + length frame" "e \<le> length (io_bytes f)" "io_pos g = e"
          and bytes: "take (length frame) (drop offset (io_bytes f)) = frame" "io_bytes g = io_bytes f"
          by blast
        have lsn: "rec_lsn r = l" by (simp add: r from_validated_def)
        have take_e: "take e (io_bytes f) = take offset (io_bytes f) @ frame"
          using bytes(1) e(1) by (simp add: take_add)
        show ?thesis
        proof (cases "checked_add64 count 1")
          case None
          with 1(2) s True Inr ScanRecord bytes show ?thesis by (simp add: scan_loop.simps)
        next
          case (Some c)
          have rec: "scan_loop crc m policy (length (io_bytes g)) e (Some (rec_lsn r))
              (records @ [r]) c g = (res, f')"
            using 1(2) s True Inr ScanRecord Some bytes by (simp add: scan_loop.simps)
          from 1(1) [OF True s [symmetric] Inr ScanRecord Some _ rec] e(2,3)
          consider "io_bytes f' = io_bytes f"
            | rs bs where "policy = Truncate" "log_bytes crc (Some l) rs = Some bs"
              "list_all (record_ok m) rs"
              "take (e + length bs) (io_bytes f) = take e (io_bytes f) @ bs"
              "io_bytes f' = take (e + length bs) (io_bytes f)"
              "\<not> complete_frame_at crc m (drop (e + length bs) (io_bytes f))"
            unfolding bytes(2) lsn by blast
          then show ?thesis
          proof cases
            case 2
            with l frame ok e(1) take_e show ?thesis
              by (intro disjI2 conjI exI [of _ "inp # rs"] exI [of _ "frame @ bs"])
                (simp_all add: add.assoc)
          qed simp
        qed
      qed
    qed
  qed
qed

section \<open>What a scan returns\<close>

lemma scan_healthy:
  "healthy f \<Longrightarrow> scan crc m policy f =
     scan_loop crc m policy (length (io_bytes f)) 0 None [] 0 (f\<lparr>io_pos := 0\<rparr>)"
  by (simp add: scan_def io_healthy)

lemma scan_to_loop:
  assumes "scan crc m policy f = (res, f')"
  obtains "\<exists>op e. res = Inl (WalIo op e)" "io_bytes f' = io_bytes f" "io_synced f' = io_synced f"
  | g where "scan_loop crc m policy (length (io_bytes g)) 0 None [] 0 g = (res, f')"
      "io_pos g = 0" "io_bytes g = io_bytes f" "io_synced g = io_synced f"
  using assms
  by (auto simp: scan_def dest!: file_len_cases seek_start_cases split: prod.splits sum.splits)

lemma scan_loop_synced:
  "scan_loop crc m policy file_length offset prev records count f = (res, f') \<Longrightarrow>
     io_synced f' = io_synced f \<or> io_synced f' = io_bytes f'"
proof (induction crc m policy file_length offset prev records count f rule: scan_loop.induct)
  case (1 crc m policy file_length offset prev records count f)
  have frame: "io_synced g = io_synced f"
    if "scan_frame crc m file_length offset prev f = (r, g)" for r g
    using that by (auto simp: scan_frame_def split: if_splits prod.splits sum.splits option.splits
        dest!: read_exact_cases)
  show ?case
    using 1(2) frame 1(1)
    by (subst (asm) scan_loop.simps)
      (auto simp: finish_torn_tail_def dest!: set_len_cases sync_data_cases
        split: if_splits prod.splits sum.splits option.splits scan_step.splits tail_repair.splits)
qed

lemma scan_synced:
  "scan crc m policy f = (res, f') \<Longrightarrow> io_synced f' = io_synced f \<or> io_synced f' = io_bytes f'"
  by (erule scan_to_loop) (auto dest: scan_loop_synced)

text \<open>A sample log with a checksum that distinguishes payloads by their length and first byte.\<close>

definition sample_crc :: "bytes \<Rightarrow> u32" where
  "sample_crc bs = word_of_nat (length bs) + (case bs of [] \<Rightarrow> 0 | b # _ \<Rightarrow> ucast b)"

definition sample_input :: wal_record_input where
  "sample_input = \<lparr>inp_record_kind = 1024, inp_schema_version = SchemaVersion 1,
     inp_payload = [97, 98, 99]\<rparr>"

definition sample_frame :: bytes where
  "sample_frame = header_bytes sample_crc (header_of sample_crc LSN_FIRST sample_input) @ [97, 98, 99]"

definition sample_file :: "bytes \<Rightarrow> wal_file" where
  "sample_file bs = \<lparr>io_bytes = bs, io_pos = 0, io_synced = [], io_script = []\<rparr>"

lemma sample_log_facts:
  "encode_frame sample_crc LSN_FIRST sample_input = Inr sample_frame"
  "log_bytes sample_crc None [sample_input] = Some sample_frame"
  "record_ok 1024 sample_input" "next_lsn None = Some LSN_FIRST" "length sample_frame = 43"
  "sample_frame \<noteq> []"
proof -
  show enc: "encode_frame sample_crc LSN_FIRST sample_input = Inr sample_frame"
    by (simp add: encode_frame_Inr_iff sample_frame_def sample_input_def)
  then show "log_bytes sample_crc None [sample_input] = Some sample_frame"
    by (simp add: next_lsn_def)
qed (simp_all add: record_ok_def sample_input_def schema_ok_def next_lsn_def sample_frame_def)

lemma sample_file_simps [simp]:
  "io_bytes (sample_file bs) = bs" "healthy (sample_file bs)" "io_synced (sample_file bs) = []"
  by (simp_all add: sample_file_def healthy_def)

text \<open>Scanning a log of well-formed records returns exactly these records with LSNs \<open>1, 2, ...\<close>,
  reports the last LSN and the file length, and leaves the file unchanged. \<close>

lemma scan_complete_log:
  assumes "healthy f" and "log_bytes crc None rs = Some (io_bytes f)"
    and "list_all (record_ok m) rs" and "length (io_bytes f) < 2 ^ 63"
  shows "scan crc m policy f =
    (Inr (replay_of (log_records None rs) (length rs) (log_last None rs) (length (io_bytes f)) None),
     f\<lparr>io_pos := length (io_bytes f)\<rparr>)"
proof -
  have "length rs < 2 ^ 64" using log_bytes_length [OF assms(2)] assms(4) by simp
  then show ?thesis
    using scan_loop_frames [of "f\<lparr>io_pos := 0\<rparr>" "[]" "io_bytes f" "[]" crc None rs m 0 policy "[]"]
      assms
    by (simp add: scan_healthy, subst scan_loop.simps, simp add: replay_of_def)
qed

text \<open>When a crash leaves a strict, nonempty prefix of the next frame at the end of a log, the
  reject policy reports the torn tail and leaves the file alone; the truncate policy returns the
  complete records, cuts the file back to them and synchronizes it. \<close>

lemma scan_torn_log:
  assumes "healthy f" and "io_bytes f = bs @ part" and "log_bytes crc None rs = Some bs"
    and "list_all (record_ok m) rs" and "next_lsn (log_last None rs) = Some l"
    and "record_ok m r" and "encode_frame crc l r = Inr (part @ missing)"
    and "part \<noteq> []" and "missing \<noteq> []" and "length (io_bytes f) < 2 ^ 63"
    and "scan crc m policy f = (res, f')"
  shows "case policy of
      Reject \<Rightarrow> res = Inl (TornTail (length bs) (length (io_bytes f)) (log_last None rs)) \<and>
        io_bytes f' = io_bytes f
    | Truncate \<Rightarrow> res = Inr (replay_of (log_records None rs) (length rs) (log_last None rs) (length bs)
          (Some \<lparr>repair_offset = length bs, repair_bytes_removed = length part,
                 repair_last_valid_lsn = log_last None rs\<rparr>)) \<and>
        io_bytes f' = bs \<and> io_synced f' = bs"
proof -
  have n: "length rs < 2 ^ 64" using log_bytes_length [OF assms(3)] assms(2,10) by simp
  let ?g = "f\<lparr>io_pos := length bs\<rparr>"
  obtain p where torn: "scan_frame crc m (length (io_bytes ?g)) (length bs) (log_last None rs) ?g =
      (Inr ScanTorn, ?g\<lparr>io_pos := p\<rparr>)"
    using scan_frame_torn [of ?g bs part m r crc l missing "log_last None rs"] assms by auto
  have "scan crc m policy f = scan_loop crc m policy (length (io_bytes f)) (length bs)
      (log_last None rs) (log_records None rs) (length rs) ?g"
    using scan_loop_frames [of "f\<lparr>io_pos := 0\<rparr>" "[]" bs part crc None rs m 0 policy "[]"] assms n
    by (simp add: scan_healthy)
  also have "\<dots> = finish_torn_tail (?g\<lparr>io_pos := p\<rparr>) (log_records None rs) (length rs)
      (log_last None rs) (length bs) (length (io_bytes f)) policy"
    using torn assms(2,8) by (subst scan_loop.simps) simp
  finally show ?thesis
    using assms(1,2,11)
    by (auto simp: finish_torn_tail_def io_healthy replay_of_def split: tail_repair.split)
qed

text \<open>Whatever bytes the file holds and whatever I/O calls fail, a scan that succeeds returns only
  records whose canonical encoding with gapless LSNs is the part of the file it keeps. \<close>

lemma scan_success_sound:
  assumes "scan crc m policy f = (Inr rep, f')"
  shows "\<exists>rs repair. log_bytes crc None rs = Some (io_bytes f') \<and> list_all (record_ok m) rs \<and>
    rep = replay_of (log_records None rs) (length rs) (log_last None rs) (length (io_bytes f')) repair \<and>
    io_bytes f' = take (length (io_bytes f')) (io_bytes f) \<and>
    (repair = None \<longleftrightarrow> io_bytes f' = io_bytes f) \<and> (repair \<noteq> None \<longrightarrow> io_synced f' = io_bytes f')"
  using scan_to_loop [OF assms]
proof cases
  case (2 g)
  obtain rs bs repair
    where log: "log_bytes crc None rs = Some bs" "list_all (record_ok m) rs"
      "rep = replay_of ([] @ log_records None rs) (0 + length rs) (log_last None rs)
         (0 + length bs) repair"
    and bs: "take (0 + length bs) (io_bytes f) = take 0 (io_bytes f) @ bs"
      "io_bytes f' = take (0 + length bs) (io_bytes f)"
    and rp: "case repair of
       None \<Rightarrow> 0 + length bs = length (io_bytes f) \<and> io_synced f' = io_synced f
     | Some rp \<Rightarrow> policy = Truncate \<and> 0 + length bs < length (io_bytes f) \<and>
         io_synced f' = io_bytes f' \<and>
         rp = \<lparr>repair_offset = 0 + length bs,
               repair_bytes_removed = length (io_bytes f) - (0 + length bs),
               repair_last_valid_lsn = log_last None rs\<rparr>"
    using scan_loop_sound [OF 2(1,2) le0] unfolding 2(3,4) by blast
  have repair: "case repair of None \<Rightarrow> length bs = length (io_bytes f)
      | Some rp \<Rightarrow> length bs < length (io_bytes f) \<and> io_synced f' = io_bytes f'"
    using rp by (cases repair) simp_all
  have kept: "take (length bs) (io_bytes f) = bs" using bs(1) by (simp only: add_0 take_0 append_Nil)
  then have f': "io_bytes f' = bs" using bs(2) by (simp only: add_0)
  have "repair = None \<longleftrightarrow> bs = io_bytes f"
  proof (cases repair)
    case None
    then have "length bs = length (io_bytes f)" using repair by simp
    with kept have "bs = io_bytes f" by (metis order_refl take_all)
    with None show ?thesis by simp
  next
    case (Some rp)
    then have "length bs < length (io_bytes f)" using repair by simp
    with Some show ?thesis by auto
  qed
  moreover have "repair \<noteq> None \<longrightarrow> io_synced f' = io_bytes f'"
    using repair by (cases repair) simp_all
  moreover have "rep = replay_of (log_records None rs) (length rs) (log_last None rs)
      (length (io_bytes f')) repair"
    using log(3) by (simp only: f' add_0 append_Nil)
  ultimately show ?thesis
    using log(1,2) kept [symmetric] unfolding f' by blast
qed simp

text \<open>A scan changes the file only under the truncate policy, and then it keeps the longest valid
  log and removes a tail at which no complete frame starts: corruption is never repaired away. \<close>

lemma scan_change_torn:
  assumes "scan crc m policy f = (res, f')" and "io_bytes f' \<noteq> io_bytes f"
  shows "policy = Truncate \<and> (\<exists>rs tail. log_bytes crc None rs = Some (io_bytes f') \<and>
    list_all (record_ok m) rs \<and>
    io_bytes f = io_bytes f' @ tail \<and> \<not> complete_frame_at crc m tail)"
  using scan_to_loop [OF assms(1)]
proof cases
  case (2 g)
  from scan_loop_repairs [OF 2(1,2) le0] assms(2) obtain rs bs
    where "policy = Truncate" "list_all (record_ok m) rs" and rs: "log_bytes crc None rs = Some bs"
      "take (length bs) (io_bytes f) = bs" "io_bytes f' = bs"
      "\<not> complete_frame_at crc m (drop (length bs) (io_bytes f))"
    unfolding 2(3,4) by auto
  moreover have "io_bytes f = bs @ drop (length bs) (io_bytes f)"
    using append_take_drop_id [of "length bs" "io_bytes f"] rs(2) by simp
  ultimately show ?thesis by blast
qed (use assms(2) in simp)

lemma scan_frame_corrupt:
  assumes f: "healthy f" "io_pos f = length pre"
      "io_bytes f = pre @ header_bytes crc (header_of crc l r) @ payload @ rest"
    and r: "record_ok m r" "encode_frame crc l r = Inr frame"
      "length payload = length (inp_payload r)" and len: "length (io_bytes f) < 2 ^ 63"
    and next_ok: "next_lsn prev = Some expected"
    and bad: "crc payload \<noteq> crc (inp_payload r) \<or> l \<noteq> expected"
  shows "\<exists>g. scan_frame crc m (length (io_bytes f)) (length pre) prev f =
    (Inl (Corruption (length pre) prev
       (if crc payload \<noteq> crc (inp_payload r) then PayloadChecksum
        else LsnSequence (lsn_get expected) (lsn_get l))), g) \<and> io_bytes g = io_bytes f"
proof -
  have "validate_lsn (lsn_get l) prev (length pre) =
      (if l \<noteq> expected
       then Inl (Corruption (length pre) prev (LsnSequence (lsn_get expected) (lsn_get l)))
       else Inr expected)"
    using next_ok
    using lsn.expand [of l expected]
    by (auto simp: validate_lsn_def next_lsn_def split: option.splits)
  then show ?thesis
    using scan_frame_body [OF f r, of prev] len bad
    by (cases "crc payload = crc (inp_payload r)") (simp_all add: validate_payload_checksum_def)
qed

text \<open>A complete frame whose payload does not match its checksum, or whose LSN is not the successor
  of the previous one, is a corruption error under both policies, and the file is left alone. \<close>

lemma scan_reports_corruption:
  assumes "healthy f" and "log_bytes crc None rs = Some bs" and "list_all (record_ok m) rs"
    and "io_bytes f = bs @ header_bytes crc (header_of crc l r) @ payload @ rest"
    and "record_ok m r" and "length (inp_payload r) + 40 < 2 ^ 32"
    and "length payload = length (inp_payload r)"
    and "next_lsn (log_last None rs) = Some expected"
    and "crc payload \<noteq> crc (inp_payload r) \<or> l \<noteq> expected" and "length (io_bytes f) < 2 ^ 63"
    and "scan crc m policy f = (res, f')"
  shows "res = Inl (Corruption (length bs) (log_last None rs)
      (if crc payload \<noteq> crc (inp_payload r) then PayloadChecksum
       else LsnSequence (lsn_get expected) (lsn_get l))) \<and> io_bytes f' = io_bytes f"
proof -
  have n: "length rs < 2 ^ 64" using log_bytes_length [OF assms(2)] assms(4,10) by simp
  let ?g = "f\<lparr>io_pos := length bs\<rparr>"
  have enc: "encode_frame crc l r = Inr (header_bytes crc (header_of crc l r) @ inp_payload r)"
    using assms(6) by (simp add: encode_frame_Inr_iff)
  obtain h where h: "scan_frame crc m (length (io_bytes ?g)) (length bs) (log_last None rs) ?g =
      (Inl (Corruption (length bs) (log_last None rs)
         (if crc payload \<noteq> crc (inp_payload r) then PayloadChecksum
          else LsnSequence (lsn_get expected) (lsn_get l))), h)" "io_bytes h = io_bytes f"
    using scan_frame_corrupt [OF _ _ _ assms(5) enc assms(7) _ assms(8,9), of ?g bs rest] assms
    by auto
  have "scan crc m policy f = scan_loop crc m policy (length (io_bytes f)) (length bs)
      (log_last None rs) (log_records None rs) (length rs) ?g"
    using scan_loop_frames [of "f\<lparr>io_pos := 0\<rparr>" "[]" bs _ crc None rs m 0 policy "[]"] assms n
    by (simp add: scan_healthy)
  also have "\<dots> = (Inl (Corruption (length bs) (log_last None rs)
      (if crc payload \<noteq> crc (inp_payload r) then PayloadChecksum
       else LsnSequence (lsn_get expected) (lsn_get l))), h)"
    using h(1) assms(4) by (subst scan_loop.simps) simp
  finally show ?thesis using h(2) assms(11) by simp
qed

end
