(* ===== verification/Wal_Log.thy ===== *)
theory Wal_Log
  imports Wal_Reader
begin

text \<open>
  The byte form of a log as a code: concatenation, unique decoding, prefixes and LSN counting. The
  writer's invariant and crash recovery rest on these lemmas.
\<close>

definition lsn_nat :: "lsn option \<Rightarrow> nat" where
  "lsn_nat prev = (case prev of None \<Rightarrow> 0 | Some l \<Rightarrow> unat (lsn_get l))"

lemma lsn_nat_simps [simp]: "lsn_nat None = 0" "lsn_nat (Some l) = unat (lsn_get l)"
  by (simp_all add: lsn_nat_def)

lemma next_lsn_nat: "next_lsn prev = Some l \<Longrightarrow> unat (lsn_get l) = Suc (lsn_nat prev)"
  by (auto simp: next_lsn_def LSN_FIRST_def result_iff split: option.splits)

lemma log_bytes_append:
  "log_bytes crc prev (rs @ ss) = Some bs \<longleftrightarrow>
     (\<exists>a b. log_bytes crc prev rs = Some a \<and> log_bytes crc (log_last prev rs) ss = Some b \<and> bs = a @ b)"
proof (induction rs arbitrary: prev bs)
  case Nil
  then show ?case by simp
next
  case (Cons r rs)
  show ?case
    unfolding append_Cons next_lsn_prefix by (auto simp: Cons.IH)
qed

lemma log_last_nat: "log_bytes crc prev rs = Some bs \<Longrightarrow> lsn_nat (log_last prev rs) = lsn_nat prev + length rs"
proof (induction rs arbitrary: prev bs)
  case (Cons r rs)
  then obtain l bs' where "next_lsn prev = Some l" "log_bytes crc (Some l) rs = Some bs'"
    by (auto simp: next_lsn_prefix simp del: log_bytes.simps(2))
  with Cons.IH [of "Some l" bs'] next_lsn_nat [of prev l] show ?case by simp
qed simp

lemma length_log_records: "log_bytes crc prev rs = Some bs \<Longrightarrow> length (log_records prev rs) = length rs"
  by (induction rs arbitrary: prev bs)
    (auto simp: next_lsn_prefix simp del: log_bytes.simps(2))

lemma log_last_snoc: "log_last prev (rs @ [r]) = next_lsn (log_last prev rs)"
  by (induction rs arbitrary: prev) simp_all

lemma lsn_nat_inject:
  assumes "lsn_nat a = lsn_nat b" and "pred_option lsn_ok a" and "pred_option lsn_ok b"
  shows "a = b"
proof -
  have "unat (lsn_get l) \<noteq> 0" if "lsn_ok l" for l using that by (simp add: lsn_ok_def unat_eq_0)
  moreover have "l = l'" if "unat (lsn_get l) = unat (lsn_get l')" for l l'
    using that lsn.expand [of l l'] by (simp only: word_unat_eq_iff)
  ultimately show ?thesis using assms by (cases a; cases b) fastforce+
qed

lemma log_last_ok: "log_bytes crc prev rs = Some bs \<Longrightarrow> pred_option lsn_ok prev \<Longrightarrow>
    pred_option lsn_ok (log_last prev rs)"
proof (induction rs arbitrary: prev bs)
  case (Cons r rs)
  then obtain l bs' where l: "next_lsn prev = Some l" "log_bytes crc (Some l) rs = Some bs'"
    by (auto simp: next_lsn_prefix simp del: log_bytes.simps(2))
  then have "lsn_ok l" using next_lsn_nat [of prev l] by (auto simp: lsn_ok_def)
  with Cons.IH [of "Some l" bs'] l show ?case by simp
qed simp

text \<open>The \<open>k\<close>-th record of a log has LSN \<open>k + 1\<close> and the content that was appended.\<close>

definition record_content :: "wal_record \<Rightarrow> wal_record_input" where
  "record_content r = \<lparr>inp_record_kind = rec_record_kind r,
     inp_schema_version = rec_schema_version r, inp_payload = rec_payload r\<rparr>"

lemma log_records_content: "log_bytes crc prev rs = Some bs \<Longrightarrow> map record_content (log_records prev rs) = rs"
  by (induction rs arbitrary: prev bs)
    (auto simp: next_lsn_prefix record_content_def from_validated_def simp del: log_bytes.simps(2))

lemma log_records_lsn:
  "log_bytes crc prev rs = Some bs \<Longrightarrow>
     map (\<lambda>r. unat (lsn_get (rec_lsn r))) (log_records prev rs) =
     [Suc (lsn_nat prev)..<Suc (lsn_nat prev + length rs)]"
proof (induction rs arbitrary: prev bs)
  case (Cons r rs)
  then obtain l bs' where l: "next_lsn prev = Some l" "log_bytes crc (Some l) rs = Some bs'"
    by (auto simp: next_lsn_prefix simp del: log_bytes.simps(2))
  with Cons.IH [of "Some l" bs'] next_lsn_nat [OF l(1)] show ?case
    by (simp add: from_validated_def upt_conv_Cons del: upt_Suc)
qed simp

section \<open>Unique decoding\<close>

lemma frame_inject:
  assumes "encode_frame crc l r = Inr f" and "encode_frame crc l' r' = Inr f'"
    and "record_ok m r" and "record_ok m' r'" and "f @ x = f' @ y"
  shows "l = l' \<and> r = r' \<and> f = f' \<and> x = y"
proof -
  note d = record_okD [OF assms(3,1)] and d' = record_okD [OF assms(4,2)]
  have "header_bytes crc (header_of crc l r) @ inp_payload r @ x =
      header_bytes crc (header_of crc l' r') @ inp_payload r' @ y"
    using assms(5) d(4) d'(4) by simp
  then have h: "header_bytes crc (header_of crc l r) = header_bytes crc (header_of crc l' r')"
    and p: "inp_payload r @ x = inp_payload r' @ y"
    by (simp_all add: append_eq_append_conv)
  have dec: "header_of crc l r = header_of crc l' r'"
    using decode_header_bytes [OF d(1)] decode_header_bytes [OF d'(1)] h by (metis sum.inject(2))
  then have "length (inp_payload r) = length (inp_payload r')" using d(2) d'(2) by simp
  with p have "inp_payload r = inp_payload r'" "x = y" by simp_all
  moreover have "lsn_get l = lsn_get l'" "inp_record_kind r = inp_record_kind r'"
    "schema_get (inp_schema_version r) = schema_get (inp_schema_version r')"
    using dec by (simp_all add: header_of_def)
  ultimately have "l = l'" "r = r'" "x = y"
    using lsn.expand schema_version.expand by (auto intro!: wal_record_input.equality)
  with assms(1,2) show ?thesis by simp
qed

text \<open>If one log extends another as a byte string, it extends it as a list of records.\<close>

lemma log_bytes_prefix:
  assumes "log_bytes crc prev rs = Some (a @ b)" and "log_bytes crc prev ss = Some a"
    and "list_all (record_ok m) rs" and "list_all (record_ok m) ss"
  shows "\<exists>ts. rs = ss @ ts \<and> log_bytes crc (log_last prev ss) ts = Some b"
  using assms
proof (induction ss arbitrary: prev rs a)
  case Nil
  then show ?case by simp
next
  case (Cons s ss)
  then obtain l f a' where s: "next_lsn prev = Some l" "encode_frame crc l s = Inr f"
    "log_bytes crc (Some l) ss = Some a'" "a = f @ a'"
    by (auto simp: next_lsn_prefix simp del: log_bytes.simps(2))
  have "rs \<noteq> []" using Cons.prems(1) s(4) frame_length [OF s(2)] by auto
  then obtain r rs' where rs: "rs = r # rs'" by (cases rs) auto
  with Cons.prems(1) s(1) obtain f' c where r: "encode_frame crc l r = Inr f'"
    "log_bytes crc (Some l) rs' = Some c" "a @ b = f' @ c"
    by (auto simp: next_lsn_prefix simp del: log_bytes.simps(2))
  have "r = s \<and> f' = f \<and> c = a' @ b"
    using frame_inject [OF r(1) s(2), of m m c "a' @ b"] Cons.prems(3,4) rs r(3) s(4) by simp
  with Cons.IH [of "Some l" rs' a'] r(2) s Cons.prems(3,4) rs show ?case by simp
qed

lemma log_bytes_inject:
  assumes "log_bytes crc prev rs = Some a" and "log_bytes crc prev ss = Some a"
    and "list_all (record_ok m) rs" and "list_all (record_ok m) ss"
  shows "rs = ss"
proof -
  obtain ts where "rs = ss @ ts" "log_bytes crc (log_last prev ss) ts = Some []"
    using log_bytes_prefix [of crc prev rs a "[]" ss m] assms by auto
  moreover from this(2) have "ts = []" using log_bytes_length by fastforce
  ultimately show ?thesis by simp
qed

lemma log_extends_incomplete:
  assumes "log_bytes crc None rs = Some (a @ b)" and "log_bytes crc None ss = Some a"
    and "list_all (record_ok m) rs" and "list_all (record_ok m) ss"
    and "\<not> complete_frame_at crc m b"
  shows "b = [] \<and> rs = ss"
proof -
  obtain ts where ts: "rs = ss @ ts" "log_bytes crc (log_last None ss) ts = Some b"
    using log_bytes_prefix [OF assms(1-4)] by blast
  have "ts = []"
  proof (rule ccontr)
    assume "ts \<noteq> []"
    then obtain t ts' where "ts = t # ts'" by (cases ts) auto
    with ts assms(3) have "complete_frame_at crc m b"
      by (auto simp: next_lsn_prefix complete_frame_at_def simp del: log_bytes.simps(2))
    with assms(5) show False by simp
  qed
  with ts show ?thesis by simp
qed

section \<open>Cutting a log\<close>

definition torn_after :: "(bytes \<Rightarrow> u32) \<Rightarrow> lsn option \<Rightarrow> wal_record_input \<Rightarrow> bytes \<Rightarrow> bool" where
  "torn_after crc prev r part \<longleftrightarrow>
     (\<exists>l missing. next_lsn prev = Some l \<and> encode_frame crc l r = Inr (part @ missing) \<and>
        part \<noteq> [] \<and> missing \<noteq> [])"

text \<open>The first \<open>n\<close> bytes of a log are a log of its first \<open>k\<close> records, possibly followed by a part
  of the next frame.\<close>

lemma log_cut:
  assumes "log_bytes crc prev rs = Some bs"
  shows "\<exists>k a. k \<le> length rs \<and> log_bytes crc prev (take k rs) = Some a \<and>
    (take n bs = a \<or>
     (\<exists>part. k < length rs \<and> take n bs = a @ part \<and>
        torn_after crc (log_last prev (take k rs)) (rs ! k) part))"
  using assms
proof (induction rs arbitrary: prev bs n)
  case Nil
  then show ?case by simp
next
  case (Cons r rs)
  then obtain l f b where r: "next_lsn prev = Some l" "encode_frame crc l r = Inr f"
    "log_bytes crc (Some l) rs = Some b" "bs = f @ b"
    by (auto simp: next_lsn_prefix simp del: log_bytes.simps(2))
  consider "n = 0" | "0 < n" "n < length f" | "length f \<le> n" by linarith
  then show ?case
  proof cases
    case 1
    then show ?thesis by (intro exI [of _ 0]) simp
  next
    case 2
    then have "torn_after crc prev r (take n f)"
      using r(1,2) unfolding torn_after_def by (intro exI [of _ l] exI [of _ "drop n f"]) auto
    with 2 r(4) show ?thesis by (intro exI [of _ 0] exI [of _ "[]"]) auto
  next
    case 3
    from Cons.IH [OF r(3), of "n - length f"] obtain k a where k: "k \<le> length rs"
      "log_bytes crc (Some l) (take k rs) = Some a"
      "take (n - length f) b = a \<or>
       (\<exists>part. k < length rs \<and> take (n - length f) b = a @ part \<and>
          torn_after crc (log_last (Some l) (take k rs)) (rs ! k) part)"
      by blast
    have "log_bytes crc prev (take (Suc k) (r # rs)) = Some (f @ a)" using r k(2) by simp
    moreover have "take n bs = f @ take (n - length f) b" using 3 r(4) by simp
    ultimately show ?thesis
      using k(1,3) r(1) by (intro exI [of _ "Suc k"] exI [of _ "f @ a"]) auto
  qed
qed

end
