(* ===== verification/Wal_Writer.thy ===== *)
theory Wal_Writer
  imports Wal_Log
begin

text \<open>
  The writer of a log (\<open>FileWal\<close> in \<open>iron-wal/src/writer.rs\<close>): append, flush and replay over a
  file whose calls may fail, the sync policies, and poisoning.

  \<open>file_wal_open\<close> is the part of the open after the file is there; its argument \<open>prepared\<close> is the outcome
  of the calls before, which \<open>Wal_Open\<close> models.
\<close>

section \<open>The writer\<close>

datatype sync_policy = Always | Batch u32 | Manual

record wal_config =
  wcfg_max_record_bytes :: u32
  wcfg_sync_policy :: sync_policy
  wcfg_tail_repair :: tail_repair

record file_wal =
  fw_file :: wal_file
  fw_config :: wal_config
  fw_last_lsn :: "lsn option"
  fw_durable_through :: "lsn option"
  fw_valid_length :: nat
  fw_unsynced_records :: u32
  fw_poisoned :: bool
  fw_open_report :: replay_report

definition file_wal_open ::
  "(bytes \<Rightarrow> u32) \<Rightarrow> wal_config \<Rightarrow> wal_error + wal_file \<Rightarrow> wal_error + file_wal" where
  "file_wal_open crc config prepared =
     (case prepared of
        Inl e \<Rightarrow> Inl e
      | Inr file \<Rightarrow>
          (case scan crc (wcfg_max_record_bytes config) (wcfg_tail_repair config) file of
             (Inl e, _) \<Rightarrow> Inl e
           | (Inr replay, file') \<Rightarrow>
               let report = replay_report replay in
               Inr \<lparr>fw_file = file', fw_config = config, fw_last_lsn = report_last_lsn report,
                    fw_durable_through = report_last_lsn report,
                    fw_valid_length = report_durable_file_length report,
                    fw_unsynced_records = 0, fw_poisoned = False, fw_open_report = report\<rparr>))"

definition ensure_writable :: "file_wal \<Rightarrow> wal_error + unit" where
  "ensure_writable w = (if fw_poisoned w then Inl Poisoned else Inr ())"

definition sync_current :: "file_wal \<Rightarrow> (wal_error + unit) \<times> file_wal" where
  "sync_current w =
     (case sync_data (fw_file w) of
        (Inl e, file) \<Rightarrow>
          (Inl (WalIo ''synchronizing WAL data'' e), w\<lparr>fw_file := file, fw_poisoned := True\<rparr>)
      | (Inr _, file) \<Rightarrow>
          (Inr (), w\<lparr>fw_file := file, fw_durable_through := fw_last_lsn w,
                     fw_unsynced_records := 0\<rparr>))"

definition must_sync :: "sync_policy \<Rightarrow> u32 \<Rightarrow> bool" where
  "must_sync policy unsynced_records =
     (case policy of
        Always \<Rightarrow> True
      | Batch max_unsynced_records \<Rightarrow> unsynced_records \<ge> max_unsynced_records
      | Manual \<Rightarrow> False)"

text \<open>The part of \<open>append\<close> after the frame is in the file.\<close>

definition append_written ::
  "lsn \<Rightarrow> nat \<Rightarrow> file_wal \<Rightarrow> (wal_error + append_outcome) \<times> file_wal" where
  "append_written l frame_length w =
     (case checked_add64 (fw_valid_length w) frame_length of
        None \<Rightarrow> (Inl LsnExhausted, w\<lparr>fw_poisoned := True\<rparr>)
      | Some valid_length \<Rightarrow>
          let w = w\<lparr>fw_valid_length := valid_length, fw_last_lsn := Some l\<rparr> in
          (case checked_add (fw_unsynced_records w) 1 of
             None \<Rightarrow> (Inl LsnExhausted, w\<lparr>fw_poisoned := True\<rparr>)
           | Some unsynced_records \<Rightarrow>
               let w = w\<lparr>fw_unsynced_records := unsynced_records\<rparr> in
               if must_sync (wcfg_sync_policy (fw_config w)) unsynced_records
               then (case sync_current w of
                       (Inl e, w) \<Rightarrow> (Inl e, w)
                     | (Inr _, w) \<Rightarrow>
                         (Inr \<lparr>outcome_lsn = l, outcome_durable_through = fw_durable_through w\<rparr>, w))
               else (Inr \<lparr>outcome_lsn = l, outcome_durable_through = fw_durable_through w\<rparr>, w)))"

definition wal_append ::
  "(bytes \<Rightarrow> u32) \<Rightarrow> wal_record_input \<Rightarrow> file_wal \<Rightarrow> (wal_error + append_outcome) \<times> file_wal" where
  "wal_append crc r w =
     (case ensure_writable w of
        Inl e \<Rightarrow> (Inl e, w)
      | Inr _ \<Rightarrow>
          let actual = len64 (inp_payload r); maximum = wcfg_max_record_bytes (fw_config w) in
          if actual > ucast maximum then (Inl (RecordTooLarge actual maximum), w)
          else
            (case (case fw_last_lsn w of
                     Some previous \<Rightarrow> ok_or (checked_successor previous) LsnExhausted
                   | None \<Rightarrow> Inr LSN_FIRST) of
               Inl e \<Rightarrow> (Inl e, w)
             | Inr l \<Rightarrow>
                 (case encode_frame crc l r of
                    Inl e \<Rightarrow> (Inl e, w)
                  | Inr frame \<Rightarrow>
                      (case seek_start (fw_valid_length w) (fw_file w) of
                         (Inl e, file) \<Rightarrow>
                           (Inl (WalIo ''seeking to WAL append position'' e), w\<lparr>fw_file := file\<rparr>)
                       | (Inr _, file) \<Rightarrow>
                           (case write_all frame file of
                              (Inl e, file) \<Rightarrow>
                                (Inl (WalIo ''writing WAL frame'' e),
                                 w\<lparr>fw_file := file, fw_poisoned := True\<rparr>)
                            | (Inr _, file) \<Rightarrow>
                                append_written l (length frame) (w\<lparr>fw_file := file\<rparr>))))))"

definition wal_flush :: "file_wal \<Rightarrow> (wal_error + lsn option) \<times> file_wal" where
  "wal_flush w =
     (case ensure_writable w of
        Inl e \<Rightarrow> (Inl e, w)
      | Inr _ \<Rightarrow>
          (case sync_current w of
             (Inl e, w) \<Rightarrow> (Inl e, w)
           | (Inr _, w) \<Rightarrow> (Inr (fw_durable_through w), w)))"

definition wal_replay :: "(bytes \<Rightarrow> u32) \<Rightarrow> file_wal \<Rightarrow> (wal_error + replay) \<times> file_wal" where
  "wal_replay crc w =
     (case wal_flush w of
        (Inl e, w) \<Rightarrow> (Inl e, w)
      | (Inr _, w) \<Rightarrow>
          (case scan crc (wcfg_max_record_bytes (fw_config w)) (wcfg_tail_repair (fw_config w))
                  (fw_file w) of
             (Inl e, file) \<Rightarrow> (Inl e, w\<lparr>fw_file := file\<rparr>)
           | (Inr replay, file) \<Rightarrow>
               let report = replay_report replay in
               (Inr replay,
                w\<lparr>fw_file := file, fw_last_lsn := report_last_lsn report,
                  fw_durable_through := report_last_lsn report,
                  fw_valid_length := report_durable_file_length report,
                  fw_unsynced_records := 0\<rparr>)))"

section \<open>The invariant\<close>

text \<open>The file holds the log of \<open>rs\<close>, followed by some bytes of the frames of \<open>extra\<close>, and stable
  storage holds a beginning of the file.\<close>

definition holds_log ::
  "(bytes \<Rightarrow> u32) \<Rightarrow> u32 \<Rightarrow> wal_record_input list \<Rightarrow> wal_record_input list \<Rightarrow> wal_file \<Rightarrow> bool" where
  "holds_log crc m rs extra f \<longleftrightarrow> list_all (record_ok m) (rs @ extra) \<and>
     (\<exists>a b k. log_bytes crc None rs = Some a \<and> log_bytes crc None (rs @ extra) = Some (a @ b) \<and>
        io_bytes f = a @ take k b) \<and>
     (\<exists>rest. io_bytes f = io_synced f @ rest)"

definition stable_log :: "(bytes \<Rightarrow> u32) \<Rightarrow> wal_record_input list \<Rightarrow> wal_file \<Rightarrow> bool" where
  "stable_log crc rs f \<longleftrightarrow>
     (\<exists>a rest. log_bytes crc None rs = Some a \<and> io_synced f = a @ rest)"

text \<open>The writer accepted \<open>rs\<close>; \<open>extra\<close> is the record whose append poisoned it, if one did. The
  reported frontier \<open>durable_through\<close> never claims more than stable storage holds.\<close>

definition wal_inv ::
  "(bytes \<Rightarrow> u32) \<Rightarrow> wal_record_input list \<Rightarrow> wal_record_input list \<Rightarrow> file_wal \<Rightarrow> bool" where
  "wal_inv crc rs extra w \<longleftrightarrow>
     holds_log crc (wcfg_max_record_bytes (fw_config w)) rs extra (fw_file w)
   \<and> (extra = [] \<or> fw_poisoned w \<and> length extra = 1)
   \<and> fw_last_lsn w = log_last None rs
   \<and> (\<not> fw_poisoned w \<longrightarrow> fw_valid_length w = length (io_bytes (fw_file w)))
   \<and> (\<exists>d \<le> length rs. fw_durable_through w = log_last None (take d rs) \<and>
        stable_log crc (take d rs) (fw_file w))"

lemma holds_log_cong:
  "io_bytes f' = io_bytes f \<Longrightarrow> io_synced f' = io_synced f \<or> io_synced f' = io_bytes f \<Longrightarrow>
     holds_log crc m rs extra f \<Longrightarrow> holds_log crc m rs extra f'"
  unfolding holds_log_def by auto

lemma holds_log_write:
  assumes "holds_log crc m rs [] f" and "record_ok m r" and "next_lsn (log_last None rs) = Some l"
    and "encode_frame crc l r = Inr frame" and "io_bytes f' = io_bytes f @ take n frame"
    and "io_synced f' = io_synced f"
  shows "holds_log crc m rs [r] f'"
    and "take n frame = frame \<Longrightarrow> holds_log crc m (rs @ [r]) [] f'"
proof -
  from assms(1) obtain a rest where a: "list_all (record_ok m) rs" "log_bytes crc None rs = Some a"
    "io_bytes f = a" "a = io_synced f @ rest"
    by (auto simp: holds_log_def)
  then have log: "log_bytes crc None (rs @ [r]) = Some (a @ frame)"
    using assms(3,4) by (auto simp: log_bytes_append)
  have synced: "\<exists>rest'. io_bytes f' = io_synced f' @ rest'"
    using a(3,4) assms(5,6) by simp
  have f': "io_bytes f' = a @ take n frame" using a(3) assms(5) by simp
  have ok: "list_all (record_ok m) (rs @ [r])" using a(1) assms(2) by simp
  show "holds_log crc m rs [r] f'"
    unfolding holds_log_def using ok synced a(2) log f' by blast
  assume "take n frame = frame"
  with f' have "io_bytes f' = (a @ frame) @ take 0 []" by simp
  moreover have "log_bytes crc None ((rs @ [r]) @ []) = Some ((a @ frame) @ [])" using log by simp
  ultimately show "holds_log crc m (rs @ [r]) [] f'"
    unfolding holds_log_def using ok synced log by (metis append_Nil2)
qed

lemma stable_log_cong:
  "io_synced f' = io_synced f \<Longrightarrow> stable_log crc rs f \<Longrightarrow> stable_log crc rs f'"
  by (simp add: stable_log_def)

lemma holds_stable_all:
  "holds_log crc m rs extra f \<Longrightarrow> io_synced f' = io_bytes f \<Longrightarrow> stable_log crc rs f'"
  by (auto simp: holds_log_def stable_log_def)

section \<open>The operations keep it\<close>

text \<open>What a call of the writer may do to the log, whatever calls of the file fail.\<close>

lemma wal_inv_file:
  assumes "wal_inv crc rs extra w" and "io_bytes f = io_bytes (fw_file w)"
    and "io_synced f = io_synced (fw_file w)"
  shows "wal_inv crc rs extra (w\<lparr>fw_file := f\<rparr>)"
  using assms holds_log_cong [of f "fw_file w" crc "wcfg_max_record_bytes (fw_config w)" rs extra]
    stable_log_cong [of f "fw_file w"]
  by (auto simp: wal_inv_def)

lemma wal_inv_poison: "wal_inv crc rs extra w \<Longrightarrow> wal_inv crc rs extra (w\<lparr>fw_poisoned := True\<rparr>)"
  by (auto simp: wal_inv_def)

lemma sync_current_inv:
  assumes "wal_inv crc rs extra w" and "sync_current w = (res, w')"
  shows "wal_inv crc rs extra w' \<and> fw_config w' = fw_config w \<and>
    io_bytes (fw_file w') = io_bytes (fw_file w) \<and>
    (io_synced (fw_file w') = io_synced (fw_file w) \<or>
     io_synced (fw_file w') = io_bytes (fw_file w)) \<and>
    (is_ok res \<longrightarrow> stable_log crc rs (fw_file w') \<and> fw_durable_through w' = fw_last_lsn w' \<and>
       fw_poisoned w' = fw_poisoned w) \<and>
    (\<not> is_ok res \<longrightarrow> fw_poisoned w')"
proof (cases "sync_data (fw_file w)")
  case (Pair r f)
  note sync = sync_data_cases [OF Pair]
  show ?thesis
  proof (cases r)
    case (Inl e)
    with assms Pair sync wal_inv_poison [OF wal_inv_file [OF assms(1), of f]] show ?thesis
      by (auto simp: sync_current_def)
  next
    case (Inr u)
    let ?m = "wcfg_max_record_bytes (fw_config w)"
    have "holds_log crc ?m rs extra f" and "stable_log crc rs f"
      using assms(1) sync Inr holds_log_cong [of f "fw_file w"]
        holds_stable_all [of crc ?m rs extra "fw_file w" f]
      by (auto simp: wal_inv_def)
    with assms Pair Inr sync show ?thesis
      by (auto simp: sync_current_def wal_inv_def)
  qed
qed

lemma stable_log_take:
  assumes "stable_log crc rs f"
  shows "stable_log crc (take d rs) f"
proof -
  from assms obtain a rest where a: "log_bytes crc None rs = Some a" "io_synced f = a @ rest"
    by (auto simp: stable_log_def)
  from a(1) have "log_bytes crc None (take d rs @ drop d rs) = Some a" by simp
  then obtain b c where "log_bytes crc None (take d rs) = Some b" "a = b @ c"
    unfolding log_bytes_append by blast
  with a(2) show ?thesis by (auto simp: stable_log_def)
qed

lemma append_written_inv:
  assumes inv: "wal_inv crc rs [] w" and "\<not> fw_poisoned w"
    and r: "record_ok (wcfg_max_record_bytes (fw_config w)) r"
    and l: "next_lsn (log_last None rs) = Some l" and frame: "encode_frame crc l r = Inr frame"
    and f: "io_bytes f = io_bytes (fw_file w) @ frame" "io_synced f = io_synced (fw_file w)"
    and app: "append_written l (length frame) (w\<lparr>fw_file := f\<rparr>) = (res, w')"
  shows "fw_config w' = fw_config w \<and>
    (case res of
       Inl e \<Rightarrow> fw_poisoned w' \<and> (wal_inv crc rs [r] w' \<or> wal_inv crc (rs @ [r]) [] w')
     | Inr out \<Rightarrow> wal_inv crc (rs @ [r]) [] w' \<and> outcome_lsn out = l \<and>
         outcome_durable_through out = fw_durable_through w')"
proof -
  let ?m = "wcfg_max_record_bytes (fw_config w)"
  have held: "holds_log crc ?m rs [] (fw_file w)"
    and d: "\<exists>d \<le> length rs. fw_durable_through w = log_last None (take d rs) \<and>
      stable_log crc (take d rs) (fw_file w)"
    using inv by (simp_all add: wal_inv_def)
  have h1: "holds_log crc ?m rs [r] f" and h2: "holds_log crc ?m (rs @ [r]) [] f"
    using holds_log_write [OF held r l frame, of f "length frame"] f by simp_all
  have d1: "\<exists>d \<le> length rs. fw_durable_through w = log_last None (take d rs) \<and>
      stable_log crc (take d rs) f"
    using d stable_log_cong [of f "fw_file w"] f(2) by blast
  then have d2: "\<exists>d \<le> length (rs @ [r]). fw_durable_through w = log_last None (take d (rs @ [r])) \<and>
      stable_log crc (take d (rs @ [r])) f"
    by (metis append_Nil2 diff_is_0_eq le_SucI length_append_singleton take_0 take_append)
  have valid: "fw_valid_length w + length frame = length (io_bytes f)"
    using inv assms(2) f(1) by (simp add: wal_inv_def)
  show ?thesis
  proof (cases "checked_add64 (fw_valid_length w) (length frame)")
    case None
    with app h1 d1 inv show ?thesis by (auto simp: append_written_def wal_inv_def)
  next
    case (Some v)
    then have v: "v = length (io_bytes f)"
      using valid by (simp add: checked_add64_def split: if_splits)
    have written: "wal_inv crc (rs @ [r]) [] (w\<lparr>fw_file := f, fw_valid_length := v,
        fw_last_lsn := Some l, fw_unsynced_records := u\<rparr>)" for u
      using h2 d2 l v by (simp add: wal_inv_def log_last_snoc)
    show ?thesis
    proof (cases "checked_add (fw_unsynced_records w) 1")
      case None
      with app Some wal_inv_poison [OF written [of "fw_unsynced_records w"]] show ?thesis
        by (auto simp: append_written_def)
    next
      case (Some u)
      note u = this
      let ?w = "w\<lparr>fw_file := f, fw_valid_length := v, fw_last_lsn := Some l,
          fw_unsynced_records := u\<rparr>"
      show ?thesis
      proof (cases "must_sync (wcfg_sync_policy (fw_config w)) u")
        case False
        with app \<open>checked_add64 _ _ = Some v\<close> u written [of u] show ?thesis
          by (auto simp: append_written_def)
      next
        case True
        obtain sres g where s: "sync_current ?w = (sres, g)" by fastforce
        have "append_written l (length frame) (w\<lparr>fw_file := f\<rparr>) =
            (case sres of Inl e \<Rightarrow> (Inl e, g) | Inr _ \<Rightarrow>
               (Inr \<lparr>outcome_lsn = l, outcome_durable_through = fw_durable_through g\<rparr>, g))"
          using \<open>checked_add64 _ _ = Some v\<close> u True s
          by (simp add: append_written_def split: sum.split)
        with app sync_current_inv [OF written s] show ?thesis
          by (auto split: sum.splits)
      qed
    qed
  qed
qed

definition input_ok :: "wal_record_input \<Rightarrow> bool" where
  "input_ok r \<longleftrightarrow> inp_record_kind r \<noteq> 0 \<and> schema_ok (inp_schema_version r) \<and>
     length (inp_payload r) < 2 ^ 64"

lemma append_size_check:
  "length (inp_payload r) < 2 ^ 64 \<Longrightarrow>
     len64 (inp_payload r) > ucast (m :: u32) \<longleftrightarrow> length (inp_payload r) > unat m"
  by (simp add: word_less_nat_alt unat_len64)

lemma append_next_lsn:
  "(case prev of Some previous \<Rightarrow> ok_or (checked_successor previous) LsnExhausted
    | None \<Rightarrow> Inr LSN_FIRST) = ok_or (next_lsn prev) LsnExhausted"
  by (simp add: next_lsn_def split: option.split)

lemma wal_append_inv:
  assumes inv: "wal_inv crc rs extra w" and r: "input_ok r" and app: "wal_append crc r w = (res, w')"
  shows "fw_config w' = fw_config w \<and>
    (case res of
       Inl e \<Rightarrow> wal_inv crc rs extra w' \<or> extra = [] \<and> fw_poisoned w' \<and>
         (wal_inv crc rs [r] w' \<or> wal_inv crc (rs @ [r]) [] w')
     | Inr out \<Rightarrow> extra = [] \<and> \<not> fw_poisoned w \<and> wal_inv crc (rs @ [r]) [] w' \<and>
         next_lsn (log_last None rs) = Some (outcome_lsn out) \<and>
         record_ok (wcfg_max_record_bytes (fw_config w)) r \<and>
         outcome_durable_through out = fw_durable_through w')"
proof (cases "fw_poisoned w \<or> len64 (inp_payload r) > ucast (wcfg_max_record_bytes (fw_config w))")
  case True
  with app inv show ?thesis
    by (cases "fw_poisoned w") (auto simp: wal_append_def ensure_writable_def)
next
  case False
  then have extra: "extra = []" and prev: "fw_last_lsn w = log_last None rs"
    and ok: "record_ok (wcfg_max_record_bytes (fw_config w)) r"
    using inv r append_size_check [of r "wcfg_max_record_bytes (fw_config w)"]
    by (auto simp: wal_inv_def record_ok_def input_ok_def not_less)
  have at_end: "fw_valid_length w = length (io_bytes (fw_file w))"
    and held: "holds_log crc (wcfg_max_record_bytes (fw_config w)) rs [] (fw_file w)"
    using inv False extra by (simp_all add: wal_inv_def)
  show ?thesis
  proof (cases "next_lsn (log_last None rs)")
    case None
    with app inv False prev show ?thesis
      by (auto simp: wal_append_def ensure_writable_def append_next_lsn)
  next
    case (Some l)
    note l = this
    show ?thesis
    proof (cases "encode_frame crc l r")
      case (Inl e)
      with app inv False prev l show ?thesis
        by (auto simp: wal_append_def ensure_writable_def append_next_lsn)
    next
      case (Inr frame)
      note frame = this
      obtain sr f1 where seek: "seek_start (fw_valid_length w) (fw_file w) = (sr, f1)" by fastforce
      note seek' = seek_start_cases [OF seek]
      show ?thesis
      proof (cases sr)
        case (Inl e)
        with app inv False prev l frame seek wal_inv_file [OF inv, of f1] seek' show ?thesis
          by (auto simp: wal_append_def ensure_writable_def append_next_lsn)
      next
        case (Inr u)
        obtain wr f2 where wrote: "write_all frame f1 = (wr, f2)" by fastforce
        have bytes: "io_synced f2 = io_synced (fw_file w)"
          "\<exists>n. io_bytes f2 = io_bytes (fw_file w) @ take n frame \<and> (is_ok wr \<longrightarrow> take n frame = frame)"
          using write_all_cases [OF wrote] seek' Inr at_end by auto
        show ?thesis
        proof (cases wr)
          case (Inl e)
          with app inv False prev l frame seek \<open>sr = Inr u\<close> wrote
          have w': "res = Inl (WalIo ''writing WAL frame'' e)"
            "w' = w\<lparr>fw_file := f2, fw_poisoned := True\<rparr>"
            by (auto simp: wal_append_def ensure_writable_def append_next_lsn)
          have "holds_log crc (wcfg_max_record_bytes (fw_config w)) rs [r] f2"
            using holds_log_write(1) [OF held ok l frame] bytes by blast
          with inv extra bytes(1) have "wal_inv crc rs [r] w'"
            using stable_log_cong [of f2 "fw_file w"] by (auto simp: wal_inv_def w')
          with w' extra show ?thesis by simp
        next
          case (Inr u')
          with app inv False prev l frame seek \<open>sr = Inr u\<close> wrote
          have w': "append_written l (length frame) (w\<lparr>fw_file := f2\<rparr>) = (res, w')"
            by (auto simp: wal_append_def ensure_writable_def append_next_lsn)
          have "io_bytes f2 = io_bytes (fw_file w) @ frame" using bytes(2) Inr by auto
          from append_written_inv [OF _ _ ok l frame this bytes(1) w'] inv extra False l ok
          show ?thesis by (auto split: sum.splits)
        qed
      qed
    qed
  qed
qed

lemma wal_flush_inv:
  assumes "wal_inv crc rs extra w" and "wal_flush w = (res, w')"
  shows "fw_config w' = fw_config w \<and> wal_inv crc rs extra w' \<and>
    io_bytes (fw_file w') = io_bytes (fw_file w) \<and>
    (io_synced (fw_file w') = io_synced (fw_file w) \<or>
     io_synced (fw_file w') = io_bytes (fw_file w)) \<and>
    (\<forall>d. res = Inr d \<longrightarrow> extra = [] \<and> \<not> fw_poisoned w' \<and> d = log_last None rs \<and>
       stable_log crc rs (fw_file w'))"
proof (cases "fw_poisoned w")
  case True
  with assms show ?thesis by (auto simp: wal_flush_def ensure_writable_def)
next
  case False
  obtain r g where s: "sync_current w = (r, g)" by fastforce
  note sync = sync_current_inv [OF assms(1) s]
  show ?thesis
  proof (cases r)
    case (Inl e)
    with assms(2) False s sync show ?thesis by (auto simp: wal_flush_def ensure_writable_def)
  next
    case (Inr u)
    then have "res = Inr (fw_durable_through g)" "w' = g"
      using assms(2) False s by (auto simp: wal_flush_def ensure_writable_def)
    with sync Inr False assms(1) show ?thesis by (auto simp: wal_inv_def)
  qed
qed

lemma wal_replay_inv:
  assumes inv: "wal_inv crc rs extra w" and rep: "wal_replay crc w = (res, w')"
  shows "fw_config w' = fw_config w \<and> wal_inv crc rs extra w' \<and>
    io_bytes (fw_file w') = io_bytes (fw_file w) \<and>
    (io_synced (fw_file w') = io_synced (fw_file w) \<or>
     io_synced (fw_file w') = io_bytes (fw_file w)) \<and>
    (\<forall>rp. res = Inr rp \<longrightarrow> extra = [] \<and> replay_records rp = log_records None rs \<and>
       stable_log crc rs (fw_file w'))"
proof -
  obtain fr g where flush: "wal_flush w = (fr, g)" by fastforce
  note f = wal_flush_inv [OF inv flush]
  let ?m = "wcfg_max_record_bytes (fw_config w)" and ?p = "wcfg_tail_repair (fw_config w)"
  show ?thesis
  proof (cases fr)
    case (Inl e)
    with rep flush f show ?thesis by (auto simp: wal_replay_def)
  next
    case (Inr d)
    with f have g: "extra = []" "\<not> fw_poisoned g" "wal_inv crc rs [] g" "fw_config g = fw_config w"
      and stable: "stable_log crc rs (fw_file g)"
      and gf: "io_bytes (fw_file g) = io_bytes (fw_file w)" "io_synced (fw_file g) =
        io_synced (fw_file w) \<or> io_synced (fw_file g) = io_bytes (fw_file w)" by auto
    obtain sr fl where scan: "scan crc ?m ?p (fw_file g) = (sr, fl)" by fastforce
    from g have log: "log_bytes crc None rs = Some (io_bytes (fw_file g))" "list_all (record_ok ?m) rs"
      by (auto simp: wal_inv_def holds_log_def)
    have same: "io_bytes fl = io_bytes (fw_file g)"
    proof (rule ccontr)
      assume "io_bytes fl \<noteq> io_bytes (fw_file g)"
      from scan_change_torn [OF scan this] obtain ss tl where
        "log_bytes crc None ss = Some (io_bytes fl)" "io_bytes (fw_file g) = io_bytes fl @ tl"
        "\<not> complete_frame_at crc ?m tl" "list_all (record_ok ?m) ss" by blast
      with log_extends_incomplete [of crc rs "io_bytes fl" tl ss ?m] log
        \<open>io_bytes fl \<noteq> io_bytes (fw_file g)\<close> show False by simp
    qed
    have synced: "io_synced fl = io_synced (fw_file g) \<or> io_synced fl = io_bytes (fw_file g)"
      using scan_synced [OF scan] same by auto
    have held: "holds_log crc ?m rs [] fl"
      using g(3,4) holds_log_cong [OF same synced] by (simp add: wal_inv_def)
    have stable': "stable_log crc rs fl"
      using synced stable log(1) by (auto simp: stable_log_def)
    have kept: "io_bytes fl = io_bytes (fw_file w)"
      "io_synced fl = io_synced (fw_file w) \<or> io_synced fl = io_bytes (fw_file w)"
      using same synced gf by auto
    show ?thesis
    proof (cases sr)
      case (Inl e)
      with rep flush Inr scan g(4) have "w' = g\<lparr>fw_file := fl\<rparr>" "res = Inl e"
        by (auto simp: wal_replay_def)
      with g held stable' same kept show ?thesis
        using stable_log_take [OF stable'] by (auto simp: wal_inv_def)
    next
      case (Inr replay)
      from scan_success_sound [OF scan [unfolded Inr]] obtain ss repair where
        ss: "log_bytes crc None ss = Some (io_bytes fl)" "list_all (record_ok ?m) ss"
        and r: "replay = replay_of (log_records None ss) (length ss) (log_last None ss)
          (length (io_bytes fl)) repair" by blast
      have eq: "ss = rs"
        using log_bytes_inject [of crc None ss "io_bytes fl" rs ?m] ss log same by simp
      have "w' = g\<lparr>fw_file := fl, fw_last_lsn := log_last None rs,
          fw_durable_through := log_last None rs, fw_valid_length := length (io_bytes fl),
          fw_unsynced_records := 0\<rparr>" "res = Inr replay"
        using rep flush \<open>fr = Inr d\<close> scan Inr g(4) r eq
        by (auto simp: wal_replay_def replay_of_def)
      with g held stable' r eq kept show ?thesis
        by (auto simp: wal_inv_def replay_of_def intro!: exI [of _ "length rs"])
    qed
  qed
qed

end
