(* ===== verification/Wal_Open.thy ===== *)
theory Wal_Open
  imports Wal_Writer
begin

text \<open>
  Opening a log (\<open>FileWal::open\<close> in \<open>iron-wal/src/writer.rs\<close>) and dropping the writer: the directory, the
  file, the advisory lock and the synchronization of a new file, before the scan.

  The state is what the file system holds of one WAL directory, with the faults of the coming calls:
  each call takes the next one, and a failed call has no effect. The operating system releases the
  lock when the file is closed, also when opening fails after it was taken.
\<close>

section \<open>The directory\<close>

record wal_dir =
  wd_created :: bool
  wd_file :: "wal_file option"
  wd_locked :: bool
  wd_faults :: "io_error option list"
  wd_script :: "(io_error \<times> nat) option list"

definition dir_call :: "wal_dir \<Rightarrow> io_error option \<times> wal_dir" where
  "dir_call d =
     (case wd_faults d of
        [] \<Rightarrow> (None, d)
      | fault # faults \<Rightarrow> (fault, d\<lparr>wd_faults := faults\<rparr>))"

text \<open>A call that only reports success, with the error the code makes of its failure.\<close>

definition dir_step :: "string \<Rightarrow> (wal_dir \<Rightarrow> wal_dir) \<Rightarrow> wal_dir \<Rightarrow> (wal_error + unit) \<times> wal_dir" where
  "dir_step operation effect d =
     (case dir_call d of
        (Some e, d) \<Rightarrow> (Inl (WalIo operation e), d)
      | (None, d) \<Rightarrow> (Inr (), effect d))"

text \<open>\<open>Path::exists\<close> is false when the call fails.\<close>

definition path_exists :: "wal_dir \<Rightarrow> bool \<times> wal_dir" where
  "path_exists d =
     (case dir_call d of
        (Some _, d) \<Rightarrow> (False, d)
      | (None, d) \<Rightarrow> (wd_file d \<noteq> None, d))"

definition opened_file :: "wal_dir \<Rightarrow> wal_file" where
  "opened_file d =
     (case wd_file d of
        None \<Rightarrow> \<lparr>io_bytes = [], io_pos = 0, io_synced = [], io_script = wd_script d\<rparr>
      | Some f \<Rightarrow> f\<lparr>io_pos := 0, io_script := wd_script d\<rparr>)"

definition open_file :: "wal_dir \<Rightarrow> (wal_error + unit) \<times> wal_dir" where
  "open_file = dir_step ''opening WAL file'' (\<lambda>d. d\<lparr>wd_file := Some (opened_file d)\<rparr>)"

definition try_lock_exclusive :: "wal_dir \<Rightarrow> (wal_error + unit) \<times> wal_dir" where
  "try_lock_exclusive d =
     (case dir_call d of
        (Some e, d) \<Rightarrow> (Inl (WalIo ''locking WAL file'' e), d)
      | (None, d) \<Rightarrow> if wd_locked d then (Inl AlreadyOpen, d) else (Inr (), d))"

definition sync_all :: "wal_dir \<Rightarrow> wal_dir" where
  "sync_all d = d\<lparr>wd_file := map_option (\<lambda>f. f\<lparr>io_synced := io_bytes f\<rparr>) (wd_file d)\<rparr>"

definition sync_directory :: "wal_dir \<Rightarrow> (wal_error + unit) \<times> wal_dir" where
  "sync_directory d =
     (case dir_step ''opening WAL directory for sync'' (\<lambda>d. d) d of
        (Inl e, d) \<Rightarrow> (Inl e, d)
      | (Inr _, d) \<Rightarrow> dir_step ''synchronizing WAL directory'' (\<lambda>d. d) d)"

definition sync_created :: "bool \<Rightarrow> wal_dir \<Rightarrow> (wal_error + unit) \<times> wal_dir" where
  "sync_created created d =
     (if created
      then (case dir_step ''synchronizing new WAL file'' sync_all d of
              (Inl e, d) \<Rightarrow> (Inl e, d)
            | (Inr _, d) \<Rightarrow> sync_directory d)
      else (Inr (), d))"

text \<open>The lock is held from a successful open to the drop of the writer.\<close>

definition wal_open :: "(bytes \<Rightarrow> u32) \<Rightarrow> wal_config \<Rightarrow> wal_dir \<Rightarrow> (wal_error + file_wal) \<times> wal_dir" where
  "wal_open crc config d =
     (case dir_step ''creating WAL directory'' (\<lambda>d. d\<lparr>wd_created := True\<rparr>) d of
        (Inl e, d) \<Rightarrow> (Inl e, d)
      | (Inr _, d) \<Rightarrow>
     (case path_exists d of (existed, d) \<Rightarrow>
     (case open_file d of
        (Inl e, d) \<Rightarrow> (Inl e, d)
      | (Inr _, d) \<Rightarrow>
     (case try_lock_exclusive d of
        (Inl e, d) \<Rightarrow> (Inl e, d)
      | (Inr _, d) \<Rightarrow>
     (case sync_created (\<not> existed) d of
        (Inl e, d) \<Rightarrow> (Inl e, d)
      | (Inr _, d) \<Rightarrow>
          let file = the (wd_file d);
              scanned = snd (scan crc (wcfg_max_record_bytes config) (wcfg_tail_repair config) file)
          in (case file_wal_open crc config (Inr file) of
                Inl e \<Rightarrow> (Inl e, d\<lparr>wd_file := Some scanned\<rparr>)
              | Inr w \<Rightarrow> (Inr w, d\<lparr>wd_file := Some scanned, wd_locked := True\<rparr>)))))))"

text \<open>\<open>Drop\<close> ignores the result of the unlock; closing the file releases the lock in any case.\<close>

definition wal_drop :: "file_wal \<Rightarrow> wal_dir \<Rightarrow> wal_dir" where
  "wal_drop w d = snd (dir_call d)\<lparr>wd_file := Some (fw_file w), wd_locked := False\<rparr>"

section \<open>One writer at a time\<close>

text \<open>The bytes of the file, empty before it exists, and calls that change neither them nor the lock.\<close>

definition dir_bytes :: "wal_dir \<Rightarrow> bytes" where
  "dir_bytes d = (case wd_file d of None \<Rightarrow> [] | Some f \<Rightarrow> io_bytes f)"

definition same_content :: "wal_dir \<Rightarrow> wal_dir \<Rightarrow> bool" where
  "same_content d d' \<longleftrightarrow> dir_bytes d' = dir_bytes d \<and> wd_locked d' = wd_locked d \<and>
     (wd_file d \<noteq> None \<longrightarrow> wd_file d' \<noteq> None)"

lemma same_content_trans [trans]: "same_content a b \<Longrightarrow> same_content b c \<Longrightarrow> same_content a c"
  by (simp add: same_content_def)

lemma same_content_refl [simp]: "same_content d d"
  by (simp add: same_content_def)

lemma dir_call_same: "same_content d (snd (dir_call d))"
  by (simp add: dir_call_def same_content_def dir_bytes_def split: list.split)

lemma dir_step_same:
  assumes "\<And>c. same_content c (effect c)"
  shows "same_content d (snd (dir_step operation effect d))"
  using dir_call_same [of d] assms [of "snd (dir_call d)"]
  by (auto simp: dir_step_def split: prod.split option.split intro: same_content_trans)

lemma effects_same:
  "same_content d (d\<lparr>wd_created := b\<rparr>)" "same_content d (d\<lparr>wd_file := Some (opened_file d)\<rparr>)"
  "same_content d (sync_all d)"
  by (simp_all add: same_content_def dir_bytes_def opened_file_def sync_all_def split: option.split)

lemma path_exists_same: "same_content d (snd (path_exists d))"
  using dir_call_same [of d] by (auto simp: path_exists_def split: prod.split option.split)

lemma open_file_same: "same_content d (snd (open_file d))"
  by (simp add: open_file_def dir_step_same effects_same)

lemma open_file_creates: "open_file d = (Inr u, d') \<Longrightarrow> wd_file d' \<noteq> None"
  by (auto simp: open_file_def dir_step_def split: prod.splits option.splits)

lemma try_lock_same: "same_content d (snd (try_lock_exclusive d))"
  using dir_call_same [of d] by (auto simp: try_lock_exclusive_def split: prod.split option.split)

lemma try_lock_free: "try_lock_exclusive d = (Inr u, d') \<Longrightarrow> \<not> wd_locked d"
  using dir_call_same [of d]
  by (auto simp: try_lock_exclusive_def same_content_def split: prod.splits option.splits if_splits)

lemma sync_directory_same: "same_content d (snd (sync_directory d))"
  using dir_step_same [OF same_content_refl, of d "''opening WAL directory for sync''"]
    dir_step_same [OF same_content_refl, of "snd (dir_step ''opening WAL directory for sync'' (\<lambda>d. d) d)"
      "''synchronizing WAL directory''"]
  by (cases "dir_step ''opening WAL directory for sync'' (\<lambda>d. d) d")
    (auto simp: sync_directory_def split: sum.split elim: same_content_trans)

lemma sync_created_same: "same_content d (snd (sync_created created d))"
  using dir_step_same [OF effects_same(3), of d "''synchronizing new WAL file''"]
    sync_directory_same [of "snd (dir_step ''synchronizing new WAL file'' sync_all d)"]
  by (cases "dir_step ''synchronizing new WAL file'' sync_all d")
    (auto simp: sync_created_def split: sum.split elim: same_content_trans)

text \<open>Up to the scan, an open leaves the bytes and the lock alone and gets past the lock only when it is
  free; a second writer is refused and changes nothing.\<close>

lemma wal_open_result:
  assumes "wal_open crc config d = (res, d')"
  shows "same_content d d' \<and> (\<exists>e. res = Inl e) \<or>
    \<not> wd_locked d \<and> (\<exists>f. io_bytes f = dir_bytes d \<and> res = file_wal_open crc config (Inr f) \<and>
      wd_file d' = Some (snd (scan crc (wcfg_max_record_bytes config) (wcfg_tail_repair config) f)) \<and>
      (wd_locked d' \<longleftrightarrow> (\<exists>w. res = Inr w)))"
proof -
  obtain r1 d1 where s1: "dir_step ''creating WAL directory'' (\<lambda>d. d\<lparr>wd_created := True\<rparr>) d = (r1, d1)" by fastforce
  obtain ex d2 where s2: "path_exists d1 = (ex, d2)" by fastforce
  obtain r3 d3 where s3: "open_file d2 = (r3, d3)" by fastforce
  obtain r4 d4 where s4: "try_lock_exclusive d3 = (r4, d4)" by fastforce
  obtain r5 d5 where s5: "sync_created (\<not> ex) d4 = (r5, d5)" by fastforce
  have "same_content d (snd (dir_step ''creating WAL directory'' (\<lambda>d. d\<lparr>wd_created := True\<rparr>) d))"
    by (rule dir_step_same) (rule effects_same)
  then have c1: "same_content d d1" by (simp add: s1)
  have c2: "same_content d1 d2" using path_exists_same [of d1] s2 by simp
  have c3: "same_content d2 d3" using open_file_same [of d2] s3 by simp
  have c4: "same_content d3 d4" using try_lock_same [of d3] s4 by simp
  have c5: "same_content d4 d5" using sync_created_same [of d4 "\<not> ex"] s5 by simp
  note chain = c1 same_content_trans [OF c1 c2] same_content_trans [OF same_content_trans [OF c1 c2] c3]
    same_content_trans [OF same_content_trans [OF same_content_trans [OF c1 c2] c3] c4]
    same_content_trans [OF same_content_trans [OF same_content_trans [OF same_content_trans [OF c1 c2] c3] c4] c5]
  show ?thesis
  proof (cases "(\<exists>e. r1 = Inl e) \<or> (\<exists>e. r3 = Inl e) \<or> (\<exists>e. r4 = Inl e) \<or> (\<exists>e. r5 = Inl e)")
    case True
    with assms s1 s2 s3 s4 s5 chain show ?thesis
      by (auto simp: wal_open_def split: sum.splits)
  next
    case False
    then have rs: "r1 = Inr ()" "r3 = Inr ()" "r4 = Inr ()" "r5 = Inr ()"
      by (cases r1; cases r3; cases r4; cases r5; simp)+
    have "wd_file d5 \<noteq> None"
      using open_file_creates s3 rs c4 c5 by (auto simp: same_content_def)
    then obtain f where f: "wd_file d5 = Some f" by blast
    have "\<not> wd_locked d" using try_lock_free [of d3 "()" d4] s4 rs chain(3) by (simp add: same_content_def)
    moreover have "io_bytes f = dir_bytes d" "wd_locked d5 = wd_locked d"
      using chain(5) f by (simp_all add: same_content_def dir_bytes_def)
    moreover have "(res, d') = (case file_wal_open crc config (Inr f) of
        Inl e \<Rightarrow> (Inl e, d5\<lparr>wd_file := Some (snd (scan crc (wcfg_max_record_bytes config) (wcfg_tail_repair config) f))\<rparr>)
      | Inr w \<Rightarrow> (Inr w, d5\<lparr>wd_file := Some (snd (scan crc (wcfg_max_record_bytes config) (wcfg_tail_repair config) f)),
          wd_locked := True\<rparr>))"
      unfolding assms [symmetric] using f
      by (cases "file_wal_open crc config (Inr f)") (simp_all add: wal_open_def s1 s2 s3 s4 s5 rs Let_def)
    then have "res = file_wal_open crc config (Inr f) \<and>
        wd_file d' = Some (snd (scan crc (wcfg_max_record_bytes config) (wcfg_tail_repair config) f)) \<and>
        (wd_locked d' \<longleftrightarrow> wd_locked d5 \<or> (\<exists>w. res = Inr w))"
      by (cases "file_wal_open crc config (Inr f)") simp_all
    ultimately show ?thesis by blast
  qed
qed

lemma wal_open_exclusive:
  "wd_locked d \<Longrightarrow> wal_open crc config d = (res, d') \<Longrightarrow> (\<exists>e. res = Inl e) \<and> dir_bytes d' = dir_bytes d \<and> wd_locked d'"
  using wal_open_result [of crc config d res d'] by (auto simp: same_content_def)

end
