(* ===== verification/Wal_Recovery.thy ===== *)
theory Wal_Recovery
  imports Wal_Open
begin

text \<open>
  The contract of \<open>WriteAheadLog\<close> (\<open>iron-wal/src/lib.rs\<close>) as a locale, its interpretation by
  \<open>FileWal\<close>, and what a log promises across a crash: runs of operations with arbitrary I/O faults,
  the loss or damage of anything that is not on stable storage, and reopening.
\<close>

section \<open>Stable storage only grows\<close>

definition log_grows :: "wal_file \<Rightarrow> wal_file \<Rightarrow> bool" where
  "log_grows f f' \<longleftrightarrow> (\<exists>more. io_bytes f' = io_bytes f @ more) \<and>
     (io_synced f' = io_synced f \<or> (\<exists>more. io_synced f' = io_bytes f @ more))"

lemma log_grows_same:
  "io_bytes f' = io_bytes f \<Longrightarrow> io_synced f' = io_synced f \<or> io_synced f' = io_bytes f \<Longrightarrow> log_grows f f'"
  by (auto simp: log_grows_def)

lemma log_grows_trans: "log_grows f g \<Longrightarrow> log_grows g h \<Longrightarrow> log_grows f h"
  unfolding log_grows_def by (elim conjE exE disjE) simp_all

lemma log_grows_stable:
  "log_grows f f' \<Longrightarrow> holds_log crc m rs extra f \<Longrightarrow> stable_log crc ss f \<Longrightarrow> stable_log crc ss f'"
  unfolding log_grows_def holds_log_def stable_log_def by (elim conjE exE disjE) auto

lemma sync_current_grows: "sync_current w = (res, w') \<Longrightarrow> log_grows (fw_file w) (fw_file w')"
  by (auto simp: sync_current_def intro!: log_grows_same dest!: sync_data_cases
      split: prod.splits sum.splits)

lemma append_written_grows:
  "append_written l n w = (res, w') \<Longrightarrow> log_grows (fw_file w) (fw_file w')"
  by (auto simp: append_written_def Let_def intro: log_grows_same dest: sync_current_grows
      split: option.splits prod.splits sum.splits if_splits)

lemma wal_append_grows:
  assumes "wal_inv crc rs extra w" and "wal_append crc r w = (res, w')"
  shows "log_grows (fw_file w) (fw_file w')"
proof (cases "fw_poisoned w")
  case True
  with assms(2) show ?thesis by (auto simp: wal_append_def ensure_writable_def intro: log_grows_same)
next
  case False
  with assms(1) have at_end: "fw_valid_length w = length (io_bytes (fw_file w))"
    by (simp add: wal_inv_def)
  have grow: "log_grows (fw_file w) f2"
    if "seek_start (fw_valid_length w) (fw_file w) = (Inr (), f1)" "write_all frame f1 = (wr, f2)"
    for f1 f2 frame wr
    using seek_start_cases [OF that(1)] write_all_cases [OF that(2)] at_end
    by (auto simp: log_grows_def)
  have seek: "log_grows (fw_file w) f1" if "seek_start p (fw_file w) = (sr, f1)" for p sr f1
    using seek_start_cases [OF that] by (simp add: log_grows_same)
  have written: "log_grows (fw_file w) (fw_file w')"
    if "seek_start (fw_valid_length w) (fw_file w) = (Inr (), f1)" "write_all frame f1 = (wr, f2)"
      "append_written l n (w\<lparr>fw_file := f2\<rparr>) = (res, w')" for f1 f2 frame wr l n
    using log_grows_trans [OF grow [OF that(1,2)]] append_written_grows [OF that(3)] by simp
  from assms(2) False show ?thesis
    by (auto simp: wal_append_def ensure_writable_def Let_def append_next_lsn
        split: sum.splits if_splits prod.splits
        intro: log_grows_same [OF refl] grow seek written)
qed

lemma wal_flush_grows: "wal_flush w = (res, w') \<Longrightarrow> log_grows (fw_file w) (fw_file w')"
  by (auto simp: wal_flush_def intro: log_grows_same dest: sync_current_grows
      split: prod.splits sum.splits)


lemma wal_replay_grows:
  assumes "wal_inv crc rs extra w" and "wal_replay crc w = (res, w')"
  shows "log_grows (fw_file w) (fw_file w')"
  using wal_replay_inv [OF assms] by (simp add: log_grows_same)

section \<open>The contract of a write-ahead log\<close>

text \<open>\<open>holds w rs\<close>: the log accepted exactly the records \<open>rs\<close>. \<open>stable w ss\<close>: stable storage begins
  with \<open>ss\<close>. A client may append, make everything stable, and read everything back; nothing that
  became stable is lost by a later call, successful or not.\<close>

locale durable_log =
  fixes holds :: "'w \<Rightarrow> 'r list \<Rightarrow> bool"
    and stable :: "'w \<Rightarrow> 'r list \<Rightarrow> bool"
    and acceptable :: "'r \<Rightarrow> bool"
    and append_op :: "'r \<Rightarrow> 'w \<Rightarrow> ('e + 'o) \<times> 'w"
    and flush_op :: "'w \<Rightarrow> ('e + 'd) \<times> 'w"
    and replay_op :: "'w \<Rightarrow> ('e + 'p) \<times> 'w"
    and contents :: "'p \<Rightarrow> 'r list"
  assumes append_ok: "holds w rs \<Longrightarrow> acceptable r \<Longrightarrow> append_op r w = (Inr out, w') \<Longrightarrow>
      holds w' (rs @ [r])"
    and append_err: "holds w rs \<Longrightarrow> acceptable r \<Longrightarrow> append_op r w = (Inl e, w') \<Longrightarrow>
      holds w' rs \<or> holds w' (rs @ [r])"
    and flush_ok: "holds w rs \<Longrightarrow> flush_op w = (Inr d, w') \<Longrightarrow> holds w' rs \<and> stable w' rs"
    and flush_err: "holds w rs \<Longrightarrow> flush_op w = (Inl e, w') \<Longrightarrow> holds w' rs"
    and replay_ok: "holds w rs \<Longrightarrow> replay_op w = (Inr p, w') \<Longrightarrow>
      holds w' rs \<and> stable w' rs \<and> contents p = rs"
    and replay_err: "holds w rs \<Longrightarrow> replay_op w = (Inl e, w') \<Longrightarrow> holds w' rs"
    and append_stable: "holds w rs \<Longrightarrow> stable w ss \<Longrightarrow> append_op r w = (res, w') \<Longrightarrow> stable w' ss"
    and flush_stable: "holds w rs \<Longrightarrow> stable w ss \<Longrightarrow> flush_op w = (fres, w') \<Longrightarrow> stable w' ss"
begin

text \<open>Append and flush in sequence, as the runtime uses them before it performs an effect.\<close>

definition append_flush :: "'r \<Rightarrow> 'w \<Rightarrow> ('e + unit) \<times> 'w" where
  "append_flush r w =
     (case append_op r w of
        (Inl e, w) \<Rightarrow> (Inl e, w)
      | (Inr _, w) \<Rightarrow>
          (case flush_op w of
             (Inl e, w) \<Rightarrow> (Inl e, w)
           | (Inr _, w) \<Rightarrow> (Inr (), w)))"

lemma append_flush_stable:
  assumes "holds w rs" and "acceptable r" and "append_flush r w = (res, w')"
  shows "(holds w' rs \<or> holds w' (rs @ [r])) \<and> (stable w ss \<longrightarrow> stable w' ss) \<and>
    (is_ok res \<longrightarrow> holds w' (rs @ [r]) \<and> stable w' (rs @ [r]))"
proof -
  obtain ar v where a: "append_op r w = (ar, v)" by fastforce
  show ?thesis
  proof (cases ar)
    case (Inl e)
    with assms a append_err [of w rs r e v] append_stable [of w rs ss r ar v] show ?thesis
      by (auto simp: append_flush_def)
  next
    case (Inr out)
    have held: "holds v (rs @ [r])" using append_ok [of w rs r out v] assms(1,2) a Inr by simp
    obtain fr u where f: "flush_op v = (fr, u)" by fastforce
    have "stable w ss \<longrightarrow> stable u ss"
      using append_stable [of w rs ss r ar v] flush_stable [OF held, of ss fr u] assms(1) a f by blast
    with assms(3) a Inr f flush_ok [OF held, of _ u] flush_err [OF held, of _ u] show ?thesis
      by (cases fr) (auto simp: append_flush_def)
  qed
qed

end

definition wal_holds :: "(bytes \<Rightarrow> u32) \<Rightarrow> file_wal \<Rightarrow> wal_record_input list \<Rightarrow> bool" where
  "wal_holds crc w rs \<longleftrightarrow> (\<exists>extra. wal_inv crc rs extra w)"

definition wal_stable :: "(bytes \<Rightarrow> u32) \<Rightarrow> file_wal \<Rightarrow> wal_record_input list \<Rightarrow> bool" where
  "wal_stable crc w rs \<longleftrightarrow> stable_log crc rs (fw_file w)"

definition replay_contents :: "replay \<Rightarrow> wal_record_input list" where
  "replay_contents rp = map record_content (replay_records rp)"

lemma wal_inv_held:
  "wal_inv crc rs extra w \<Longrightarrow> holds_log crc (wcfg_max_record_bytes (fw_config w)) rs extra (fw_file w)"
  by (simp add: wal_inv_def)

lemma wal_inv_records: "wal_inv crc rs extra w \<Longrightarrow> map record_content (log_records None rs) = rs"
  by (auto simp: wal_inv_def holds_log_def dest: log_records_content)

interpretation wal: durable_log "wal_holds crc" "wal_stable crc" input_ok "wal_append crc" wal_flush
  "wal_replay crc" replay_contents for crc
proof
  fix w w' :: file_wal and rs ss and r and e :: wal_error
  note append = wal_append_inv [of crc rs _ w r _ w']
  note flush = wal_flush_inv [of crc rs _ w _ w'] and replay = wal_replay_inv [of crc rs _ w _ w']
  show "wal_holds crc w rs \<Longrightarrow> input_ok r \<Longrightarrow> wal_append crc r w = (Inr out, w') \<Longrightarrow>
      wal_holds crc w' (rs @ [r])" for out
    unfolding wal_holds_def using append by fastforce
  show "wal_holds crc w rs \<Longrightarrow> input_ok r \<Longrightarrow> wal_append crc r w = (Inl e, w') \<Longrightarrow>
      wal_holds crc w' rs \<or> wal_holds crc w' (rs @ [r])"
    unfolding wal_holds_def using append by fastforce
  show "wal_holds crc w rs \<Longrightarrow> wal_flush w = (Inr d, w') \<Longrightarrow> wal_holds crc w' rs \<and> wal_stable crc w' rs"
    for d
    unfolding wal_holds_def wal_stable_def using flush by blast
  show "wal_holds crc w rs \<Longrightarrow> wal_flush w = (Inl e, w') \<Longrightarrow> wal_holds crc w' rs"
    unfolding wal_holds_def using flush by blast
  show "wal_holds crc w rs \<Longrightarrow> wal_replay crc w = (Inr p, w') \<Longrightarrow>
      wal_holds crc w' rs \<and> wal_stable crc w' rs \<and> replay_contents p = rs" for p
    unfolding wal_holds_def wal_stable_def replay_contents_def using replay wal_inv_records
    by fastforce
  show "wal_holds crc w rs \<Longrightarrow> wal_replay crc w = (Inl e, w') \<Longrightarrow> wal_holds crc w' rs"
    unfolding wal_holds_def using replay by blast
  show "wal_holds crc w rs \<Longrightarrow> wal_stable crc w ss \<Longrightarrow> wal_append crc r w = (res, w') \<Longrightarrow>
      wal_stable crc w' ss" for res
    unfolding wal_holds_def wal_stable_def
    using wal_append_grows log_grows_stable wal_inv_held by blast
  show "wal_holds crc w rs \<Longrightarrow> wal_stable crc w ss \<Longrightarrow> wal_flush w = (res, w') \<Longrightarrow>
      wal_stable crc w' ss" for res
    unfolding wal_holds_def wal_stable_def
    using wal_flush_grows log_grows_stable wal_inv_held by blast
qed

section \<open>Runs of a writer\<close>

datatype wal_op = WAppend wal_record_input | WFlush | WReplay

datatype wal_result =
    RAppend "wal_error + append_outcome"
  | RFlush "wal_error + lsn option"
  | RReplay "wal_error + replay"

fun wal_step :: "(bytes \<Rightarrow> u32) \<Rightarrow> wal_op \<Rightarrow> file_wal \<Rightarrow> wal_result \<times> file_wal" where
  "wal_step crc (WAppend r) w = map_prod RAppend id (wal_append crc r w)"
| "wal_step crc WFlush w = map_prod RFlush id (wal_flush w)"
| "wal_step crc WReplay w = map_prod RReplay id (wal_replay crc w)"

fun wal_op_ok :: "wal_op \<Rightarrow> bool" where
  "wal_op_ok (WAppend r) \<longleftrightarrow> input_ok r"
| "wal_op_ok _ \<longleftrightarrow> True"

text \<open>The records whose append returned a success.\<close>

fun accepted :: "wal_op list \<Rightarrow> wal_result list \<Rightarrow> wal_record_input list" where
  "accepted (WAppend r # ops) (RAppend (Inr out) # rs) = r # accepted ops rs"
| "accepted (op # ops) (res # rs) = accepted ops rs"
| "accepted _ _ = []"

text \<open>The records whose append returned an error.\<close>

fun failed :: "wal_op list \<Rightarrow> wal_result list \<Rightarrow> wal_record_input list" where
  "failed (WAppend r # ops) (RAppend (Inl e) # rs) = r # failed ops rs"
| "failed (op # ops) (res # rs) = failed ops rs"
| "failed _ _ = []"

fun refused :: "wal_op \<Rightarrow> wal_result" where
  "refused (WAppend r) = RAppend (Inl Poisoned)"
| "refused WFlush = RFlush (Inl Poisoned)"
| "refused WReplay = RReplay (Inl Poisoned)"

lemma poisoned_step: "fw_poisoned w \<Longrightarrow> wal_step crc op w = (refused op, w)"
  by (cases op) (simp_all add: wal_append_def wal_flush_def wal_replay_def ensure_writable_def)

lemma poisoned_run: "fw_poisoned w \<Longrightarrow> run_ops (wal_step crc) ops w = (map refused ops, w)"
  by (induction ops) (simp_all add: poisoned_step)

definition wal_tracks ::
  "(bytes \<Rightarrow> u32) \<Rightarrow> wal_record_input list \<Rightarrow> wal_record_input list \<Rightarrow> file_wal \<Rightarrow> bool" where
  "wal_tracks crc acc fail w \<longleftrightarrow> (\<exists>rs extra. wal_inv crc rs extra w \<and> rs @ extra = acc @ fail) \<and>
     length fail \<le> 1 \<and> (fail \<noteq> [] \<longrightarrow> fw_poisoned w)"

lemma wal_tracks_step:
  assumes tr: "wal_tracks crc acc fail w" and ok: "wal_op_ok op" and st: "wal_step crc op w = (res, w')"
  shows "\<exists>fail'. wal_tracks crc (acc @ accepted [op] [res]) fail' w' \<and> fw_config w' = fw_config w \<and>
    set fail' \<subseteq> set fail \<union> set (failed [op] [res])"
proof (cases "fw_poisoned w")
  case True
  then have "res = refused op" "w' = w" using st poisoned_step by simp_all
  then show ?thesis using tr by (cases op) (auto intro!: exI [of _ fail])
next
  case False
  with tr have inv: "wal_inv crc acc [] w" by (auto simp: wal_tracks_def wal_inv_def)
  show ?thesis
  proof (cases op)
    case (WAppend r)
    then obtain ares where a: "wal_append crc r w = (ares, w')" "res = RAppend ares"
      using st by (cases "wal_append crc r w") auto
    have r: "input_ok r" using ok WAppend by simp
    note app = wal_append_inv [OF inv r a(1)]
    show ?thesis
    proof (cases ares)
      case (Inl e)
      with app consider "wal_inv crc acc [] w'" | "fw_poisoned w'" "wal_inv crc acc [r] w'"
        | "fw_poisoned w'" "wal_inv crc (acc @ [r]) [] w'" by auto
      then show ?thesis
      proof cases
        case 1
        with a Inl WAppend app show ?thesis by (intro exI [of _ "[]"]) (auto simp: wal_tracks_def)
      next
        case 2
        with a Inl WAppend app show ?thesis by (intro exI [of _ "[r]"]) (auto simp: wal_tracks_def)
      next
        case 3
        then have "wal_tracks crc acc [r] w'"
          unfolding wal_tracks_def by (intro conjI exI [of _ "acc @ [r]"] exI [of _ "[]"]) simp_all
        with a Inl WAppend app show ?thesis by (intro exI [of _ "[r]"]) auto
      qed
    next
      case (Inr out)
      with a WAppend app show ?thesis by (intro exI [of _ "[]"]) (auto simp: wal_tracks_def)
    qed
  next
    case WFlush
    then obtain fr where "wal_flush w = (fr, w')" "res = RFlush fr"
      using st by (cases "wal_flush w") auto
    with WFlush wal_flush_inv [OF inv] show ?thesis
      by (intro exI [of _ "[]"]) (auto simp: wal_tracks_def)
  next
    case WReplay
    then obtain rr where "wal_replay crc w = (rr, w')" "res = RReplay rr"
      using st by (cases "wal_replay crc w") auto
    with WReplay wal_replay_inv [OF inv] show ?thesis
      by (intro exI [of _ "[]"]) (auto simp: wal_tracks_def)
  qed
qed

lemma accepted_Cons: "accepted (op # ops) (res # rs) = accepted [op] [res] @ accepted ops rs"
  by (cases "(op # ops, res # rs)" rule: accepted.cases) simp_all

lemma failed_Cons: "failed (op # ops) (res # rs) = failed [op] [res] @ failed ops rs"
  by (cases "(op # ops, res # rs)" rule: failed.cases) simp_all

lemma wal_tracks_run:
  assumes "wal_tracks crc acc fail w" and "list_all wal_op_ok ops"
    and "run_ops (wal_step crc) ops w = (rs, w')"
  shows "\<exists>fail'. wal_tracks crc (acc @ accepted ops rs) fail' w' \<and> fw_config w' = fw_config w \<and>
    set fail' \<subseteq> set fail \<union> set (failed ops rs)"
  using assms
proof (induction ops arbitrary: acc fail w rs)
  case Nil
  then show ?case by auto
next
  case (Cons op ops)
  obtain res v where s: "wal_step crc op w = (res, v)" by fastforce
  from Cons.prems(3) s obtain rs' where r: "run_ops (wal_step crc) ops v = (rs', w')" "rs = res # rs'"
    by (auto split: prod.splits)
  obtain fail1 where one: "wal_tracks crc (acc @ accepted [op] [res]) fail1 v" "fw_config v = fw_config w"
    "set fail1 \<subseteq> set fail \<union> set (failed [op] [res])"
    using wal_tracks_step [OF Cons.prems(1) _ s] Cons.prems(2) by auto
  with Cons.IH [OF one(1) _ r(1)] Cons.prems(2) obtain fail2 where
    "wal_tracks crc ((acc @ accepted [op] [res]) @ accepted ops rs') fail2 w'" "fw_config w' = fw_config w"
    "set fail2 \<subseteq> set fail1 \<union> set (failed ops rs')" by auto
  with one(3) r(2) show ?case
    by (intro exI [of _ fail2]) (auto simp: accepted_Cons [of op ops] failed_Cons [of op ops])
qed

section \<open>Opening and recovering\<close>

lemma open_inv:
  assumes "file_wal_open crc cfg (Inr f) = Inr w" and "io_synced f = io_bytes f"
  shows "\<exists>rs. wal_inv crc rs [] w \<and> fw_config w = cfg \<and>
    (\<exists>rest. io_bytes f = io_bytes (fw_file w) @ rest)"
proof -
  from assms(1) obtain rp f' where scan: "scan crc (wcfg_max_record_bytes cfg) (wcfg_tail_repair cfg) f =
      (Inr rp, f')" and w: "w = \<lparr>fw_file = f', fw_config = cfg,
        fw_last_lsn = report_last_lsn (replay_report rp),
        fw_durable_through = report_last_lsn (replay_report rp),
        fw_valid_length = report_durable_file_length (replay_report rp),
        fw_unsynced_records = 0, fw_poisoned = False, fw_open_report = replay_report rp\<rparr>"
    by (auto simp: file_wal_open_def Let_def split: prod.splits sum.splits)
  from scan_success_sound [OF scan] obtain rs repair where
    rs: "log_bytes crc None rs = Some (io_bytes f')"
      "list_all (record_ok (wcfg_max_record_bytes cfg)) rs"
    and rp: "rp = replay_of (log_records None rs) (length rs) (log_last None rs) (length (io_bytes f')) repair"
    and pre: "io_bytes f' = take (length (io_bytes f')) (io_bytes f)"
    and same: "repair = None \<longleftrightarrow> io_bytes f' = io_bytes f" "repair \<noteq> None \<longrightarrow> io_synced f' = io_bytes f'"
    by blast
  have "io_synced f' = io_bytes f'"
    using same scan_synced [OF scan] assms(2) by (cases repair) auto
  moreover have "\<exists>rest. io_bytes f = io_bytes f' @ rest"
    by (metis append_take_drop_id pre)
  ultimately show ?thesis
    using rs rp w
    by (auto simp: wal_inv_def holds_log_def stable_log_def replay_of_def
        intro!: exI [of _ rs] exI [of _ "length rs"])
qed

text \<open>What a crash may leave in the file: the bytes on stable storage, and behind them anything at all
  in place of the bytes that were not yet synchronized. A plain cut only loses an end of these.\<close>

definition crash_leaves :: "wal_file \<Rightarrow> bytes \<Rightarrow> bool" where
  "crash_leaves f bs \<longleftrightarrow> (\<exists>part. bs = io_synced f @ part)"

definition crash_cuts :: "wal_file \<Rightarrow> bytes \<Rightarrow> bool" where
  "crash_cuts f bs \<longleftrightarrow> crash_leaves f bs \<and> (\<exists>gone. io_bytes f = bs @ gone)"

text \<open>A directory after the restart of a healthy machine.\<close>

definition restarted :: "wal_dir \<Rightarrow> bool" where
  "restarted d \<longleftrightarrow> wd_file d \<noteq> None \<and> \<not> wd_locked d \<and> wd_faults d = [] \<and> wd_script d = []"

text \<open>A writer whose file is exactly the log of \<open>rs\<close>, records within its limits, which every replay that succeeds returns.\<close>

definition log_reads :: "(bytes \<Rightarrow> u32) \<Rightarrow> file_wal \<Rightarrow> wal_record_input list \<Rightarrow> bool" where
  "log_reads crc w rs \<longleftrightarrow> log_bytes crc None rs = Some (io_bytes (fw_file w)) \<and>
     list_all (record_ok (wcfg_max_record_bytes (fw_config w))) rs \<and>
     (\<forall>rp w'. wal_replay crc w = (Inr rp, w') \<longrightarrow> replay_contents rp = rs)"

lemma scan_keeps_log:
  assumes scan: "scan crc m policy f = (res, f')" and f: "io_bytes f = e @ part"
    and e: "log_bytes crc None ss = Some e" and ok: "list_all (record_ok m) ss"
  shows "\<exists>rest. io_bytes f' = e @ rest"
proof (cases "io_bytes f' = io_bytes f")
  case False
  from scan_change_torn [OF scan False] obtain rs tl where
    rs: "log_bytes crc None rs = Some (io_bytes f')" "list_all (record_ok m) rs"
      "io_bytes f = io_bytes f' @ tl" "\<not> complete_frame_at crc m tl" by blast
  from f rs(3) have "e @ part = io_bytes f' @ tl" by simp
  then obtain us where "e @ us = io_bytes f' \<or> e = io_bytes f' @ us \<and> us @ part = tl"
    by (auto simp: append_eq_append_conv2)
  then show ?thesis
  proof
    assume us: "e = io_bytes f' @ us \<and> us @ part = tl"
    with log_bytes_prefix [of crc None ss "io_bytes f'" us rs m] e ok rs(1,2) obtain ts where
      ts: "ss = rs @ ts" "log_bytes crc (log_last None rs) ts = Some us" by auto
    show ?thesis
    proof (cases ts)
      case Nil
      with ts(2) us show ?thesis by simp
    next
      case (Cons r ts')
      with ts(2) obtain l frame bs where "encode_frame crc l r = Inr frame" "us = frame @ bs"
        by (auto simp: next_lsn_prefix simp del: log_bytes.simps(2))
      moreover have "record_ok m r" using ok ts(1) Cons by simp
      ultimately have "complete_frame_at crc m tl"
        using us by (auto simp: complete_frame_at_def)
      with rs(4) show ?thesis by contradiction
    qed
  qed (rule exI, erule sym)
qed (use f in auto)

lemma scan_returns_same:
  assumes log: "log_bytes crc None rs = Some (io_bytes f)" "list_all (record_ok m) rs"
    and scan: "scan crc m policy f = (Inr rp, f')"
  shows "replay_contents rp = rs"
proof -
  from scan_keeps_log [OF scan _ log, of "[]"] obtain rest where "io_bytes f' = io_bytes f @ rest" by auto
  with scan_success_sound [OF scan] obtain ss repair where
    ss: "log_bytes crc None ss = Some (io_bytes f)" "list_all (record_ok m) ss"
      "rp = replay_of (log_records None ss) (length ss) (log_last None ss) (length (io_bytes f')) repair"
    by (metis append_eq_conv_conj append_self_conv take_all_iff nle_le)
  then show ?thesis
    using log_bytes_inject [OF log(1) ss(1) log(2) ss(2)] log_records_content [OF ss(1)]
    by (simp add: replay_contents_def replay_of_def)
qed

lemma log_readsI:
  assumes "log_bytes crc None rs = Some (io_bytes (fw_file w))"
    and "list_all (record_ok (wcfg_max_record_bytes (fw_config w))) rs"
  shows "log_reads crc w rs"
  unfolding log_reads_def
proof (intro conjI allI impI)
  fix rp w'
  assume rep: "wal_replay crc w = (Inr rp, w')"
  then obtain d g where g: "wal_flush w = (Inr d, g)"
    by (auto simp: wal_replay_def split: prod.splits sum.splits)
  then have same: "io_bytes (fw_file g) = io_bytes (fw_file w)" "fw_config g = fw_config w"
    by (auto simp: wal_flush_def sync_current_def dest!: sync_data_cases split: prod.splits sum.splits)
  from rep g obtain f' where "scan crc (wcfg_max_record_bytes (fw_config g))
      (wcfg_tail_repair (fw_config g)) (fw_file g) = (Inr rp, f')"
    by (auto simp: wal_replay_def Let_def split: prod.splits sum.splits)
  from scan_returns_same [OF _ _ this] assms same show "replay_contents rp = rs" by simp
qed (rule assms)+

lemma log_reads_inject: "log_reads crc w rs \<Longrightarrow> log_reads crc w ss \<Longrightarrow> rs = ss"
  by (auto simp: log_reads_def intro: log_bytes_inject)

lemma log_reads_longer:
  assumes "log_reads crc w (take n rs @ ts)" and "log_reads crc w (take k rs)" and "n \<le> length rs"
  shows "n \<le> k"
proof -
  have "length (take n rs @ ts) = length (take k rs)"
    using log_reads_inject [OF assms(1,2)] by (rule arg_cong)
  with assms(3) show ?thesis by simp
qed

lemma file_wal_open_scan:
  "file_wal_open crc cfg (Inr f) = Inr w \<Longrightarrow>
     \<exists>rp. scan crc (wcfg_max_record_bytes cfg) (wcfg_tail_repair cfg) f = (Inr rp, fw_file w) \<and> fw_config w = cfg"
  by (auto simp: file_wal_open_def Let_def split: prod.splits sum.splits)

text \<open>Opening, with any faults and any tail policy, never loses what stable storage began with.\<close>

lemma reopen_keeps:
  assumes "open": "wal_open crc cfg d = (res, d')" and stable: "stable_log crc ss f"
    and ok: "list_all (record_ok (wcfg_max_record_bytes cfg)) ss" and crash: "crash_leaves f (dir_bytes d)"
  shows "(\<exists>e rest. log_bytes crc None ss = Some e \<and> dir_bytes d' = e @ rest) \<and>
    (\<forall>w. res = Inr w \<longrightarrow> (\<exists>ts. log_reads crc w (ss @ ts)))"
proof -
  from stable crash obtain e part where e: "log_bytes crc None ss = Some e" "dir_bytes d = e @ part"
    by (auto simp: stable_log_def crash_leaves_def)
  from wal_open_result [OF "open"] show ?thesis
  proof (elim disjE conjE exE)
    assume "same_content d d'"
    with e show ?thesis if "res = Inl x" for x using that by (auto simp: same_content_def)
  next
    fix g
    assume g: "io_bytes g = dir_bytes d" "res = file_wal_open crc cfg (Inr g)"
      "wd_file d' = Some (snd (scan crc (wcfg_max_record_bytes cfg) (wcfg_tail_repair cfg) g))"
    from g(1) e(2) have "io_bytes g = e @ part" by simp
    from scan_keeps_log [OF surjective_pairing this e(1) ok] obtain rest where
      rest: "io_bytes (snd (scan crc (wcfg_max_record_bytes cfg) (wcfg_tail_repair cfg) g)) = e @ rest" by blast
    have "\<exists>ts. log_reads crc w (ss @ ts)" if w: "res = Inr w" for w
    proof -
      from w g(2) file_wal_open_scan obtain rp where
        rp: "scan crc (wcfg_max_record_bytes cfg) (wcfg_tail_repair cfg) g = (Inr rp, fw_file w)" "fw_config w = cfg"
        by metis
      from scan_success_sound [OF rp(1)] obtain rs where
        rs: "log_bytes crc None rs = Some (e @ rest)" "list_all (record_ok (wcfg_max_record_bytes cfg)) rs"
        using rest rp(1) by auto
      from log_bytes_prefix [OF rs(1) e(1) rs(2) ok] obtain ts where "rs = ss @ ts" by blast
      with log_readsI [of crc rs w] rs rest rp show ?thesis by auto
    qed
    with e(1) rest g(3) show ?thesis by (auto simp: dir_bytes_def)
  qed
qed

text \<open>After a plain cut a healthy machine opens the log again, with a beginning of its records; only
  under the reject policy a torn frame at the end is an error, and then the file is left alone.\<close>

lemma wal_open_restarted:
  assumes "restarted d"
  shows "\<exists>g. healthy g \<and> io_bytes g = dir_bytes d \<and> fst (wal_open crc cfg d) = file_wal_open crc cfg (Inr g) \<and>
    wd_file (snd (wal_open crc cfg d)) =
      Some (snd (scan crc (wcfg_max_record_bytes cfg) (wcfg_tail_repair cfg) g))"
proof -
  from assms obtain f where "wd_file d = Some f" by (auto simp: restarted_def)
  with assms show ?thesis
    by (intro exI [of _ "f\<lparr>io_pos := 0, io_script := []\<rparr>"])
      (auto simp: wal_open_def restarted_def dir_step_def dir_call_def path_exists_def open_file_def
        try_lock_exclusive_def sync_created_def opened_file_def healthy_def dir_bytes_def Let_def
        split: sum.split)
qed

lemma reopen_succeeds:
  assumes held: "holds_log crc m rs extra f" and crash: "crash_cuts f (dir_bytes d)"
    and d: "restarted d" and small: "length (io_bytes f) < 2 ^ 63"
    and m: "wcfg_max_record_bytes cfg = m" and "open": "wal_open crc cfg d = (res, d')"
  shows "(\<exists>w k. res = Inr w \<and> log_reads crc w (take k (rs @ extra))) \<or>
    wcfg_tail_repair cfg = Reject \<and> (\<exists>offset len last. res = Inl (TornTail offset len last)) \<and>
    dir_bytes d' = dir_bytes d"
proof -
  from held obtain a b j where log: "log_bytes crc None (rs @ extra) = Some (a @ b)"
    "io_bytes f = a @ take j b" "list_all (record_ok m) (rs @ extra)"
    by (auto simp: holds_log_def)
  obtain g where g: "healthy g" "io_bytes g = dir_bytes d" "res = file_wal_open crc cfg (Inr g)"
    "wd_file d' = Some (snd (scan crc m (wcfg_tail_repair cfg) g))"
    using wal_open_restarted [OF d, of crc cfg] "open" m by auto
  from crash g(2) obtain gone where gone: "io_bytes f = io_bytes g @ gone" by (auto simp: crash_cuts_def)
  have len: "length (io_bytes g) < 2 ^ 63" using small gone by simp
  have "io_bytes g @ gone @ drop j b = a @ b" using log(2) gone by (metis append.assoc append_take_drop_id)
  then have cut: "io_bytes g = take (length (io_bytes g)) (a @ b)" by (metis append_eq_conv_conj)
  from log_cut [OF log(1), of "length (io_bytes g)"] obtain k c where
    k: "log_bytes crc None (take k (rs @ extra)) = Some c"
      "io_bytes g = c \<or> (\<exists>part. k < length (rs @ extra) \<and> io_bytes g = c @ part \<and>
        torn_after crc (log_last None (take k (rs @ extra))) ((rs @ extra) ! k) part)"
    unfolding cut [symmetric] by blast
  have ok: "list_all (record_ok m) (take k (rs @ extra))"
    using log(3) by (metis append_take_drop_id list_all_append)
  have found: "\<exists>w k. res = Inr w \<and> log_reads crc w (take k (rs @ extra))"
    if s: "scan crc m (wcfg_tail_repair cfg) g = (Inr rp, g')" "io_bytes g' = c" for rp g'
  proof -
    from s(1) g(3) m obtain w where w: "res = Inr w" by (auto simp: file_wal_open_def Let_def)
    with file_wal_open_scan [of crc cfg g w] g(3) s m have "fw_file w = g'" "fw_config w = cfg" by auto
    with log_readsI [of crc "take k (rs @ extra)" w] k(1) ok s(2) m w show ?thesis by auto
  qed
  from k(2) show ?thesis
  proof
    assume "io_bytes g = c"
    with scan_complete_log [OF g(1) _ ok len, of crc "wcfg_tail_repair cfg"] k(1) found show ?thesis
      by simp
  next
    assume "\<exists>part. k < length (rs @ extra) \<and> io_bytes g = c @ part \<and>
        torn_after crc (log_last None (take k (rs @ extra))) ((rs @ extra) ! k) part"
    then obtain part l missing where p: "k < length (rs @ extra)" "io_bytes g = c @ part"
      "next_lsn (log_last None (take k (rs @ extra))) = Some l"
      "encode_frame crc l ((rs @ extra) ! k) = Inr (part @ missing)" "part \<noteq> []" "missing \<noteq> []"
      by (auto simp: torn_after_def)
    have "record_ok m ((rs @ extra) ! k)" using log(3) p(1) by (simp add: list_all_length)
    note torn = scan_torn_log [OF g(1) p(2) k(1) ok p(3) this p(4,5,6) len surjective_pairing,
        of "wcfg_tail_repair cfg"]
    show ?thesis
    proof (cases "wcfg_tail_repair cfg")
      case Truncate
      with torn have "\<exists>rp. fst (scan crc m Truncate g) = Inr rp" "io_bytes (snd (scan crc m Truncate g)) = c"
        by simp_all
      with found Truncate show ?thesis by (cases "scan crc m Truncate g") auto
    next
      case Reject
      with torn have "fst (scan crc m Reject g) = Inl (TornTail (length c) (length (io_bytes g))
          (log_last None (take k (rs @ extra))))" "io_bytes (snd (scan crc m Reject g)) = io_bytes g"
        by simp_all
      with g(2-4) Reject m show ?thesis
        by (cases "scan crc m Reject g") (auto simp: file_wal_open_def dir_bytes_def)
    qed
  qed
qed

end
