(* ===== verification/Wal_Properties.thy ===== *)
theory Wal_Properties
  imports Wal_Recovery
begin

text \<open>
  The properties of the write-ahead log: scanning, crash recovery, poisoning and the sync policies.
\<close>

section \<open>Scanning\<close>

text \<open>Scanning a log of well-formed records returns exactly these records in order with LSNs
  \<open>1, 2, ...\<close> under either tail policy, and leaves the file unchanged. \<close>

lemma scan_returns_log:
  assumes "healthy f" and "log_bytes crc None rs = Some (io_bytes f)"
    and "list_all (record_ok m) rs" and "length (io_bytes f) < 2 ^ 63"
    and "scan crc m policy f = (res, f')"
  shows "\<exists>rp. res = Inr rp \<and> replay_contents rp = rs \<and>
    map (\<lambda>r. unat (lsn_get (rec_lsn r))) (replay_records rp) = [1..<Suc (length rs)] \<and>
    report_tail_repair (replay_report rp) = None \<and> io_bytes f' = io_bytes f"
  using scan_complete_log [OF assms(1-4), of policy] assms(5) log_records_content [OF assms(2)]
    log_records_lsn [OF assms(2)]
  by (simp add: replay_contents_def replay_of_def del: upt_Suc)

text \<open>C3: When a crash leaves a strict, nonempty prefix of the next frame at the end of a log, the
  reject policy reports the torn tail and leaves the file alone; the truncate policy returns the
  complete records, cuts the file back to them and synchronizes it. \<close>

theorem scan_torn_tail:
  assumes "healthy f" and "io_bytes f = bs @ part" and "log_bytes crc None rs = Some bs"
    and "list_all (record_ok m) rs" and "torn_after crc (log_last None rs) r part"
    and "record_ok m r" and "length (io_bytes f) < 2 ^ 63" and "scan crc m policy f = (res, f')"
  shows "case policy of
      Reject \<Rightarrow> res = Inl (TornTail (length bs) (length (io_bytes f)) (log_last None rs)) \<and>
        io_bytes f' = io_bytes f
    | Truncate \<Rightarrow> (\<exists>rp. res = Inr rp \<and> replay_contents rp = rs \<and>
        map_option repair_bytes_removed (report_tail_repair (replay_report rp)) = Some (length part)) \<and>
        io_bytes f' = bs \<and> io_synced f' = bs"
proof -
  obtain l missing where l: "next_lsn (log_last None rs) = Some l"
    "encode_frame crc l r = Inr (part @ missing)" "part \<noteq> []" "missing \<noteq> []"
    using assms(5) by (auto simp: torn_after_def)
  show ?thesis
    using scan_torn_log [OF assms(1-4) l(1) assms(6) l(2-4) assms(7,8)]
      log_records_content [OF assms(3)]
    by (auto simp: replay_contents_def replay_of_def split: tail_repair.splits)
qed

lemma torn_sample: "torn_after sample_crc None sample_input (take 41 sample_frame)"
  using sample_log_facts
  by (auto simp: torn_after_def intro!: exI [of _ "drop 41 sample_frame"])

theorem scan_torn_tail_witness:
  "fst (scan sample_crc 1024 Reject (sample_file (take 41 sample_frame))) = Inl (TornTail 0 41 None) \<and>
   io_bytes (snd (scan sample_crc 1024 Truncate (sample_file (take 41 sample_frame)))) = []"
  using scan_torn_tail [OF _ _ _ _ _ _ _ surjective_pairing, of "sample_file (take 41 sample_frame)"
      "[]" "take 41 sample_frame" sample_crc "[]" 1024 sample_input Reject]
    scan_torn_tail [OF _ _ _ _ _ _ _ surjective_pairing, of "sample_file (take 41 sample_frame)"
      "[]" "take 41 sample_frame" sample_crc "[]" 1024 sample_input Truncate]
    sample_log_facts torn_sample
  by simp

text \<open>C2: Whatever bytes the file holds and whatever I/O calls fail, a scan that succeeds returns only
  records whose canonical encoding with gapless LSNs is exactly the part of the file it keeps; it
  reports a repair exactly when it removed bytes, and then the rest is on stable storage. \<close>

theorem scan_sound:
  assumes "scan crc m policy f = (Inr rp, f')"
  shows "log_bytes crc None (replay_contents rp) = Some (io_bytes f') \<and>
    list_all (record_ok m) (replay_contents rp) \<and>
    report_record_count (replay_report rp) = length (replay_contents rp) \<and>
    (\<exists>rest. io_bytes f = io_bytes f' @ rest) \<and>
    (report_tail_repair (replay_report rp) = None \<longleftrightarrow> io_bytes f' = io_bytes f) \<and>
    (report_tail_repair (replay_report rp) \<noteq> None \<longrightarrow> io_synced f' = io_bytes f')"
proof -
  from scan_success_sound [OF assms] obtain rs repair where
    rs: "log_bytes crc None rs = Some (io_bytes f')" "list_all (record_ok m) rs"
      "rp = replay_of (log_records None rs) (length rs) (log_last None rs) (length (io_bytes f')) repair"
    and f': "io_bytes f' = take (length (io_bytes f')) (io_bytes f)"
      "repair = None \<longleftrightarrow> io_bytes f' = io_bytes f" "repair \<noteq> None \<longrightarrow> io_synced f' = io_bytes f'"
    by blast
  have "replay_contents rp = rs"
    using rs(1,3) by (simp add: replay_contents_def replay_of_def log_records_content)
  moreover have "\<exists>rest. io_bytes f = io_bytes f' @ rest" by (metis append_take_drop_id f'(1))
  ultimately show ?thesis using rs f'(2,3) by (simp add: replay_of_def)
qed

lemma sample_scan:
  "scan sample_crc 1024 Truncate (sample_file sample_frame) =
     (Inr (replay_of (log_records None [sample_input]) 1 (Some LSN_FIRST) 43 None),
      sample_file sample_frame\<lparr>io_pos := 43\<rparr>)"
  using scan_complete_log [of "sample_file sample_frame" sample_crc "[sample_input]" 1024 Truncate]
    sample_log_facts
  by simp

theorem scan_sound_witness:
  "log_bytes sample_crc None (replay_contents (replay_of (log_records None [sample_input]) 1
     (Some LSN_FIRST) 43 None)) = Some sample_frame"
  using scan_sound [OF sample_scan] by simp

text \<open>C4: A scan changes the file only under the truncate policy, and then it removes a tail at which
  no complete frame starts and keeps a valid log: corruption is never repaired away. \<close>

theorem scan_removes_only_torn_tail:
  assumes "scan crc m policy f = (res, f')" and "io_bytes f' \<noteq> io_bytes f"
  shows "policy = Truncate \<and> (\<exists>rs tl. log_bytes crc None rs = Some (io_bytes f') \<and>
    io_bytes f = io_bytes f' @ tl \<and> \<not> complete_frame_at crc m tl)"
  using scan_change_torn [OF assms] by blast

theorem scan_removes_only_torn_tail_witness:
  "\<not> complete_frame_at sample_crc 1024 (take 41 sample_frame)"
proof -
  have "io_bytes (snd (scan sample_crc 1024 Truncate (sample_file (take 41 sample_frame)))) = []"
    using scan_torn_log [OF _ _ _ _ _ _ _ _ _ _ surjective_pairing,
        of "sample_file (take 41 sample_frame)" "[]" "take 41 sample_frame" sample_crc "[]" 1024
          LSN_FIRST sample_input "drop 41 sample_frame" Truncate] sample_log_facts
    by simp
  then show ?thesis
    using scan_removes_only_torn_tail [OF surjective_pairing,
        of sample_crc 1024 Truncate "sample_file (take 41 sample_frame)"] sample_log_facts(6)
    by auto
qed

section \<open>Crash recovery\<close>

text \<open>C1: Open a log whose bytes are all on stable storage, run any operations of the writer with any
  I/O faults, and crash: the bytes that were not synchronized may be lost or turn into anything. Let
  \<open>written\<close> be the records of the log at opening, then the records whose append succeeded, then possibly
  one record whose append had failed, and \<open>durable\<close> the durability frontier that the writer had reported.
  Reopening with the same record size limit, any tail policy, any directory state and any faults leaves
  the first \<open>durable\<close> of these records at the beginning of the file, also when it fails; when it succeeds,
  the reopened log begins with them. If the crash only cut off an end of the unsynchronized bytes, the
  file has less than \<open>2 ^ 63\<close> bytes and the machine is healthy after the restart, then reopening succeeds
  with the first \<open>k\<close> of the written records for some \<open>k\<close> not below \<open>durable\<close>, or it reports a torn tail
  under the reject policy and leaves the file as it is. \<close>

theorem wal_survives_crash:
  assumes "file_wal_open crc cfg (Inr f0) = Inr w0" and "io_synced f0 = io_bytes f0"
    and "list_all wal_op_ok ops" and "run_ops (wal_step crc) ops w0 = (results, w)"
    and "crash_leaves (fw_file w) (dir_bytes d)"
    and "wcfg_max_record_bytes cfg' = wcfg_max_record_bytes cfg" and "wal_open crc cfg' d = (res, d')"
  shows "\<exists>old fail. log_bytes crc None old = Some (io_bytes (fw_file w0)) \<and>
    length fail \<le> 1 \<and> set fail \<subseteq> set (failed ops results) \<and>
    (let written = old @ accepted ops results @ fail; durable = lsn_nat (fw_durable_through w) in
       durable \<le> length written \<and>
       (\<exists>kept rest. log_bytes crc None (take durable written) = Some kept \<and> dir_bytes d' = kept @ rest) \<and>
       (\<forall>w'. res = Inr w' \<longrightarrow> (\<exists>more. log_reads crc w' (take durable written @ more))) \<and>
       (crash_cuts (fw_file w) (dir_bytes d) \<and> restarted d \<and> length (io_bytes (fw_file w)) < 2 ^ 63 \<longrightarrow>
          (\<exists>w' k. res = Inr w' \<and> durable \<le> k \<and> log_reads crc w' (take k written)) \<or>
          wcfg_tail_repair cfg' = Reject \<and> (\<exists>offset len last. res = Inl (TornTail offset len last)) \<and>
            dir_bytes d' = dir_bytes d))"
proof -
  let ?m = "wcfg_max_record_bytes cfg'"
  obtain old where old: "wal_inv crc old [] w0" "fw_config w0 = cfg"
    using open_inv [OF assms(1,2)] by blast
  then have "wal_tracks crc old [] w0" by (auto simp: wal_tracks_def)
  from wal_tracks_run [OF this assms(3,4)] obtain fail where
    tracks: "wal_tracks crc (old @ accepted ops results) fail w" "fw_config w = cfg"
      "set fail \<subseteq> set (failed ops results)" using old(2) by auto
  then obtain rs extra where tr: "wal_inv crc rs extra w" "length fail \<le> 1"
      "rs @ extra = old @ accepted ops results @ fail" by (auto simp: wal_tracks_def)
  let ?written = "old @ accepted ops results @ fail"
  from tr(1) tracks(2) assms(6) obtain n where held: "holds_log crc ?m rs extra (fw_file w)"
    and n: "n \<le> length rs" "fw_durable_through w = log_last None (take n rs)"
      "stable_log crc (take n rs) (fw_file w)"
    by (auto simp: wal_inv_def)
  have whole: "log_bytes crc None old = Some (io_bytes (fw_file w0))"
    using old(1) by (auto simp: wal_inv_def holds_log_def)
  obtain e where e: "log_bytes crc None (take n rs) = Some e" using n(3) by (auto simp: stable_log_def)
  have durable: "lsn_nat (fw_durable_through w) = n"
    using log_last_nat [OF e] n(1,2) by simp
  have first: "take n rs = take n ?written" using n(1) tr(3) [symmetric] by simp
  have "list_all (record_ok ?m) rs" using held by (simp add: holds_log_def)
  then have ok: "list_all (record_ok ?m) (take n rs)" by (metis append_take_drop_id list_all_append)
  note keeps = reopen_keeps [OF assms(7) n(3) ok assms(5), unfolded first]
  have long: "n \<le> length ?written" using n(1) arg_cong [OF tr(3), of length] by simp
  have cut: "(\<exists>w' k. res = Inr w' \<and> n \<le> k \<and> log_reads crc w' (take k ?written)) \<or>
      wcfg_tail_repair cfg' = Reject \<and> (\<exists>offset len last. res = Inl (TornTail offset len last)) \<and>
        dir_bytes d' = dir_bytes d"
    if "crash_cuts (fw_file w) (dir_bytes d)" "restarted d" "length (io_bytes (fw_file w)) < 2 ^ 63"
  proof -
    from reopen_succeeds [OF held that refl assms(7)] show ?thesis
    proof (elim disjE exE conjE)
      fix w' k
      assume w': "res = Inr w'" "log_reads crc w' (take k (rs @ extra))"
      with keeps obtain ts where "log_reads crc w' (take n ?written @ ts)" by blast
      from log_reads_longer [OF this w'(2) [unfolded tr(3)] long] w' tr(3) show ?thesis by auto
    qed simp
  qed
  with whole tr(2) tracks(3) keeps cut long show ?thesis
    unfolding Let_def durable by (intro exI [of _ old] exI [of _ fail]) blast
qed

definition sample_wal_config :: "sync_policy \<Rightarrow> wal_config" where
  "sample_wal_config p = \<lparr>wcfg_max_record_bytes = 1024, wcfg_sync_policy = p,
     wcfg_tail_repair = Truncate\<rparr>"

definition empty_wal :: "sync_policy \<Rightarrow> file_wal" where
  "empty_wal p = \<lparr>fw_file = sample_file [], fw_config = sample_wal_config p, fw_last_lsn = None,
     fw_durable_through = None, fw_valid_length = 0, fw_unsynced_records = 0, fw_poisoned = False,
     fw_open_report = \<lparr>report_record_count = 0, report_last_lsn = None,
       report_durable_file_length = 0, report_tail_repair = None\<rparr>\<rparr>"

lemma open_empty:
  "file_wal_open sample_crc (sample_wal_config p) (Inr (sample_file [])) = Inr (empty_wal p)"
proof -
  have "scan sample_crc 1024 Truncate (sample_file []) =
      (Inr (replay_of [] 0 None 0 None), sample_file [])"
    using scan_complete_log [of "sample_file []" sample_crc "[]" 1024 Truncate]
    by (simp add: sample_file_def healthy_def)
  then show ?thesis by (simp add: file_wal_open_def sample_wal_config_def empty_wal_def replay_of_def)
qed

lemma sample_input_ok: "input_ok sample_input"
  by (simp add: input_ok_def sample_input_def schema_ok_def)

lemma append_sample:
  "wal_append sample_crc sample_input (empty_wal Always) =
     (Inr \<lparr>outcome_lsn = LSN_FIRST, outcome_durable_through = Some LSN_FIRST\<rparr>,
      (empty_wal Always)\<lparr>fw_file := \<lparr>io_bytes = sample_frame, io_pos = 43, io_synced = sample_frame,
          io_script = []\<rparr>, fw_last_lsn := Some LSN_FIRST, fw_durable_through := Some LSN_FIRST,
        fw_valid_length := 43\<rparr>)"
  using sample_log_facts(1,5)
  by (simp add: wal_append_def ensure_writable_def empty_wal_def sample_wal_config_def len64_def
      sample_input_def io_healthy append_written_def checked_add64_def checked_add_def must_sync_def
      sync_current_def put_bytes_def overwrite_def Let_def,
      simp add: sample_file_def seek_start_def write_all_def sync_data_def io_call_def
        io_decide_def put_bytes_def overwrite_def)

definition sample_dir :: "bytes \<Rightarrow> wal_dir" where
  "sample_dir bs = \<lparr>wd_created = True, wd_file = Some (sample_file bs), wd_locked = False, wd_faults = [],
     wd_script = []\<rparr>"

lemma sample_dir_facts [simp]: "dir_bytes (sample_dir bs) = bs" "restarted (sample_dir bs)"
  by (simp_all add: sample_dir_def dir_bytes_def restarted_def)

theorem wal_survives_crash_witness:
  "(\<exists>rest. dir_bytes (snd (wal_open sample_crc (sample_wal_config Manual)
      (sample_dir (sample_frame @ [1, 2, 3])))) = sample_frame @ rest) \<and>
   (\<exists>w'. fst (wal_open sample_crc (sample_wal_config Manual) (sample_dir sample_frame)) = Inr w' \<and>
      log_reads sample_crc w' [sample_input])"
proof -
  let ?w = "snd (wal_append sample_crc sample_input (empty_wal Always))"
  have run: "run_ops (wal_step sample_crc) [WAppend sample_input] (empty_wal Always) =
      ([RAppend (Inr \<lparr>outcome_lsn = LSN_FIRST, outcome_durable_through = Some LSN_FIRST\<rparr>)], ?w)"
    by (simp add: append_sample)
  have crash: "crash_leaves (fw_file ?w) (dir_bytes (sample_dir (sample_frame @ part)))"
    "crash_cuts (fw_file ?w) (dir_bytes (sample_dir sample_frame))" for part
    by (simp_all add: crash_leaves_def crash_cuts_def append_sample)
  have w: "lsn_nat (fw_durable_through ?w) = 1" "length (io_bytes (fw_file ?w)) < 2 ^ 63"
    by (simp_all add: append_sample sample_log_facts(5) LSN_FIRST_def)
  have no_old: "old = []" if "log_bytes sample_crc None old = Some (io_bytes (fw_file (empty_wal Always)))" for old
    using log_bytes_length [OF that] by (simp add: empty_wal_def sample_file_def)
  have same: "wcfg_max_record_bytes (sample_wal_config Manual) = wcfg_max_record_bytes (sample_wal_config Always)"
    "wcfg_tail_repair (sample_wal_config Manual) = Truncate"
    by (simp_all add: sample_wal_config_def)
  have ops: "list_all wal_op_ok [WAppend sample_input]" by (simp add: sample_input_ok)
  have synced: "io_synced (sample_file []) = io_bytes (sample_file [])" by simp
  note reopen = wal_survives_crash [OF open_empty synced ops run _ same(1) surjective_pairing, unfolded w(1) Let_def]
  let ?acc = "accepted [WAppend sample_input] [RAppend (Inr \<lparr>outcome_lsn = LSN_FIRST,
      outcome_durable_through = Some LSN_FIRST\<rparr>)]"
  let ?failed = "failed [WAppend sample_input] [RAppend (Inr \<lparr>outcome_lsn = LSN_FIRST,
      outcome_durable_through = Some LSN_FIRST\<rparr>)]"
  have written: "old @ ?acc @ fail = [sample_input]"
    if "log_bytes sample_crc None old = Some (io_bytes (fw_file (empty_wal Always)))" "set fail \<subseteq> set ?failed"
    for old fail
  proof -
    have "old = []" by (rule no_old) (rule that(1))
    moreover have "fail = []" using that(2) by simp
    ultimately show ?thesis by simp
  qed
  have "\<exists>kept rest. log_bytes sample_crc None (take 1 [sample_input]) = Some kept \<and>
      dir_bytes (snd (wal_open sample_crc (sample_wal_config Manual) (sample_dir (sample_frame @ [1, 2, 3])))) =
        kept @ rest"
    using reopen [OF crash(1) [of "[1, 2, 3]"]] written by metis
  moreover obtain w' k where "fst (wal_open sample_crc (sample_wal_config Manual) (sample_dir sample_frame)) = Inr w'"
    "1 \<le> k" "log_reads sample_crc w' (take k [sample_input])"
    using reopen [OF crash(1) [of "[]", unfolded append_Nil2]] written crash(2) w(2) same(2)
      sample_dir_facts(2) tail_repair.distinct(1) by metis
  ultimately show ?thesis using sample_log_facts(2) by auto
qed

text \<open>C10: A failed append either leaves the log exactly as it was, or poisons the writer, which then
  refuses every operation without touching the file until it is reopened. \<close>

theorem failed_append_poisons:
  assumes "wal_inv crc rs extra w" and "input_ok r" and "wal_append crc r w = (Inl e, w')"
  shows "(io_bytes (fw_file w') = io_bytes (fw_file w) \<and> io_synced (fw_file w') = io_synced (fw_file w) \<and>
      fw_last_lsn w' = fw_last_lsn w \<and> fw_durable_through w' = fw_durable_through w) \<or>
    (\<forall>ops. run_ops (wal_step crc) ops w' = (map refused ops, w'))"
proof (cases "fw_poisoned w'")
  case True
  then show ?thesis by (simp add: poisoned_run)
next
  case False
  have "\<not> fw_poisoned w'' \<Longrightarrow> append_written l n v \<noteq> (Inl e, w'')" for l n v w''
    by (auto simp: append_written_def sync_current_def Let_def
        split: option.splits prod.splits sum.splits if_splits)
  then have "w' = w \<or> w' = w\<lparr>fw_file := snd (seek_start (fw_valid_length w) (fw_file w))\<rparr>"
    using assms(3) False
    by (auto simp: wal_append_def ensure_writable_def Let_def append_next_lsn
        split: sum.splits if_splits prod.splits)
  then show ?thesis
    using seek_start_cases [OF surjective_pairing, of "fw_valid_length w" "fw_file w"] by auto
qed

lemma sample_failing_append:
  "wal_append sample_crc sample_input ((empty_wal Always)\<lparr>fw_file := (sample_file [])\<lparr>io_script :=
     [None, Some (IoError 28, 7)]\<rparr>\<rparr>) =
   (Inl (WalIo ''writing WAL frame'' (IoError 28)),
    (empty_wal Always)\<lparr>fw_file := \<lparr>io_bytes = take 7 sample_frame, io_pos = 7, io_synced = [],
       io_script = []\<rparr>, fw_poisoned := True\<rparr>)"
  using sample_log_facts(1,5)
  by (simp add: wal_append_def ensure_writable_def empty_wal_def sample_wal_config_def len64_def
      sample_input_def Let_def seek_start_def write_all_def io_call_def io_decide_def sample_file_def
      put_bytes_def overwrite_def)

theorem failed_append_poisons_witness:
  "run_ops (wal_step sample_crc) [WFlush, WAppend sample_input, WReplay]
     (snd (wal_append sample_crc sample_input ((empty_wal Always)\<lparr>fw_file := (sample_file [])\<lparr>io_script :=
       [None, Some (IoError 28, 7)]\<rparr>\<rparr>))) =
   (map refused [WFlush, WAppend sample_input, WReplay],
    snd (wal_append sample_crc sample_input ((empty_wal Always)\<lparr>fw_file := (sample_file [])\<lparr>io_script :=
       [None, Some (IoError 28, 7)]\<rparr>\<rparr>)))"
proof -
  let ?w = "(empty_wal Always)\<lparr>fw_file := (sample_file [])\<lparr>io_script := [None, Some (IoError 28, 7)]\<rparr>\<rparr>"
  have "wal_inv sample_crc [] [] ?w"
    by (simp add: wal_inv_def holds_log_def stable_log_def empty_wal_def sample_file_def)
  from failed_append_poisons [OF this sample_input_ok sample_failing_append] sample_log_facts(5,6)
  show ?thesis unfolding sample_failing_append snd_conv
    by (simp add: empty_wal_def sample_file_def del: run_ops.simps list.map)
qed

text \<open>The durability an append reports follows the configured policy: the new record itself under
  \<open>Always\<close>; under \<open>Batch\<close> the new record, or fewer than the batch size are unsynchronized; no change
  under \<open>Manual\<close>. \<close>

lemma append_honours_policy:
  assumes "wal_append crc r w = (Inr out, w')"
  shows "outcome_durable_through out = fw_durable_through w' \<and>
    (case wcfg_sync_policy (fw_config w) of
       Always \<Rightarrow> outcome_durable_through out = Some (outcome_lsn out)
     | Batch n \<Rightarrow> outcome_durable_through out = Some (outcome_lsn out) \<or>
         fw_durable_through w' = fw_durable_through w \<and> fw_unsynced_records w' < n
     | Manual \<Rightarrow> fw_durable_through w' = fw_durable_through w)"
  using assms
  by (auto simp: wal_append_def append_written_def sync_current_def must_sync_def Let_def
      split: sum.splits if_splits prod.splits option.splits sync_policy.splits)

text \<open>C11: Opening takes the durability frontier from the scan without a barrier: records that are in
  the file but not on stable storage are reported as durable. \<close>

theorem open_reports_unsynced_records_durable:
  assumes "healthy f" and "log_bytes crc None rs = Some (io_bytes f)"
    and "list_all (record_ok (wcfg_max_record_bytes cfg)) rs" and "length (io_bytes f) < 2 ^ 63"
  shows "\<exists>w. file_wal_open crc cfg (Inr f) = Inr w \<and> fw_durable_through w = log_last None rs \<and>
    io_synced (fw_file w) = io_synced f"
  using scan_complete_log [OF assms, of "wcfg_tail_repair cfg"]
  by (simp add: file_wal_open_def replay_of_def)

theorem open_reports_unsynced_records_durable_witness:
  "\<exists>w. file_wal_open sample_crc (sample_wal_config Manual) (Inr (sample_file sample_frame)) = Inr w \<and>
     fw_durable_through w = Some LSN_FIRST \<and> io_synced (fw_file w) = []"
  using open_reports_unsynced_records_durable [of "sample_file sample_frame" sample_crc
      "[sample_input]" "sample_wal_config Manual"] sample_log_facts
  by (simp add: sample_wal_config_def)

end
