(* ===== verification/Iron_Protocol.thy ===== *)
theory Iron_Protocol
  imports Iron_Envelope
begin

text \<open>
  The boundary types of \<open>iron-protocol\<close> and \<open>iron-transport\<close>: events, actions, durable records,
  transitions and the error values. Boxed error sources are left out.
\<close>

section \<open>Errors\<close>

datatype protocol_error =
    MalformedInput string string
  | Rejected string string
  | UnsupportedRecoveryRecord u16 u16
  | Codec string
  | InvalidValue string string
  | InvariantViolation string

datatype transport_error =
    InvalidInput string
  | Unavailable
  | Timeout string
  | Backpressure nat
  | RemoteRejected string string
  | Internal

definition is_retryable :: "transport_error \<Rightarrow> bool" where
  "is_retryable e =
     (case e of Unavailable \<Rightarrow> True | Timeout _ \<Rightarrow> True | Backpressure _ \<Rightarrow> True | _ \<Rightarrow> False)"

section \<open>Actions (action.rs)\<close>

datatype logical_duration = LogicalDuration (ticks: u64)

definition logical_duration_from_ticks :: "u64 \<Rightarrow> protocol_error + logical_duration" where
  "logical_duration_from_ticks n =
     (if n = 0 then Inl (InvalidValue ''logical_duration'' ''must be at least one tick'')
      else Inr (LogicalDuration n))"

record schedule_timer =
  st_timer_id :: timer_id
  st_delay :: logical_duration

record reply_to_client =
  rp_request_id :: client_request_id
  rp_outcome :: bytes

definition schedule_timer_new :: "timer_id \<Rightarrow> logical_duration \<Rightarrow> schedule_timer" where
  "schedule_timer_new timer delay = \<lparr>st_timer_id = timer, st_delay = delay\<rparr>"

definition reply_to_client_new :: "client_request_id \<Rightarrow> bytes \<Rightarrow> reply_to_client" where
  "reply_to_client_new request outcome = \<lparr>rp_request_id = request, rp_outcome = outcome\<rparr>"

datatype action =
    Send envelope
  | ScheduleTimer schedule_timer
  | CancelTimer timer_id
  | ReplyToClient reply_to_client

section \<open>Events (event.rs)\<close>

record client_request =
  cr_request_id :: client_request_id
  cr_schema_version :: schema_version
  cr_command :: bytes

definition client_request_new :: "client_request_id \<Rightarrow> schema_version \<Rightarrow> bytes \<Rightarrow> client_request" where
  "client_request_new request schema command =
     \<lparr>cr_request_id = request, cr_schema_version = schema, cr_command = command\<rparr>"

datatype event =
    Message envelope
  | ClientRequest client_request
  | TimerFired timer_id

record recovered_record =
  rr_lsn :: lsn
  rr_record_kind :: u16
  rr_schema_version :: schema_version
  rr_payload :: bytes

definition recovered_record_new ::
  "lsn \<Rightarrow> u16 \<Rightarrow> schema_version \<Rightarrow> bytes \<Rightarrow> protocol_error + recovered_record" where
  "recovered_record_new l kind schema payload =
     (if kind = 0 then Inl (InvalidValue ''record_kind'' ''must be nonzero'')
      else Inr \<lparr>rr_lsn = l, rr_record_kind = kind, rr_schema_version = schema, rr_payload = payload\<rparr>)"

section \<open>Transitions (transition.rs)\<close>

record durable_record =
  dr_record_kind :: u16
  dr_schema_version :: schema_version
  dr_payload :: bytes

definition durable_record_new ::
  "u16 \<Rightarrow> schema_version \<Rightarrow> bytes \<Rightarrow> protocol_error + durable_record" where
  "durable_record_new kind schema payload =
     (if kind = 0 then Inl (InvalidValue ''record_kind'' ''must be nonzero'')
      else Inr \<lparr>dr_record_kind = kind, dr_schema_version = schema, dr_payload = payload\<rparr>)"

record transition =
  tr_durable_record :: "durable_record option"
  tr_actions :: "action list"

definition transition_durable :: "durable_record \<Rightarrow> action list \<Rightarrow> transition" where
  "transition_durable r actions = \<lparr>tr_durable_record = Some r, tr_actions = actions\<rparr>"

definition transition_stateless :: "action list \<Rightarrow> transition" where
  "transition_stateless actions = \<lparr>tr_durable_record = None, tr_actions = actions\<rparr>"

definition transition_no_op :: transition where
  "transition_no_op = \<lparr>tr_durable_record = None, tr_actions = []\<rparr>"

definition transition_into_parts :: "transition \<Rightarrow> durable_record option \<times> action list" where
  "transition_into_parts t = (tr_durable_record t, tr_actions t)"

text \<open>What the constructors guarantee of a durable record, and a \<open>Vec\<close> of its payload.\<close>

definition durable_record_ok :: "durable_record \<Rightarrow> bool" where
  "durable_record_ok r \<longleftrightarrow> dr_record_kind r \<noteq> 0 \<and> schema_ok (dr_schema_version r) \<and>
     length (dr_payload r) < 2 ^ 64"

definition transition_ok :: "transition \<Rightarrow> bool" where
  "transition_ok t \<longleftrightarrow> pred_option durable_record_ok (tr_durable_record t)"

end
