(* ===== verification/Iron_Runtime.thy ===== *)
theory Iron_Runtime
  imports Iron_Protocol Wal_Recovery
begin

text \<open>
  The node runtime of \<open>iron-runtime/src/lib.rs\<close>: WAL-before-effects composition of a protocol, a
  write-ahead log and the outward effects.

  The three parts are type parameters of \<open>NodeRuntime\<close>; the operations the runtime calls on them
  are arguments of the definitions. An \<open>await\<close> is a call: the runtime is used through \<open>&mut self\<close>,
  so calls do not interleave.
\<close>

datatype runtime_error =
    RtProtocol protocol_error
  | RtWal wal_error
  | RtTransport transport_error
  | RtEffect string
  | UndurableEffects

text \<open>The trait \<open>Effects\<close> on the state \<open>'e\<close> of the world outside the node.\<close>

record 'e effects =
  eff_send :: "envelope \<Rightarrow> 'e \<Rightarrow> (transport_error + unit) \<times> 'e"
  eff_schedule :: "schedule_timer \<Rightarrow> 'e \<Rightarrow> (runtime_error + unit) \<times> 'e"
  eff_cancel :: "timer_id \<Rightarrow> 'e \<Rightarrow> (runtime_error + unit) \<times> 'e"
  eff_reply :: "reply_to_client \<Rightarrow> 'e \<Rightarrow> (runtime_error + unit) \<times> 'e"

record ('p, 'w, 'e) node_runtime =
  rt_protocol :: 'p
  rt_wal :: 'w
  rt_effects :: 'e

definition runtime_new :: "'p \<Rightarrow> 'w \<Rightarrow> 'e \<Rightarrow> ('p, 'w, 'e) node_runtime" where
  "runtime_new protocol wal effects = \<lparr>rt_protocol = protocol, rt_wal = wal, rt_effects = effects\<rparr>"

definition perform :: "'e effects \<Rightarrow> action \<Rightarrow> 'e \<Rightarrow> (runtime_error + unit) \<times> 'e" where
  "perform eff a e =
     (case a of
        Send envelope \<Rightarrow> map_prod (map_err RtTransport) id (eff_send eff envelope e)
      | ScheduleTimer timer \<Rightarrow> eff_schedule eff timer e
      | CancelTimer timer \<Rightarrow> eff_cancel eff timer e
      | ReplyToClient reply \<Rightarrow> eff_reply eff reply e)"

fun perform_all :: "'e effects \<Rightarrow> action list \<Rightarrow> 'e \<Rightarrow> (runtime_error + unit) \<times> 'e" where
  "perform_all eff [] e = (Inr (), e)"
| "perform_all eff (a # actions) e =
     (case perform eff a e of
        (Inl err, e') \<Rightarrow> (Inl err, e')
      | (Inr _, e') \<Rightarrow> perform_all eff actions e')"

text \<open>Append and flush of the durable record, if there is one.\<close>

definition commit_record ::
  "(wal_record_input \<Rightarrow> 'w \<Rightarrow> (wal_error + 'o) \<times> 'w) \<Rightarrow> ('w \<Rightarrow> (wal_error + 'd) \<times> 'w)
   \<Rightarrow> durable_record option \<Rightarrow> 'w \<Rightarrow> (runtime_error + unit) \<times> 'w" where
  "commit_record append_op flush_op record w =
     (case record of
        None \<Rightarrow> (Inr (), w)
      | Some r \<Rightarrow>
          (case wal_record_input_new (dr_record_kind r) (dr_schema_version r) (dr_payload r) of
             Inl e \<Rightarrow> (Inl (RtWal e), w)
           | Inr input \<Rightarrow>
               (case append_op input w of
                  (Inl e, w) \<Rightarrow> (Inl (RtWal e), w)
                | (Inr _, w) \<Rightarrow>
                    (case flush_op w of
                       (Inl e, w) \<Rightarrow> (Inl (RtWal e), w)
                     | (Inr _, w) \<Rightarrow> (Inr (), w)))))"

definition commit_transition ::
  "(wal_record_input \<Rightarrow> 'w \<Rightarrow> (wal_error + 'o) \<times> 'w) \<Rightarrow> ('w \<Rightarrow> (wal_error + 'd) \<times> 'w)
   \<Rightarrow> 'e effects \<Rightarrow> transition \<Rightarrow> ('p, 'w, 'e) node_runtime
   \<Rightarrow> (runtime_error + unit) \<times> ('p, 'w, 'e) node_runtime" where
  "commit_transition append_op flush_op eff t rt =
     (if tr_durable_record t = None \<and> tr_actions t \<noteq> [] then (Inl UndurableEffects, rt)
      else case commit_record append_op flush_op (tr_durable_record t) (rt_wal rt) of
        (Inl e, w) \<Rightarrow> (Inl e, rt\<lparr>rt_wal := w\<rparr>)
      | (Inr _, w) \<Rightarrow>
          (case perform_all eff (tr_actions t) (rt_effects rt) of
             (res, e) \<Rightarrow> (res, rt\<lparr>rt_wal := w, rt_effects := e\<rparr>)))"

definition runtime_handle ::
  "(event \<Rightarrow> 'p \<Rightarrow> (protocol_error + transition) \<times> 'p)
   \<Rightarrow> (wal_record_input \<Rightarrow> 'w \<Rightarrow> (wal_error + 'o) \<times> 'w) \<Rightarrow> ('w \<Rightarrow> (wal_error + 'd) \<times> 'w)
   \<Rightarrow> 'e effects \<Rightarrow> event \<Rightarrow> ('p, 'w, 'e) node_runtime
   \<Rightarrow> (runtime_error + unit) \<times> ('p, 'w, 'e) node_runtime" where
  "runtime_handle handle append_op flush_op eff ev rt =
     (case handle ev (rt_protocol rt) of
        (Inl e, p) \<Rightarrow> (Inl (RtProtocol e), rt\<lparr>rt_protocol := p\<rparr>)
      | (Inr t, p) \<Rightarrow> commit_transition append_op flush_op eff t (rt\<lparr>rt_protocol := p\<rparr>))"

fun recovered_records :: "wal_record list \<Rightarrow> protocol_error + recovered_record list" where
  "recovered_records [] = Inr []"
| "recovered_records (r # rs) =
     and_then (recovered_record_new (rec_lsn r) (rec_record_kind r) (rec_schema_version r)
         (rec_payload r))
       (\<lambda>x. and_then (recovered_records rs) (\<lambda>xs. Inr (x # xs)))"

definition runtime_recover ::
  "(recovered_record list \<Rightarrow> 'p \<Rightarrow> (protocol_error + unit) \<times> 'p)
   \<Rightarrow> ('w \<Rightarrow> (wal_error + replay) \<times> 'w) \<Rightarrow> ('p, 'w, 'e) node_runtime
   \<Rightarrow> (runtime_error + unit) \<times> ('p, 'w, 'e) node_runtime" where
  "runtime_recover recover replay_op rt =
     (case replay_op (rt_wal rt) of
        (Inl e, w) \<Rightarrow> (Inl (RtWal e), rt\<lparr>rt_wal := w\<rparr>)
      | (Inr rp, w) \<Rightarrow>
          (case recovered_records (replay_records rp) of
             Inl e \<Rightarrow> (Inl (RtProtocol e), rt\<lparr>rt_wal := w\<rparr>)
           | Inr records \<Rightarrow>
               (case recover records (rt_protocol rt) of
                  (res, p) \<Rightarrow> (map_err RtProtocol res, rt\<lparr>rt_wal := w, rt_protocol := p\<rparr>))))"

text \<open>The adapter \<open>TransportEffects\<close>: sends go to the transport, the other effects do nothing.\<close>

definition transport_effects :: "(envelope \<Rightarrow> 'e \<Rightarrow> (transport_error + unit) \<times> 'e) \<Rightarrow> 'e effects" where
  "transport_effects send =
     \<lparr>eff_send = send, eff_schedule = (\<lambda>_ e. (Inr (), e)), eff_cancel = (\<lambda>_ e. (Inr (), e)),
      eff_reply = (\<lambda>_ e. (Inr (), e))\<rparr>"

section \<open>The runtime as a client of the log's contract\<close>

definition input_of :: "durable_record \<Rightarrow> wal_record_input" where
  "input_of r = \<lparr>inp_record_kind = dr_record_kind r, inp_schema_version = dr_schema_version r,
     inp_payload = dr_payload r\<rparr>"

lemma input_of_new:
  "durable_record_ok r \<Longrightarrow>
     wal_record_input_new (dr_record_kind r) (dr_schema_version r) (dr_payload r) = Inr (input_of r) \<and>
     input_ok (input_of r)"
  by (simp add: durable_record_ok_def wal_record_input_new_def input_of_def input_ok_def)

locale runtime_log = durable_log holds stable input_ok append_op flush_op replay_op contents
  for holds :: "'w \<Rightarrow> wal_record_input list \<Rightarrow> bool"
    and stable :: "'w \<Rightarrow> wal_record_input list \<Rightarrow> bool"
    and append_op :: "wal_record_input \<Rightarrow> 'w \<Rightarrow> (wal_error + 'o) \<times> 'w"
    and flush_op :: "'w \<Rightarrow> (wal_error + 'd) \<times> 'w"
    and replay_op :: "'w \<Rightarrow> (wal_error + replay) \<times> 'w"
    and contents :: "replay \<Rightarrow> wal_record_input list"
begin

lemma commit_record_stable:
  assumes "holds w rs" and "pred_option durable_record_ok rec"
    and "commit_record append_op flush_op rec w = (res, w')"
  shows "(\<exists>ext. holds w' (rs @ ext) \<and> (is_ok res \<longrightarrow> ext = map input_of (case rec of None \<Rightarrow> [] | Some r \<Rightarrow> [r]))) \<and>
    (stable w ss \<longrightarrow> stable w' ss) \<and>
    (\<forall>r. is_ok res \<longrightarrow> rec = Some r \<longrightarrow> stable w' (rs @ [input_of r]))"
proof (cases rec)
  case None
  with assms show ?thesis by (auto simp: commit_record_def intro!: exI [of _ "[]"])
next
  case (Some r)
  then have r: "durable_record_ok r" using assms(2) by simp
  obtain ar w1 where af: "append_flush (input_of r) w = (ar, w1)" by fastforce
  have eq: "(res, w') = (map_err RtWal ar, w1)"
    using assms(3) af Some input_of_new [OF r]
    by (auto simp: commit_record_def append_flush_def map_err_def split: prod.splits sum.splits)
  have "is_ok res \<longleftrightarrow> is_ok ar" using eq by (simp add: map_err_def split: sum.split)
  with append_flush_stable [OF assms(1) _ af, of ss] input_of_new [OF r] eq Some show ?thesis
    by (auto intro: exI [of _ "[]"] exI [of _ "[input_of r]"])
qed

end

interpretation wal_runtime: runtime_log "wal_holds crc" "wal_stable crc" "wal_append crc" wal_flush
  "wal_replay crc" replay_contents for crc
  by unfold_locales

end
