(* ===== verification/Runtime_Properties.thy ===== *)
theory Runtime_Properties
  imports Iron_Runtime Wal_Properties "HOL-Library.Sublist"
begin

text \<open>
  What the runtime promises on top of \<open>FileWal\<close>: no effect is attempted before its record is on
  stable storage, effects run in order, and recovery hands the protocol exactly the log.
\<close>

section \<open>Recording effects\<close>

text \<open>Any effects, with a trace of the actions attempted.\<close>

definition recording :: "'e effects \<Rightarrow> ('e \<times> action list) effects" where
  "recording eff =
     \<lparr>eff_send = (\<lambda>x (e, tr). map_prod id (\<lambda>e. (e, tr @ [Send x])) (eff_send eff x e)),
      eff_schedule = (\<lambda>x (e, tr). map_prod id (\<lambda>e. (e, tr @ [ScheduleTimer x])) (eff_schedule eff x e)),
      eff_cancel = (\<lambda>x (e, tr). map_prod id (\<lambda>e. (e, tr @ [CancelTimer x])) (eff_cancel eff x e)),
      eff_reply = (\<lambda>x (e, tr). map_prod id (\<lambda>e. (e, tr @ [ReplyToClient x])) (eff_reply eff x e))\<rparr>"

lemma perform_recording:
  "perform (recording eff) a (e, tr) = (res, s) \<Longrightarrow> snd s = tr @ [a]"
  by (cases a) (auto simp: perform_def recording_def map_prod_def split: prod.splits)

lemma perform_all_recording:
  "perform_all (recording eff) as s = (res, s') \<Longrightarrow>
     \<exists>k \<le> length as. snd s' = snd s @ take k as \<and> (is_ok res \<longrightarrow> k = length as)"
proof (induction as arbitrary: s)
  case (Cons a as)
  obtain r s1 where p: "perform (recording eff) a s = (r, s1)" by (rule prod.exhaust)
  then have s1: "snd s1 = snd s @ [a]" using perform_recording by (metis prod.collapse)
  show ?case
  proof (cases r)
    case (Inl e)
    with Cons.prems p s1 show ?thesis by (intro exI [of _ 1]) auto
  next
    case (Inr u)
    with Cons.prems p have "perform_all (recording eff) as s1 = (res, s')" by simp
    from Cons.IH [OF this] obtain k where "k \<le> length as" "snd s' = snd s1 @ take k as"
      "is_ok res \<longrightarrow> k = length as" by blast
    with s1 show ?thesis by (intro exI [of _ "Suc k"]) auto
  qed
qed simp

section \<open>One transition\<close>

lemma commit_transition_cases:
  assumes held: "wal_holds crc (rt_wal rt) rs" and t: "transition_ok t"
    and c: "commit_transition (wal_append crc) wal_flush (recording eff) t rt = (res, rt')"
  shows "rt_protocol rt' = rt_protocol rt \<and> (\<exists>ext. wal_holds crc (rt_wal rt') (rs @ ext)) \<and>
    (wal_stable crc (rt_wal rt) ss \<longrightarrow> wal_stable crc (rt_wal rt') ss) \<and>
    (snd (rt_effects rt') = snd (rt_effects rt) \<and> (is_ok res \<longrightarrow> tr_actions t = []) \<or>
     (\<exists>r k. tr_durable_record t = Some r \<and> k \<le> length (tr_actions t) \<and>
        snd (rt_effects rt') = snd (rt_effects rt) @ take k (tr_actions t) \<and>
        (is_ok res \<longrightarrow> k = length (tr_actions t)) \<and>
        wal_holds crc (rt_wal rt') (rs @ [input_of r]) \<and>
        wal_stable crc (rt_wal rt') (rs @ [input_of r])))"
proof (cases "tr_durable_record t = None \<and> tr_actions t \<noteq> []")
  case True
  with c held show ?thesis by (auto simp: commit_transition_def intro!: exI [of _ "[]"])
next
  case False
  obtain cr w where cr: "commit_record (wal_append crc) wal_flush (tr_durable_record t) (rt_wal rt) = (cr, w)"
    by fastforce
  note com = wal_runtime.commit_record_stable [OF held _ cr, of ss]
  have ok: "pred_option durable_record_ok (tr_durable_record t)" using t by (simp add: transition_ok_def)
  show ?thesis
  proof (cases cr)
    case (Inl e)
    with c False cr com ok show ?thesis by (auto simp: commit_transition_def)
  next
    case (Inr u)
    obtain pr e where p: "perform_all (recording eff) (tr_actions t) (rt_effects rt) = (pr, e)" by (rule prod.exhaust)
    have rt': "res = pr" "rt' = rt\<lparr>rt_wal := w, rt_effects := e\<rparr>"
      using c False cr Inr p by (auto simp: commit_transition_def)
    from perform_all_recording [OF p] obtain k where k: "k \<le> length (tr_actions t)"
      "snd e = snd (rt_effects rt) @ take k (tr_actions t)" "is_ok pr \<longrightarrow> k = length (tr_actions t)"
      by blast
    show ?thesis
    proof (cases "tr_durable_record t")
      case None
      with False have "tr_actions t = []" by simp
      with com ok Inr rt' k None show ?thesis by (auto intro: exI [of _ "[]"])
    next
      case (Some r)
      with com ok Inr rt' k show ?thesis by (auto intro!: exI [of _ k])
    qed
  qed
qed

text \<open>C18: Committing a transition attempts its actions in order, and none of them unless its durable
  record has been appended and is on stable storage; when the append or the flush fails, or when the
  transition has actions and no record, no action is attempted. \<close>

theorem effects_wait_for_durability:
  assumes "wal_holds crc (rt_wal rt) rs" and "transition_ok t"
    and "commit_transition (wal_append crc) wal_flush (recording eff) t rt = (res, rt')"
  shows "\<exists>k. snd (rt_effects rt') = snd (rt_effects rt) @ take k (tr_actions t) \<and>
    (is_ok res \<longrightarrow> take k (tr_actions t) = tr_actions t) \<and>
    (take k (tr_actions t) \<noteq> [] \<longrightarrow> (\<exists>r. tr_durable_record t = Some r \<and>
       wal_stable crc (rt_wal rt') (rs @ [input_of r])))"
proof -
  from commit_transition_cases [OF assms, of undefined]
  consider "snd (rt_effects rt') = snd (rt_effects rt)" "is_ok res \<longrightarrow> tr_actions t = []"
    | r k where "tr_durable_record t = Some r"
      "snd (rt_effects rt') = snd (rt_effects rt) @ take k (tr_actions t)"
      "is_ok res \<longrightarrow> k = length (tr_actions t)" "wal_stable crc (rt_wal rt') (rs @ [input_of r])"
    by blast
  then show ?thesis
  proof cases
    case 1
    then show ?thesis by (intro exI [of _ 0]) simp
  next
    case (2 r k)
    then show ?thesis by (intro exI [of _ k]) simp
  qed
qed

text \<open>The constructors a protocol builds its transitions with keep their records well-formed.\<close>

definition protocol_ok :: "(event \<Rightarrow> 'p \<Rightarrow> (protocol_error + transition) \<times> 'p) \<Rightarrow> bool" where
  "protocol_ok handle \<longleftrightarrow> (\<forall>ev p t p'. handle ev p = (Inr t, p') \<longrightarrow> transition_ok t)"

section \<open>A sample node\<close>

definition sample_durable :: durable_record where
  "sample_durable = \<lparr>dr_record_kind = 1024, dr_schema_version = SchemaVersion 1,
     dr_payload = [97, 98, 99]\<rparr>"

definition sample_transition :: transition where
  "sample_transition = transition_durable sample_durable [CancelTimer (TimerId [1])]"

definition sample_effects :: "unit effects" where
  "sample_effects = transport_effects (\<lambda>_ e. (Inl Unavailable, e))"

definition sample_handle :: "event \<Rightarrow> unit \<Rightarrow> (protocol_error + transition) \<times> unit" where
  "sample_handle ev p = (Inr sample_transition, p)"

definition sample_node :: "(unit, file_wal, unit \<times> action list) node_runtime" where
  "sample_node = \<lparr>rt_protocol = (), rt_wal = empty_wal Always, rt_effects = ((), [])\<rparr>"

lemma sample_node_facts:
  "wal_holds sample_crc (rt_wal sample_node) []" "transition_ok sample_transition"
  "protocol_ok sample_handle" "snd (rt_effects sample_node) = []"
  by (auto simp: wal_holds_def wal_inv_def holds_log_def stable_log_def sample_node_def empty_wal_def
      sample_file_def transition_ok_def sample_transition_def transition_durable_def
      durable_record_ok_def sample_durable_def schema_ok_def protocol_ok_def sample_handle_def)

lemma sample_commit:
  "commit_transition (wal_append sample_crc) wal_flush (recording sample_effects) sample_transition
     sample_node =
   (Inr (), sample_node\<lparr>rt_wal := snd (wal_append sample_crc sample_input (empty_wal Always)),
      rt_effects := ((), [CancelTimer (TimerId [1])])\<rparr>)"
proof -
  have "wal_record_input_new 1024 (SchemaVersion 1) [97, 98, 99] = Inr sample_input"
    by (simp add: wal_record_input_new_def sample_input_def)
  moreover have "wal_flush (snd (wal_append sample_crc sample_input (empty_wal Always))) =
      (Inr (Some LSN_FIRST), snd (wal_append sample_crc sample_input (empty_wal Always)))"
    unfolding append_sample
    by (simp add: wal_flush_def ensure_writable_def sync_current_def sync_data_def io_call_def
        io_decide_def empty_wal_def)
  ultimately show ?thesis
    by (simp add: commit_transition_def sample_transition_def transition_durable_def
        commit_record_def sample_durable_def sample_node_def append_sample perform_def recording_def
        sample_effects_def transport_effects_def)
qed

theorem effects_wait_for_durability_witness:
  "\<exists>r. tr_durable_record sample_transition = Some r \<and>
     wal_stable sample_crc (snd (wal_append sample_crc sample_input (empty_wal Always))) [input_of r]"
  using effects_wait_for_durability [OF sample_node_facts(1,2) sample_commit]
  by (auto simp: sample_node_def sample_transition_def transition_durable_def)

section \<open>Runs\<close>

text \<open>The transitions that the protocol returned in a run, in the order the runtime received them, each with
  the actions that the runtime attempted while it handled the event.\<close>

fun attempted ::
  "(event \<Rightarrow> 'p \<Rightarrow> (protocol_error + transition) \<times> 'p)
   \<Rightarrow> (wal_record_input \<Rightarrow> 'w \<Rightarrow> (wal_error + 'o) \<times> 'w) \<Rightarrow> ('w \<Rightarrow> (wal_error + 'd) \<times> 'w)
   \<Rightarrow> 'e effects \<Rightarrow> event list \<Rightarrow> ('p, 'w, 'e \<times> action list) node_runtime \<Rightarrow> (transition \<times> action list) list" where
  "attempted handle append_op flush_op eff [] rt = []"
| "attempted handle append_op flush_op eff (ev # evs) rt =
     (let rt' = snd (runtime_handle handle append_op flush_op (recording eff) ev rt) in
      (case fst (handle ev (rt_protocol rt)) of
         Inl _ \<Rightarrow> []
       | Inr t \<Rightarrow> [(t, drop (length (snd (rt_effects rt))) (snd (rt_effects rt')))])
      @ attempted handle append_op flush_op eff evs rt')"

text \<open>The records that have to be durable: those of the transitions of which an action was attempted.\<close>

definition evidence :: "(transition \<times> action list) list \<Rightarrow> wal_record_input option list" where
  "evidence ts = map (\<lambda>(t, as). map_option input_of (tr_durable_record t)) (filter (\<lambda>(t, as). as \<noteq> []) ts)"

lemma evidence_simps [simp]:
  "evidence [] = []"
  "evidence ((t, as) # ts) = (if as = [] then [] else [map_option input_of (tr_durable_record t)]) @ evidence ts"
  by (simp_all add: evidence_def)

lemma wal_holds_ok:
  "wal_holds crc w rs \<Longrightarrow> wcfg_max_record_bytes (fw_config w) = m \<Longrightarrow> list_all (record_ok m) rs"
  by (auto simp: wal_holds_def wal_inv_def holds_log_def)

lemma wal_append_config: "wal_append crc r w = (res, w') \<Longrightarrow> fw_config w' = fw_config w"
  by (auto simp: wal_append_def append_written_def sync_current_def Let_def
      split: sum.splits option.splits prod.splits if_splits)

lemma wal_flush_config: "wal_flush w = (res, w') \<Longrightarrow> fw_config w' = fw_config w"
  by (auto simp: wal_flush_def sync_current_def split: sum.splits prod.splits)

lemma commit_config:
  "commit_transition (wal_append crc) wal_flush eff t rt = (res, rt') \<Longrightarrow>
     fw_config (rt_wal rt') = fw_config (rt_wal rt)"
  by (auto simp: commit_transition_def commit_record_def split: if_splits prod.splits sum.splits
      option.splits dest!: wal_append_config wal_flush_config)

text \<open>A stable beginning of the log holds the records \<open>ev\<close> in order.\<close>

definition runtime_inv ::
  "(bytes \<Rightarrow> u32) \<Rightarrow> u32 \<Rightarrow> wal_record_input option list \<Rightarrow> file_wal \<Rightarrow> bool" where
  "runtime_inv crc m ev w \<longleftrightarrow> wcfg_max_record_bytes (fw_config w) = m \<and>
     (\<exists>ss ts. wal_holds crc w (ss @ ts) \<and> wal_stable crc w ss \<and> subseq ev (map Some ss))"

lemma runtime_handle_inv:
  assumes inv: "runtime_inv crc m ev (rt_wal rt)" and ok: "protocol_ok handle"
    and st: "runtime_handle handle (wal_append crc) wal_flush (recording eff) event rt = (res, rt')"
  shows "case fst (handle event (rt_protocol rt)) of
      Inl _ \<Rightarrow> runtime_inv crc m ev (rt_wal rt') \<and> snd (rt_effects rt') = snd (rt_effects rt)
    | Inr t \<Rightarrow> \<exists>k. runtime_inv crc m (ev @ evidence [(t, take k (tr_actions t))]) (rt_wal rt') \<and>
        snd (rt_effects rt') = snd (rt_effects rt) @ take k (tr_actions t)"
proof -
  obtain hr p where h: "handle event (rt_protocol rt) = (hr, p)" by fastforce
  show ?thesis
  proof (cases hr)
    case (Inl e)
    with st h inv show ?thesis by (auto simp: runtime_handle_def)
  next
    case (Inr t)
    let ?rt = "rt\<lparr>rt_protocol := p\<rparr>"
    from inv obtain ss ts where held: "wal_holds crc (rt_wal ?rt) (ss @ ts)"
      and stable: "wal_stable crc (rt_wal ?rt) ss" "subseq ev (map Some ss)"
      by (auto simp: runtime_inv_def)
    have c: "commit_transition (wal_append crc) wal_flush (recording eff) t ?rt = (res, rt')"
      using st h Inr by (simp add: runtime_handle_def)
    have "transition_ok t" using ok h Inr by (auto simp: protocol_ok_def)
    note cases = commit_transition_cases [OF held this c, of ss]
    have cfg: "wcfg_max_record_bytes (fw_config (rt_wal rt')) = m"
      using commit_config [OF c] inv by (simp add: runtime_inv_def)
    from cases stable(1) consider
        (none) ext where "wal_holds crc (rt_wal rt') ((ss @ ts) @ ext)" "wal_stable crc (rt_wal rt') ss"
          "snd (rt_effects rt') = snd (rt_effects rt)"
      | (some) r k where "tr_durable_record t = Some r" "wal_holds crc (rt_wal rt') ((ss @ ts) @ [input_of r])"
          "wal_stable crc (rt_wal rt') ((ss @ ts) @ [input_of r])"
          "snd (rt_effects rt') = snd (rt_effects rt) @ take k (tr_actions t)"
      by auto
    then have "\<exists>k. runtime_inv crc m (ev @ evidence [(t, take k (tr_actions t))]) (rt_wal rt') \<and>
        snd (rt_effects rt') = snd (rt_effects rt) @ take k (tr_actions t)"
    proof cases
      case none
      with cfg stable(2) have "runtime_inv crc m ev (rt_wal rt')"
        unfolding runtime_inv_def by (intro conjI exI [of _ ss] exI [of _ "ts @ ext"]) simp_all
      with none(3) show ?thesis by (intro exI [of _ 0]) simp
    next
      case some
      let ?e = "evidence [(t, take k (tr_actions t))]"
      have "subseq ?e (map Some (ts @ [input_of r]))" using some(1) by (auto intro: subseq_drop_many)
      with stable(2) have "subseq (ev @ ?e) (map Some ss @ map Some (ts @ [input_of r]))"
        by (rule list_emb_append_mono)
      with some cfg have "runtime_inv crc m (ev @ ?e) (rt_wal rt')"
        unfolding runtime_inv_def by (intro conjI exI [of _ "ss @ ts @ [input_of r]"] exI [of _ "[]"]) simp_all
      with some(4) show ?thesis by blast
    qed
    then show ?thesis using h Inr by simp
  qed
qed

lemma runtime_run_inv:
  assumes "runtime_inv crc m ev (rt_wal rt)" and "protocol_ok handle"
    and "run_ops (runtime_handle handle (wal_append crc) wal_flush (recording eff)) events rt = (results, rt')"
    and "attempted handle (wal_append crc) wal_flush eff events rt = ts"
  shows "snd (rt_effects rt') = snd (rt_effects rt) @ concat (map snd ts) \<and>
    (\<forall>(t, as) \<in> set ts. prefix as (tr_actions t)) \<and> runtime_inv crc m (ev @ evidence ts) (rt_wal rt')"
  using assms(1,3,4)
proof (induction events arbitrary: ev rt results ts)
  case (Cons event events)
  obtain r v where s: "runtime_handle handle (wal_append crc) wal_flush (recording eff) event rt = (r, v)"
    by fastforce
  with Cons.prems(2) obtain rs' where
    run: "run_ops (runtime_handle handle (wal_append crc) wal_flush (recording eff)) events v = (rs', rt')"
    by (auto split: prod.splits)
  let ?ts = "attempted handle (wal_append crc) wal_flush eff events v"
  note one = runtime_handle_inv [OF Cons.prems(1) assms(2) s]
  show ?case
  proof (cases "fst (handle event (rt_protocol rt))")
    case (Inl e)
    with one have inv: "runtime_inv crc m ev (rt_wal v)" and "snd (rt_effects v) = snd (rt_effects rt)"
      by simp_all
    with Cons.IH [OF inv run refl] Cons.prems(3) s Inl show ?thesis by simp
  next
    case (Inr t)
    with one obtain k where inv: "runtime_inv crc m (ev @ evidence [(t, take k (tr_actions t))]) (rt_wal v)"
      and k: "snd (rt_effects v) = snd (rt_effects rt) @ take k (tr_actions t)" by auto
    from Cons.prems(3) s Inr k have ts: "ts = (t, take k (tr_actions t)) # ?ts" by auto
    from Cons.IH [OF inv run refl] k show ?thesis
      unfolding ts by (simp add: take_is_prefix)
  qed
qed simp

text \<open>C17: Run any events through a runtime over \<open>FileWal\<close>, with any protocol, any outcomes of the
  effects and any I/O faults, starting with a log the writer holds and no effect attempted. What was
  attempted is, event by event, a first part of the actions of the transition that the protocol returned
  for it. Then crash: the bytes that were not synchronized may be lost or turn into anything. Whenever the
  log is opened again, under the same record size limit, it holds the durable record of every transition
  of which an action was attempted, in order and each of them separately; a transition without a record
  attempted nothing. Reopening succeeds under the truncate policy when the crash only cut off an end of
  the unsynchronized bytes, the file is smaller than \<open>2 ^ 63\<close> bytes and the machine is healthy. \<close>

theorem attempted_effects_survive_crash:
  assumes "wal_holds crc (rt_wal rt) rs0" and "snd (rt_effects rt) = []" and "protocol_ok handle"
    and "run_ops (runtime_handle handle (wal_append crc) wal_flush (recording eff)) events rt = (results, rt')"
    and "attempted handle (wal_append crc) wal_flush eff events rt = ts"
    and "crash_leaves (fw_file (rt_wal rt')) (dir_bytes d)"
    and "wcfg_max_record_bytes cfg = wcfg_max_record_bytes (fw_config (rt_wal rt))"
    and "wal_open crc cfg d = (res, d')"
  shows "snd (rt_effects rt') = concat (map snd ts) \<and> (\<forall>(t, as) \<in> set ts. prefix as (tr_actions t)) \<and>
    (\<forall>w. res = Inr w \<longrightarrow> (\<exists>recovered. log_reads crc w recovered \<and> subseq (evidence ts) (map Some recovered))) \<and>
    (crash_cuts (fw_file (rt_wal rt')) (dir_bytes d) \<and> restarted d \<and> wcfg_tail_repair cfg = Truncate \<and>
       length (io_bytes (fw_file (rt_wal rt'))) < 2 ^ 63 \<longrightarrow> (\<exists>w. res = Inr w))"
proof -
  let ?m = "wcfg_max_record_bytes cfg"
  have "wal_stable crc (rt_wal rt) []" by (simp add: wal_stable_def stable_log_def)
  then have "runtime_inv crc ?m [] (rt_wal rt)"
    unfolding runtime_inv_def using assms(1,7) by (intro conjI exI [of _ "[]"] exI [of _ rs0]) simp_all
  from runtime_run_inv [OF this assms(3-5)] assms(2)
  have trace: "snd (rt_effects rt') = concat (map snd ts)" "\<forall>(t, as) \<in> set ts. prefix as (tr_actions t)"
    and inv: "runtime_inv crc ?m (evidence ts) (rt_wal rt')" by simp_all
  from inv obtain ss more extra where wal: "wal_inv crc (ss @ more) extra (rt_wal rt')"
    and ss: "stable_log crc ss (fw_file (rt_wal rt'))" "subseq (evidence ts) (map Some ss)"
    and cfg: "wcfg_max_record_bytes (fw_config (rt_wal rt')) = ?m"
    by (auto simp: runtime_inv_def wal_holds_def wal_stable_def)
  from wal cfg have held: "holds_log crc ?m (ss @ more) extra (fw_file (rt_wal rt'))"
    by (simp add: wal_inv_def)
  then have "list_all (record_ok ?m) ss" by (simp add: holds_log_def)
  note keeps = reopen_keeps [OF assms(8) ss(1) this assms(6)]
  have "\<exists>recovered. log_reads crc w recovered \<and> subseq (evidence ts) (map Some recovered)"
    if "res = Inr w" for w
    using keeps that ss(2) by (metis map_append subseq_rev_drop_many)
  moreover have "\<exists>w. res = Inr w" if "crash_cuts (fw_file (rt_wal rt')) (dir_bytes d)" "restarted d"
    "wcfg_tail_repair cfg = Truncate" "length (io_bytes (fw_file (rt_wal rt'))) < 2 ^ 63"
    using reopen_succeeds [OF held that(1,2,4) refl assms(8)] that(3) by auto
  ultimately show ?thesis using trace by blast
qed

text \<open>A second record behind the sample.\<close>

definition second_frame :: bytes where
  "second_frame = header_bytes sample_crc (header_of sample_crc (Lsn 2) sample_input) @ inp_payload sample_input"

lemma second_frame_facts:
  "encode_frame sample_crc (Lsn 2) sample_input = Inr second_frame" "length second_frame = 43"
  by (simp_all add: encode_frame_Inr_iff second_frame_def sample_input_def)

definition second_wal :: file_wal where
  "second_wal = (empty_wal Always)\<lparr>fw_file := \<lparr>io_bytes = sample_frame @ second_frame, io_pos = 86,
     io_synced = sample_frame @ second_frame, io_script = []\<rparr>, fw_last_lsn := Some (Lsn 2),
     fw_durable_through := Some (Lsn 2), fw_valid_length := 86\<rparr>"

lemma append_second:
  "wal_append sample_crc sample_input (snd (wal_append sample_crc sample_input (empty_wal Always))) =
     (Inr \<lparr>outcome_lsn = Lsn 2, outcome_durable_through = Some (Lsn 2)\<rparr>, second_wal)"
  using second_frame_facts sample_log_facts(5) unfolding append_sample
  by (simp add: wal_append_def ensure_writable_def empty_wal_def sample_wal_config_def len64_def
      sample_input_def append_written_def checked_add64_def checked_add_def must_sync_def
      sync_current_def put_bytes_def overwrite_def Let_def second_wal_def checked_successor_def
      LSN_FIRST_def sample_file_def seek_start_def write_all_def sync_data_def io_call_def
      io_decide_def)

definition sample_events :: "event list" where
  "sample_events = [TimerFired (TimerId [1]), TimerFired (TimerId [1])]"

definition first_node :: "(unit, file_wal, unit \<times> action list) node_runtime" where
  "first_node = sample_node\<lparr>rt_wal := snd (wal_append sample_crc sample_input (empty_wal Always)),
     rt_effects := ((), [CancelTimer (TimerId [1])])\<rparr>"

definition second_node :: "(unit, file_wal, unit \<times> action list) node_runtime" where
  "second_node = sample_node\<lparr>rt_wal := second_wal,
     rt_effects := ((), [CancelTimer (TimerId [1]), CancelTimer (TimerId [1])])\<rparr>"

lemma sample_steps:
  "runtime_handle sample_handle (wal_append sample_crc) wal_flush (recording sample_effects)
     (TimerFired (TimerId [1])) sample_node = (Inr (), first_node)"
  "runtime_handle sample_handle (wal_append sample_crc) wal_flush (recording sample_effects)
     (TimerFired (TimerId [1])) first_node = (Inr (), second_node)"
proof -
  have same: "rt\<lparr>rt_protocol := ()\<rparr> = rt"
    for rt :: "(unit, file_wal, unit \<times> action list) node_runtime" by simp
  show "runtime_handle sample_handle (wal_append sample_crc) wal_flush (recording sample_effects)
     (TimerFired (TimerId [1])) sample_node = (Inr (), first_node)"
    using sample_commit by (simp add: runtime_handle_def sample_handle_def same first_node_def)
  have input: "wal_record_input_new 1024 (SchemaVersion 1) [97, 98, 99] = Inr sample_input"
    by (simp add: wal_record_input_new_def sample_input_def)
  have "wal_flush second_wal = (Inr (Some (Lsn 2)), second_wal)"
    by (simp add: wal_flush_def ensure_writable_def sync_current_def sync_data_def io_call_def
        io_decide_def empty_wal_def second_wal_def)
  then have "commit_transition (wal_append sample_crc) wal_flush (recording sample_effects) sample_transition
      first_node = (Inr (), second_node)"
    using input append_second
    by (simp add: commit_transition_def sample_transition_def transition_durable_def first_node_def
        commit_record_def sample_durable_def sample_node_def perform_def recording_def second_node_def
        sample_effects_def transport_effects_def)
  then show "runtime_handle sample_handle (wal_append sample_crc) wal_flush (recording sample_effects)
     (TimerFired (TimerId [1])) first_node = (Inr (), second_node)"
    by (simp add: runtime_handle_def sample_handle_def same)
qed

theorem attempted_effects_survive_crash_witness:
  "\<exists>w recovered. fst (wal_open sample_crc (sample_wal_config Always) (sample_dir (sample_frame @ second_frame))) =
      Inr w \<and> log_reads sample_crc w recovered \<and>
     subseq [Some sample_input, Some sample_input] (map Some recovered)"
proof -
  let ?d = "sample_dir (sample_frame @ second_frame)"
  have run: "run_ops (runtime_handle sample_handle (wal_append sample_crc) wal_flush (recording sample_effects))
      sample_events sample_node = ([Inr (), Inr ()], second_node)"
    by (simp add: sample_events_def sample_steps)
  have ts: "attempted sample_handle (wal_append sample_crc) wal_flush sample_effects sample_events sample_node =
      [(sample_transition, [CancelTimer (TimerId [1])]), (sample_transition, [CancelTimer (TimerId [1])])]"
  proof -
    have "snd (rt_effects sample_node) = []" "snd (rt_effects first_node) = [CancelTimer (TimerId [1])]"
      "snd (rt_effects second_node) = [CancelTimer (TimerId [1]), CancelTimer (TimerId [1])]"
      by (simp_all add: first_node_def second_node_def sample_node_def)
    moreover have "fst (sample_handle ev p) = Inr sample_transition" for ev p by (simp add: sample_handle_def)
    ultimately show ?thesis by (simp add: sample_events_def sample_steps)
  qed
  have w: "rt_wal second_node = second_wal" by (simp add: second_node_def)
  have crash: "crash_leaves (fw_file second_wal) (dir_bytes ?d)" "crash_cuts (fw_file second_wal) (dir_bytes ?d)"
    by (simp_all add: crash_leaves_def crash_cuts_def second_wal_def)
  have same: "wcfg_max_record_bytes (sample_wal_config Always) =
      wcfg_max_record_bytes (fw_config (rt_wal sample_node))"
    by (simp add: sample_node_def empty_wal_def sample_wal_config_def)
  have policy: "wcfg_tail_repair (sample_wal_config Always) = Truncate" by (simp add: sample_wal_config_def)
  have small: "length (io_bytes (fw_file second_wal)) < 2 ^ 63"
    by (simp add: second_wal_def sample_log_facts(5) second_frame_facts(2))
  have durable: "map_option input_of (tr_durable_record sample_transition) = Some sample_input"
    by (simp add: sample_transition_def transition_durable_def input_of_def sample_durable_def sample_input_def)
  from attempted_effects_survive_crash [OF sample_node_facts(1,4,3) run ts _ same surjective_pairing,
      unfolded w, OF crash(1)]
  have "\<forall>v. fst (wal_open sample_crc (sample_wal_config Always) ?d) = Inr v \<longrightarrow>
      (\<exists>recovered. log_reads sample_crc v recovered \<and>
        subseq [Some sample_input, Some sample_input] (map Some recovered))"
    "\<exists>v. fst (wal_open sample_crc (sample_wal_config Always) ?d) = Inr v"
    using crash(2) policy small sample_dir_facts(2) by (simp_all add: durable del: sample_dir_facts(1))
  then show ?thesis by blast
qed

section \<open>Recovery\<close>

lemma recovered_records_ok:
  "\<forall>r \<in> set rs. rec_record_kind r \<noteq> 0 \<Longrightarrow> recovered_records rs =
     Inr (map (\<lambda>r. \<lparr>rr_lsn = rec_lsn r, rr_record_kind = rec_record_kind r,
       rr_schema_version = rec_schema_version r, rr_payload = rec_payload r\<rparr>) rs)"
  by (induction rs) (simp_all add: recovered_record_new_def)

definition recovered_content :: "recovered_record \<Rightarrow> wal_record_input" where
  "recovered_content r = \<lparr>inp_record_kind = rr_record_kind r,
     inp_schema_version = rr_schema_version r, inp_payload = rr_payload r\<rparr>"

text \<open>C19: Recovery performs no effects; unless the log itself cannot be read, the protocol is handed
  exactly the records of the log, in order with LSNs \<open>1, 2, ...\<close>, all of them on stable storage. \<close>

theorem recovery_replays_log:
  assumes "wal_holds crc (rt_wal rt) rs"
    and "runtime_recover recover (wal_replay crc) rt = (res, rt')"
  shows "rt_effects rt' = rt_effects rt \<and>
    ((\<exists>e. res = Inl (RtWal e)) \<and> rt_protocol rt' = rt_protocol rt \<or>
     (\<exists>records. map recovered_content records = rs \<and>
        map (\<lambda>r. unat (lsn_get (rr_lsn r))) records = [1..<Suc (length rs)] \<and>
        res = map_err RtProtocol (fst (recover records (rt_protocol rt))) \<and>
        rt_protocol rt' = snd (recover records (rt_protocol rt)) \<and>
        wal_stable crc (rt_wal rt') rs))"
proof -
  from assms(1) obtain extra where inv: "wal_inv crc rs extra (rt_wal rt)" by (auto simp: wal_holds_def)
  obtain rr w where r: "wal_replay crc (rt_wal rt) = (rr, w)" by fastforce
  note rep = wal_replay_inv [OF inv r]
  show ?thesis
  proof (cases rr)
    case (Inl e)
    with assms(2) r show ?thesis by (auto simp: runtime_recover_def)
  next
    case (Inr rp)
    with rep have recs: "replay_records rp = log_records None rs" and st: "stable_log crc rs (fw_file w)"
      by auto
    from inv obtain bs where log: "log_bytes crc None rs = Some bs"
      "list_all (record_ok (wcfg_max_record_bytes (fw_config (rt_wal rt)))) rs"
      by (auto simp: wal_inv_def holds_log_def)
    let ?f = "\<lambda>r. \<lparr>rr_lsn = rec_lsn r, rr_record_kind = rec_record_kind r,
       rr_schema_version = rec_schema_version r, rr_payload = rec_payload r\<rparr>"
    have kinds: "\<forall>r \<in> set (log_records None rs). rec_record_kind r \<noteq> 0"
      using log_records_content [OF log(1)] log(2)
      by (metis (no_types, lifting) list.set_map image_eqI list_all_iff record_content_def
          record_ok_def wal_record_input.select_convs(1))
    have rr: "recovered_records (replay_records rp) = Inr (map ?f (log_records None rs))"
      unfolding recs by (rule recovered_records_ok [OF kinds])
    have "map recovered_content (map ?f (log_records None rs)) = rs"
      using log_records_content [OF log(1)]
      by (simp add: recovered_content_def record_content_def [abs_def] comp_def)
    moreover have "map (\<lambda>r. unat (lsn_get (rr_lsn r))) (map ?f (log_records None rs)) = [1..<Suc (length rs)]"
      using log_records_lsn [OF log(1)] by (simp add: comp_def del: upt_Suc)
    ultimately show ?thesis
      using assms(2) r Inr rr st
      by (intro conjI disjI2 exI [of _ "map ?f (log_records None rs)"])
        (auto simp: runtime_recover_def wal_stable_def simp del: upt_Suc split: prod.splits)
  qed
qed

theorem recovery_replays_log_witness:
  "rt_effects (snd (runtime_recover (\<lambda>records p. (Inr (), p)) (wal_replay sample_crc) sample_node)) =
     ((), [])"
  using recovery_replays_log [OF sample_node_facts(1) surjective_pairing,
      of "\<lambda>records p. (Inr (), p)"]
  by (simp add: sample_node_def)

end
