(* ===== verification/Quorums_Majority.thy ===== *)
theory Quorums_Majority
  imports Main
begin

text \<open>
  The contract a quorum gives to the protocols that count votes, and its interpretation by strict
  majorities of a finite membership, the quorums of the Raft and Paxos crates.
\<close>

locale quorum_system =
  fixes quorum :: "'a set \<Rightarrow> bool"
  assumes intersect: "quorum P \<Longrightarrow> quorum Q \<Longrightarrow> P \<inter> Q \<noteq> {}"
begin

text \<open>If every member of two quorums supports a choice and nobody supports two, the choices agree.\<close>

lemma choice_unique:
  assumes "quorum P" and "quorum Q" and "\<And>v. v \<in> P \<Longrightarrow> supports v a"
    and "\<And>v. v \<in> Q \<Longrightarrow> supports v b" and "\<And>v x y. supports v x \<Longrightarrow> supports v y \<Longrightarrow> x = y"
  shows "a = b"
  using assms intersect by (metis disjoint_iff)

lemma quorum_nonempty: "quorum P \<Longrightarrow> P \<noteq> {}"
  using intersect by blast

end

definition majority_of :: "'a set \<Rightarrow> 'a set \<Rightarrow> bool" where
  "majority_of M Q \<longleftrightarrow> finite M \<and> Q \<subseteq> M \<and> card Q \<ge> card M div 2 + 1"

interpretation majority: quorum_system "majority_of M" for M
proof
  fix P Q :: "'a set"
  assume P: "majority_of M P" and Q: "majority_of M Q"
  show "P \<inter> Q \<noteq> {}"
  proof
    assume "P \<inter> Q = {}"
    with P Q have "card P + card Q = card (P \<union> Q)"
      by (intro card_Un_disjoint [symmetric]) (auto simp: majority_of_def intro: finite_subset)
    also have "\<dots> \<le> card M" using P Q by (auto simp: majority_of_def intro: card_mono)
    finally have "card P + card Q \<le> card M" .
    moreover have "card M < 2 * (card M div 2 + 1)" by simp
    ultimately show False using P Q unfolding majority_of_def by linarith
  qed
qed

end
