(* ===== verification/Raft_Node.thy ===== *)
theory Raft_Node
  imports Iron_Id
begin

text \<open>
  One Raft node (\<open>iron-raft/src/lib.rs\<close>): election, vote counting, log replication and commit.

  A \<open>BTreeSet\<close> of node ids is a finite set, iterated in ascending order; terms and the election
  clock are \<open>u64\<close> words with the checked additions of the code. Log indices are \<open>nat\<close>: the code
  converts the length of a \<open>Vec\<close> to \<open>u64\<close>, which never overflows.
\<close>

section \<open>State and messages\<close>

datatype raft_role = Follower | Candidate | Leader

record log_entry =
  le_term :: u64
  le_command :: bytes

datatype raft_message =
    RequestVote (rv_term: u64) (rv_candidate: node_id) (rv_last_log_index: nat) (rv_last_log_term: u64)
  | Vote (vote_term: u64) (vote_voter: node_id) (vote_granted: bool)
  | AppendEntries (ae_term: u64) (ae_leader: node_id) (ae_prev_log_index: nat) (ae_prev_log_term: u64)
      (ae_entries: "log_entry list") (ae_leader_commit: nat)
  | AppendResponse (ar_term: u64) (ar_follower: node_id) (ar_success: bool) (ar_match_index: nat)

record raft_outbound =
  out_to :: node_id
  out_message :: raft_message

datatype raft_error = EmptyMembership | NotLeader | IndexOverflow

record raft_node =
  rn_id :: node_id
  rn_members :: "node_id set"
  rn_role :: raft_role
  rn_current_term :: u64
  rn_voted_for :: "node_id option"
  rn_votes :: "node_id set"
  rn_log :: "log_entry list"
  rn_commit_index :: nat
  rn_election_elapsed :: u64
  rn_election_timeout :: u64
  rn_next_index :: "node_id \<rightharpoonup> nat"
  rn_replication_acks :: "node_id set"

type_synonym raft_result = "(raft_error + raft_outbound list) \<times> raft_node"

section \<open>Operations\<close>

definition raft_new :: "node_id \<Rightarrow> node_id list \<Rightarrow> u64 \<Rightarrow> raft_error + raft_node" where
  "raft_new i members election_timeout =
     (if set members = {} \<or> i \<notin> set members \<or> election_timeout = 0 then Inl EmptyMembership
      else Inr \<lparr>rn_id = i, rn_members = set members, rn_role = Follower, rn_current_term = 0,
                rn_voted_for = None, rn_votes = {}, rn_log = [], rn_commit_index = 0,
                rn_election_elapsed = 0, rn_election_timeout = election_timeout,
                rn_next_index = Map.empty, rn_replication_acks = {}\<rparr>)"

text \<open>The other members in the order the set iterates.\<close>

definition peers :: "raft_node \<Rightarrow> node_id list" where
  "peers n = filter (\<lambda>p. p \<noteq> rn_id n) (sorted_list_of_set (rn_members n))"

definition heartbeats :: "raft_node \<Rightarrow> raft_outbound list" where
  "heartbeats n =
     map (\<lambda>p. \<lparr>out_to = p, out_message =
            AppendEntries (rn_current_term n) (rn_id n) 0 0 (rn_log n) (rn_commit_index n)\<rparr>) (peers n)"

definition raft_majority :: "raft_node \<Rightarrow> nat" where
  "raft_majority n = card (rn_members n) div 2 + 1"

definition last_log :: "raft_node \<Rightarrow> nat \<times> u64" where
  "last_log n = (length (rn_log n), if rn_log n = [] then 0 else le_term (last (rn_log n)))"

definition is_up_to_date :: "nat \<Rightarrow> u64 \<Rightarrow> raft_node \<Rightarrow> bool" where
  "is_up_to_date index log_term n =
     (case last_log n of (mine, mine_term) \<Rightarrow>
       log_term > mine_term \<or> log_term = mine_term \<and> index \<ge> mine)"

definition become_follower :: "u64 \<Rightarrow> raft_node \<Rightarrow> raft_node" where
  "become_follower new_term n =
     n\<lparr>rn_current_term := new_term, rn_role := Follower, rn_voted_for := None, rn_votes := {},
       rn_election_elapsed := 0\<rparr>"

definition become_leader :: "raft_node \<Rightarrow> raft_node" where
  "become_leader n =
     n\<lparr>rn_role := Leader,
       rn_next_index := (\<lambda>p. if p \<in> rn_members n then Some (length (rn_log n)) else None),
       rn_election_elapsed := 0\<rparr>"

definition raft_tick :: "raft_node \<Rightarrow> raft_result" where
  "raft_tick n =
     (case checked_add (rn_election_elapsed n) 1 of
        None \<Rightarrow> (Inl IndexOverflow, n)
      | Some elapsed \<Rightarrow>
          let n = n\<lparr>rn_election_elapsed := elapsed\<rparr> in
          if rn_role n = Leader then (Inr (heartbeats n), n)
          else if rn_election_elapsed n < rn_election_timeout n then (Inr [], n)
          else (case checked_add (rn_current_term n) 1 of
                  None \<Rightarrow> (Inl IndexOverflow, n)
                | Some new_term \<Rightarrow>
                    let n = n\<lparr>rn_current_term := new_term, rn_role := Candidate,
                              rn_voted_for := Some (rn_id n), rn_votes := {rn_id n},
                              rn_election_elapsed := 0\<rparr> in
                    (case last_log n of (index, log_term) \<Rightarrow>
                      (Inr (map (\<lambda>p. \<lparr>out_to = p, out_message =
                                RequestVote (rn_current_term n) (rn_id n) index log_term\<rparr>) (peers n)),
                       n))))"

definition raft_propose :: "bytes \<Rightarrow> raft_node \<Rightarrow> raft_result" where
  "raft_propose command n =
     (if rn_role n \<noteq> Leader then (Inl NotLeader, n)
      else let n = n\<lparr>rn_log := rn_log n @ [\<lparr>le_term = rn_current_term n, le_command = command\<rparr>],
                     rn_replication_acks := {rn_id n}\<rparr>
           in (Inr (heartbeats n), n))"

definition raft_request_vote ::
  "u64 \<Rightarrow> node_id \<Rightarrow> nat \<Rightarrow> u64 \<Rightarrow> raft_node \<Rightarrow> raft_result" where
  "raft_request_vote msg_term candidate index log_term n =
     (let n = (if msg_term > rn_current_term n then become_follower msg_term n else n);
          granted = (msg_term = rn_current_term n \<and>
            (rn_voted_for n = None \<or> rn_voted_for n = Some candidate) \<and>
            is_up_to_date index log_term n);
          n = (if granted then n\<lparr>rn_voted_for := Some candidate, rn_election_elapsed := 0\<rparr> else n)
      in (Inr [\<lparr>out_to = candidate, out_message = Vote (rn_current_term n) (rn_id n) granted\<rparr>], n))"

definition raft_vote :: "u64 \<Rightarrow> node_id \<Rightarrow> bool \<Rightarrow> raft_node \<Rightarrow> raft_result" where
  "raft_vote msg_term voter granted n =
     (if msg_term > rn_current_term n then (Inr [], become_follower msg_term n)
      else if rn_role n \<noteq> Candidate \<or> msg_term \<noteq> rn_current_term n \<or> \<not> granted then (Inr [], n)
      else let n = n\<lparr>rn_votes := insert voter (rn_votes n)\<rparr> in
        if card (rn_votes n) \<ge> raft_majority n
        then (let n = become_leader n in (Inr (heartbeats n), n))
        else (Inr [], n))"

text \<open>The loop over the entries of an append: at each index a conflicting entry cuts the log, and an
  entry past the end is pushed.\<close>

fun append_loop :: "nat \<Rightarrow> log_entry list \<Rightarrow> log_entry list \<Rightarrow> log_entry list" where
  "append_loop index [] log = log"
| "append_loop index (entry # entries) log =
     (let log = (if index < length log \<and> le_term (log ! index) \<noteq> le_term entry
                 then take index log else log);
          log = (if index \<ge> length log then log @ [entry] else log)
      in append_loop (Suc index) entries log)"

definition raft_append ::
  "u64 \<Rightarrow> node_id \<Rightarrow> nat \<Rightarrow> u64 \<Rightarrow> log_entry list \<Rightarrow> nat \<Rightarrow> raft_node \<Rightarrow> raft_result" where
  "raft_append msg_term leader prev prev_term entries leader_commit n =
     (let n = (if msg_term > rn_current_term n then become_follower msg_term n else n);
          success = (msg_term = rn_current_term n);
          success = (success \<and>
            \<not> (prev > length (rn_log n) \<or>
               prev > 0 \<and> le_term (rn_log n ! (prev - 1)) \<noteq> prev_term));
          n = (if success
               then let log = append_loop prev entries (rn_log n)
                    in n\<lparr>rn_log := log, rn_commit_index := min leader_commit (length log),
                         rn_election_elapsed := 0\<rparr>
               else n)
      in (Inr [\<lparr>out_to = leader, out_message =
                 AppendResponse (rn_current_term n) (rn_id n) success
                   (if success then length (rn_log n) else 0)\<rparr>], n))"

definition raft_append_response :: "u64 \<Rightarrow> node_id \<Rightarrow> bool \<Rightarrow> nat \<Rightarrow> raft_node \<Rightarrow> raft_result" where
  "raft_append_response msg_term follower success match_index n =
     (if msg_term > rn_current_term n then (Inr [], become_follower msg_term n)
      else if rn_role n = Leader \<and> success
      then let n = n\<lparr>rn_next_index := (rn_next_index n)(follower \<mapsto> match_index),
                     rn_replication_acks := insert follower (rn_replication_acks n)\<rparr>
           in (Inr [],
               if card (rn_replication_acks n) \<ge> raft_majority n
               then n\<lparr>rn_commit_index := min match_index (length (rn_log n))\<rparr> else n)
      else (Inr [], n))"

definition raft_receive :: "raft_message \<Rightarrow> raft_node \<Rightarrow> raft_result" where
  "raft_receive message n =
     (case message of
        RequestVote msg_term candidate index log_term \<Rightarrow>
          raft_request_vote msg_term candidate index log_term n
      | Vote msg_term voter granted \<Rightarrow> raft_vote msg_term voter granted n
      | AppendEntries msg_term leader prev prev_term entries leader_commit \<Rightarrow>
          raft_append msg_term leader prev prev_term entries leader_commit n
      | AppendResponse msg_term follower success match_index \<Rightarrow>
          raft_append_response msg_term follower success match_index n)"

lemmas raft_defs [step_defs] = raft_tick_def raft_propose_def raft_request_vote_def raft_vote_def
  raft_append_def raft_append_response_def become_follower_def become_leader_def

section \<open>The append loop\<close>

text \<open>The number of leading entries whose terms agree.\<close>

fun agreeing :: "log_entry list \<Rightarrow> log_entry list \<Rightarrow> nat" where
  "agreeing (a # as) (b # bs) = (if le_term a = le_term b then Suc (agreeing as bs) else 0)"
| "agreeing _ _ = 0"

lemma agreeing_le: "agreeing as bs \<le> length as" "agreeing as bs \<le> length bs"
  by (induction as bs rule: agreeing.induct) auto

lemma agreeing_terms: "i < agreeing as bs \<Longrightarrow> le_term (as ! i) = le_term (bs ! i)"
  by (induction as bs arbitrary: i rule: agreeing.induct) (auto simp: nth_Cons split: nat.split if_splits)

lemma append_loop_extend:
  "length log = i \<Longrightarrow> append_loop i entries log = log @ entries"
  by (induction entries arbitrary: i log) (simp_all add: Let_def)

lemma append_loop_reference:
  "i \<le> length log \<Longrightarrow> append_loop i entries log =
     (let k = agreeing (drop i log) entries
      in if k = length entries then log else take (i + k) log @ drop k entries)"
proof (induction entries arbitrary: i log)
  case Nil
  then show ?case by (cases "drop i log") simp_all
next
  case (Cons e es)
  show ?case
  proof (cases "i = length log")
    case True
    then show ?thesis by (simp add: append_loop_extend)
  next
    case False
    with Cons.prems have i: "i < length log" by simp
    then have split: "drop i log = log ! i # drop (Suc i) log" by (rule Cons_nth_drop_Suc [symmetric])
    show ?thesis
    proof (cases "le_term (log ! i) = le_term e")
      case True
      with i Cons.IH [of "Suc i" log] split show ?thesis by (simp add: Let_def)
    next
      case False
      with i split show ?thesis by (simp add: Let_def append_loop_extend)
    qed
  qed
qed

section \<open>The invariant of one node\<close>

definition raft_node_ok :: "raft_node \<Rightarrow> bool" where
  "raft_node_ok n \<longleftrightarrow> finite (rn_members n) \<and> rn_id n \<in> rn_members n \<and>
     rn_commit_index n \<le> length (rn_log n) \<and> finite (rn_votes n) \<and>
     (rn_role n \<noteq> Follower \<longrightarrow> rn_voted_for n = Some (rn_id n) \<and> rn_id n \<in> rn_votes n) \<and>
     (rn_role n = Leader \<longrightarrow> card (rn_votes n) \<ge> raft_majority n)"

datatype raft_input = Tick | Propose bytes | Receive raft_message

fun raft_step :: "raft_input \<Rightarrow> raft_node \<Rightarrow> raft_result" where
  "raft_step Tick n = raft_tick n"
| "raft_step (Propose command) n = raft_propose command n"
| "raft_step (Receive message) n = raft_receive message n"

lemma raft_new_ok: "raft_new i members timeout = Inr n \<Longrightarrow> raft_node_ok n"
  by (auto simp: raft_new_def raft_node_ok_def split: if_splits)

lemma raft_new_fields:
  assumes "raft_new i members timeout = Inr n"
  shows "rn_id n = i" "rn_members n = set members" "rn_role n = Follower" "rn_voted_for n = None"
    "rn_log n = []" "rn_current_term n = 0" "rn_commit_index n = 0"
  using assms by (auto simp: raft_new_def split: if_splits)

lemma raft_step_fixed:
  "raft_step input n = (res, n') \<Longrightarrow> rn_id n' = rn_id n \<and> rn_members n' = rn_members n"
  by (cases input)
    (auto simp: raft_receive_def raft_defs Let_def split: raft_message.splits option.splits if_splits
      prod.splits)

lemma raft_op_ok:
  "raft_node_ok n \<Longrightarrow> raft_tick n = (res, n') \<Longrightarrow> raft_node_ok n'"
  "raft_node_ok n \<Longrightarrow> raft_propose command n = (res, n') \<Longrightarrow> raft_node_ok n'"
  "raft_node_ok n \<Longrightarrow> raft_request_vote t c i lt n = (res, n') \<Longrightarrow> raft_node_ok n'"
  "raft_node_ok n \<Longrightarrow> raft_vote t v g n = (res, n') \<Longrightarrow> raft_node_ok n'"
  "raft_node_ok n \<Longrightarrow> raft_append t l p pt es lc n = (res, n') \<Longrightarrow> raft_node_ok n'"
  "raft_node_ok n \<Longrightarrow> raft_append_response t f s m n = (res, n') \<Longrightarrow> raft_node_ok n'"
  subgoal by (auto simp: raft_defs Let_def raft_node_ok_def raft_majority_def
      split: option.splits if_splits prod.splits)
  subgoal by (auto simp: raft_defs Let_def raft_node_ok_def raft_majority_def split: if_splits)
  subgoal by (auto simp: raft_defs Let_def raft_node_ok_def raft_majority_def split: if_splits)
  subgoal by (auto simp: raft_defs Let_def raft_node_ok_def raft_majority_def split: if_splits)
  subgoal by (auto simp: raft_defs Let_def raft_node_ok_def raft_majority_def split: if_splits)
  subgoal by (auto simp: raft_defs Let_def raft_node_ok_def raft_majority_def split: if_splits)
  done

lemma raft_step_ok: "raft_node_ok n \<Longrightarrow> raft_step input n = (res, n') \<Longrightarrow> raft_node_ok n'"
proof (induction input n rule: raft_step.induct)
  case (3 message n)
  then show ?case by (cases message) (auto simp: raft_receive_def intro: raft_op_ok)
qed (auto intro: raft_op_ok)

lemma raft_step_term: "raft_step input n = (res, n') \<Longrightarrow> rn_current_term n \<le> rn_current_term n'"
  by (cases input)
    (auto simp: raft_receive_def raft_defs Let_def less_imp_le checked_add_one_less
      split: raft_message.splits option.splits if_splits prod.splits)

text \<open>Within a term a vote that was cast is not changed, and the votes of a candidate or leader are its
  own and those it received for its term.\<close>

lemma raft_step_vote:
  "raft_step input n = (res, n') \<Longrightarrow> rn_current_term n' = rn_current_term n \<Longrightarrow> rn_voted_for n = Some v \<Longrightarrow>
     rn_voted_for n' = Some v"
  by (cases input)
    (auto simp: raft_receive_def raft_defs Let_def
      split: raft_message.splits option.splits if_splits prod.splits dest: checked_add_one_less)

definition votes_received :: "raft_input list \<Rightarrow> raft_node \<Rightarrow> bool" where
  "votes_received past n \<longleftrightarrow> (rn_role n \<noteq> Follower \<longrightarrow>
     (\<forall>v \<in> rn_votes n. v = rn_id n \<or> Receive (Vote (rn_current_term n) v True) \<in> set past))"

lemma raft_step_votes:
  "votes_received past n \<Longrightarrow> raft_step input n = (res, n') \<Longrightarrow> votes_received (past @ [input]) n'"
  by (cases input)
    (auto simp: votes_received_def raft_receive_def raft_defs Let_def
      split: raft_message.splits option.splits if_splits prod.splits)

text \<open>The node after some inputs.\<close>

definition raft_run :: "raft_input list \<Rightarrow> raft_node \<Rightarrow> raft_node" where
  "raft_run inputs n = fold (\<lambda>input n. snd (raft_step input n)) inputs n"

lemma raft_run_simps [simp]:
  "raft_run [] n = n" "raft_run (inputs @ further) n = raft_run further (raft_run inputs n)"
  "raft_run (input # inputs) n = raft_run inputs (snd (raft_step input n))"
  by (simp_all add: raft_run_def)

lemma raft_run_ok: "raft_node_ok n \<Longrightarrow> raft_node_ok (raft_run inputs n) \<and> rn_id (raft_run inputs n) = rn_id n \<and>
    rn_members (raft_run inputs n) = rn_members n"
proof (induction inputs arbitrary: n)
  case (Cons input inputs)
  obtain res m where st: "raft_step input n = (res, m)" by fastforce
  with Cons.IH [OF raft_step_ok [OF Cons.prems st]] raft_step_fixed [OF st] show ?case by simp
qed simp

lemma raft_run_term:
  "rn_current_term n \<le> rn_current_term (raft_run inputs n) \<and>
   (rn_current_term (raft_run inputs n) = rn_current_term n \<longrightarrow> rn_voted_for n = Some v \<longrightarrow>
      rn_voted_for (raft_run inputs n) = Some v)"
proof (induction inputs arbitrary: n)
  case (Cons input inputs)
  obtain res m where st: "raft_step input n = (res, m)" by fastforce
  with Cons.IH [of m] raft_step_term [OF st] raft_step_vote [OF st, of v] show ?case by auto
qed simp

lemma raft_run_votes: "votes_received past n \<Longrightarrow> votes_received (past @ inputs) (raft_run inputs n)"
proof (induction inputs arbitrary: past n)
  case (Cons input inputs)
  obtain res m where st: "raft_step input n = (res, m)" by fastforce
  with Cons.IH [OF raft_step_votes [OF Cons.prems st]] show ?case by simp
qed simp

end
