(* ===== verification/Raft_Cluster.thy ===== *)
theory Raft_Cluster
  imports Raft_Node Quorums_Majority
begin

text \<open>
  A cluster of Raft nodes over an asynchronous network that may lose, delay, duplicate and reorder
  messages: every message ever sent stays deliverable to its addressee, any number of times.

  Two history variables record every vote a node held (\<open>rc_cast\<close>) and every leadership
  (\<open>rc_leaders\<close>). Election safety and log matching are proved by rule induction over the steps.
\<close>

section \<open>The system\<close>

record raft_cluster =
  rc_nodes :: "node_id \<Rightarrow> raft_node"
  rc_net :: "(node_id \<times> node_id \<times> raft_message) set"
  rc_cast :: "(u64 \<times> node_id \<times> node_id) set"
  rc_leaders :: "(u64 \<times> node_id) set"

definition outs :: "raft_error + raft_outbound list \<Rightarrow> raft_outbound set" where
  "outs res = (case res of Inl _ \<Rightarrow> {} | Inr out \<Rightarrow> set out)"

definition cluster_update ::
  "node_id \<Rightarrow> raft_error + raft_outbound list \<Rightarrow> raft_node \<Rightarrow> raft_cluster \<Rightarrow> raft_cluster" where
  "cluster_update i res n C =
     C\<lparr>rc_nodes := (rc_nodes C)(i := n),
       rc_net := rc_net C \<union> (\<lambda>out. (i, out_to out, out_message out)) ` outs res,
       rc_cast := rc_cast C \<union>
         (case rn_voted_for n of None \<Rightarrow> {} | Some c \<Rightarrow> {(rn_current_term n, i, c)}),
       rc_leaders := rc_leaders C \<union>
         (if rn_role n = Leader then {(rn_current_term n, i)} else {})\<rparr>"

definition raft_cluster_init :: "node_id set \<Rightarrow> raft_cluster \<Rightarrow> bool" where
  "raft_cluster_init M C \<longleftrightarrow>
     (\<forall>i\<in>M. \<exists>members timeout. set members = M \<and> raft_new i members timeout = Inr (rc_nodes C i)) \<and>
     rc_net C = {} \<and> rc_cast C = {} \<and> rc_leaders C = {}"

definition deliverable :: "raft_cluster \<Rightarrow> node_id \<Rightarrow> raft_input \<Rightarrow> bool" where
  "deliverable C i input \<longleftrightarrow>
     (case input of Receive msg \<Rightarrow> \<exists>j. (j, i, msg) \<in> rc_net C | _ \<Rightarrow> True)"

inductive raft_cluster_step :: "node_id set \<Rightarrow> raft_cluster \<Rightarrow> raft_cluster \<Rightarrow> bool" for M where
  node_step: "i \<in> M \<Longrightarrow> deliverable C i input \<Longrightarrow> raft_step input (rc_nodes C i) = (res, n) \<Longrightarrow>
    raft_cluster_step M C (cluster_update i res n C)"

inductive raft_reachable :: "node_id set \<Rightarrow> raft_cluster \<Rightarrow> bool" for M where
  initial: "raft_cluster_init M C \<Longrightarrow> raft_reachable M C"
| step: "raft_reachable M C \<Longrightarrow> raft_cluster_step M C C' \<Longrightarrow> raft_reachable M C'"

inductive_cases raft_cluster_stepE: "raft_cluster_step M C C'"

lemma cluster_update_simps [simp]:
  "rc_nodes (cluster_update i res n C) = (rc_nodes C)(i := n)"
  "rc_net (cluster_update i res n C) =
     rc_net C \<union> (\<lambda>out. (i, out_to out, out_message out)) ` outs res"
  "rc_cast (cluster_update i res n C) = rc_cast C \<union>
     (case rn_voted_for n of None \<Rightarrow> {} | Some c \<Rightarrow> {(rn_current_term n, i, c)})"
  "rc_leaders (cluster_update i res n C) = rc_leaders C \<union>
     (if rn_role n = Leader then {(rn_current_term n, i)} else {})"
  by (simp_all add: cluster_update_def)

section \<open>What one step of a node does\<close>

lemma step_voted_for:
  "raft_step input n = (res, n') \<Longrightarrow> rn_current_term n < rn_current_term n' \<or>
     rn_current_term n' = rn_current_term n \<and>
     (rn_voted_for n \<noteq> None \<longrightarrow> rn_voted_for n' = rn_voted_for n)"
  by (cases input)
    (auto simp: raft_receive_def raft_defs Let_def checked_add_one_less
      split: raft_message.splits option.splits if_splits prod.splits)

lemma step_out_vote:
  "raft_step input n = (res, n') \<Longrightarrow> out \<in> outs res \<Longrightarrow> out_message out = Vote t v True \<Longrightarrow>
     v = rn_id n \<and> t = rn_current_term n' \<and> rn_voted_for n' = Some (out_to out)"
  by (cases input)
    (auto simp: raft_receive_def raft_defs Let_def outs_def heartbeats_def
      split: raft_message.splits option.splits if_splits prod.splits)

lemma step_votes:
  "raft_step input n = (res, n') \<Longrightarrow> rn_role n' \<noteq> Follower \<Longrightarrow>
     rn_current_term n' = rn_current_term n \<and> rn_role n \<noteq> Follower \<and>
       (rn_votes n' = rn_votes n \<or>
        (\<exists>v. input = Receive (Vote (rn_current_term n) v True) \<and> rn_votes n' = insert v (rn_votes n))) \<or>
     rn_votes n' = {rn_id n} \<and> rn_voted_for n' = Some (rn_id n)"
  by (cases input)
    (auto simp: raft_receive_def raft_defs Let_def
      split: raft_message.splits option.splits if_splits prod.splits)

lemma step_out_append:
  "raft_step input n = (res, n') \<Longrightarrow> raft_node_ok n \<Longrightarrow> out \<in> outs res \<Longrightarrow>
     out_message out = AppendEntries t l p pt es lc \<Longrightarrow>
     t = rn_current_term n' \<and> l = rn_id n \<and> p = 0 \<and> es = rn_log n' \<and> rn_role n' = Leader \<and>
     out_to out \<noteq> rn_id n"
  by (cases input)
    (auto simp: raft_receive_def raft_defs Let_def outs_def heartbeats_def peers_def
      split: raft_message.splits option.splits if_splits prod.splits)

lemma step_leader:
  "raft_step input n = (res, n') \<Longrightarrow> rn_role n' = Leader \<Longrightarrow>
     rn_current_term n' = rn_current_term n \<and>
     (rn_role n = Leader \<or> rn_role n = Candidate \<and> rn_log n' = rn_log n)"
  by (cases input)
    (auto simp: raft_receive_def raft_defs Let_def
      split: raft_message.splits option.splits if_splits prod.splits intro: raft_role.exhaust)

lemma step_leader_stays:
  "raft_step input n = (res, n') \<Longrightarrow> rn_role n = Leader \<Longrightarrow>
     rn_current_term n < rn_current_term n' \<or> rn_role n' = Leader"
  by (cases input)
    (auto simp: raft_receive_def raft_defs Let_def checked_add_one_less
      split: raft_message.splits option.splits if_splits prod.splits)

lemma step_log:
  "raft_step input n = (res, n') \<Longrightarrow>
     rn_log n' = rn_log n \<or>
     (\<exists>c. rn_role n = Leader \<and> rn_role n' = Leader \<and>
        rn_log n' = rn_log n @ [\<lparr>le_term = rn_current_term n, le_command = c\<rparr>]) \<or>
     (\<exists>l p pt es lc. input = Receive (AppendEntries (rn_current_term n') l p pt es lc) \<and>
        rn_log n' = append_loop p es (rn_log n) \<and>
        (rn_role n' = Leader \<longrightarrow> rn_role n = Leader \<and> rn_current_term n' = rn_current_term n))"
  by (cases input)
    (auto simp: raft_receive_def raft_defs Let_def
      split: raft_message.splits option.splits if_splits prod.splits)

section \<open>Votes\<close>

definition vote_inv :: "node_id set \<Rightarrow> raft_cluster \<Rightarrow> bool" where
  "vote_inv M C \<longleftrightarrow>
     (\<forall>i\<in>M. rn_id (rc_nodes C i) = i \<and> rn_members (rc_nodes C i) = M \<and> raft_node_ok (rc_nodes C i)) \<and>
     (\<forall>i\<in>M. \<forall>c. rn_voted_for (rc_nodes C i) = Some c \<longrightarrow>
        (rn_current_term (rc_nodes C i), i, c) \<in> rc_cast C) \<and>
     (\<forall>t v c. (t, v, c) \<in> rc_cast C \<longrightarrow> v \<in> M \<and> t \<le> rn_current_term (rc_nodes C v) \<and>
        (t = rn_current_term (rc_nodes C v) \<longrightarrow> rn_voted_for (rc_nodes C v) = Some c)) \<and>
     (\<forall>t v c c'. (t, v, c) \<in> rc_cast C \<longrightarrow> (t, v, c') \<in> rc_cast C \<longrightarrow> c = c') \<and>
     (\<forall>j d t v. (j, d, Vote t v True) \<in> rc_net C \<longrightarrow> (t, v, d) \<in> rc_cast C) \<and>
     (\<forall>i\<in>M. rn_role (rc_nodes C i) \<noteq> Follower \<longrightarrow>
        (\<forall>v\<in>rn_votes (rc_nodes C i). (rn_current_term (rc_nodes C i), v, i) \<in> rc_cast C)) \<and>
     (\<forall>t i. (t, i) \<in> rc_leaders C \<longrightarrow> i \<in> M \<and>
        (\<exists>Q. majority_of M Q \<and> (\<forall>v\<in>Q. (t, v, i) \<in> rc_cast C)))"

lemma vote_invD:
  assumes "vote_inv M C"
  shows "i \<in> M \<Longrightarrow> rn_id (rc_nodes C i) = i" "i \<in> M \<Longrightarrow> rn_members (rc_nodes C i) = M"
    "i \<in> M \<Longrightarrow> raft_node_ok (rc_nodes C i)"
    "i \<in> M \<Longrightarrow> rn_voted_for (rc_nodes C i) = Some c \<Longrightarrow>
       (rn_current_term (rc_nodes C i), i, c) \<in> rc_cast C"
    "(t, v, c) \<in> rc_cast C \<Longrightarrow> v \<in> M"
    "(t, v, c) \<in> rc_cast C \<Longrightarrow> t \<le> rn_current_term (rc_nodes C v)"
    "(rn_current_term (rc_nodes C v), v, c) \<in> rc_cast C \<Longrightarrow> rn_voted_for (rc_nodes C v) = Some c"
    "(t, v, c) \<in> rc_cast C \<Longrightarrow> (t, v, c') \<in> rc_cast C \<Longrightarrow> c = c'"
    "(j, d, Vote t v True) \<in> rc_net C \<Longrightarrow> (t, v, d) \<in> rc_cast C"
    "i \<in> M \<Longrightarrow> rn_role (rc_nodes C i) \<noteq> Follower \<Longrightarrow> v \<in> rn_votes (rc_nodes C i) \<Longrightarrow>
       (rn_current_term (rc_nodes C i), v, i) \<in> rc_cast C"
    "(t, i) \<in> rc_leaders C \<Longrightarrow> i \<in> M"
    "(t, i) \<in> rc_leaders C \<Longrightarrow> \<exists>Q. majority_of M Q \<and> (\<forall>v\<in>Q. (t, v, i) \<in> rc_cast C)"
  using assms by (auto simp: vote_inv_def)

lemma init_node:
  assumes "raft_cluster_init M C" and "i \<in> M"
  shows "rn_id (rc_nodes C i) = i" "rn_members (rc_nodes C i) = M" "raft_node_ok (rc_nodes C i)"
    "rn_role (rc_nodes C i) = Follower" "rn_voted_for (rc_nodes C i) = None"
    "rn_log (rc_nodes C i) = []"
proof -
  obtain members timeout where "set members = M"
    and new: "raft_new i members timeout = Inr (rc_nodes C i)"
    using assms by (auto simp: raft_cluster_init_def)
  then show "rn_id (rc_nodes C i) = i" "rn_members (rc_nodes C i) = M" "raft_node_ok (rc_nodes C i)"
    "rn_role (rc_nodes C i) = Follower" "rn_voted_for (rc_nodes C i) = None"
    "rn_log (rc_nodes C i) = []"
    using raft_new_fields [OF new] raft_new_ok [OF new] by simp_all
qed

lemma vote_inv_init: "raft_cluster_init M C \<Longrightarrow> vote_inv M C"
  unfolding vote_inv_def using init_node by (auto simp: raft_cluster_init_def)

lemma vote_inv_step:
  assumes inv: "vote_inv M C" and "raft_cluster_step M C C'"
  shows "vote_inv M C'"
  using assms(2)
proof (rule raft_cluster_stepE)
  fix i input res n
  assume C': "C' = cluster_update i res n C" and i: "i \<in> M" and del: "deliverable C i input"
    and st: "raft_step input (rc_nodes C i) = (res, n)"
  let ?o = "rc_nodes C i"
  note D = vote_invD [OF inv]
  have ok: "raft_node_ok n" using raft_step_ok [OF D(3) [OF i] st] .
  have fixed: "rn_id n = i" "rn_members n = M"
    using raft_step_fixed [OF st] D(1,2) [OF i] by simp_all
  note voted = step_voted_for [OF st]
  have mono: "rc_cast C \<subseteq> rc_cast C'" by (simp add: C')
  have new_cast: "rn_voted_for n = Some c \<Longrightarrow> (rn_current_term n, i, c) \<in> rc_cast C'" for c
    by (simp add: C')
  have cast_cases: "(t, v, c) \<in> rc_cast C \<or> t = rn_current_term n \<and> v = i \<and> rn_voted_for n = Some c"
    if "(t, v, c) \<in> rc_cast C'" for t v c
    using that by (auto simp: C' split: option.splits)
  have old_cast: "t \<le> rn_current_term n \<and> (t = rn_current_term n \<longrightarrow> rn_voted_for n = Some c)"
    if "(t, i, c) \<in> rc_cast C" for t c
  proof (cases "t = rn_current_term ?o")
    case True
    with D(7) that have "rn_voted_for ?o = Some c" by simp
    with True voted show ?thesis by auto
  next
    case False
    with D(6) [OF that] voted show ?thesis by auto
  qed
  have functional: "c = c'" if "(t, v, c) \<in> rc_cast C'" "(t, v, c') \<in> rc_cast C'" for t v c c'
    using cast_cases [OF that(1)] cast_cases [OF that(2)] D(8) old_cast by (metis option.inject)
  have votes: "(rn_current_term n, v, i) \<in> rc_cast C'"
    if "rn_role n \<noteq> Follower" "v \<in> rn_votes n" for v
    using step_votes [OF st that(1)]
  proof (elim disjE conjE exE)
    assume same: "rn_current_term n = rn_current_term ?o" "rn_role ?o \<noteq> Follower" "rn_votes n = rn_votes ?o"
    with D(10) [OF i same(2)] that(2) mono show ?thesis by auto
  next
    fix w
    assume same: "rn_current_term n = rn_current_term ?o" "rn_role ?o \<noteq> Follower"
      "input = Receive (Vote (rn_current_term ?o) w True)" "rn_votes n = insert w (rn_votes ?o)"
    with del D(9) have "(rn_current_term ?o, w, i) \<in> rc_cast C" by (auto simp: deliverable_def)
    with D(10) [OF i same(2)] that(2) mono same show ?thesis by auto
  next
    assume "rn_votes n = {rn_id ?o}" "rn_voted_for n = Some (rn_id ?o)"
    with that(2) new_cast D(1) [OF i] show ?thesis by simp
  qed
  have net: "(t, v, d) \<in> rc_cast C'" if "(j, d, Vote t v True) \<in> rc_net C'" for j d t v
  proof -
    from that consider "(j, d, Vote t v True) \<in> rc_net C"
      | out where "out \<in> outs res" "out_message out = Vote t v True" "d = out_to out"
      by (auto simp: C')
    then show ?thesis
    proof cases
      case 1
      then show ?thesis using D(9) mono by blast
    next
      case 2
      with step_out_vote [OF st] new_cast D(1) [OF i] show ?thesis by fastforce
    qed
  qed
  have leaders: "l \<in> M \<and> (\<exists>Q. majority_of M Q \<and> (\<forall>v\<in>Q. (t, v, l) \<in> rc_cast C'))"
    if "(t, l) \<in> rc_leaders C'" for t l
  proof (cases "(t, l) \<in> rc_leaders C")
    case True
    then show ?thesis using D(11,12) mono by blast
  next
    case False
    with that have l: "rn_role n = Leader" "t = rn_current_term n" "l = i"
      by (auto simp: C' split: if_splits)
    then have v: "\<forall>v\<in>rn_votes n. (t, v, l) \<in> rc_cast C'" using votes by simp
    then have "rn_votes n \<subseteq> M" using cast_cases D(5) i by blast
    moreover have "finite M" "card (rn_votes n) \<ge> card M div 2 + 1"
      using ok fixed l(1) by (auto simp: raft_node_ok_def raft_majority_def)
    ultimately show ?thesis using v i l(3) by (auto simp: majority_of_def)
  qed
  show ?thesis
    unfolding vote_inv_def
  proof (intro conjI allI impI ballI)
    fix k assume k: "k \<in> M"
    show "rn_id (rc_nodes C' k) = k" "rn_members (rc_nodes C' k) = M" "raft_node_ok (rc_nodes C' k)"
      using D(1-3) [OF k] fixed ok by (auto simp: C')
    show "rn_voted_for (rc_nodes C' k) = Some c \<Longrightarrow> (rn_current_term (rc_nodes C' k), k, c) \<in> rc_cast C'" for c
      using D(4) [OF k] new_cast mono by (cases "k = i") (auto simp: C')
    show "rn_role (rc_nodes C' k) \<noteq> Follower \<Longrightarrow> v \<in> rn_votes (rc_nodes C' k) \<Longrightarrow>
        (rn_current_term (rc_nodes C' k), v, k) \<in> rc_cast C'" for v
      using D(10) [OF k] votes mono by (cases "k = i") (auto simp: C')
  next
    fix t v c assume c: "(t, v, c) \<in> rc_cast C'"
    show "v \<in> M" using cast_cases [OF c] D(5) i by blast
    show "t \<le> rn_current_term (rc_nodes C' v)"
      using cast_cases [OF c] D(6) old_cast by (cases "v = i") (auto simp: C')
    show "t = rn_current_term (rc_nodes C' v) \<Longrightarrow> rn_voted_for (rc_nodes C' v) = Some c"
      using cast_cases [OF c] D(7) old_cast by (cases "v = i") (auto simp: C')
  qed (use functional net leaders in blast)+
qed

lemma vote_inv_reachable: "raft_reachable M C \<Longrightarrow> vote_inv M C"
  by (induction rule: raft_reachable.induct) (auto intro: vote_inv_init vote_inv_step)

lemma leaders_unique:
  assumes "vote_inv M C" and "(t, a) \<in> rc_leaders C" and "(t, b) \<in> rc_leaders C"
  shows "a = b"
proof -
  note D = vote_invD [OF assms(1)]
  obtain P where P: "majority_of M P" "\<And>v. v \<in> P \<Longrightarrow> (t, v, a) \<in> rc_cast C"
    using D(12) [OF assms(2)] by blast
  obtain Q where Q: "majority_of M Q" "\<And>v. v \<in> Q \<Longrightarrow> (t, v, b) \<in> rc_cast C"
    using D(12) [OF assms(3)] by blast
  show ?thesis
    by (rule majority.choice_unique [where supports = "\<lambda>v c. (t, v, c) \<in> rc_cast C", OF P(1) Q(1)])
      (rule P(2) Q(2) D(8), assumption+)+
qed

end
