(* ===== verification/Raft_Log.thy ===== *)
theory Raft_Log
  imports Raft_Cluster
begin

text \<open>
  Log matching in a cluster of Raft nodes: the log of a node and the entries of every append request
  ever sent agree up to any index where they hold entries of one term. The reason is that each
  append carries the leader's whole log, so the loop over its entries either keeps the follower's log
  or replaces it by the leader's.
\<close>

section \<open>Matching logs\<close>

definition log_match :: "log_entry list \<Rightarrow> log_entry list \<Rightarrow> bool" where
  "log_match L E \<longleftrightarrow> (\<forall>k < min (length L) (length E).
     le_term (L ! k) = le_term (E ! k) \<longrightarrow> take (Suc k) L = take (Suc k) E)"

lemma log_matchD:
  "log_match L E \<Longrightarrow> k < length L \<Longrightarrow> k < length E \<Longrightarrow> le_term (L ! k) = le_term (E ! k) \<Longrightarrow>
     take (Suc k) L = take (Suc k) E"
  by (simp add: log_match_def)

lemma log_match_refl [simp]: "log_match L L"
  by (simp add: log_match_def)

lemma log_match_sym: "log_match L E \<Longrightarrow> log_match E L"
  by (simp add: log_match_def)

lemma log_match_snoc:
  assumes "log_match L E" and "length L < length E \<Longrightarrow> le_term (E ! length L) \<noteq> le_term e"
  shows "log_match (L @ [e]) E"
  unfolding log_match_def
proof (intro allI impI)
  fix k
  assume k: "k < min (length (L @ [e])) (length E)" and eq: "le_term ((L @ [e]) ! k) = le_term (E ! k)"
  then have "k \<noteq> length L" using assms(2) by auto
  with k have "k < length L" by simp
  with k eq log_matchD [OF assms(1), of k] show "take (Suc k) (L @ [e]) = take (Suc k) E"
    by (simp add: nth_append)
qed

text \<open>Entries that agree in their terms agree, so the loop keeps one of the two logs whole.\<close>

lemma agreeing_take:
  assumes "log_match L E"
  shows "take (agreeing L E) L = take (agreeing L E) E"
proof (cases "agreeing L E")
  case (Suc k)
  then have "k < length L" "k < length E" "le_term (L ! k) = le_term (E ! k)"
    using agreeing_le [of L E] agreeing_terms [of k L E] by simp_all
  with log_matchD [OF assms] Suc show ?thesis by simp
qed simp

lemma append_loop_match:
  assumes "log_match L E"
  shows "append_loop 0 E L = (if agreeing L E = length E then L else E)"
  using append_loop_reference [of 0 L E] agreeing_take [OF assms] by (simp add: Let_def)

section \<open>The invariant\<close>

definition cluster_logs :: "node_id set \<Rightarrow> raft_cluster \<Rightarrow> log_entry list set" where
  "cluster_logs M C = (\<lambda>i. rn_log (rc_nodes C i)) ` M \<union>
     {es. \<exists>j d t l p pt lc. (j, d, AppendEntries t l p pt es lc) \<in> rc_net C}"

definition leader_inv :: "node_id set \<Rightarrow> raft_cluster \<Rightarrow> bool" where
  "leader_inv M C \<longleftrightarrow>
     (\<forall>t i. (t, i) \<in> rc_leaders C \<longrightarrow> t < rn_current_term (rc_nodes C i) \<or>
        t = rn_current_term (rc_nodes C i) \<and> rn_role (rc_nodes C i) = Leader) \<and>
     (\<forall>i\<in>M. rn_role (rc_nodes C i) = Leader \<longrightarrow> (rn_current_term (rc_nodes C i), i) \<in> rc_leaders C) \<and>
     (\<forall>j d t l p pt es lc. (j, d, AppendEntries t l p pt es lc) \<in> rc_net C \<longrightarrow>
        (t, l) \<in> rc_leaders C \<and> l = j \<and> d \<noteq> j \<and> p = 0)"

definition log_inv :: "node_id set \<Rightarrow> raft_cluster \<Rightarrow> bool" where
  "log_inv M C \<longleftrightarrow>
     (\<forall>L\<in>cluster_logs M C. \<forall>E\<in>cluster_logs M C. log_match L E) \<and>
     (\<forall>L\<in>cluster_logs M C. \<forall>e\<in>set L. \<exists>l. (le_term e, l) \<in> rc_leaders C) \<and>
     (\<forall>i\<in>M. rn_role (rc_nodes C i) = Leader \<longrightarrow> (\<forall>L\<in>cluster_logs M C. \<forall>k < length L.
        le_term (L ! k) = rn_current_term (rc_nodes C i) \<longrightarrow> k < length (rn_log (rc_nodes C i))))"

lemma leader_invD:
  assumes "leader_inv M C"
  shows "(t, i) \<in> rc_leaders C \<Longrightarrow> t < rn_current_term (rc_nodes C i) \<or>
        t = rn_current_term (rc_nodes C i) \<and> rn_role (rc_nodes C i) = Leader"
    and "i \<in> M \<Longrightarrow> rn_role (rc_nodes C i) = Leader \<Longrightarrow> (rn_current_term (rc_nodes C i), i) \<in> rc_leaders C"
    and "(j, d, AppendEntries t l p pt es lc) \<in> rc_net C \<Longrightarrow>
      (t, l) \<in> rc_leaders C \<and> l = j \<and> d \<noteq> j \<and> p = 0"
  using assms unfolding leader_inv_def by blast+

lemma log_invD:
  assumes "log_inv M C"
  shows "L \<in> cluster_logs M C \<Longrightarrow> E \<in> cluster_logs M C \<Longrightarrow> log_match L E"
    and "L \<in> cluster_logs M C \<Longrightarrow> e \<in> set L \<Longrightarrow> \<exists>l. (le_term e, l) \<in> rc_leaders C"
    and "i \<in> M \<Longrightarrow> rn_role (rc_nodes C i) = Leader \<Longrightarrow> L \<in> cluster_logs M C \<Longrightarrow> k < length L \<Longrightarrow>
      le_term (L ! k) = rn_current_term (rc_nodes C i) \<Longrightarrow> k < length (rn_log (rc_nodes C i))"
  using assms unfolding log_inv_def by blast+

lemma leader_inv_init: "raft_cluster_init M C \<Longrightarrow> leader_inv M C"
  unfolding leader_inv_def using init_node by (auto simp: raft_cluster_init_def)

lemma log_inv_init:
  assumes "raft_cluster_init M C"
  shows "log_inv M C"
proof -
  have empty: "L = []" if "L \<in> cluster_logs M C" for L
    using that assms init_node [OF assms] by (auto simp: cluster_logs_def raft_cluster_init_def)
  show ?thesis using init_node(4) [OF assms] by (auto simp: log_inv_def dest!: empty)
qed

section \<open>Steps\<close>

lemma leader_inv_step:
  assumes inv: "leader_inv M C" and "vote_inv M C" and "raft_cluster_step M C C'"
  shows "leader_inv M C'"
  using assms(3)
proof (rule raft_cluster_stepE)
  fix i input res n
  assume C': "C' = cluster_update i res n C" and i: "i \<in> M"
    and st: "raft_step input (rc_nodes C i) = (res, n)"
  note D = leader_invD [OF inv]
  note V = vote_invD [OF assms(2)]
  show ?thesis
    unfolding leader_inv_def
  proof (intro conjI allI impI ballI)
    fix t k assume "(t, k) \<in> rc_leaders C'"
    then consider "(t, k) \<in> rc_leaders C" | "t = rn_current_term n" "k = i" "rn_role n = Leader"
      by (auto simp: C' split: if_splits)
    then show "t < rn_current_term (rc_nodes C' k) \<or>
        t = rn_current_term (rc_nodes C' k) \<and> rn_role (rc_nodes C' k) = Leader"
    proof cases
      case 1
      then show ?thesis
        using D(1) [OF 1] raft_step_term [OF st] step_leader_stays [OF st]
        by (cases "k = i") (auto simp: C')
    qed (simp add: C')
  next
    fix k assume "k \<in> M" "rn_role (rc_nodes C' k) = Leader"
    then show "(rn_current_term (rc_nodes C' k), k) \<in> rc_leaders C'"
      using D(2) [of k] by (cases "k = i") (auto simp: C')
  next
    fix j d t l p pt es lc
    assume "(j, d, AppendEntries t l p pt es lc) \<in> rc_net C'"
    then consider "(j, d, AppendEntries t l p pt es lc) \<in> rc_net C"
      | out where "out \<in> outs res" "out_message out = AppendEntries t l p pt es lc" "d = out_to out" "j = i"
      by (auto simp: C')
    then have "(t, l) \<in> rc_leaders C' \<and> l = j \<and> d \<noteq> j \<and> p = 0"
    proof cases
      case 1
      with D(3) [OF 1] show ?thesis by (auto simp: C')
    next
      case 2
      with step_out_append [OF st V(3) [OF i] 2(1,2)] V(1) [OF i] show ?thesis by (simp add: C')
    qed
    then show "(t, l) \<in> rc_leaders C'" "l = j" "d \<noteq> j" "p = 0" by blast+
  qed
qed

text \<open>A step leaves the logs as they are, or a leader appends one entry of its term.\<close>

lemma step_cluster_logs:
  assumes vi: "vote_inv M C" and ld: "leader_inv M C" and lg: "log_inv M C" and i: "i \<in> M"
    and del: "deliverable C i input" and st: "raft_step input (rc_nodes C i) = (res, n)"
    and C': "C' = cluster_update i res n C"
  shows "rn_log n \<in> cluster_logs M C \<and> (rn_role n = Leader \<longrightarrow> rn_log n = rn_log (rc_nodes C i)) \<or>
    (\<exists>c. rn_role (rc_nodes C i) = Leader \<and> rn_role n = Leader \<and>
       rn_log n = rn_log (rc_nodes C i) @ [\<lparr>le_term = rn_current_term n, le_command = c\<rparr>])"
  using step_log [OF st]
proof (elim disjE exE conjE)
  assume "rn_log n = rn_log (rc_nodes C i)"
  then show ?thesis using i by (auto simp: cluster_logs_def)
next
  fix c
  assume "rn_role (rc_nodes C i) = Leader" "rn_role n = Leader"
    "rn_log n = rn_log (rc_nodes C i) @ [\<lparr>le_term = rn_current_term (rc_nodes C i), le_command = c\<rparr>]"
  with step_leader [OF st] show ?thesis by auto
next
  fix l p pt es lc
  assume input: "input = Receive (AppendEntries (rn_current_term n) l p pt es lc)"
    and log: "rn_log n = append_loop p es (rn_log (rc_nodes C i))"
    and role: "rn_role n = Leader \<longrightarrow>
      rn_role (rc_nodes C i) = Leader \<and> rn_current_term n = rn_current_term (rc_nodes C i)"
  from del input obtain j where net: "(j, i, AppendEntries (rn_current_term n) l p pt es lc) \<in> rc_net C"
    by (auto simp: deliverable_def)
  note K = leader_invD(3) [OF ld net]
  have es: "es \<in> cluster_logs M C" using net by (auto simp: cluster_logs_def)
  have mine: "rn_log (rc_nodes C i) \<in> cluster_logs M C" using i by (auto simp: cluster_logs_def)
  have "rn_log n \<in> cluster_logs M C"
    using log K append_loop_match [OF log_invD(1) [OF lg mine es]] es mine by simp
  moreover have "rn_role n \<noteq> Leader"
  proof
    assume "rn_role n = Leader"
    with role leader_invD(2) [OF ld i] have "(rn_current_term n, i) \<in> rc_leaders C" by simp
    with K leaders_unique [OF vi] show False by blast
  qed
  ultimately show ?thesis by simp
qed

lemma cluster_logs_step:
  assumes "vote_inv M C" and "i \<in> M" and st: "raft_step input (rc_nodes C i) = (res, n)"
    and C': "C' = cluster_update i res n C"
  shows "cluster_logs M C' \<subseteq> insert (rn_log n) (cluster_logs M C)"
proof
  fix L assume "L \<in> cluster_logs M C'"
  then consider k where "k \<in> M" "L = rn_log (rc_nodes C' k)"
    | j d t l p pt lc where "(j, d, AppendEntries t l p pt L lc) \<in> rc_net C"
    | out t l p pt lc where "out \<in> outs res" "AppendEntries t l p pt L lc = out_message out"
    by (auto simp: cluster_logs_def C')
  then show "L \<in> insert (rn_log n) (cluster_logs M C)"
  proof cases
    case 1
    then show ?thesis by (cases "k = i") (auto simp: C' cluster_logs_def)
  next
    case 2
    then show ?thesis by (auto simp: cluster_logs_def)
  next
    case 3
    with step_out_append [OF st vote_invD(3) [OF assms(1,2)] 3(1) 3(2) [symmetric]] show ?thesis by simp
  qed
qed

lemma log_inv_step:
  assumes vi: "vote_inv M C" and ld: "leader_inv M C" and lg: "log_inv M C"
    and vi': "vote_inv M C'" and "raft_cluster_step M C C'"
  shows "log_inv M C'"
  using assms(5)
proof (rule raft_cluster_stepE)
  fix i input res n
  assume C': "C' = cluster_update i res n C" and i: "i \<in> M" and del: "deliverable C i input"
    and st: "raft_step input (rc_nodes C i) = (res, n)"
  let ?o = "rc_nodes C i"
  note D = log_invD [OF lg]
  note logs' = subsetD [OF cluster_logs_step [OF vi i st C']]
  have mine: "rn_log ?o \<in> cluster_logs M C" using i by (auto simp: cluster_logs_def)
  have mono: "rc_leaders C \<subseteq> rc_leaders C'" by (simp add: C')
  have J: "(rn_current_term n, i) \<in> rc_leaders C'" if "rn_role n = Leader" using that by (simp add: C')
  have candidate: "\<not> (k < length L \<and> le_term (L ! k) = rn_current_term n)"
    if "rn_role n = Leader" "rn_role ?o \<noteq> Leader" "L \<in> cluster_logs M C" for L k
  proof
    assume k: "k < length L \<and> le_term (L ! k) = rn_current_term n"
    with D(2) [OF that(3), of "L ! k"] obtain l where l: "(rn_current_term n, l) \<in> rc_leaders C" by auto
    with mono J [OF that(1)] leaders_unique [OF vi'] have "l = i" by blast
    with leader_invD(1) [OF ld l] step_leader [OF st that(1)] that(2) show False by auto
  qed
  have bound: "k < length (rn_log n)"
    if "rn_role n = Leader" "L \<in> cluster_logs M C" "k < length L" "le_term (L ! k) = rn_current_term n" for L k
  proof -
    from candidate that have old: "rn_role ?o = Leader" by blast
    from step_leader [OF st that(1)] that(4) have "le_term (L ! k) = rn_current_term ?o" by simp
    with D(3) [OF i old that(2,3)] have "k < length (rn_log ?o)" by simp
    with step_cluster_logs [OF vi ld lg i del st C'] that(1) show ?thesis by auto
  qed
  have new: "(\<forall>E\<in>cluster_logs M C. log_match (rn_log n) E) \<and>
      (\<forall>e\<in>set (rn_log n). \<exists>l. (le_term e, l) \<in> rc_leaders C')"
    using step_cluster_logs [OF vi ld lg i del st C']
  proof (elim disjE exE conjE)
    assume "rn_log n \<in> cluster_logs M C"
    with D(1,2) mono show ?thesis by blast
  next
    fix c
    assume role: "rn_role ?o = Leader" "rn_role n = Leader"
      and log: "rn_log n = rn_log ?o @ [\<lparr>le_term = rn_current_term n, le_command = c\<rparr>]"
    have "log_match (rn_log n) E" if E: "E \<in> cluster_logs M C" for E
      unfolding log
    proof (rule log_match_snoc)
      show "log_match (rn_log ?o) E" using D(1) [OF mine E] .
      assume "length (rn_log ?o) < length E"
      with D(3) [OF i role(1) E] step_leader [OF st role(2)]
      show "le_term (E ! length (rn_log ?o)) \<noteq> le_term \<lparr>le_term = rn_current_term n, le_command = c\<rparr>"
        by auto
    qed
    moreover have "\<exists>l. (le_term e, l) \<in> rc_leaders C'" if "e \<in> set (rn_log n)" for e
      using that log D(2) [OF mine] mono J [OF role(2)] by fastforce
    ultimately show ?thesis by blast
  qed
  have other: "k < length (rn_log (rc_nodes C' j))"
    if j: "j \<in> M" "rn_role (rc_nodes C' j) = Leader" and L: "L \<in> cluster_logs M C'" "k < length L"
      and t: "le_term (L ! k) = rn_current_term (rc_nodes C' j)" for j L k
  proof (cases "j = i")
    case True
    with logs' [OF L(1)] L(2) t j(2) bound show ?thesis by (auto simp: C')
  next
    case False
    then have node: "rc_nodes C' j = rc_nodes C j" by (simp add: C')
    from logs' [OF L(1)] show ?thesis
    proof
      assume "L \<in> cluster_logs M C"
      with D(3) [OF j(1)] node j(2) L(2) t show ?thesis by auto
    next
      assume eq: "L = rn_log n"
      from step_cluster_logs [OF vi ld lg i del st C'] show ?thesis
      proof (elim disjE exE conjE)
        assume "rn_log n \<in> cluster_logs M C"
        with D(3) [OF j(1)] node j(2) L(2) t eq show ?thesis by auto
      next
        fix c
        assume role: "rn_role n = Leader"
          and log: "rn_log n = rn_log ?o @ [\<lparr>le_term = rn_current_term n, le_command = c\<rparr>]"
        have "(rn_current_term (rc_nodes C j), j) \<in> rc_leaders C'"
          using leader_invD(2) [OF ld j(1)] node j(2) mono by auto
        with J [OF role] leaders_unique [OF vi'] False
        have "rn_current_term (rc_nodes C j) \<noteq> rn_current_term n" by metis
        with eq log L(2) t node have "k < length (rn_log ?o)" "le_term (rn_log ?o ! k) = rn_current_term (rc_nodes C j)"
          by (auto simp: nth_append less_Suc_eq split: if_splits)
        with D(3) [OF j(1) _ mine] node j(2) show ?thesis by auto
      qed
    qed
  qed
  show ?thesis
    unfolding log_inv_def
  proof (intro conjI ballI allI impI)
    fix L E assume "L \<in> cluster_logs M C'" "E \<in> cluster_logs M C'"
    with logs' new D(1) log_match_sym show "log_match L E" by (metis insert_iff log_match_refl)
  next
    fix L e assume "L \<in> cluster_logs M C'" "e \<in> set L"
    with logs' new D(2) mono show "\<exists>l. (le_term e, l) \<in> rc_leaders C'" by blast
  qed (use other in blast)
qed

lemma log_inv_reachable:
  "raft_reachable M C \<Longrightarrow> vote_inv M C \<and> leader_inv M C \<and> log_inv M C"
proof (induction rule: raft_reachable.induct)
  case (initial C)
  then show ?case using vote_inv_init leader_inv_init log_inv_init by blast
next
  case (step C C')
  then show ?case using vote_inv_step leader_inv_step log_inv_step by blast
qed

end
