(* ===== verification/Raft_Properties.thy ===== *)
theory Raft_Properties
  imports Raft_Log
begin

text \<open>
  The properties of the Raft crate, their witnesses on an executable run of three nodes, and the runs
  that show what the commit rule does not guarantee.
\<close>

section \<open>Executable runs\<close>

fun raft_exec :: "node_id set \<Rightarrow> (node_id \<times> raft_input) list \<Rightarrow> raft_cluster \<Rightarrow> raft_cluster option" where
  "raft_exec M [] C = Some C"
| "raft_exec M ((i, input) # inputs) C =
     (if i \<in> M \<and> (case input of
           Receive msg \<Rightarrow> \<exists>(j, d, m)\<in>rc_net C. d = i \<and> m = msg | _ \<Rightarrow> True)
      then (case raft_step input (rc_nodes C i) of
              (res, n) \<Rightarrow> raft_exec M inputs (cluster_update i res n C))
      else None)"

lemma raft_exec_reachable:
  "raft_exec M inputs C = Some C' \<Longrightarrow> raft_reachable M C \<Longrightarrow> raft_reachable M C'"
proof (induction M inputs C rule: raft_exec.induct)
  case (2 M i input inputs C)
  obtain res n where st: "raft_step input (rc_nodes C i) = (res, n)" by fastforce
  with 2(2) have "i \<in> M" "deliverable C i input" "raft_exec M inputs (cluster_update i res n C) = Some C'"
    by (auto simp: deliverable_def split: if_splits raft_input.splits)
  moreover from this 2(3) st have "raft_reachable M (cluster_update i res n C)"
    by (blast intro: raft_reachable.step node_step)
  ultimately show ?case using 2(1) 2(2) st by (auto split: if_splits)
qed simp

abbreviation node_a :: node_id where "node_a \<equiv> NodeId ''a''"
abbreviation node_b :: node_id where "node_b \<equiv> NodeId ''b''"
abbreviation node_c :: node_id where "node_c \<equiv> NodeId ''c''"

definition three_nodes :: "node_id set" where
  "three_nodes = set [node_a, node_b, node_c]"

definition sample_cluster :: raft_cluster where
  "sample_cluster =
     \<lparr>rc_nodes = (\<lambda>i. case raft_new i [node_a, node_b, node_c] 1 of Inr n \<Rightarrow> n),
      rc_net = {}, rc_cast = {}, rc_leaders = {}\<rparr>"

lemma sample_cluster_init: "raft_cluster_init three_nodes sample_cluster"
proof -
  have "raft_new i [node_a, node_b, node_c] 1 = Inr (rc_nodes sample_cluster i)"
    if "i \<in> three_nodes" for i
    using that by (simp add: sample_cluster_def raft_new_def three_nodes_def) blast
  moreover have "set [node_a, node_b, node_c] = three_nodes" by (simp only: three_nodes_def)
  moreover have "rc_net sample_cluster = {}" "rc_cast sample_cluster = {}" "rc_leaders sample_cluster = {}"
    by (simp_all add: sample_cluster_def)
  ultimately show ?thesis unfolding raft_cluster_init_def by blast
qed

lemma sample_cluster_reachable: "raft_reachable three_nodes sample_cluster"
  by (rule raft_reachable.initial [OF sample_cluster_init])

definition elect_a :: "(node_id \<times> raft_input) list" where
  "elect_a =
     [(node_a, Tick),
      (node_b, Receive (RequestVote 1 node_a 0 0)),
      (node_a, Receive (Vote 1 node_b True)),
      (node_a, Propose [7]),
      (node_b, Receive (AppendEntries 1 node_a 0 0 [\<lparr>le_term = 1, le_command = [7]\<rparr>] 0))]"

abbreviation entry_7 :: log_entry where "entry_7 \<equiv> \<lparr>le_term = 1, le_command = [7]\<rparr>"

lemma elect_a_run:
  "map_option (\<lambda>C. map (\<lambda>i. (rn_role (rc_nodes C i), rn_current_term (rc_nodes C i), rn_log (rc_nodes C i)))
       [node_a, node_b, node_c])
     (raft_exec three_nodes elect_a sample_cluster) =
   Some [(Leader, 1, [entry_7]), (Follower, 1, [entry_7]), (Follower, 0, [])]"
  by code_simp

lemma elected_a:
  obtains C where "raft_exec three_nodes elect_a sample_cluster = Some C" "raft_reachable three_nodes C"
    "rn_role (rc_nodes C node_a) = Leader" "rn_current_term (rc_nodes C node_a) = 1"
    "rn_log (rc_nodes C node_a) = [entry_7]" "rn_log (rc_nodes C node_b) = [entry_7]"
    "rn_current_term (rc_nodes C node_b) = 1"
proof -
  from elect_a_run obtain C where run: "raft_exec three_nodes elect_a sample_cluster = Some C"
    and "rn_role (rc_nodes C node_a) = Leader" "rn_current_term (rc_nodes C node_a) = 1"
      "rn_log (rc_nodes C node_a) = [entry_7]" "rn_log (rc_nodes C node_b) = [entry_7]"
      "rn_current_term (rc_nodes C node_b) = 1"
    by auto
  with raft_exec_reachable [OF run sample_cluster_reachable] show thesis by (intro that) simp_all
qed

lemma three_nodes_members [simp]: "node_a \<in> three_nodes" "node_b \<in> three_nodes" "node_c \<in> three_nodes"
  by (simp_all add: three_nodes_def)

section \<open>Elections\<close>

text \<open>C12: Election safety: however messages are lost, delayed, duplicated or reordered, two nodes of a
  cluster that lead in the same term are the same node. \<close>

theorem election_safety:
  assumes "raft_reachable M C" and "i \<in> M" and "j \<in> M"
    and "rn_role (rc_nodes C i) = Leader" and "rn_role (rc_nodes C j) = Leader"
    and "rn_current_term (rc_nodes C i) = rn_current_term (rc_nodes C j)"
  shows "i = j"
proof -
  note inv = log_inv_reachable [OF assms(1)]
  then have "(rn_current_term (rc_nodes C i), i) \<in> rc_leaders C" "(rn_current_term (rc_nodes C i), j) \<in> rc_leaders C"
    using leader_invD(2) assms(2-6) by metis+
  with inv leaders_unique show ?thesis by blast
qed

theorem election_safety_witness:
  "\<exists>C. raft_reachable three_nodes C \<and> rn_role (rc_nodes C node_a) = Leader \<and>
     rn_current_term (rc_nodes C node_b) = rn_current_term (rc_nodes C node_a) \<and>
     rn_role (rc_nodes C node_b) \<noteq> Leader"
proof -
  obtain C where C: "raft_reachable three_nodes C" "rn_role (rc_nodes C node_a) = Leader"
    "rn_current_term (rc_nodes C node_a) = 1" "rn_current_term (rc_nodes C node_b) = 1"
    by (rule elected_a)
  then have "rn_role (rc_nodes C node_b) \<noteq> Leader"
    using election_safety [OF C(1), of node_a node_b] by auto
  with C show ?thesis by auto
qed

text \<open>A node grants its vote to at most one candidate of a term: two granted votes of one voter for
  one term that were ever sent go to the same candidate. \<close>

lemma votes_once_per_term:
  assumes "raft_reachable M C" and "(j, d, Vote t v True) \<in> rc_net C" and "(j', d', Vote t v True) \<in> rc_net C"
  shows "d = d' \<and> v \<in> M \<and> t \<le> rn_current_term (rc_nodes C v)"
proof -
  note V = vote_invD [OF vote_inv_reachable [OF assms(1)]]
  show ?thesis using V(5,6) V(8) V(9) [OF assms(2)] V(9) [OF assms(3)] by blast
qed

section \<open>Logs\<close>

text \<open>C13: Log matching: when the logs of two nodes hold entries of one term at an index, they agree on
  every entry up to that index. \<close>

theorem log_matching:
  assumes "raft_reachable M C" and "i \<in> M" and "j \<in> M"
    and "k < length (rn_log (rc_nodes C i))" and "k < length (rn_log (rc_nodes C j))"
    and "le_term (rn_log (rc_nodes C i) ! k) = le_term (rn_log (rc_nodes C j) ! k)"
  shows "take (Suc k) (rn_log (rc_nodes C i)) = take (Suc k) (rn_log (rc_nodes C j))"
proof -
  have "rn_log (rc_nodes C i) \<in> cluster_logs M C" "rn_log (rc_nodes C j) \<in> cluster_logs M C"
    using assms(2,3) by (auto simp: cluster_logs_def)
  then show ?thesis using log_inv_reachable [OF assms(1)] log_invD(1) log_matchD assms(4-6) by blast
qed

theorem log_matching_witness:
  "\<exists>C. raft_reachable three_nodes C \<and> length (rn_log (rc_nodes C node_a)) = 1 \<and>
     take 1 (rn_log (rc_nodes C node_a)) = take 1 (rn_log (rc_nodes C node_b))"
proof -
  obtain C where C: "raft_reachable three_nodes C" "rn_log (rc_nodes C node_a) = [entry_7]"
    "rn_log (rc_nodes C node_b) = [entry_7]"
    by (rule elected_a)
  then show ?thesis using log_matching [OF C(1), of node_a node_b 0] by (intro exI [of _ C]) simp
qed

section \<open>One node\<close>

text \<open>C21: Whatever a node receives, in any order and with any content: its commit index stays within
  its log; from one moment to a later one its term does not decrease, and while the term is the same a
  vote it has cast is not changed; and when it leads it has voted for itself and counts a majority of
  votes, each its own or granted in a message it received for its present term. \<close>

theorem raft_node_invariant:
  assumes "raft_new i members timeout = Inr n"
    and "earlier = raft_run inputs n" and "later = raft_run (inputs @ further) n"
  shows "rn_commit_index later \<le> length (rn_log later) \<and>
    rn_current_term earlier \<le> rn_current_term later \<and>
    (\<forall>v. rn_current_term later = rn_current_term earlier \<longrightarrow> rn_voted_for earlier = Some v \<longrightarrow>
       rn_voted_for later = Some v) \<and>
    (rn_role later = Leader \<longrightarrow> rn_voted_for later = Some i \<and> card (set members) div 2 < card (rn_votes later) \<and>
       (\<forall>v \<in> rn_votes later. v = i \<or> Receive (Vote (rn_current_term later) v True) \<in> set (inputs @ further)))"
proof -
  note new = raft_new_fields [OF assms(1)]
  have "votes_received [] n" using new(3) by (simp add: votes_received_def)
  from raft_run_votes [OF this, of "inputs @ further"] have "votes_received (inputs @ further) later"
    using assms(3) by simp
  moreover have "raft_node_ok later \<and> rn_id later = i \<and> rn_members later = set members"
    unfolding assms(3) using raft_run_ok [OF raft_new_ok [OF assms(1)], of "inputs @ further"] new(1,2) by metis
  moreover have "rn_current_term earlier \<le> rn_current_term later \<and>
      (rn_current_term later = rn_current_term earlier \<longrightarrow> rn_voted_for earlier = Some v \<longrightarrow>
        rn_voted_for later = Some v)" for v
    unfolding assms(2,3) raft_run_simps(2) by (rule raft_run_term)
  ultimately show ?thesis
    by (auto simp: raft_node_ok_def votes_received_def raft_majority_def)
qed

definition sample_inputs :: "raft_input list" where
  "sample_inputs = [Receive (RequestVote 3 node_c 9 9), Tick, Receive (Vote 6 node_b True)]"

lemma sample_inputs_run:
  "rn_current_term (raft_run [Receive (RequestVote 5 node_b 0 0)] (rc_nodes sample_cluster node_a)) = 5"
  "rn_role (raft_run ([Receive (RequestVote 5 node_b 0 0)] @ sample_inputs) (rc_nodes sample_cluster node_a)) = Leader"
  by code_simp+

theorem raft_node_invariant_witness:
  "5 \<le> rn_current_term (raft_run ([Receive (RequestVote 5 node_b 0 0)] @ sample_inputs)
      (rc_nodes sample_cluster node_a)) \<and>
   1 < card (rn_votes (raft_run ([Receive (RequestVote 5 node_b 0 0)] @ sample_inputs)
      (rc_nodes sample_cluster node_a)))"
proof -
  have "raft_new node_a [node_a, node_b, node_c] 1 = Inr (rc_nodes sample_cluster node_a)"
    by (simp add: sample_cluster_def raft_new_def)
  from raft_node_invariant [OF this refl refl, of "[Receive (RequestVote 5 node_b 0 0)]" sample_inputs]
  have "5 \<le> rn_current_term (raft_run ([Receive (RequestVote 5 node_b 0 0)] @ sample_inputs)
      (rc_nodes sample_cluster node_a))"
    "card (set [node_a, node_b, node_c]) div 2 < card (rn_votes (raft_run
      ([Receive (RequestVote 5 node_b 0 0)] @ sample_inputs) (rc_nodes sample_cluster node_a)))"
    unfolding sample_inputs_run by blast+
  moreover have "card (set [node_a, node_b, node_c]) div 2 = 1" by code_simp
  ultimately show ?thesis by simp
qed

text \<open>The operations fail exactly where the code returns an error: a tick when a counter would
  overflow, a proposal on a node that does not lead; no message makes a node fail. A failing proposal
  or term overflow changes nothing but the election clock. \<close>

lemma raft_errors_exact:
  "fst (raft_step input n) = Inl e \<longleftrightarrow>
     (case input of
        Tick \<Rightarrow> e = IndexOverflow \<and> (checked_add (rn_election_elapsed n) 1 = None \<or>
          rn_role n \<noteq> Leader \<and> rn_election_timeout n \<le> rn_election_elapsed n + 1 \<and>
          checked_add (rn_current_term n) 1 = None)
      | Propose command \<Rightarrow> e = NotLeader \<and> rn_role n \<noteq> Leader
      | Receive msg \<Rightarrow> False)"
proof (cases input)
  case Tick
  have "checked_add (rn_election_elapsed n) 1 = Some x \<Longrightarrow> x = rn_election_elapsed n + 1" for x
    by (simp add: checked_add_def split: if_splits)
  then show ?thesis unfolding Tick
    by (auto simp: raft_tick_def Let_def not_less split: option.splits prod.splits if_splits)
next
  case (Propose command)
  then show ?thesis by (auto simp: raft_propose_def Let_def)
next
  case (Receive msg)
  then show ?thesis by (cases msg)
    (auto simp: raft_receive_def raft_request_vote_def raft_vote_def raft_append_def raft_append_response_def Let_def)
qed

section \<open>What the commit rule does not guarantee\<close>

definition overwrite_committed :: "(node_id \<times> raft_input) list" where
  "overwrite_committed =
     [(node_c, Tick),
      (node_b, Receive (RequestVote 1 node_c 0 0)),
      (node_c, Receive (Vote 1 node_b True)),
      (node_c, Propose [1]),
      (node_a, Tick), (node_a, Tick),
      (node_b, Receive (RequestVote 2 node_a 0 0)),
      (node_a, Receive (Vote 2 node_b True)),
      (node_c, Receive (AppendEntries 2 node_a 0 0 [] 0)),
      (node_a, Propose [2]),
      (node_a, Receive (AppendResponse 2 node_c True 1)),
      (node_c, Tick),
      (node_b, Receive (RequestVote 3 node_c 1 1)),
      (node_c, Receive (Vote 3 node_b True)),
      (node_c, Propose [3]),
      (node_b, Receive (AppendEntries 3 node_c 0 0
         [\<lparr>le_term = 1, le_command = [1]\<rparr>, \<lparr>le_term = 3, le_command = [3]\<rparr>] 0)),
      (node_c, Receive (AppendResponse 3 node_b True 2))]"

lemma overwrite_committed_run:
  "map_option (\<lambda>C. (rn_commit_index (rc_nodes C node_a), rn_log (rc_nodes C node_a),
       rn_commit_index (rc_nodes C node_c), rn_log (rc_nodes C node_c)))
     (raft_exec three_nodes overwrite_committed sample_cluster) =
   Some (1, [\<lparr>le_term = 2, le_command = [2]\<rparr>],
         2, [\<lparr>le_term = 1, le_command = [1]\<rparr>, \<lparr>le_term = 3, le_command = [3]\<rparr>])"
  by code_simp

text \<open>C20: State machine safety does not hold: the leader counts acknowledgements that say nothing about
  the entry it commits, so a run of three correct nodes commits different commands at index 1. \<close>

theorem committed_entries_can_differ:
  "\<exists>C. raft_reachable three_nodes C \<and>
     1 \<le> rn_commit_index (rc_nodes C node_a) \<and> 1 \<le> rn_commit_index (rc_nodes C node_c) \<and>
     le_command (rn_log (rc_nodes C node_a) ! 0) \<noteq> le_command (rn_log (rc_nodes C node_c) ! 0)"
proof -
  from overwrite_committed_run obtain C where
    run: "raft_exec three_nodes overwrite_committed sample_cluster = Some C"
    and "rn_commit_index (rc_nodes C node_a) = 1" "rn_log (rc_nodes C node_a) = [\<lparr>le_term = 2, le_command = [2]\<rparr>]"
      "rn_commit_index (rc_nodes C node_c) = 2"
      "rn_log (rc_nodes C node_c) = [\<lparr>le_term = 1, le_command = [1]\<rparr>, \<lparr>le_term = 3, le_command = [3]\<rparr>]"
    by auto
  with raft_exec_reachable [OF run sample_cluster_reachable] show ?thesis
    by (intro exI [of _ C]) simp
qed

end
