(* ===== verification/Raft_History.thy ===== *)
theory Raft_History
  imports Raft_Log "HOL-Library.Sublist"
begin

text \<open>
  Clusters of Raft nodes with two more history variables: the logs every leader has had, by term, and which
  node has acknowledged which log of a term. The runs are those in which an acknowledgement is handed to a
  leader only when it answers an append of the log that leader has now (\<open>careful_ack\<close>); the crate does not
  check that, and \<open>committed_entries_can_differ\<close> shows what happens without it. This theory proves how the
  logs of leaders relate to the logs of nodes; \<open>Raft_Commit\<close> concludes that commits agree.
\<close>

section \<open>The system\<close>

record raft_history =
  rh_cluster :: raft_cluster
  rh_acks :: "(u64 \<times> node_id \<times> log_entry list) set"
  rh_logs :: "(u64 \<times> log_entry list) set"

abbreviation rh_node :: "raft_history \<Rightarrow> node_id \<Rightarrow> raft_node" where
  "rh_node H \<equiv> rc_nodes (rh_cluster H)"

text \<open>A node acknowledges the entries of an append it answers with success; a leader acknowledges its own log
  when it proposes.\<close>

definition answers_success :: "raft_error + raft_outbound list \<Rightarrow> bool" where
  "answers_success res \<longleftrightarrow>
     (\<exists>out\<in>outs res. case out_message out of AppendResponse t f success m \<Rightarrow> success | _ \<Rightarrow> False)"

definition acknowledged ::
  "node_id \<Rightarrow> raft_input \<Rightarrow> raft_error + raft_outbound list \<Rightarrow> raft_node
   \<Rightarrow> (u64 \<times> node_id \<times> log_entry list) set" where
  "acknowledged i input res n =
     (case input of
        Receive (AppendEntries t l p pt es lc) \<Rightarrow> if answers_success res then {(t, i, es)} else {}
      | Propose command \<Rightarrow> if rn_role n = Leader then {(rn_current_term n, i, rn_log n)} else {}
      | _ \<Rightarrow> {})"

definition history_update ::
  "node_id \<Rightarrow> raft_input \<Rightarrow> raft_error + raft_outbound list \<Rightarrow> raft_node \<Rightarrow> raft_history \<Rightarrow> raft_history" where
  "history_update i input res n H =
     \<lparr>rh_cluster = cluster_update i res n (rh_cluster H),
      rh_acks = rh_acks H \<union> acknowledged i input res n,
      rh_logs = rh_logs H \<union> (if rn_role n = Leader then {(rn_current_term n, rn_log n)} else {})\<rparr>"

text \<open>A log is sealed by a term when its last entry is of that term.\<close>

definition sealed :: "u64 \<Rightarrow> log_entry list \<Rightarrow> bool" where
  "sealed t L \<longleftrightarrow> L \<noteq> [] \<and> le_term (last L) = t"

text \<open>What the caller has to check before it hands a successful acknowledgement to its leader: it is of the
  current term, the leader has proposed in that term, and what the follower acknowledged is the log the
  leader has now. (An envelope names the message it answers, so a caller can tell.)\<close>

definition careful_ack :: "raft_history \<Rightarrow> node_id \<Rightarrow> raft_input \<Rightarrow> bool" where
  "careful_ack H i input \<longleftrightarrow>
     (let n = rh_node H i in
      case input of
        Receive (AppendResponse t f success m) \<Rightarrow>
          success \<and> rn_role n = Leader \<and> t \<le> rn_current_term n \<longrightarrow>
            t = rn_current_term n \<and> sealed t (rn_log n) \<and> (t, f, rn_log n) \<in> rh_acks H
      | _ \<Rightarrow> True)"

inductive history_step :: "node_id set \<Rightarrow> raft_history \<Rightarrow> raft_history \<Rightarrow> bool" for M where
  careful_step: "i \<in> M \<Longrightarrow> deliverable (rh_cluster H) i input \<Longrightarrow> careful_ack H i input \<Longrightarrow>
    raft_step input (rh_node H i) = (res, n) \<Longrightarrow> history_step M H (history_update i input res n H)"

definition history_init :: "node_id set \<Rightarrow> raft_history \<Rightarrow> bool" where
  "history_init M H \<longleftrightarrow> raft_cluster_init M (rh_cluster H) \<and> rh_acks H = {} \<and> rh_logs H = {}"

inductive history_reachable :: "node_id set \<Rightarrow> raft_history \<Rightarrow> bool" for M where
  initial: "history_init M H \<Longrightarrow> history_reachable M H"
| step: "history_reachable M H \<Longrightarrow> history_step M H H' \<Longrightarrow> history_reachable M H'"

inductive_cases history_stepE: "history_step M H H'"

lemma history_update_simps [simp]:
  "rh_cluster (history_update i input res n H) = cluster_update i res n (rh_cluster H)"
  "rh_acks (history_update i input res n H) = rh_acks H \<union> acknowledged i input res n"
  "rh_logs (history_update i input res n H) =
     rh_logs H \<union> (if rn_role n = Leader then {(rn_current_term n, rn_log n)} else {})"
  by (simp_all add: history_update_def)

lemma history_cluster_step: "history_step M H H' \<Longrightarrow> raft_cluster_step M (rh_cluster H) (rh_cluster H')"
  by (auto elim!: history_stepE intro: node_step)

lemma history_cluster_reachable: "history_reachable M H \<Longrightarrow> raft_reachable M (rh_cluster H)"
  by (induction rule: history_reachable.induct)
    (auto simp: history_init_def intro: raft_reachable.intros history_cluster_step)

definition cluster_inv :: "node_id set \<Rightarrow> raft_cluster \<Rightarrow> bool" where
  "cluster_inv M C \<longleftrightarrow> vote_inv M C \<and> leader_inv M C \<and> log_inv M C"

lemma cluster_inv_reachable: "history_reachable M H \<Longrightarrow> cluster_inv M (rh_cluster H)"
  using log_inv_reachable history_cluster_reachable by (auto simp: cluster_inv_def)

section \<open>The append loop and prefixes\<close>

lemma agreeing_prefix: "prefix E L \<Longrightarrow> agreeing L E = length E"
proof (elim prefixE)
  fix zs assume "L = E @ zs"
  moreover have "agreeing (E @ zs) E = length E" by (induction E) simp_all
  ultimately show ?thesis by simp
qed

lemma append_loop_cases:
  assumes "log_match L E"
  shows "append_loop 0 E L = L \<and> prefix E L \<or> append_loop 0 E L = E \<and> \<not> prefix E L"
proof (cases "agreeing L E = length E")
  case True
  with agreeing_take [OF assms] agreeing_le(1) [of L E] have "E = take (length E) L" by simp
  then have "prefix E L" using take_is_prefix by metis
  with True show ?thesis by (simp add: append_loop_match [OF assms])
next
  case False
  with agreeing_prefix have "\<not> prefix E L" by blast
  with False show ?thesis by (simp add: append_loop_match [OF assms])
qed

lemma append_loop_keeps:
  assumes "log_match L E" and "prefix P L" and "prefix P E \<or> prefix E P"
  shows "prefix P (append_loop 0 E L)"
  using append_loop_cases [OF assms(1)] assms(2,3) prefix_order.trans by metis

lemma append_loop_prefix: "log_match L E \<Longrightarrow> prefix E (append_loop 0 E L)"
  using append_loop_cases [of L E] by auto

section \<open>What a step does\<close>

text \<open>The log of a node after a step: unchanged, extended by its own proposal, or the result of the loop over the
  entries of an append of its present term that is in the network.\<close>

lemma step_log_cases:
  assumes inv: "cluster_inv M C" and i: "i \<in> M" and del: "deliverable C i input"
    and st: "raft_step input (rc_nodes C i) = (res, n)"
  obtains (same) "rn_log n = rn_log (rc_nodes C i)"
  | (proposed) c where "rn_role (rc_nodes C i) = Leader" "rn_role n = Leader"
      "rn_current_term n = rn_current_term (rc_nodes C i)"
      "rn_log n = rn_log (rc_nodes C i) @ [\<lparr>le_term = rn_current_term n, le_command = c\<rparr>]"
  | (replaced) j l p pt es lc where "(j, i, AppendEntries (rn_current_term n) l p pt es lc) \<in> rc_net C"
      "rn_log n = append_loop 0 es (rn_log (rc_nodes C i))" "log_match (rn_log (rc_nodes C i)) es"
      "rn_role n \<noteq> Leader"
proof -
  have V: "vote_inv M C" and D: "leader_inv M C" and L: "log_inv M C" using inv by (auto simp: cluster_inv_def)
  show thesis
    using step_log [OF st]
  proof (elim disjE exE conjE)
    fix l p pt es lc
    assume input: "input = Receive (AppendEntries (rn_current_term n) l p pt es lc)"
      and log: "rn_log n = append_loop p es (rn_log (rc_nodes C i))"
      and role: "rn_role n = Leader \<longrightarrow>
        rn_role (rc_nodes C i) = Leader \<and> rn_current_term n = rn_current_term (rc_nodes C i)"
    from del input obtain j where net: "(j, i, AppendEntries (rn_current_term n) l p pt es lc) \<in> rc_net C"
      by (auto simp: deliverable_def)
    note K = leader_invD(3) [OF D net]
    have "es \<in> cluster_logs M C" "rn_log (rc_nodes C i) \<in> cluster_logs M C"
      using net i by (auto simp: cluster_logs_def)
    then have "log_match (rn_log (rc_nodes C i)) es" using log_invD(1) [OF L] by blast
    moreover have "rn_role n \<noteq> Leader"
      using role leader_invD(2) [OF D i] K leaders_unique [OF V] by metis
    ultimately show thesis using replaced [OF net] log K by simp
  qed (use step_leader [OF st] same proposed in auto)
qed

lemma step_fresh_leader:
  assumes V': "vote_inv M (cluster_update i res n C)" and D: "leader_inv M C"
    and st: "raft_step input (rc_nodes C i) = (res, n)" and "rn_role n = Leader" and "rn_role (rc_nodes C i) \<noteq> Leader"
  shows "(rn_current_term n, l) \<notin> rc_leaders C"
proof
  assume l: "(rn_current_term n, l) \<in> rc_leaders C"
  have "(rn_current_term n, i) \<in> rc_leaders (cluster_update i res n C)" using assms(4) by simp
  with l leaders_unique [OF V'] have "l = i" by (metis cluster_update_simps(4) Un_iff)
  with leader_invD(1) [OF D l] step_leader [OF st assms(4)] assms(5) show False by auto
qed

text \<open>What a node acknowledges is a prefix of the log it then has.\<close>

lemma step_acknowledged:
  assumes inv: "cluster_inv M C" and i: "i \<in> M" and del: "deliverable C i input"
    and st: "raft_step input (rc_nodes C i) = (res, n)" and "(t, v, L) \<in> acknowledged i input res n"
  shows "v = i \<and> t = rn_current_term n \<and> prefix L (rn_log n) \<and>
    ((\<exists>j l p pt lc. (j, i, AppendEntries t l p pt L lc) \<in> rc_net C) \<or> rn_role n = Leader \<and> L = rn_log n)"
proof (cases input)
  case (Receive msg)
  with assms(5) obtain l p pt lc where msg: "msg = AppendEntries t l p pt L lc" and v: "v = i" "answers_success res"
    by (auto simp: acknowledged_def split: raft_message.splits if_splits)
  with del Receive obtain j where net: "(j, i, AppendEntries t l p pt L lc) \<in> rc_net C"
    by (auto simp: deliverable_def)
  have "p = 0" using leader_invD(3) [OF _ net] inv by (auto simp: cluster_inv_def)
  with st v(2) Receive msg have "t = rn_current_term n" "rn_log n = append_loop 0 L (rn_log (rc_nodes C i))"
    by (auto simp: raft_receive_def raft_append_def become_follower_def Let_def outs_def answers_success_def
        split: if_splits)
  moreover have "log_match (rn_log (rc_nodes C i)) L"
    using net i inv by (intro log_invD(1) [of M C]) (auto simp: cluster_inv_def cluster_logs_def)
  ultimately show ?thesis using net v(1) append_loop_prefix by metis
qed (use assms(5) in \<open>auto simp: acknowledged_def split: if_splits\<close>)

lemma step_out_request:
  "raft_step input n = (res, n') \<Longrightarrow> out \<in> outs res \<Longrightarrow> out_message out = RequestVote t c idx lt \<Longrightarrow>
     t = rn_current_term n' \<and> c = rn_id n \<and> (idx, lt) = last_log n'"
  by (cases input)
    (auto simp: raft_receive_def raft_defs Let_def outs_def heartbeats_def
      split: raft_message.splits option.splits if_splits prod.splits)

lemma step_candidate:
  "raft_step input n = (res, n') \<Longrightarrow> rn_role n' = Candidate \<Longrightarrow> rn_current_term n' = rn_current_term n \<Longrightarrow>
     rn_role n = Candidate \<and> (rn_log n' = rn_log n \<or>
       (\<exists>l p pt es lc. input = Receive (AppendEntries (rn_current_term n') l p pt es lc)))"
  by (cases input)
    (auto simp: raft_receive_def raft_defs Let_def checked_add_one_less
      split: raft_message.splits option.splits if_splits prod.splits dest: checked_add_one_less)

lemma step_vote_cast:
  "raft_step input n = (res, n') \<Longrightarrow> rn_voted_for n' = Some c \<Longrightarrow>
     rn_voted_for n = Some c \<and> rn_current_term n' = rn_current_term n \<or>
     rn_role n' = Candidate \<and> c = rn_id n \<and> rn_log n' = rn_log n \<or>
     (\<exists>idx lt. input = Receive (RequestVote (rn_current_term n') c idx lt) \<and> is_up_to_date idx lt n \<and>
        rn_log n' = rn_log n)"
proof (cases input)
  case (Receive msg)
  assume "raft_step input n = (res, n')" "rn_voted_for n' = Some c"
  with Receive show ?thesis
  proof (cases msg)
    case (RequestVote t k idx lt)
    with Receive \<open>raft_step input n = (res, n')\<close> \<open>rn_voted_for n' = Some c\<close> show ?thesis
      by (auto simp: raft_receive_def raft_request_vote_def become_follower_def is_up_to_date_def last_log_def Let_def
          split: if_splits)
  qed (auto simp: raft_receive_def raft_vote_def raft_append_def raft_append_response_def become_follower_def
      become_leader_def Let_def split: if_splits)
qed (auto simp: raft_tick_def raft_propose_def Let_def split: option.splits if_splits prod.splits)

lemma step_new_leader_vote:
  "raft_step input n = (res, n') \<Longrightarrow> rn_role n' = Leader \<Longrightarrow> rn_role n \<noteq> Leader \<Longrightarrow>
     rn_voted_for n' = rn_voted_for n \<and> (\<exists>t v. input = Receive (Vote t v True))"
  by (cases input)
    (auto simp: raft_receive_def raft_defs Let_def
      split: raft_message.splits option.splits if_splits prod.splits)

section \<open>Logs of leaders\<close>

text \<open>Every entry of a log came with everything before it from a log of the leader of its term.\<close>

definition grounded :: "(u64 \<times> log_entry list) set \<Rightarrow> log_entry list \<Rightarrow> bool" where
  "grounded S L \<longleftrightarrow> (\<forall>k < length L. \<exists>E. (le_term (L ! k), E) \<in> S \<and> prefix (take (Suc k) L) E)"

definition history_inv :: "node_id set \<Rightarrow> raft_history \<Rightarrow> bool" where
  "history_inv M H \<longleftrightarrow>
     (\<forall>t L L'. (t, L) \<in> rh_logs H \<longrightarrow> (t, L') \<in> rh_logs H \<longrightarrow> prefix L L' \<or> prefix L' L) \<and>
     (\<forall>t L. (t, L) \<in> rh_logs H \<longrightarrow> (\<exists>l. (t, l) \<in> rc_leaders (rh_cluster H))) \<and>
     (\<forall>i\<in>M. rn_role (rh_node H i) = Leader \<longrightarrow>
        (rn_current_term (rh_node H i), rn_log (rh_node H i)) \<in> rh_logs H \<and>
        (\<forall>L. (rn_current_term (rh_node H i), L) \<in> rh_logs H \<longrightarrow> prefix L (rn_log (rh_node H i)))) \<and>
     (\<forall>t L. (t, L) \<in> rh_logs H \<longrightarrow> (\<forall>e\<in>set L. le_term e \<le> t) \<and> grounded (rh_logs H) L \<and>
        (\<exists>E. (t, E) \<in> rh_logs H \<and> (\<forall>e\<in>set E. le_term e < t) \<and> prefix E L)) \<and>
     (\<forall>j d t l p pt es lc. (j, d, AppendEntries t l p pt es lc) \<in> rc_net (rh_cluster H) \<longrightarrow>
        (t, es) \<in> rh_logs H) \<and>
     (\<forall>i\<in>M. (\<forall>e\<in>set (rn_log (rh_node H i)). le_term e \<le> rn_current_term (rh_node H i)) \<and>
        grounded (rh_logs H) (rn_log (rh_node H i)))"

lemma history_invD:
  assumes "history_inv M H"
  shows "(t, L) \<in> rh_logs H \<Longrightarrow> (t, L') \<in> rh_logs H \<Longrightarrow> prefix L L' \<or> prefix L' L"
    and "(t, L) \<in> rh_logs H \<Longrightarrow> \<exists>l. (t, l) \<in> rc_leaders (rh_cluster H)"
    and "i \<in> M \<Longrightarrow> rn_role (rh_node H i) = Leader \<Longrightarrow> (rn_current_term (rh_node H i), rn_log (rh_node H i)) \<in> rh_logs H"
    and "i \<in> M \<Longrightarrow> rn_role (rh_node H i) = Leader \<Longrightarrow> (rn_current_term (rh_node H i), L) \<in> rh_logs H \<Longrightarrow>
      prefix L (rn_log (rh_node H i))"
    and "(t, L) \<in> rh_logs H \<Longrightarrow> e \<in> set L \<Longrightarrow> le_term e \<le> t"
    and "(t, L) \<in> rh_logs H \<Longrightarrow> grounded (rh_logs H) L"
    and "(t, L) \<in> rh_logs H \<Longrightarrow> \<exists>E. (t, E) \<in> rh_logs H \<and> (\<forall>e\<in>set E. le_term e < t) \<and> prefix E L"
    and "(j, d, AppendEntries t l p pt es lc) \<in> rc_net (rh_cluster H) \<Longrightarrow> (t, es) \<in> rh_logs H"
    and "i \<in> M \<Longrightarrow> e \<in> set (rn_log (rh_node H i)) \<Longrightarrow> le_term e \<le> rn_current_term (rh_node H i)"
    and "i \<in> M \<Longrightarrow> grounded (rh_logs H) (rn_log (rh_node H i))"
  using assms unfolding history_inv_def by meson+

lemma grounded_mono: "grounded S L \<Longrightarrow> S \<subseteq> S' \<Longrightarrow> grounded S' L"
  unfolding grounded_def by blast

lemma grounded_snoc:
  assumes "grounded S L" and "(le_term e, L @ [e]) \<in> S"
  shows "grounded S (L @ [e])"
  unfolding grounded_def
proof (intro allI impI)
  fix k assume "k < length (L @ [e])"
  then consider "k < length L" | "k = length L" by force
  then show "\<exists>E. (le_term ((L @ [e]) ! k), E) \<in> S \<and> prefix (take (Suc k) (L @ [e])) E"
    by cases (use assms in \<open>auto simp: grounded_def nth_append\<close>)
qed

lemma grounded_last:
  assumes "grounded S L" and "L \<noteq> []"
  obtains E where "(le_term (last L), E) \<in> S" "prefix L E"
proof -
  have "length L - 1 < length L" "take (Suc (length L - 1)) L = L" "L ! (length L - 1) = last L"
    using assms(2) by (simp_all add: last_conv_nth)
  with assms(1) that show thesis unfolding grounded_def by metis
qed

lemma history_inv_init: "history_init M H \<Longrightarrow> history_inv M H"
  unfolding history_inv_def history_init_def using init_node
  by (auto simp: raft_cluster_init_def grounded_def)

lemma history_inv_step:
  assumes inv: "history_inv M H" and cl: "cluster_inv M (rh_cluster H)" and cl': "cluster_inv M (rh_cluster H')"
    and "history_step M H H'"
  shows "history_inv M H'"
  using assms(4)
proof (rule history_stepE)
  fix i input res n
  assume H': "H' = history_update i input res n H" and i: "i \<in> M" and del: "deliverable (rh_cluster H) i input"
    and st: "raft_step input (rh_node H i) = (res, n)"
  let ?o = "rh_node H i" and ?S = "rh_logs H"
  note D = history_invD [OF inv]
  have vi: "vote_inv M (rh_cluster H)" "leader_inv M (rh_cluster H)"
    and vi': "vote_inv M (rh_cluster H')" "leader_inv M (rh_cluster H')"
    using cl cl' by (auto simp: cluster_inv_def)
  have mono: "?S \<subseteq> rh_logs H'" by (simp add: H')
  have terms: "rn_current_term ?o \<le> rn_current_term n" by (rule raft_step_term [OF st])
  have new: "(t, L) \<in> ?S \<or> t = rn_current_term n \<and> L = rn_log n \<and> rn_role n = Leader" if "(t, L) \<in> rh_logs H'" for t L
    using that by (auto simp: H' split: if_splits)
  have fresh: "(rn_current_term n, L) \<notin> ?S" if "rn_role n = Leader" "rn_role ?o \<noteq> Leader" for L
    using step_fresh_leader [OF _ vi(2) st that] vi'(1) D(2) by (simp add: H') blast
  have lead: "rn_current_term n = rn_current_term ?o" "rn_role ?o \<noteq> Leader \<Longrightarrow> rn_log n = rn_log ?o"
    if "rn_role n = Leader" using step_leader [OF st that] by auto
  have mine: "prefix L (rn_log n)" if "rn_role n = Leader" "(rn_current_term n, L) \<in> ?S" for L
  proof (cases "rn_role ?o = Leader")
    case True
    with D(4) [OF i True, of L] lead that have "prefix L (rn_log ?o)" by simp
    with that(1) show ?thesis by (cases rule: step_log_cases [OF cl i del st, case_names same proposed replaced]) auto
  qed (use fresh that in blast)
  have below: "le_term e \<le> rn_current_term n" if "e \<in> set (rn_log n)" for e
  proof (cases rule: step_log_cases [OF cl i del st, case_names same proposed replaced])
    case (replaced j l p pt es lc)
    note D8 = D(8) [OF replaced(1)]
    from append_loop_cases [OF replaced(3)] replaced(2) that have "e \<in> set (rn_log ?o) \<or> e \<in> set es" by auto
    with D(9) [OF i, of e] D(5) [OF D8, of e] terms show ?thesis by auto
  qed (use that D(9) [OF i, of e] terms in auto)
  have ground: "grounded (rh_logs H') (rn_log n)"
  proof (cases rule: step_log_cases [OF cl i del st, case_names same proposed replaced])
    case same
    then show ?thesis using grounded_mono [OF D(10) [OF i] mono] by simp
  next
    case (proposed c)
    then have "(rn_current_term n, rn_log n) \<in> rh_logs H'" by (simp add: H')
    with grounded_snoc [OF grounded_mono [OF D(10) [OF i] mono]] proposed(4) show ?thesis by simp
  next
    case (replaced j l p pt es lc)
    from append_loop_cases [OF replaced(3)] replaced(2) have "rn_log n = rn_log ?o \<or> rn_log n = es" by auto
    with grounded_mono [OF D(10) [OF i] mono] grounded_mono [OF D(6) [OF D(8) [OF replaced(1)]] mono]
    show ?thesis by auto
  qed
  have elected: "\<exists>E. (rn_current_term n, E) \<in> rh_logs H' \<and> (\<forall>e\<in>set E. le_term e < rn_current_term n) \<and> prefix E (rn_log n)"
    if n: "rn_role n = Leader"
  proof (cases "rn_role ?o = Leader")
    case True
    with D(7) [OF D(3) [OF i True]] lead(1) [OF n] mine [OF n] mono show ?thesis by auto
  next
    case False
    have "le_term e < rn_current_term n" if e: "e \<in> set (rn_log n)" for e
    proof -
      from e obtain k where "k < length (rn_log ?o)" "rn_log ?o ! k = e"
        using lead(2) [OF n False] by (auto simp: in_set_conv_nth)
      with D(10) [OF i] obtain E where "(le_term e, E) \<in> ?S" by (auto simp: grounded_def)
      with fresh [OF n False] have "le_term e \<noteq> rn_current_term n" by auto
      with below [OF e] show ?thesis by simp
    qed
    with n show ?thesis by (intro exI [of _ "rn_log n"]) (simp add: H')
  qed
  have node: "rh_node H' k = (if k = i then n else rh_node H k)" for k by (simp add: H')
  show ?thesis
    unfolding history_inv_def
  proof (intro conjI allI impI ballI)
    fix t L L' assume "(t, L) \<in> rh_logs H'" "(t, L') \<in> rh_logs H'"
    with new [of t L] new [of t L'] D(1) [of t L L'] mine show "prefix L L' \<or> prefix L' L" by blast
  next
    fix t L assume L: "(t, L) \<in> rh_logs H'"
    then show "\<exists>l. (t, l) \<in> rc_leaders (rh_cluster H')"
      using new [OF L] D(2) [of t L] by (auto simp: H')
    show "grounded (rh_logs H') L" using new [OF L] ground grounded_mono [OF D(6) mono] by blast
    show "\<exists>E. (t, E) \<in> rh_logs H' \<and> (\<forall>e\<in>set E. le_term e < t) \<and> prefix E L"
      using new [OF L] elected D(7) [of t L] mono by blast
    fix e assume "e \<in> set L"
    then show "le_term e \<le> t" using new [OF L] D(5) [of t L] below by blast
  next
    fix k assume k: "k \<in> M" "rn_role (rh_node H' k) = Leader"
    show "(rn_current_term (rh_node H' k), rn_log (rh_node H' k)) \<in> rh_logs H'"
      using D(3) [OF k(1)] k(2) mono by (cases "k = i") (auto simp: node H')
    fix L assume L: "(rn_current_term (rh_node H' k), L) \<in> rh_logs H'"
    show "prefix L (rn_log (rh_node H' k))"
    proof (cases "k = i")
      case True
      with L k(2) new mine show ?thesis by (auto simp: node)
    next
      case False
      have "rn_current_term (rh_node H k) \<noteq> rn_current_term n \<or> rn_role n \<noteq> Leader"
      proof (rule ccontr)
        assume "\<not> ?thesis"
        then have "(rn_current_term n, k) \<in> rc_leaders (rh_cluster H')" "(rn_current_term n, i) \<in> rc_leaders (rh_cluster H')"
          using leader_invD(2) [OF vi'(2) k(1)] k(2) False by (auto simp: node H')
        with leaders_unique [OF vi'(1)] False show False by blast
      qed
      with False L new [of "rn_current_term (rh_node H k)" L] D(4) [OF k(1)] k(2) show ?thesis by (auto simp: node)
    qed
  next
    fix j d t l p pt es lc
    assume "(j, d, AppendEntries t l p pt es lc) \<in> rc_net (rh_cluster H')"
    then consider "(j, d, AppendEntries t l p pt es lc) \<in> rc_net (rh_cluster H)"
      | out where "out \<in> outs res" "out_message out = AppendEntries t l p pt es lc"
      by (auto simp: H')
    then show "(t, es) \<in> rh_logs H'"
    proof cases
      case 1
      then show ?thesis using D(8) mono by blast
    next
      case 2
      with step_out_append [OF st vote_invD(3) [OF vi(1) i]] show ?thesis by (simp add: H')
    qed
  next
    fix k assume k: "k \<in> M"
    show "grounded (rh_logs H') (rn_log (rh_node H' k))"
      using ground grounded_mono [OF D(10) [OF k] mono] by (simp add: node)
    fix e assume "e \<in> set (rn_log (rh_node H' k))"
    then show "le_term e \<le> rn_current_term (rh_node H' k)"
      using below D(9) [OF k, of e] by (simp add: node split: if_splits)
  qed
qed

end
