(* ===== verification/Raft_Commit.thy ===== *)
theory Raft_Commit
  imports Raft_History Raft_Properties
begin

text \<open>
  Commits of a Raft cluster under a careful caller. A log that a majority acknowledges in the term that seals
  it is a prefix of the log of every later leader; what any node has committed is a prefix of such a log, so
  committed entries agree at all times and no later leader lacks one.
\<close>

section \<open>Votes and requests\<close>

definition request_inv :: "node_id set \<Rightarrow> raft_cluster \<Rightarrow> bool" where
  "request_inv M C \<longleftrightarrow>
     (\<forall>t v c. (t, v, c) \<in> rc_cast C \<longrightarrow> c \<in> M \<and> t \<le> rn_current_term (rc_nodes C c)) \<and>
     (\<forall>j d t c idx lt. (j, d, RequestVote t c idx lt) \<in> rc_net C \<longrightarrow>
        c = j \<and> j \<in> M \<and> t \<le> rn_current_term (rc_nodes C j) \<and>
        (t = rn_current_term (rc_nodes C j) \<and> rn_role (rc_nodes C j) = Candidate \<and>
           (\<forall>l. (t, l) \<notin> rc_leaders C) \<longrightarrow> (idx, lt) = last_log (rc_nodes C j)))"

lemma request_invD:
  assumes "request_inv M C"
  shows "(t, v, c) \<in> rc_cast C \<Longrightarrow> c \<in> M" and "(t, v, c) \<in> rc_cast C \<Longrightarrow> t \<le> rn_current_term (rc_nodes C c)"
    and "(j, d, RequestVote t c idx lt) \<in> rc_net C \<Longrightarrow> c = j \<and> j \<in> M \<and> t \<le> rn_current_term (rc_nodes C j)"
    and "(j, d, RequestVote (rn_current_term (rc_nodes C j)) c idx lt) \<in> rc_net C \<Longrightarrow>
      rn_role (rc_nodes C j) = Candidate \<Longrightarrow> (\<And>l. (rn_current_term (rc_nodes C j), l) \<notin> rc_leaders C) \<Longrightarrow>
      (idx, lt) = last_log (rc_nodes C j)"
proof -
  show c: "(t, v, c) \<in> rc_cast C \<Longrightarrow> c \<in> M" "(t, v, c) \<in> rc_cast C \<Longrightarrow> t \<le> rn_current_term (rc_nodes C c)"
    for t v c using assms unfolding request_inv_def by blast+
  have R: "(j, d, RequestVote t c idx lt) \<in> rc_net C \<Longrightarrow>
      c = j \<and> j \<in> M \<and> t \<le> rn_current_term (rc_nodes C j) \<and>
      (t = rn_current_term (rc_nodes C j) \<and> rn_role (rc_nodes C j) = Candidate \<and>
         (\<forall>l. (t, l) \<notin> rc_leaders C) \<longrightarrow> (idx, lt) = last_log (rc_nodes C j))" for t
    using assms unfolding request_inv_def by blast
  from R [of t] show "(j, d, RequestVote t c idx lt) \<in> rc_net C \<Longrightarrow> c = j \<and> j \<in> M \<and> t \<le> rn_current_term (rc_nodes C j)"
    by blast
  from R [of "rn_current_term (rc_nodes C j)"]
  show "(j, d, RequestVote (rn_current_term (rc_nodes C j)) c idx lt) \<in> rc_net C \<Longrightarrow>
      rn_role (rc_nodes C j) = Candidate \<Longrightarrow> (\<And>l. (rn_current_term (rc_nodes C j), l) \<notin> rc_leaders C) \<Longrightarrow>
      (idx, lt) = last_log (rc_nodes C j)"
    by blast
qed

lemma request_inv_init: "raft_cluster_init M C \<Longrightarrow> request_inv M C"
  by (auto simp: request_inv_def raft_cluster_init_def)

text \<open>A candidate of a term without a leader keeps its log.\<close>

lemma candidate_keeps_log:
  assumes cl: "cluster_inv M C" and del: "deliverable C i input"
    and st: "raft_step input (rc_nodes C i) = (res, n)" and n: "rn_role n = Candidate"
    and t: "rn_current_term n = rn_current_term (rc_nodes C i)" and none: "\<And>l. (rn_current_term n, l) \<notin> rc_leaders C"
  shows "rn_role (rc_nodes C i) = Candidate" and "rn_log n = rn_log (rc_nodes C i)"
proof -
  have "input \<noteq> Receive (AppendEntries (rn_current_term n) l p pt es lc)" for l p pt es lc
    using del none leader_invD(3) [of M C] cl unfolding cluster_inv_def deliverable_def by fastforce
  with step_candidate [OF st n t]
  show "rn_role (rc_nodes C i) = Candidate" "rn_log n = rn_log (rc_nodes C i)" by auto
qed

lemma request_inv_step:
  assumes inv: "request_inv M C" and cl: "cluster_inv M C" and "raft_cluster_step M C C'"
  shows "request_inv M C'"
  using assms(3)
proof (rule raft_cluster_stepE)
  fix i input res n
  assume C': "C' = cluster_update i res n C" and i: "i \<in> M" and del: "deliverable C i input"
    and st: "raft_step input (rc_nodes C i) = (res, n)"
  let ?o = "rc_nodes C i"
  note D = request_invD [OF inv]
  have V: "vote_inv M C" using cl by (simp add: cluster_inv_def)
  have i_id: "rn_id ?o = i" using vote_invD(1) [OF V i] .
  have terms: "rn_current_term ?o \<le> rn_current_term n" by (rule raft_step_term [OF st])
  have up: "rn_current_term (rc_nodes C k) \<le> rn_current_term (rc_nodes C' k)" for k
    using terms by (simp add: C')
  show ?thesis
    unfolding request_inv_def
  proof (intro conjI allI impI)
    fix t v c assume "(t, v, c) \<in> rc_cast C'"
    then consider "(t, v, c) \<in> rc_cast C" | "v = i" "t = rn_current_term n" "rn_voted_for n = Some c"
      by (auto simp: C' split: option.splits)
    then have "c \<in> M \<and> t \<le> rn_current_term (rc_nodes C' c)"
    proof cases
      case 1
      then show ?thesis using D(1,2) up order_trans by blast
    next
      case 2
      from step_vote_cast [OF st 2(3)] show ?thesis
      proof (elim disjE conjE exE)
        assume "rn_voted_for ?o = Some c" "rn_current_term n = rn_current_term ?o"
        with vote_invD(4) [OF V i] D(1,2) 2 up order_trans show ?thesis by metis
      next
        assume "c = rn_id ?o"
        with i_id i 2 show ?thesis by (simp add: C')
      next
        fix idx lt assume "input = Receive (RequestVote (rn_current_term n) c idx lt)"
        with del obtain j where "(j, i, RequestVote (rn_current_term n) c idx lt) \<in> rc_net C"
          by (auto simp: deliverable_def)
        with D(3) 2 up order_trans show ?thesis by metis
      qed
    qed
    then show "c \<in> M" "t \<le> rn_current_term (rc_nodes C' c)" by auto
  next
    fix j d t c idx lt assume "(j, d, RequestVote t c idx lt) \<in> rc_net C'"
    then consider (old) "(j, d, RequestVote t c idx lt) \<in> rc_net C"
      | (sent) out where "out \<in> outs res" "out_message out = RequestVote t c idx lt" "j = i"
      by (auto simp: C')
    then have "c = j \<and> j \<in> M \<and> t \<le> rn_current_term (rc_nodes C' j) \<and>
        (t = rn_current_term (rc_nodes C' j) \<and> rn_role (rc_nodes C' j) = Candidate \<and>
           (\<forall>l. (t, l) \<notin> rc_leaders C') \<longrightarrow> (idx, lt) = last_log (rc_nodes C' j))"
    proof cases
      case old
      note o = D(3) [OF old]
      moreover have "(idx, lt) = last_log (rc_nodes C' j)"
        if t: "t = rn_current_term (rc_nodes C' j)" "rn_role (rc_nodes C' j) = Candidate" "\<forall>l. (t, l) \<notin> rc_leaders C'"
      proof -
        have none: "\<And>l. (t, l) \<notin> rc_leaders C" using t(3) by (auto simp: C')
        have same: "rn_current_term (rc_nodes C j) = t" using o up [of j] t(1) by simp
        have "rn_role (rc_nodes C j) = Candidate \<and> last_log (rc_nodes C' j) = last_log (rc_nodes C j)"
        proof (cases "j = i")
          case True
          with candidate_keeps_log [OF cl del st] t same none show ?thesis by (simp add: C' last_log_def)
        qed (use t in \<open>simp add: C'\<close>)
        with D(4) [of j d c idx lt] old same none show ?thesis by simp
      qed
      ultimately show ?thesis using up [of j] by auto
    next
      case sent
      with step_out_request [OF st sent(1,2)] i i_id show ?thesis by (simp add: C' last_log_def)
    qed
    then show "c = j" "j \<in> M" "t \<le> rn_current_term (rc_nodes C' j)"
      "t = rn_current_term (rc_nodes C' j) \<and> rn_role (rc_nodes C' j) = Candidate \<and>
           (\<forall>l. (t, l) \<notin> rc_leaders C') \<Longrightarrow> (idx, lt) = last_log (rc_nodes C' j)" by blast+
  qed
qed

section \<open>Logs that stay\<close>

text \<open>A log of a term can no longer be acknowledged by a majority once the nodes of a majority have passed the
  term without acknowledging it. What is covered by a log either is a prefix of it or is blocked.\<close>

definition blocked :: "node_id set \<Rightarrow> raft_history \<Rightarrow> u64 \<Rightarrow> log_entry list \<Rightarrow> bool" where
  "blocked M H t E \<longleftrightarrow>
     (\<exists>R. majority_of M R \<and> (\<forall>v\<in>R. (t, v, E) \<notin> rh_acks H \<and> t < rn_current_term (rh_node H v)))"

definition covered :: "node_id set \<Rightarrow> raft_history \<Rightarrow> u64 \<Rightarrow> log_entry list \<Rightarrow> log_entry list \<Rightarrow> bool" where
  "covered M H t E L \<longleftrightarrow> prefix E L \<or> blocked M H t E"

definition safe_inv :: "node_id set \<Rightarrow> raft_history \<Rightarrow> bool" where
  "safe_inv M H \<longleftrightarrow>
     (\<forall>t v E. (t, v, E) \<in> rh_acks H \<longrightarrow> v \<in> M \<and> t \<le> rn_current_term (rh_node H v) \<and> (t, E) \<in> rh_logs H \<and>
        (sealed t E \<longrightarrow> covered M H t E (rn_log (rh_node H v)))) \<and>
     (\<forall>t E u L. (t, E) \<in> rh_logs H \<longrightarrow> sealed t E \<longrightarrow> (u, L) \<in> rh_logs H \<longrightarrow> t < u \<longrightarrow> covered M H t E L) \<and>
     (\<forall>j v t E. rn_role (rh_node H j) = Candidate \<longrightarrow>
        (\<forall>l. (rn_current_term (rh_node H j), l) \<notin> rc_leaders (rh_cluster H)) \<longrightarrow>
        (rn_current_term (rh_node H j), v, j) \<in> rc_cast (rh_cluster H) \<longrightarrow> (t, v, E) \<in> rh_acks H \<longrightarrow> sealed t E \<longrightarrow>
        t < rn_current_term (rh_node H j) \<longrightarrow> covered M H t E (rn_log (rh_node H j)))"

lemma safe_invD:
  assumes "safe_inv M H"
  shows "(t, v, E) \<in> rh_acks H \<Longrightarrow> v \<in> M" "(t, v, E) \<in> rh_acks H \<Longrightarrow> t \<le> rn_current_term (rh_node H v)"
    "(t, v, E) \<in> rh_acks H \<Longrightarrow> (t, E) \<in> rh_logs H"
    "(t, v, E) \<in> rh_acks H \<Longrightarrow> sealed t E \<Longrightarrow> covered M H t E (rn_log (rh_node H v))"
    "(t, E) \<in> rh_logs H \<Longrightarrow> sealed t E \<Longrightarrow> (u, L) \<in> rh_logs H \<Longrightarrow> t < u \<Longrightarrow> covered M H t E L"
    "rn_role (rh_node H j) = Candidate \<Longrightarrow>
        (\<And>l. (rn_current_term (rh_node H j), l) \<notin> rc_leaders (rh_cluster H)) \<Longrightarrow>
        (rn_current_term (rh_node H j), v, j) \<in> rc_cast (rh_cluster H) \<Longrightarrow> (t, v, E) \<in> rh_acks H \<Longrightarrow> sealed t E \<Longrightarrow>
        t < rn_current_term (rh_node H j) \<Longrightarrow> covered M H t E (rn_log (rh_node H j))"
  using assms unfolding safe_inv_def by blast+

lemma safe_inv_init: "history_init M H \<Longrightarrow> safe_inv M H"
  by (simp add: safe_inv_def history_init_def)

lemma covered_mono: "covered M H t E L \<Longrightarrow> prefix L L' \<Longrightarrow> covered M H t E L'"
  by (auto simp: covered_def intro: prefix_order.trans)

text \<open>The comparison of the last entries: a voter that holds a sealed log, and whose log is not more up to date
  than another grounded log, finds its own log covered there.\<close>

lemma up_to_date_covers:
  assumes hi: "history_inv M H" and si: "safe_inv M H"
    and V: "grounded (rh_logs H) (rn_log n)" and L: "grounded (rh_logs H) (rn_log m)"
    and E: "(t, E) \<in> rh_logs H" "sealed t E" "prefix E (rn_log n)"
    and up: "is_up_to_date idx lt n" and "(idx, lt) = last_log m"
  shows "covered M H t E (rn_log m)"
proof -
  note D = history_invD [OF hi]
  have ne: "rn_log n \<noteq> []" using E(2,3) by (auto simp: sealed_def)
  let ?u = "le_term (last (rn_log n))"
  from assms(9) have idx: "idx = length (rn_log m)" "lt = (if rn_log m = [] then 0 else le_term (last (rn_log m)))"
    by (simp_all add: last_log_def)
  from up ne have cmp: "?u < lt \<or> ?u = lt \<and> length (rn_log n) \<le> length (rn_log m)"
    by (auto simp: is_up_to_date_def last_log_def idx(1))
  then have "rn_log m \<noteq> []" using ne idx(2) by (auto simp: word_less_nat_alt)
  with idx have s: "lt = le_term (last (rn_log m))" by simp
  obtain F where F: "(?u, F) \<in> rh_logs H" "prefix (rn_log n) F" using grounded_last [OF V ne] .
  obtain G where G: "(lt, G) \<in> rh_logs H" "prefix (rn_log m) G"
    using grounded_last [OF L \<open>rn_log m \<noteq> []\<close>] s by metis
  have "last E \<in> set (rn_log n)" using E(2,3) set_mono_prefix by (fastforce simp: sealed_def)
  then have tu: "t \<le> ?u" using D(5) [OF F(1)] set_mono_prefix [OF F(2)] E(2) by (auto simp: sealed_def)
  show ?thesis
  proof (cases "?u = lt")
    case True
    with D(1) [OF F(1)] G have "prefix F G \<or> prefix G F" by metis
    then have "prefix (rn_log n) (rn_log m) \<or> prefix (rn_log m) (rn_log n)"
      using F(2) G(2) prefix_same_cases prefix_order.trans by metis
    moreover have "length (rn_log n) \<le> length (rn_log m)" using cmp True by auto
    ultimately have "prefix (rn_log n) (rn_log m)" by (metis prefix_length_le prefix_order.eq_iff prefix_length_prefix)
    with E(3) show ?thesis by (auto simp: covered_def intro: prefix_order.trans)
  next
    case False
    with cmp tu have "t < lt" by auto
    from D(7) [OF G(1)] obtain P where P: "(lt, P) \<in> rh_logs H" "\<forall>e\<in>set P. le_term e < lt" "prefix P G" by blast
    have "prefix P (rn_log m)"
    proof -
      have "last (rn_log m) \<notin> set P" using P(2) s by auto
      then have "\<not> prefix (rn_log m) P" using \<open>rn_log m \<noteq> []\<close> by (metis last_in_set set_mono_prefix subsetD)
      with prefix_same_cases [OF P(3) G(2)] show ?thesis by blast
    qed
    with safe_invD(5) [OF si E(1,2) P(1) \<open>t < lt\<close>] covered_mono show ?thesis by blast
  qed
qed

lemma safe_inv_step:
  assumes si: "safe_inv M H" and hi: "history_inv M H" and ri: "request_inv M (rh_cluster H)"
    and cl: "cluster_inv M (rh_cluster H)" and cl': "cluster_inv M (rh_cluster H')" and hi': "history_inv M H'"
    and "history_step M H H'"
  shows "safe_inv M H'"
  using assms(7)
proof (rule history_stepE)
  fix i input res n
  assume H': "H' = history_update i input res n H" and i: "i \<in> M" and del: "deliverable (rh_cluster H) i input"
    and st: "raft_step input (rh_node H i) = (res, n)"
  let ?o = "rh_node H i"
  note D = history_invD [OF hi] and S = safe_invD [OF si] and A = step_acknowledged [OF cl i del st]
  have vi: "vote_inv M (rh_cluster H)" "leader_inv M (rh_cluster H)"
    and vi': "vote_inv M (rh_cluster H')" "leader_inv M (rh_cluster H')"
    using cl cl' by (auto simp: cluster_inv_def)
  have node: "rh_node H' k = (if k = i then n else rh_node H k)" for k by (simp add: H')
  have terms: "rn_current_term ?o \<le> rn_current_term n" by (rule raft_step_term [OF st])
  have up: "rn_current_term (rh_node H k) \<le> rn_current_term (rh_node H' k)" for k using terms by (simp add: node)
  have acks: "(t, v, E) \<in> rh_acks H \<or> (t, v, E) \<in> acknowledged i input res n" if "(t, v, E) \<in> rh_acks H'" for t v E
    using that by (simp add: H')
  have blocked: "blocked M H t E \<Longrightarrow> blocked M H' t E" for t E
    unfolding blocked_def
  proof (elim exE conjE)
    fix R assume R: "majority_of M R" "\<forall>v\<in>R. (t, v, E) \<notin> rh_acks H \<and> t < rn_current_term (rh_node H v)"
    have "(t, v, E) \<notin> rh_acks H' \<and> t < rn_current_term (rh_node H' v)" if "v \<in> R" for v
      using that R(2) acks [of t v E] A up [of v] terms by fastforce
    with R(1) show "\<exists>R. majority_of M R \<and> (\<forall>v\<in>R. (t, v, E) \<notin> rh_acks H' \<and> t < rn_current_term (rh_node H' v))"
      by blast
  qed
  have stays: "covered M H t E L \<Longrightarrow> covered M H' t E L" for t E L
    using blocked by (auto simp: covered_def)
  have kept: "covered M H t E (rn_log n)" if a: "(t, i, E) \<in> rh_acks H" "sealed t E" for t E
  proof (cases "prefix E (rn_log ?o)")
    case False
    with S(4) [OF a] show ?thesis by (simp add: covered_def)
  next
    case True
    show ?thesis
    proof (cases rule: step_log_cases [OF cl i del st, case_names same proposed replaced])
      case (replaced j l p pt es lc)
      note es = D(8) [OF replaced(1)]
      have "t \<le> rn_current_term n" using S(2) [OF a(1)] terms by simp
      then have "covered M H t E es \<or> prefix es E"
        using S(5) [OF S(3) [OF a(1)] a(2) es] D(1) [OF S(3) [OF a(1)], of es] es by (auto simp: covered_def less_le)
      with append_loop_keeps [OF replaced(3) True] replaced(2) show ?thesis by (auto simp: covered_def)
    qed (use True in \<open>auto simp: covered_def\<close>)
  qed
  have logs: "(t, L) \<in> rh_logs H \<or> t = rn_current_term n \<and> L = rn_log n \<and> rn_role n = Leader" if "(t, L) \<in> rh_logs H'" for t L
    using that by (auto simp: H' split: if_splits)
  have none: "(rn_current_term n, l) \<notin> rc_leaders (rh_cluster H)" if "rn_role n = Leader" "rn_role ?o \<noteq> Leader" for l
    using step_fresh_leader [OF _ vi(2) st that] vi'(1) by (simp add: H')
  note lead = step_leader [OF st]
  have elected: "covered M H t E (rn_log n)"
    if n: "rn_role n = Leader" "rn_role ?o \<noteq> Leader" and E: "sealed t E" "t < rn_current_term n" for t E
  proof -
    have o: "rn_role ?o = Candidate" "rn_current_term n = rn_current_term ?o" "rn_log n = rn_log ?o"
      using lead [OF n(1)] n(2) by auto
    have "(rn_current_term n, i) \<in> rc_leaders (rh_cluster H')" using n(1) by (simp add: H')
    from vote_invD(12) [OF vi'(1) this] obtain Q where Q: "majority_of M Q"
      "\<And>v. v \<in> Q \<Longrightarrow> (rn_current_term n, v, i) \<in> rc_cast (rh_cluster H')" by blast
    have cast: "(rn_current_term n, v, i) \<in> rc_cast (rh_cluster H)" if "v \<in> Q" for v
      using Q(2) [OF that] step_new_leader_vote [OF st n] vote_invD(4) [OF vi(1) i] o(2)
      by (auto simp: H' split: option.splits)
    show ?thesis
    proof (cases "\<exists>v\<in>Q. (t, v, E) \<in> rh_acks H")
      case True
      then obtain v where "v \<in> Q" "(t, v, E) \<in> rh_acks H" by blast
      with S(6) [of i v t E] cast none [OF n] o E show ?thesis by metis
    next
      case False
      with Q(1) vote_invD(6) [OF vi(1) cast] E(2) have "blocked M H t E"
        unfolding blocked_def by (metis order_less_le_trans)
      then show ?thesis by (simp add: covered_def)
    qed
  qed
  have later: "covered M H' t E L"
    if E: "(t, E) \<in> rh_logs H'" "sealed t E" and L: "(u, L) \<in> rh_logs H'" and tu: "t < u" for t E u L
  proof (cases "(t, E) \<in> rh_logs H")
    case old: True
    show ?thesis
    proof (cases "(u, L) \<in> rh_logs H")
      case True
      with S(5) [OF old E(2) _ tu] stays show ?thesis by blast
    next
      case False
      with logs [OF L] have u: "u = rn_current_term n" "L = rn_log n" "rn_role n = Leader" by auto
      show ?thesis
      proof (cases "rn_role ?o = Leader")
        case True
        have "(u, rn_log ?o) \<in> rh_logs H" using D(3) [OF i True] lead [OF u(3)] u(1) by simp
        moreover from this have "prefix (rn_log ?o) L"
          using history_invD(4) [OF hi', of i "rn_log ?o"] i u by (simp add: H')
        ultimately show ?thesis using S(5) [OF old E(2) _ tu] covered_mono stays by blast
      qed (use elected [OF u(3)] E(2) tu u stays in blast)
    qed
  next
    case False
    with logs [OF E(1)] have t: "t = rn_current_term n" "E = rn_log n" "rn_role n = Leader" by auto
    with logs [OF L] tu have "(u, L) \<in> rh_logs H" by auto
    from D(2) [OF this] obtain l where "(u, l) \<in> rc_leaders (rh_cluster H)" by blast
    from vote_invD(12) [OF vi(1) this] obtain Q where Q: "majority_of M Q" "\<forall>v\<in>Q. (u, v, l) \<in> rc_cast (rh_cluster H)"
      by blast
    have "(t, v, E) \<notin> rh_acks H' \<and> t < rn_current_term (rh_node H' v)" if "v \<in> Q" for v
    proof -
      have "u \<le> rn_current_term (rh_node H v)" using vote_invD(6) [OF vi(1)] Q(2) that by blast
      with tu up [of v] have "t < rn_current_term (rh_node H' v)" by simp
      moreover from this t(1) have "v \<noteq> i" by (auto simp: node)
      ultimately show ?thesis using acks [of t v E] A S(3) False by blast
    qed
    with Q(1) show ?thesis unfolding covered_def blocked_def by blast
  qed
  have voted: "covered M H' t E (rn_log (rh_node H' j))"
    if j: "rn_role (rh_node H' j) = Candidate" "\<forall>l. (rn_current_term (rh_node H' j), l) \<notin> rc_leaders (rh_cluster H')"
      and c: "(rn_current_term (rh_node H' j), v, j) \<in> rc_cast (rh_cluster H')" and a: "(t, v, E) \<in> rh_acks H'" "sealed t E"
      and t: "t < rn_current_term (rh_node H' j)" for j v t E
  proof -
    let ?u = "rn_current_term (rh_node H' j)"
    have leaderless: "(?u, l) \<notin> rc_leaders (rh_cluster H)" for l using j(2) by (auto simp: H')
    have "?u \<le> rn_current_term (rh_node H' v)" using vote_invD(6) [OF vi'(1) c] .
    with t acks [OF a(1)] A have old: "(t, v, E) \<in> rh_acks H" by (fastforce simp: node)
    have before: ?thesis if "(?u, v, j) \<in> rc_cast (rh_cluster H)"
    proof (cases "j = i")
      case True
      with request_invD(2) [OF ri that] terms have u: "rn_current_term n = rn_current_term ?o" by (simp add: node)
      with candidate_keeps_log [OF cl del st] j(1) leaderless True
      have "rn_role ?o = Candidate" "rn_log n = rn_log ?o" by (simp_all add: node)
      with S(6) [of i v t E] that leaderless old a(2) t u True stays show ?thesis by (simp add: node)
    qed (use S(6) [of j v t E] that leaderless old a(2) t j(1) stays in \<open>simp add: node\<close>)
    show ?thesis
    proof (cases "(?u, v, j) \<in> rc_cast (rh_cluster H)")
      case False
      with c have new: "v = i" "?u = rn_current_term n" "rn_voted_for n = Some j" by (auto simp: H' split: option.splits)
      with old kept [of t E] a(2) stays have self: "?thesis" if "j = i" using that by (simp add: node)
      from step_vote_cast [OF st new(3)] show ?thesis
      proof (elim disjE conjE exE)
        assume "rn_voted_for ?o = Some j" "rn_current_term n = rn_current_term ?o"
        with vote_invD(4) [OF vi(1) i] new before show ?thesis by metis
      next
        assume "j = rn_id ?o"
        with self vote_invD(1) [OF vi(1) i] show ?thesis by simp
      next
        fix idx lt
        assume input: "input = Receive (RequestVote (rn_current_term n) j idx lt)" and upd: "is_up_to_date idx lt ?o"
        from input del obtain k where net: "(k, i, RequestVote (rn_current_term n) j idx lt) \<in> rc_net (rh_cluster H)"
          by (auto simp: deliverable_def)
        with request_invD(3) [OF ri net] have jM: "j \<in> M" "k = j" by auto
        show ?thesis
        proof (cases "j = i")
          case False
          then have same: "rh_node H' j = rh_node H j" by (simp add: node)
          with net new(2) jM(2) j(1) leaderless have lst: "(idx, lt) = last_log (rh_node H j)"
            by (intro request_invD(4) [OF ri]) simp_all
          show ?thesis
          proof (cases "prefix E (rn_log ?o)")
            case True
            from up_to_date_covers [OF hi si D(10) [OF i] D(10) [OF jM(1)] S(3) [OF old] a(2) True upd lst] same stays
            show ?thesis by simp
          next
            case False
            with S(4) [OF old a(2)] new(1) blocked show ?thesis by (simp add: covered_def)
          qed
        qed (rule self)
      qed
    qed (rule before)
  qed
  show ?thesis
    unfolding safe_inv_def
  proof (intro conjI allI impI)
    fix t v E assume a: "(t, v, E) \<in> rh_acks H'"
    from acks [OF a] have "v \<in> M \<and> t \<le> rn_current_term (rh_node H' v) \<and> (t, E) \<in> rh_logs H'"
    proof
      assume old: "(t, v, E) \<in> rh_acks H"
      from order_trans [OF S(2) [OF old] up] S(1,3) [OF old] show ?thesis by (simp add: H')
    next
      assume "(t, v, E) \<in> acknowledged i input res n"
      from A [OF this] show ?thesis using i D(8) by (auto simp: H')
    qed
    then show "v \<in> M" "t \<le> rn_current_term (rh_node H' v)" "(t, E) \<in> rh_logs H'" by auto
    assume sl: "sealed t E"
    show "covered M H' t E (rn_log (rh_node H' v))"
    proof (cases "(t, v, E) \<in> rh_acks H")
      case True
      then show ?thesis using S(4) [OF True sl] kept [of t E] sl stays by (cases "v = i") (auto simp: node)
    next
      case False
      with acks [OF a] A show ?thesis by (fastforce simp: node covered_def)
    qed
  next
    fix t E u L assume "(t, E) \<in> rh_logs H'" "sealed t E" "(u, L) \<in> rh_logs H'" "t < u"
    then show "covered M H' t E L" by (rule later)
  next
    fix j v t E
    assume "rn_role (rh_node H' j) = Candidate"
      "\<forall>l. (rn_current_term (rh_node H' j), l) \<notin> rc_leaders (rh_cluster H')"
      "(rn_current_term (rh_node H' j), v, j) \<in> rc_cast (rh_cluster H')" "(t, v, E) \<in> rh_acks H'" "sealed t E"
      "t < rn_current_term (rh_node H' j)"
    then show "covered M H' t E (rn_log (rh_node H' j))" by (rule voted)
  qed
qed

section \<open>Commits\<close>

text \<open>A log is chosen once a majority has acknowledged it in the term that seals it. A committed prefix is a
  prefix of a log chosen in a term up to the given one.\<close>

definition chosen :: "node_id set \<Rightarrow> raft_history \<Rightarrow> u64 \<Rightarrow> log_entry list \<Rightarrow> bool" where
  "chosen M H t E \<longleftrightarrow> sealed t E \<and> (\<exists>Q. majority_of M Q \<and> (\<forall>v\<in>Q. (t, v, E) \<in> rh_acks H))"

definition committed :: "node_id set \<Rightarrow> raft_history \<Rightarrow> u64 \<Rightarrow> log_entry list \<Rightarrow> bool" where
  "committed M H u P \<longleftrightarrow> P = [] \<or> (\<exists>t E. t \<le> u \<and> chosen M H t E \<and> prefix P E)"

definition commit_inv :: "node_id set \<Rightarrow> raft_history \<Rightarrow> bool" where
  "commit_inv M H \<longleftrightarrow>
     (\<forall>i\<in>M. (rn_role (rh_node H i) = Leader \<longrightarrow> sealed (rn_current_term (rh_node H i)) (rn_log (rh_node H i)) \<longrightarrow>
          (\<forall>f\<in>rn_replication_acks (rh_node H i). (rn_current_term (rh_node H i), f, rn_log (rh_node H i)) \<in> rh_acks H)) \<and>
        committed M H (rn_current_term (rh_node H i)) (take (rn_commit_index (rh_node H i)) (rn_log (rh_node H i)))) \<and>
     (\<forall>j d t l p pt es lc. (j, d, AppendEntries t l p pt es lc) \<in> rc_net (rh_cluster H) \<longrightarrow>
        lc \<le> length es \<and> committed M H t (take lc es))"

lemma commit_invD:
  assumes "commit_inv M H"
  shows "i \<in> M \<Longrightarrow> rn_role (rh_node H i) = Leader \<Longrightarrow> sealed (rn_current_term (rh_node H i)) (rn_log (rh_node H i)) \<Longrightarrow>
      f \<in> rn_replication_acks (rh_node H i) \<Longrightarrow> (rn_current_term (rh_node H i), f, rn_log (rh_node H i)) \<in> rh_acks H"
    and "i \<in> M \<Longrightarrow>
      committed M H (rn_current_term (rh_node H i)) (take (rn_commit_index (rh_node H i)) (rn_log (rh_node H i)))"
    and "(j, d, AppendEntries t l p pt es lc) \<in> rc_net (rh_cluster H) \<Longrightarrow> lc \<le> length es \<and> committed M H t (take lc es)"
  using assms unfolding commit_inv_def by blast+

lemma commit_inv_init: "history_init M H \<Longrightarrow> commit_inv M H"
  using init_node(4,6) by (auto simp: commit_inv_def history_init_def committed_def raft_cluster_init_def)

text \<open>A chosen log is a prefix of every log a leader of a later term has; logs chosen in two terms agree.\<close>

lemma chosen_log:
  assumes "safe_inv M H" and "chosen M H t E"
  shows "(t, E) \<in> rh_logs H" and "sealed t E" and "\<not> blocked M H t E"
proof -
  obtain Q where Q: "majority_of M Q" "\<And>v. v \<in> Q \<Longrightarrow> (t, v, E) \<in> rh_acks H" using assms(2) by (auto simp: chosen_def)
  with majority.quorum_nonempty [OF Q(1)] safe_invD(3) [OF assms(1)] show "(t, E) \<in> rh_logs H" by blast
  show "sealed t E" using assms(2) by (simp add: chosen_def)
  show "\<not> blocked M H t E" using majority.intersect [OF Q(1)] Q(2) unfolding blocked_def by blast
qed

lemma chosen_in_later_log:
  assumes "safe_inv M H" and "history_inv M H" and "chosen M H t E" and "(u, L) \<in> rh_logs H" and "t \<le> u"
  shows "prefix E L \<or> u = t \<and> prefix L E"
proof (cases "t = u")
  case True
  with history_invD(1) [OF assms(2)] chosen_log(1) [OF assms(1,3)] assms(4) show ?thesis by metis
next
  case False
  with safe_invD(5) [OF assms(1) chosen_log(1,2) [OF assms(1,3)] assms(4)] assms(5) chosen_log(3) [OF assms(1,3)]
  show ?thesis by (auto simp: covered_def)
qed

lemma chosen_comparable:
  assumes "safe_inv M H" and "history_inv M H" and "chosen M H t E" and "chosen M H u F"
  shows "prefix E F \<or> prefix F E"
  using chosen_in_later_log [OF assms(1-3) chosen_log(1) [OF assms(1,4)]]
    chosen_in_later_log [OF assms(1,2,4) chosen_log(1) [OF assms(1,3)]] by (metis linear)

lemma chosen_step: "history_step M H H' \<Longrightarrow> chosen M H t E \<Longrightarrow> chosen M H' t E"
  by (auto elim!: history_stepE simp: chosen_def)

lemma committed_step: "history_step M H H' \<Longrightarrow> committed M H t P \<Longrightarrow> committed M H' t P"
  unfolding committed_def using chosen_step by blast

lemma committed_later: "committed M H t P \<Longrightarrow> t \<le> u \<Longrightarrow> committed M H u P"
  unfolding committed_def using order_trans by blast

lemma step_commit_cases:
  assumes "raft_step input n = (res, n')" and "raft_node_ok n"
  obtains (same) "take (rn_commit_index n') (rn_log n') = take (rn_commit_index n) (rn_log n)"
  | (told) l p pt es lc where "input = Receive (AppendEntries (rn_current_term n') l p pt es lc)"
      "rn_log n' = append_loop p es (rn_log n)" "rn_commit_index n' = min lc (length (rn_log n'))"
  | (counted) t f m where "input = Receive (AppendResponse t f True m)" "t \<le> rn_current_term n" "rn_role n = Leader"
      "rn_role n' = Leader" "rn_current_term n' = rn_current_term n" "rn_log n' = rn_log n"
      "raft_majority n \<le> card (rn_replication_acks n')" "rn_replication_acks n' = insert f (rn_replication_acks n)"
proof (cases input)
  case Tick
  with assms(1) show thesis
    by (intro same) (auto simp: raft_tick_def Let_def split: option.splits if_splits prod.splits)
next
  case (Propose c)
  with assms show thesis
    by (intro same) (auto simp: raft_propose_def raft_node_ok_def Let_def split: if_splits)
next
  case (Receive msg)
  show thesis
  proof (cases msg)
    case (RequestVote t c idx lt)
    with Receive assms(1) show thesis
      by (intro same) (auto simp: raft_receive_def raft_request_vote_def become_follower_def Let_def split: if_splits)
  next
    case (Vote t v g)
    with Receive assms(1) show thesis
      by (intro same)
        (auto simp: raft_receive_def raft_vote_def become_follower_def become_leader_def Let_def split: if_splits)
  next
    case (AppendEntries t l p pt es lc)
    with Receive assms(1) have "rn_log n' = rn_log n \<and> rn_commit_index n' = rn_commit_index n \<or>
        t = rn_current_term n' \<and> rn_log n' = append_loop p es (rn_log n) \<and> rn_commit_index n' = min lc (length (rn_log n'))"
      by (auto simp: raft_receive_def raft_append_def become_follower_def Let_def split: if_splits)
    then show thesis
    proof
      assume "t = rn_current_term n' \<and> rn_log n' = append_loop p es (rn_log n) \<and> rn_commit_index n' = min lc (length (rn_log n'))"
      with Receive AppendEntries show thesis by (intro told [of l p pt es lc]) simp_all
    qed (use same in simp)
  next
    case (AppendResponse t f g m)
    show thesis
    proof (cases "rn_commit_index n' = rn_commit_index n \<and> rn_log n' = rn_log n")
      case False
      with Receive AppendResponse assms(1) show thesis
        by (intro counted) (auto simp: raft_receive_def raft_append_response_def become_follower_def raft_majority_def
            Let_def split: if_splits)
    qed (use same in simp)
  qed
qed

lemma step_replication_acks:
  "raft_step input n = (res, n') \<Longrightarrow> rn_role n' = Leader \<Longrightarrow> rn_role n = Leader \<Longrightarrow>
     rn_log n' = rn_log n \<and> rn_replication_acks n' = rn_replication_acks n \<or>
     (\<exists>c. input = Propose c \<and> rn_replication_acks n' = {rn_id n}) \<or>
     (\<exists>t f m. input = Receive (AppendResponse t f True m) \<and> t \<le> rn_current_term n \<and> rn_log n' = rn_log n \<and>
        rn_replication_acks n' = insert f (rn_replication_acks n)) \<or>
     (\<exists>l p pt es lc. input = Receive (AppendEntries (rn_current_term n) l p pt es lc))"
  by (cases input)
    (auto simp: raft_receive_def raft_defs Let_def
      split: raft_message.splits option.splits if_splits prod.splits)

lemma step_out_commit:
  "raft_step input n = (res, n') \<Longrightarrow> out \<in> outs res \<Longrightarrow> out_message out = AppendEntries t l p pt es lc \<Longrightarrow>
     t = rn_current_term n' \<and> es = rn_log n' \<and> lc = rn_commit_index n'"
  by (cases input)
    (auto simp: raft_receive_def raft_defs Let_def outs_def heartbeats_def
      split: raft_message.splits option.splits if_splits prod.splits)

lemma commit_inv_step:
  assumes ci: "commit_inv M H" and si: "safe_inv M H" and hi: "history_inv M H"
    and cl: "cluster_inv M (rh_cluster H)" and cl': "cluster_inv M (rh_cluster H')" and hs: "history_step M H H'"
  shows "commit_inv M H'"
  using hs
proof (rule history_stepE)
  fix i input res n
  assume H': "H' = history_update i input res n H" and i: "i \<in> M" and del: "deliverable (rh_cluster H) i input"
    and careful: "careful_ack H i input" and st: "raft_step input (rh_node H i) = (res, n)"
  let ?o = "rh_node H i"
  note D = commit_invD [OF ci]
  have vi: "vote_inv M (rh_cluster H)" "leader_inv M (rh_cluster H)" "log_inv M (rh_cluster H)"
    and vi': "vote_inv M (rh_cluster H')" using cl cl' by (auto simp: cluster_inv_def)
  have node: "rh_node H' k = (if k = i then n else rh_node H k)" for k by (simp add: H')
  have terms: "rn_current_term ?o \<le> rn_current_term n" by (rule raft_step_term [OF st])
  have ok: "raft_node_ok ?o" using vote_invD(3) [OF vi(1) i] .
  have mono: "rh_acks H \<subseteq> rh_acks H'" by (simp add: H')
  have answered: "t = rn_current_term ?o \<and> sealed t (rn_log ?o) \<and> (t, f, rn_log ?o) \<in> rh_acks H"
    if "input = Receive (AppendResponse t f True m)" "rn_role ?o = Leader" "t \<le> rn_current_term ?o" for t f m
    using careful that by (auto simp: careful_ack_def Let_def)
  have counted: "\<forall>f\<in>rn_replication_acks n. (rn_current_term n, f, rn_log n) \<in> rh_acks H'"
    if n: "rn_role n = Leader" and sl: "sealed (rn_current_term n) (rn_log n)"
  proof (cases "rn_role ?o = Leader")
    case False
    then have log: "rn_log n = rn_log ?o" using step_leader [OF st n] by auto
    with sl history_invD(10) [OF hi i] obtain E where "(rn_current_term n, E) \<in> rh_logs H"
      using grounded_last [of "rh_logs H" "rn_log ?o"] by (auto simp: sealed_def)
    with history_invD(2) [OF hi] step_fresh_leader [OF _ vi(2) st n False] vi' show ?thesis by (simp add: H') blast
  next
    case o: True
    have t: "rn_current_term n = rn_current_term ?o" using step_leader [OF st n] by simp
    from step_replication_acks [OF st n o] show ?thesis
    proof (elim disjE exE conjE)
      assume "rn_log n = rn_log ?o" "rn_replication_acks n = rn_replication_acks ?o"
      with D(1) [OF i o] sl t mono show ?thesis by auto
    next
      fix c assume "input = Propose c" "rn_replication_acks n = {rn_id ?o}"
      with n vote_invD(1) [OF vi(1) i] show ?thesis by (simp add: H' acknowledged_def)
    next
      fix s f m
      assume r: "input = Receive (AppendResponse s f True m)" "s \<le> rn_current_term ?o"
        and same: "rn_log n = rn_log ?o" "rn_replication_acks n = insert f (rn_replication_acks ?o)"
      from answered [OF r(1) o r(2)] D(1) [OF i o] same t mono show ?thesis by auto
    next
      fix l p pt es lc assume "input = Receive (AppendEntries (rn_current_term ?o) l p pt es lc)"
      with del obtain j where net: "(j, i, AppendEntries (rn_current_term ?o) l p pt es lc) \<in> rc_net (rh_cluster H)"
        by (auto simp: deliverable_def)
      from leader_invD(3) [OF vi(2) net] leader_invD(2) [OF vi(2) i o] leaders_unique [OF vi(1)] show ?thesis by metis
    qed
  qed
  have commit: "committed M H (rn_current_term n) (take (rn_commit_index n) (rn_log n))"
  proof (cases rule: step_commit_cases [OF st ok, case_names same told counted])
    case same
    with D(2) [OF i] committed_later terms show ?thesis by metis
  next
    case (told l p pt es lc)
    with del obtain j where net: "(j, i, AppendEntries (rn_current_term n) l p pt es lc) \<in> rc_net (rh_cluster H)"
      by (auto simp: deliverable_def)
    have "log_match (rn_log ?o) es"
      using net i by (intro log_invD(1) [OF vi(3)]) (auto simp: cluster_logs_def)
    with told(2) leader_invD(3) [OF vi(2) net] obtain zs where "rn_log n = es @ zs"
      using append_loop_prefix by (metis prefixE)
    with told(3) D(3) [OF net] show ?thesis by simp
  next
    case (counted t f m)
    note a = answered [OF counted(1,3,2)]
    have Q: "\<forall>g\<in>rn_replication_acks n. (rn_current_term ?o, g, rn_log ?o) \<in> rh_acks H"
      using a D(1) [OF i counted(3)] counted(8) by auto
    then have "rn_replication_acks n \<subseteq> M" using safe_invD(1) [OF si] by blast
    moreover have "finite M" "raft_majority ?o = card M div 2 + 1"
      using ok vote_invD(2) [OF vi(1) i] by (simp_all add: raft_node_ok_def raft_majority_def)
    ultimately have "majority_of M (rn_replication_acks n)" using counted(7) by (simp add: majority_of_def)
    with Q a have "chosen M H (rn_current_term ?o) (rn_log ?o)" by (auto simp: chosen_def)
    with counted(5,6) take_is_prefix show ?thesis unfolding committed_def by auto
  qed
  note committed = committed_step [OF hs]
  show ?thesis
    unfolding commit_inv_def
  proof (intro conjI ballI impI allI)
    fix k f
    assume "k \<in> M" "rn_role (rh_node H' k) = Leader" "sealed (rn_current_term (rh_node H' k)) (rn_log (rh_node H' k))"
      "f \<in> rn_replication_acks (rh_node H' k)"
    then show "(rn_current_term (rh_node H' k), f, rn_log (rh_node H' k)) \<in> rh_acks H'"
      using counted D(1) mono by (cases "k = i") (auto simp: node)
  next
    fix k assume "k \<in> M"
    then show "committed M H' (rn_current_term (rh_node H' k)) (take (rn_commit_index (rh_node H' k)) (rn_log (rh_node H' k)))"
      using commit D(2) committed by (simp add: node)
  next
    fix j d t l p pt es lc assume "(j, d, AppendEntries t l p pt es lc) \<in> rc_net (rh_cluster H')"
    then consider "(j, d, AppendEntries t l p pt es lc) \<in> rc_net (rh_cluster H)"
      | out where "out \<in> outs res" "out_message out = AppendEntries t l p pt es lc"
      by (auto simp: H')
    then have "lc \<le> length es \<and> committed M H' t (take lc es)"
    proof cases
      case 1
      with D(3) committed show ?thesis by blast
    next
      case 2
      with step_out_commit [OF st] raft_step_ok [OF ok st] commit committed show ?thesis
        by (simp add: raft_node_ok_def)
    qed
    then show "lc \<le> length es" "committed M H' t (take lc es)" by auto
  qed
qed

section \<open>The invariant of a run\<close>

definition careful_inv :: "node_id set \<Rightarrow> raft_history \<Rightarrow> bool" where
  "careful_inv M H \<longleftrightarrow> cluster_inv M (rh_cluster H) \<and> request_inv M (rh_cluster H) \<and> history_inv M H \<and>
     safe_inv M H \<and> commit_inv M H"

lemma careful_inv_init: "history_init M H \<Longrightarrow> careful_inv M H"
  using history_inv_init safe_inv_init commit_inv_init request_inv_init vote_inv_init leader_inv_init log_inv_init
  by (auto simp: careful_inv_def cluster_inv_def history_init_def)

lemma careful_inv_step:
  assumes "careful_inv M H" and "history_step M H H'"
  shows "careful_inv M H'"
proof -
  note step = history_cluster_step [OF assms(2)]
  have cl: "cluster_inv M (rh_cluster H)" and I: "request_inv M (rh_cluster H)" "history_inv M H" "safe_inv M H" "commit_inv M H"
    using assms(1) by (auto simp: careful_inv_def)
  have cl': "cluster_inv M (rh_cluster H')"
    using cl vote_inv_step leader_inv_step log_inv_step step unfolding cluster_inv_def by blast
  have hi': "history_inv M H'" using history_inv_step [OF I(2) cl cl' assms(2)] .
  then show ?thesis
    using cl' request_inv_step [OF I(1) cl step] safe_inv_step [OF I(3,2,1) cl cl' hi' assms(2)]
      commit_inv_step [OF I(4,3,2) cl cl' assms(2)] by (simp add: careful_inv_def)
qed

lemma careful_inv_reachable: "history_reachable M H \<Longrightarrow> careful_inv M H"
  by (induction rule: history_reachable.induct) (blast intro: careful_inv_init careful_inv_step)+

lemma history_steps:
  assumes "(history_step M)\<^sup>*\<^sup>* H H'"
  shows "history_reachable M H \<Longrightarrow> history_reachable M H'" and "committed M H t P \<Longrightarrow> committed M H' t P"
  using assms by (induction rule: rtranclp_induct) (auto intro: history_reachable.step committed_step)

lemma committed_agree:
  assumes "careful_inv M H" and "committed M H t P" and "committed M H u P'"
  shows "prefix P P' \<or> prefix P' P"
proof (cases "P = [] \<or> P' = []")
  case False
  then obtain s E r F where "chosen M H s E" "prefix P E" "chosen M H r F" "prefix P' F"
    using assms(2,3) by (auto simp: committed_def)
  with chosen_comparable [of M H s E r F] assms(1) have "prefix E F \<or> prefix F E" by (simp add: careful_inv_def)
  with \<open>prefix P E\<close> \<open>prefix P' F\<close> show ?thesis using prefix_same_cases prefix_order.trans by metis
qed auto

section \<open>Executable runs\<close>

fun history_exec :: "node_id set \<Rightarrow> (node_id \<times> raft_input) list \<Rightarrow> raft_history \<Rightarrow> raft_history option" where
  "history_exec M [] H = Some H"
| "history_exec M ((i, input) # inputs) H =
     (if i \<in> M \<and> careful_ack H i input \<and> (case input of
           Receive msg \<Rightarrow> \<exists>(j, d, m)\<in>rc_net (rh_cluster H). d = i \<and> m = msg | _ \<Rightarrow> True)
      then (case raft_step input (rh_node H i) of
              (res, n) \<Rightarrow> history_exec M inputs (history_update i input res n H))
      else None)"

lemma history_exec_steps: "history_exec M inputs H = Some H' \<Longrightarrow> (history_step M)\<^sup>*\<^sup>* H H'"
proof (induction M inputs H rule: history_exec.induct)
  case (2 M i input inputs H)
  obtain res n where st: "raft_step input (rh_node H i) = (res, n)" by fastforce
  with 2(2) have "i \<in> M" "deliverable (rh_cluster H) i input" "careful_ack H i input"
    "history_exec M inputs (history_update i input res n H) = Some H'"
    by (auto simp: deliverable_def split: if_splits raft_input.splits)
  with 2(1) [OF _ st [symmetric]] 2(2) careful_step [OF _ _ _ st] show ?case
    by (auto split: if_splits intro: converse_rtranclp_into_rtranclp)
qed simp

definition sample_history :: raft_history where
  "sample_history = \<lparr>rh_cluster = sample_cluster, rh_acks = {}, rh_logs = {}\<rparr>"

definition commit_at_a :: "(node_id \<times> raft_input) list" where
  "commit_at_a = elect_a @ [(node_a, Receive (AppendResponse 1 node_b True 1))]"

definition commit_at_b :: "(node_id \<times> raft_input) list" where
  "commit_at_b = [(node_a, Tick), (node_b, Receive (AppendEntries 1 node_a 0 0 [entry_7] 1))]"

lemma commit_runs:
  "map_option (\<lambda>H. (rn_commit_index (rh_node H node_a), rn_log (rh_node H node_a), rn_current_term (rh_node H node_a)))
     (history_exec three_nodes commit_at_a sample_history) = Some (1, [entry_7], 1)"
  "map_option (\<lambda>H. (rn_commit_index (rh_node H node_b), rn_role (rh_node H node_a), rn_current_term (rh_node H node_a)))
     (Option.bind (history_exec three_nodes commit_at_a sample_history) (history_exec three_nodes commit_at_b)) =
   Some (1, Leader, 1)"
  by code_simp+

lemma sample_history_reachable: "history_reachable three_nodes sample_history"
proof (rule history_reachable.initial)
  have "raft_cluster_init three_nodes sample_cluster"
    using sample_cluster_init .
  then show "history_init three_nodes sample_history" by (simp add: history_init_def sample_history_def)
qed

lemma committed_at_both:
  obtains H H' where "history_reachable three_nodes H" "(history_step three_nodes)\<^sup>*\<^sup>* H H'"
    "rn_commit_index (rh_node H node_a) = 1" "rn_log (rh_node H node_a) = [entry_7]"
    "rn_current_term (rh_node H node_a) = 1" "rn_commit_index (rh_node H' node_b) = 1"
    "rn_role (rh_node H' node_a) = Leader" "rn_current_term (rh_node H' node_a) = 1"
proof -
  from commit_runs(1) obtain H where H: "history_exec three_nodes commit_at_a sample_history = Some H"
    "rn_commit_index (rh_node H node_a) = 1" "rn_log (rh_node H node_a) = [entry_7]"
    "rn_current_term (rh_node H node_a) = 1" by auto
  from commit_runs(2) H(1) obtain H' where H': "history_exec three_nodes commit_at_b H = Some H'"
    "rn_commit_index (rh_node H' node_b) = 1" "rn_role (rh_node H' node_a) = Leader"
    "rn_current_term (rh_node H' node_a) = 1" by auto
  from history_steps(1) [OF history_exec_steps [OF H(1)] sample_history_reachable] history_exec_steps [OF H'(1)] H H'
  show thesis by (intro that [of H H']) simp_all
qed

lemma take_of_prefix: "prefix P Q \<Longrightarrow> k \<le> length P \<Longrightarrow> take k P = take k Q"
  by (auto elim!: prefixE)

section \<open>Properties\<close>

text \<open>C14: State machine safety under a careful caller: when every acknowledgement handed to a leader answers an
  append of the log it has now, in a term in which it has proposed, then what two nodes commit, at any
  two moments of a run, agrees up to the smaller commit index, however messages are lost, delayed,
  duplicated and reordered. \<close>

theorem careful_commits_agree:
  assumes "history_reachable M H" and "(history_step M)\<^sup>*\<^sup>* H H'" and "i \<in> M" and "j \<in> M"
    and "k \<le> rn_commit_index (rh_node H i)" and "k \<le> rn_commit_index (rh_node H' j)"
  shows "take k (rn_log (rh_node H i)) = take k (rn_log (rh_node H' j)) \<and> k \<le> length (rn_log (rh_node H i))"
proof -
  note I = careful_inv_reachable [OF assms(1)]
  note I' = careful_inv_reachable [OF history_steps(1) [OF assms(2,1)]]
  let ?P = "take (rn_commit_index (rh_node H i)) (rn_log (rh_node H i))"
  let ?Q = "take (rn_commit_index (rh_node H' j)) (rn_log (rh_node H' j))"
  have len: "rn_commit_index (rh_node H i) \<le> length (rn_log (rh_node H i))"
    "rn_commit_index (rh_node H' j) \<le> length (rn_log (rh_node H' j))"
    using vote_invD(3) assms(3,4) I I' unfolding careful_inv_def cluster_inv_def raft_node_ok_def by blast+
  have "prefix ?P ?Q \<or> prefix ?Q ?P"
    using committed_agree [OF I' history_steps(2) [OF assms(2)]] commit_invD(2) assms(3,4) I I'
    unfolding careful_inv_def by blast
  then have "take k ?P = take k ?Q"
    using assms(5,6) len take_of_prefix [of ?P ?Q k] take_of_prefix [of ?Q ?P k] by auto
  then show ?thesis using assms(5,6) len by (simp add: min_absorb1)
qed

theorem careful_commits_agree_witness:
  "\<exists>H H'. history_reachable three_nodes H \<and> (history_step three_nodes)\<^sup>*\<^sup>* H H' \<and>
     rn_commit_index (rh_node H node_a) = 1 \<and> rn_commit_index (rh_node H' node_b) = 1 \<and>
     take 1 (rn_log (rh_node H' node_b)) = [entry_7]"
proof -
  obtain H H' where H: "history_reachable three_nodes H" "(history_step three_nodes)\<^sup>*\<^sup>* H H'"
    "rn_commit_index (rh_node H node_a) = 1" "rn_log (rh_node H node_a) = [entry_7]"
    "rn_commit_index (rh_node H' node_b) = 1" by (rule committed_at_both)
  then have "take 1 (rn_log (rh_node H' node_b)) = [entry_7]"
    using careful_commits_agree [OF H(1,2), of node_a node_b 1] by simp
  with H show ?thesis by blast
qed

text \<open>C15: Leader completeness under a careful caller: a node that leads, at any later moment and in a term not
  below that of a node that has committed, holds everything that node has committed. \<close>

theorem leaders_keep_commits:
  assumes "history_reachable M H" and "(history_step M)\<^sup>*\<^sup>* H H'" and "i \<in> M" and "j \<in> M"
    and "rn_role (rh_node H' j) = Leader" and "rn_current_term (rh_node H i) \<le> rn_current_term (rh_node H' j)"
  shows "prefix (take (rn_commit_index (rh_node H i)) (rn_log (rh_node H i))) (rn_log (rh_node H' j))"
proof -
  have I: "commit_inv M H" using careful_inv_reachable [OF assms(1)] by (simp add: careful_inv_def)
  have I': "safe_inv M H'" "history_inv M H'"
    using careful_inv_reachable [OF history_steps(1) [OF assms(2,1)]] by (simp_all add: careful_inv_def)
  let ?P = "take (rn_commit_index (rh_node H i)) (rn_log (rh_node H i))"
  have "committed M H' (rn_current_term (rh_node H i)) ?P"
    by (rule history_steps(2) [OF assms(2) commit_invD(2) [OF I assms(3)]])
  then show ?thesis
    unfolding committed_def
  proof (elim disjE exE conjE)
    fix t E assume c: "t \<le> rn_current_term (rh_node H i)" "chosen M H' t E" "prefix ?P E"
    note D = history_invD(3,4) [OF I'(2) assms(4,5)]
    have "t \<le> rn_current_term (rh_node H' j)" using c(1) assms(6) by simp
    with chosen_in_later_log [OF I' c(2) D(1)] D(2) [of E] chosen_log(1) [OF I'(1) c(2)]
    have "prefix E (rn_log (rh_node H' j))" by metis
    with c(3) show ?thesis by (rule prefix_order.trans)
  qed auto
qed

theorem leaders_keep_commits_witness:
  "\<exists>H H'. history_reachable three_nodes H \<and> (history_step three_nodes)\<^sup>*\<^sup>* H H' \<and>
     rn_commit_index (rh_node H node_a) = 1 \<and> prefix [entry_7] (rn_log (rh_node H' node_a))"
proof -
  obtain H H' where H: "history_reachable three_nodes H" "(history_step three_nodes)\<^sup>*\<^sup>* H H'"
    "rn_commit_index (rh_node H node_a) = 1" "rn_log (rh_node H node_a) = [entry_7]"
    "rn_role (rh_node H' node_a) = Leader" "rn_current_term (rh_node H node_a) = 1"
    "rn_current_term (rh_node H' node_a) = 1" by (rule committed_at_both)
  with leaders_keep_commits [OF H(1,2), of node_a node_a] show ?thesis by auto
qed

end
