(* ===== verification/Raft_Progress.thy ===== *)
theory Raft_Progress
  imports Raft_Commit
begin

text \<open>
  A Raft cluster of at least two nodes can always make progress, also under a careful caller: from every
  state of a run there is a continuation in which a leader commits a given command. A node whose log is
  most up to date is made a candidate of a new term, every other node grants it its vote, and every
  other node acknowledges its log.
\<close>

section \<open>Clocks\<close>

definition clock_ok :: "raft_node \<Rightarrow> bool" where
  "clock_ok n \<longleftrightarrow> 0 < rn_election_timeout n \<and>
     (rn_role n \<noteq> Leader \<longrightarrow> unat (rn_current_term n) + 1 < 2 ^ 64 \<longrightarrow>
        rn_election_elapsed n < rn_election_timeout n)"

lemma checked_add_one:
  fixes x :: u64
  assumes "unat x + 1 < 2 ^ 64"
  shows "checked_add x 1 = Some (x + 1)" and "unat (x + 1) = unat x + 1"
  using assms by (simp_all add: checked_add_def unat_word_ariths)

lemma raft_new_clock: "raft_new i members timeout = Inr n \<Longrightarrow> clock_ok n"
  by (auto simp: raft_new_def clock_ok_def word_gt_0 split: if_splits)

lemma raft_step_clock:
  assumes "clock_ok n" and "raft_step input n = (res, n')"
  shows "clock_ok n'"
proof (cases input)
  case Tick
  show ?thesis
  proof (cases "rn_role n = Leader \<or> \<not> unat (rn_current_term n) + 1 < 2 ^ 64")
    case True
    have "unat (rn_current_term n) \<le> unat (rn_current_term n')"
      using raft_step_term [OF assms(2)] by (simp add: word_le_nat_alt)
    with True assms Tick show ?thesis
      by (auto simp: clock_ok_def raft_tick_def Let_def split: option.splits if_splits prod.splits)
  next
    case False
    with assms Tick checked_add_one show ?thesis
      by (auto simp: clock_ok_def raft_tick_def Let_def word_gt_0 split: option.splits if_splits prod.splits)
  qed
next
  case (Propose c)
  with assms show ?thesis by (auto simp: clock_ok_def raft_propose_def Let_def split: if_splits)
next
  case (Receive msg)
  have "rn_election_timeout n' = rn_election_timeout n \<and>
      (rn_election_elapsed n' = 0 \<or> rn_role n' = Leader \<or>
       rn_election_elapsed n' = rn_election_elapsed n \<and> rn_role n' = rn_role n \<and> rn_current_term n' = rn_current_term n)"
    using assms(2) Receive
    by (cases msg) (auto simp: raft_receive_def raft_request_vote_def raft_vote_def raft_append_def
        raft_append_response_def become_follower_def become_leader_def Let_def split: if_splits)
  with assms(1) show ?thesis by (auto simp: clock_ok_def word_gt_0)
qed

lemma clock_ok_reachable: "history_reachable M H \<Longrightarrow> i \<in> M \<Longrightarrow> clock_ok (rh_node H i)"
proof (induction rule: history_reachable.induct)
  case (initial H)
  then show ?case by (auto simp: history_init_def raft_cluster_init_def intro: raft_new_clock)
next
  case (step H H')
  from step.hyps(2) step.IH [OF step.prems] raft_step_clock show ?case
    by (auto elim!: history_stepE)
qed

section \<open>Runs\<close>

definition grows :: "node_id set \<Rightarrow> raft_history \<Rightarrow> raft_history \<Rightarrow> bool" where
  "grows M H H' \<longleftrightarrow> (history_step M)\<^sup>*\<^sup>* H H' \<and> rc_net (rh_cluster H) \<subseteq> rc_net (rh_cluster H') \<and> rh_acks H \<subseteq> rh_acks H'"

lemma grows_refl [simp]: "grows M H H"
  by (simp add: grows_def)

lemma grows_trans: "grows M H H' \<Longrightarrow> grows M H' H'' \<Longrightarrow> grows M H H''"
  by (auto simp: grows_def)

lemma grows_reachable: "grows M H H' \<Longrightarrow> history_reachable M H \<Longrightarrow> history_reachable M H'"
  using history_steps(1) by (auto simp: grows_def)

lemma take_step:
  assumes "i \<in> M" and "deliverable (rh_cluster H) i input" and "careful_ack H i input"
    and "raft_step input (rh_node H i) = (res, n)"
  obtains H' where "grows M H H'" "rh_node H' = (rh_node H)(i := n)"
    "\<And>out. out \<in> outs res \<Longrightarrow> (i, out_to out, out_message out) \<in> rc_net (rh_cluster H')"
    "acknowledged i input res n \<subseteq> rh_acks H'"
proof
  let ?H = "history_update i input res n H"
  show "grows M H ?H" using careful_step [OF assms] by (auto simp: grows_def)
qed auto

lemma careful_ack_other [simp]:
  "careful_ack H i Tick" "careful_ack H i (Propose c)" "careful_ack H i (Receive (RequestVote t c' idx lt))"
  "careful_ack H i (Receive (Vote t v g))" "careful_ack H i (Receive (AppendEntries t l p pt es lc))"
  by (simp_all add: careful_ack_def)

lemma deliverable_simps [simp]:
  "deliverable C i Tick" "deliverable C i (Propose c)"
  "deliverable C i (Receive msg) \<longleftrightarrow> (\<exists>j. (j, i, msg) \<in> rc_net C)"
  by (simp_all add: deliverable_def)

text \<open>A node that is not a leader becomes a candidate of the next term after enough ticks.\<close>

lemma reach_candidate:
  assumes "i \<in> M" and "finite M" and "rn_role (rh_node H i) \<noteq> Leader" and "clock_ok (rh_node H i)"
    and "unat (rn_current_term (rh_node H i)) + 1 < 2 ^ 64" and "rn_id (rh_node H i) = i" and "rn_members (rh_node H i) = M"
  shows "\<exists>H' n. grows M H H' \<and> rh_node H' = (rh_node H)(i := n) \<and> rn_role n = Candidate \<and>
    rn_current_term n = rn_current_term (rh_node H i) + 1 \<and> rn_log n = rn_log (rh_node H i) \<and> rn_votes n = {i} \<and>
    (\<forall>p\<in>M - {i}. (i, p, RequestVote (rn_current_term n) i (fst (last_log n)) (snd (last_log n))) \<in> rc_net (rh_cluster H'))"
  using assms(3-7)
proof (induction "unat (rn_election_timeout (rh_node H i)) - unat (rn_election_elapsed (rh_node H i))" arbitrary: H
    rule: less_induct)
  case less
  let ?o = "rh_node H i"
  obtain res n where st: "raft_step Tick ?o = (res, n)" by fastforce
  have "rn_election_elapsed ?o < rn_election_timeout ?o" using less.prems by (simp add: clock_ok_def)
  moreover have "unat (rn_election_timeout ?o) < 2 ^ 64" using unsigned_less [of "rn_election_timeout ?o", where ?'a = nat] by simp
  ultimately have lt: "unat (rn_election_elapsed ?o) + 1 < 2 ^ 64" "unat (rn_election_elapsed ?o) < unat (rn_election_timeout ?o)"
    by (simp_all add: word_less_nat_alt)
  note c = checked_add_one [OF lt(1)] checked_add_one [OF less.prems(3)]
  obtain H1 where H1: "grows M H H1" "rh_node H1 = (rh_node H)(i := n)"
    "\<And>out. out \<in> outs res \<Longrightarrow> (i, out_to out, out_message out) \<in> rc_net (rh_cluster H1)"
    by (rule take_step [OF assms(1) _ _ st]) simp_all
  show ?case
  proof (cases "rn_election_elapsed ?o + 1 < rn_election_timeout ?o")
    case True
    then have n: "n = ?o\<lparr>rn_election_elapsed := rn_election_elapsed ?o + 1\<rparr>"
      using st less.prems(1) c(1) by (simp add: raft_tick_def Let_def)
    have "\<exists>H' m. grows M H1 H' \<and> rh_node H' = (rh_node H1)(i := m) \<and> rn_role m = Candidate \<and>
        rn_current_term m = rn_current_term (rh_node H1 i) + 1 \<and> rn_log m = rn_log (rh_node H1 i) \<and> rn_votes m = {i} \<and>
        (\<forall>p\<in>M - {i}. (i, p, RequestVote (rn_current_term m) i (fst (last_log m)) (snd (last_log m))) \<in> rc_net (rh_cluster H'))"
    proof (rule less.hyps)
      show "clock_ok (rh_node H1 i)" using raft_step_clock [OF less.prems(2) st] H1(2) by simp
      show "unat (rn_election_timeout (rh_node H1 i)) - unat (rn_election_elapsed (rh_node H1 i))
          < unat (rn_election_timeout ?o) - unat (rn_election_elapsed ?o)"
        using lt(2) c(2) H1(2) n by simp
    qed (use less.prems H1(2) n in simp_all)
    then obtain H' m where "grows M H1 H'" "rh_node H' = (rh_node H1)(i := m)" "rn_role m = Candidate"
        "rn_current_term m = rn_current_term (rh_node H1 i) + 1" "rn_log m = rn_log (rh_node H1 i)" "rn_votes m = {i}"
        "\<forall>p\<in>M - {i}. (i, p, RequestVote (rn_current_term m) i (fst (last_log m)) (snd (last_log m))) \<in> rc_net (rh_cluster H')"
      by blast
    with grows_trans [OF H1(1)] H1(2) n show ?thesis by (intro exI [of _ H'] exI [of _ m]) simp
  next
    case False
    then have n: "n = ?o\<lparr>rn_election_elapsed := 0, rn_current_term := rn_current_term ?o + 1, rn_role := Candidate,
        rn_voted_for := Some i, rn_votes := {i}\<rparr>"
      and res: "res = Inr (map (\<lambda>p. \<lparr>out_to = p, out_message =
        RequestVote (rn_current_term n) i (fst (last_log n)) (snd (last_log n))\<rparr>) (peers n))"
      using st less.prems c by (auto simp: raft_tick_def Let_def split: prod.splits)
    have "(i, p, RequestVote (rn_current_term n) i (fst (last_log n)) (snd (last_log n))) \<in> rc_net (rh_cluster H1)"
      if "p \<in> M - {i}" for p
    proof -
      have "p \<in> set (peers n)" using that assms(2) less.prems(4,5) n by (simp add: peers_def)
      then show ?thesis using H1(3) [of "\<lparr>out_to = p, out_message =
        RequestVote (rn_current_term n) i (fst (last_log n)) (snd (last_log n))\<rparr>"] by (auto simp: res outs_def)
    qed
    then show ?thesis using H1 n by (intro exI [of _ H1] exI [of _ n]) simp
  qed
qed

section \<open>Election\<close>

text \<open>A node of a lower term joins the term of a request and votes for a candidate that is up to date.\<close>

lemma deliver_request:
  assumes "v \<in> M" and "(i, v, RequestVote t i idx lt) \<in> rc_net (rh_cluster H)" and "rn_current_term (rh_node H v) < t"
    and "rn_id (rh_node H v) = v"
  obtains H' n where "grows M H H'" "rh_node H' = (rh_node H)(v := n)" "rn_role n = Follower" "rn_current_term n = t"
    "rn_log n = rn_log (rh_node H v)"
    "is_up_to_date idx lt (rh_node H v) \<Longrightarrow> (v, i, Vote t v True) \<in> rc_net (rh_cluster H')"
proof -
  let ?input = "Receive (RequestVote t i idx lt)"
  obtain res n where st: "raft_step ?input (rh_node H v) = (res, n)" by fastforce
  have up: "is_up_to_date idx lt (become_follower t m) = is_up_to_date idx lt m" for m
    by (simp add: is_up_to_date_def last_log_def become_follower_def)
  from st have n: "rn_role n = Follower" "rn_current_term n = t" "rn_log n = rn_log (rh_node H v)"
    and res: "res = Inr [\<lparr>out_to = i, out_message = Vote t v (is_up_to_date idx lt (rh_node H v))\<rparr>]"
    using assms(3,4) up [of "rh_node H v"]
    by (auto simp: raft_receive_def raft_request_vote_def Let_def become_follower_def)
  obtain H' where H': "grows M H H'" "rh_node H' = (rh_node H)(v := n)"
    "\<And>out. out \<in> outs res \<Longrightarrow> (v, out_to out, out_message out) \<in> rc_net (rh_cluster H')"
    by (rule take_step [OF assms(1) _ _ st]) (use assms(2) in auto)
  show thesis
  proof (rule that [OF H'(1,2) n])
    assume "is_up_to_date idx lt (rh_node H v)"
    with H'(3) [of "\<lparr>out_to = i, out_message = Vote t v True\<rparr>"] res
    show "(v, i, Vote t v True) \<in> rc_net (rh_cluster H')" by (simp add: outs_def)
  qed
qed

lemma deliver_requests:
  assumes "finite F" and "F \<subseteq> M"
    and "\<And>v. v \<in> F \<Longrightarrow> (i, v, RequestVote t i idx lt) \<in> rc_net (rh_cluster H) \<and> rn_current_term (rh_node H v) < t \<and>
      rn_id (rh_node H v) = v"
  shows "\<exists>H'. grows M H H' \<and> (\<forall>v. v \<notin> F \<longrightarrow> rh_node H' v = rh_node H v) \<and>
    (\<forall>v\<in>F. rn_role (rh_node H' v) = Follower \<and> rn_current_term (rh_node H' v) = t \<and>
      rn_log (rh_node H' v) = rn_log (rh_node H v) \<and>
      (is_up_to_date idx lt (rh_node H v) \<longrightarrow> (v, i, Vote t v True) \<in> rc_net (rh_cluster H')))"
  using assms
proof (induction F)
  case empty
  show ?case by (rule exI [of _ H]) simp
next
  case (insert v F)
  then obtain H1 where H1: "grows M H H1" "\<forall>w. w \<notin> F \<longrightarrow> rh_node H1 w = rh_node H w"
    "\<forall>w\<in>F. rn_role (rh_node H1 w) = Follower \<and> rn_current_term (rh_node H1 w) = t \<and>
      rn_log (rh_node H1 w) = rn_log (rh_node H w) \<and>
      (is_up_to_date idx lt (rh_node H w) \<longrightarrow> (w, i, Vote t w True) \<in> rc_net (rh_cluster H1))"
    by auto
  have v: "rh_node H1 v = rh_node H v" using H1(2) insert.hyps(2) by blast
  have pre: "v \<in> M" "(i, v, RequestVote t i idx lt) \<in> rc_net (rh_cluster H1)" "rn_current_term (rh_node H1 v) < t"
    "rn_id (rh_node H1 v) = v"
    using insert.prems v H1(1) by (auto simp: grows_def)
  obtain H' n where H': "grows M H1 H'" "rh_node H' = (rh_node H1)(v := n)" "rn_role n = Follower" "rn_current_term n = t"
    "rn_log n = rn_log (rh_node H1 v)"
    "is_up_to_date idx lt (rh_node H1 v) \<Longrightarrow> (v, i, Vote t v True) \<in> rc_net (rh_cluster H')"
    using deliver_request [OF pre] by metis
  have "rc_net (rh_cluster H1) \<subseteq> rc_net (rh_cluster H')" using H'(1) by (simp add: grows_def)
  with H1 H' v insert.hyps(2) show ?case
    by (intro exI [of _ H'] conjI) (auto intro: grows_trans)
qed

text \<open>The granted votes make a candidate a leader as soon as they are a majority with its own.\<close>

lemma deliver_votes:
  assumes "finite F" and "i \<in> M" and "rn_role (rh_node H i) = Candidate" and "rn_current_term (rh_node H i) = t"
    and "finite (rn_votes (rh_node H i))" and "\<And>v. v \<in> F \<Longrightarrow> (v, i, Vote t v True) \<in> rc_net (rh_cluster H)"
  shows "\<exists>H' n. grows M H H' \<and> rh_node H' = (rh_node H)(i := n) \<and> rn_current_term n = t \<and>
    rn_log n = rn_log (rh_node H i) \<and> rn_id n = rn_id (rh_node H i) \<and> rn_members n = rn_members (rh_node H i) \<and>
    (rn_role n = Leader \<or> rn_role n = Candidate \<and> rn_votes n = rn_votes (rh_node H i) \<union> F \<and>
       (F \<noteq> {} \<longrightarrow> card (rn_votes n) < raft_majority n))"
  using assms(1,6)
proof (induction F)
  case empty
  show ?case by (rule exI [of _ H], rule exI [of _ "rh_node H i"]) (use assms in simp)
next
  case (insert v F)
  then obtain H1 n where H1: "grows M H H1" "rh_node H1 = (rh_node H)(i := n)" "rn_current_term n = t"
    "rn_log n = rn_log (rh_node H i)" "rn_id n = rn_id (rh_node H i)" "rn_members n = rn_members (rh_node H i)"
    and role: "rn_role n = Leader \<or> rn_role n = Candidate \<and> rn_votes n = rn_votes (rh_node H i) \<union> F \<and>
       (F \<noteq> {} \<longrightarrow> card (rn_votes n) < raft_majority n)"
    by (metis (no_types, lifting) insertCI)
  show ?case
  proof (cases "rn_role n = Leader")
    case True
    with H1 show ?thesis by (intro exI [of _ H1] exI [of _ n]) simp
  next
    case False
    with role have n: "rn_role n = Candidate" "rn_votes n = rn_votes (rh_node H i) \<union> F" by auto
    let ?input = "Receive (Vote t v True)"
    obtain res m where st: "raft_step ?input (rh_node H1 i) = (res, m)" by fastforce
    then have st': "raft_vote t v True n = (res, m)" by (simp add: raft_receive_def H1(2))
    have net: "(v, i, Vote t v True) \<in> rc_net (rh_cluster H1)" using insert.prems [of v] H1(1) by (auto simp: grows_def)
    obtain H' where H': "grows M H1 H'" "rh_node H' = (rh_node H1)(i := m)"
      by (rule take_step [OF assms(2) _ _ st]) (use net in auto)
    show ?thesis
      using st' n H1 H' grows_trans [OF H1(1) H'(1)]
      by (intro exI [of _ H'] exI [of _ m])
        (auto simp: raft_vote_def become_leader_def raft_majority_def Let_def split: if_splits)
  qed
qed

section \<open>Replication\<close>

lemma append_loop_length: "i \<le> length L \<Longrightarrow> i + length es \<le> length (append_loop i es L)"
  using agreeing_le(1) [of "drop i L" es] by (auto simp: append_loop_reference Let_def)

lemma deliver_append:
  assumes "v \<in> M" and "(i, v, AppendEntries t i 0 0 es lc) \<in> rc_net (rh_cluster H)" and "rn_current_term (rh_node H v) \<le> t"
    and "rn_id (rh_node H v) = v"
  obtains H' n m where "grows M H H'" "rh_node H' = (rh_node H)(v := n)" "(t, v, es) \<in> rh_acks H'" "length es \<le> m"
    "(v, i, AppendResponse t v True m) \<in> rc_net (rh_cluster H')"
proof -
  let ?input = "Receive (AppendEntries t i 0 0 es lc)"
  obtain res n where st: "raft_step ?input (rh_node H v) = (res, n)" by fastforce
  let ?m = "length (append_loop 0 es (rn_log (rh_node H v)))"
  from st have res: "res = Inr [\<lparr>out_to = i, out_message = AppendResponse t v True ?m\<rparr>]"
    using assms(3,4) by (auto simp: raft_receive_def raft_append_def Let_def become_follower_def)
  obtain H' where H': "grows M H H'" "rh_node H' = (rh_node H)(v := n)"
    "\<And>out. out \<in> outs res \<Longrightarrow> (v, out_to out, out_message out) \<in> rc_net (rh_cluster H')"
    "acknowledged v ?input res n \<subseteq> rh_acks H'"
    by (rule take_step [OF assms(1) _ _ st]) (use assms(2) in auto)
  have "(t, v, es) \<in> rh_acks H'"
    using H'(4) res by (auto simp: acknowledged_def answers_success_def outs_def)
  moreover have "(v, i, AppendResponse t v True ?m) \<in> rc_net (rh_cluster H')"
    using H'(3) [of "\<lparr>out_to = i, out_message = AppendResponse t v True ?m\<rparr>"] res by (simp add: outs_def)
  moreover have "length es \<le> ?m" using append_loop_length [of 0 "rn_log (rh_node H v)" es] by simp
  ultimately show thesis using that [OF H'(1,2)] by blast
qed

definition acked :: "raft_history \<Rightarrow> node_id \<Rightarrow> u64 \<Rightarrow> log_entry list \<Rightarrow> node_id \<Rightarrow> bool" where
  "acked H i t es v \<longleftrightarrow> (t, v, es) \<in> rh_acks H \<and>
     (\<exists>m \<ge> length es. (v, i, AppendResponse t v True m) \<in> rc_net (rh_cluster H))"

lemma acked_grows: "acked H i t es v \<Longrightarrow> grows M H H' \<Longrightarrow> acked H' i t es v"
  unfolding acked_def grows_def by blast

lemma deliver_appends:
  assumes "finite F" and "F \<subseteq> M"
    and "\<And>v. v \<in> F \<Longrightarrow> (i, v, AppendEntries t i 0 0 es lc) \<in> rc_net (rh_cluster H) \<and> rn_current_term (rh_node H v) \<le> t \<and>
      rn_id (rh_node H v) = v"
  shows "\<exists>H'. grows M H H' \<and> (\<forall>v. v \<notin> F \<longrightarrow> rh_node H' v = rh_node H v) \<and> (\<forall>v\<in>F. acked H' i t es v)"
  using assms
proof (induction F)
  case empty
  show ?case by (rule exI [of _ H]) simp
next
  case (insert v F)
  then obtain H1 where H1: "grows M H H1" "\<forall>w. w \<notin> F \<longrightarrow> rh_node H1 w = rh_node H w" "\<forall>w\<in>F. acked H1 i t es w"
    by auto
  have v: "rh_node H1 v = rh_node H v" using H1(2) insert.hyps(2) by blast
  have pre: "v \<in> M" "(i, v, AppendEntries t i 0 0 es lc) \<in> rc_net (rh_cluster H1)" "rn_current_term (rh_node H1 v) \<le> t"
    "rn_id (rh_node H1 v) = v"
    using insert.prems v H1(1) by (auto simp: grows_def)
  obtain H' n m where H': "grows M H1 H'" "rh_node H' = (rh_node H1)(v := n)" "(t, v, es) \<in> rh_acks H'" "length es \<le> m"
    "(v, i, AppendResponse t v True m) \<in> rc_net (rh_cluster H')"
    using deliver_append [OF pre] by metis
  then have "acked H' i t es v" by (auto simp: acked_def)
  with H1 H' show ?case
    by (intro exI [of _ H'] conjI) (auto intro: grows_trans acked_grows)
qed

text \<open>Acknowledgements of the present log commit it once they are a majority.\<close>

lemma deliver_acks:
  assumes "finite F" and "i \<in> M" and "rn_role (rh_node H i) = Leader" and "rn_current_term (rh_node H i) = t"
    and "sealed t (rn_log (rh_node H i))" and "\<And>v. v \<in> F \<Longrightarrow> acked H i t (rn_log (rh_node H i)) v"
  shows "\<exists>H' n. grows M H H' \<and> rh_node H' = (rh_node H)(i := n) \<and> rn_role n = Leader \<and> rn_current_term n = t \<and>
    rn_log n = rn_log (rh_node H i) \<and> rn_members n = rn_members (rh_node H i) \<and>
    rn_replication_acks n = rn_replication_acks (rh_node H i) \<union> F \<and>
    (F \<noteq> {} \<longrightarrow> raft_majority n \<le> card (rn_replication_acks n) \<longrightarrow> rn_commit_index n = length (rn_log n))"
  using assms(1,6)
proof (induction F)
  case empty
  show ?case by (rule exI [of _ H], rule exI [of _ "rh_node H i"]) (use assms in simp)
next
  case (insert v F)
  let ?L = "rn_log (rh_node H i)"
  obtain H1 n where H1: "grows M H H1" "rh_node H1 = (rh_node H)(i := n)" "rn_role n = Leader" "rn_current_term n = t"
    "rn_log n = ?L" "rn_members n = rn_members (rh_node H i)"
    "rn_replication_acks n = rn_replication_acks (rh_node H i) \<union> F"
    using insert.IH [OF insert.prems] by (metis (no_types, lifting) insertCI)
  from acked_grows [OF insert.prems [of v] H1(1)] obtain m where m: "(t, v, ?L) \<in> rh_acks H1" "length ?L \<le> m"
    "(v, i, AppendResponse t v True m) \<in> rc_net (rh_cluster H1)" by (auto simp: acked_def)
  let ?input = "Receive (AppendResponse t v True m)"
  obtain res n' where st: "raft_step ?input (rh_node H1 i) = (res, n')" by fastforce
  have careful: "careful_ack H1 i ?input" using H1 m(1) assms(5) by (simp add: careful_ack_def Let_def)
  obtain H' where H': "grows M H1 H'" "rh_node H' = (rh_node H1)(i := n')"
    by (rule take_step [OF assms(2) _ careful st]) (use m(3) in auto)
  have "n' = (let k = n\<lparr>rn_next_index := (rn_next_index n)(v \<mapsto> m), rn_replication_acks := insert v (rn_replication_acks n)\<rparr>
      in if card (rn_replication_acks k) \<ge> raft_majority k then k\<lparr>rn_commit_index := min m (length (rn_log k))\<rparr> else k)"
    using st H1(2-4) by (simp add: raft_receive_def raft_append_response_def Let_def)
  then show ?case
    using H1 H'(2) grows_trans [OF H1(1) H'(1)] m(2)
    by (intro exI [of _ H'] exI [of _ n']) (auto simp: raft_majority_def Let_def)
qed

section \<open>Composition\<close>

lemma reachable_node:
  assumes "history_reachable M H" and "i \<in> M"
  shows "rn_id (rh_node H i) = i" "rn_members (rh_node H i) = M" "finite M" "finite (rn_votes (rh_node H i))"
    "clock_ok (rh_node H i)"
proof -
  have V: "vote_inv M (rh_cluster H)" using cluster_inv_reachable [OF assms(1)] by (simp add: cluster_inv_def)
  show i: "rn_id (rh_node H i) = i" "rn_members (rh_node H i) = M" using vote_invD(1,2) [OF V assms(2)] .
  from vote_invD(3) [OF V assms(2)] i(2) show "finite M" "finite (rn_votes (rh_node H i))"
    by (simp_all add: raft_node_ok_def)
  show "clock_ok (rh_node H i)" by (rule clock_ok_reachable [OF assms])
qed

text \<open>A node that is not behind anyone can become a candidate whom every other node has joined.\<close>

lemma campaign:
  assumes r: "history_reachable M H" and i: "i \<in> M" and "rn_role (rh_node H i) \<noteq> Leader"
    and "unat (rn_current_term (rh_node H i)) + 1 < 2 ^ 64"
    and le: "\<And>v. v \<in> M \<Longrightarrow> rn_current_term (rh_node H v) \<le> rn_current_term (rh_node H i)"
  defines "t \<equiv> rn_current_term (rh_node H i) + 1"
  shows "\<exists>H'. grows M H H' \<and> rn_role (rh_node H' i) = Candidate \<and> rn_votes (rh_node H' i) = {i} \<and>
    (\<forall>v\<in>M. rn_current_term (rh_node H' v) = t \<and> rn_log (rh_node H' v) = rn_log (rh_node H v)) \<and>
    (\<forall>v\<in>M - {i}. rn_role (rh_node H' v) = Follower \<and>
      (is_up_to_date (fst (last_log (rh_node H i))) (snd (last_log (rh_node H i))) (rh_node H v) \<longrightarrow>
        (v, i, Vote t v True) \<in> rc_net (rh_cluster H')))"
proof -
  note R = reachable_node [OF r]
  let ?l = "last_log (rh_node H i)"
  obtain H1 n where H1: "grows M H H1" "rh_node H1 = (rh_node H)(i := n)" "rn_role n = Candidate" "rn_current_term n = t"
    "rn_log n = rn_log (rh_node H i)" "rn_votes n = {i}"
    "\<forall>p\<in>M - {i}. (i, p, RequestVote t i (fst (last_log n)) (snd (last_log n))) \<in> rc_net (rh_cluster H1)"
    using reach_candidate [OF i R(3) [OF i] assms(3) R(5) [OF i] assms(4) R(1,2) [OF i]] unfolding t_def by metis
  have l: "last_log n = ?l" using H1(5) by (simp add: last_log_def)
  have "rn_current_term (rh_node H v) < t" if "v \<in> M" for v
    using le [OF that] checked_add_one(2) [OF assms(4)] by (simp add: t_def word_le_nat_alt word_less_nat_alt)
  then have "\<exists>H'. grows M H1 H' \<and> (\<forall>v. v \<notin> M - {i} \<longrightarrow> rh_node H' v = rh_node H1 v) \<and>
      (\<forall>v\<in>M - {i}. rn_role (rh_node H' v) = Follower \<and> rn_current_term (rh_node H' v) = t \<and>
        rn_log (rh_node H' v) = rn_log (rh_node H1 v) \<and>
        (is_up_to_date (fst ?l) (snd ?l) (rh_node H1 v) \<longrightarrow> (v, i, Vote t v True) \<in> rc_net (rh_cluster H')))"
    using R(1) R(3) [OF i] H1(2,7) l by (intro deliver_requests) auto
  then obtain H' where H': "grows M H1 H'" "\<forall>v. v \<notin> M - {i} \<longrightarrow> rh_node H' v = rh_node H1 v"
    "\<forall>v\<in>M - {i}. rn_role (rh_node H' v) = Follower \<and> rn_current_term (rh_node H' v) = t \<and>
        rn_log (rh_node H' v) = rn_log (rh_node H1 v) \<and>
        (is_up_to_date (fst ?l) (snd ?l) (rh_node H1 v) \<longrightarrow> (v, i, Vote t v True) \<in> rc_net (rh_cluster H'))"
    by blast
  then have "rh_node H' i = n" using H1(2) by simp
  with H' H1 grows_trans [OF H1(1) H'(1)] show ?thesis by (intro exI [of _ H']) (auto split: if_splits)
qed

text \<open>Some node is at least as up to date as every other.\<close>

lemma best_log:
  assumes "finite M" and "M \<noteq> {}"
  obtains i where "i \<in> M" "\<And>v. v \<in> M \<Longrightarrow> is_up_to_date (fst (last_log (f i))) (snd (last_log (f i))) (f v)"
proof -
  let ?t = "Max ((\<lambda>v. snd (last_log (f v))) ` M)"
  let ?S = "{v \<in> M. snd (last_log (f v)) = ?t}"
  have "?t \<in> (\<lambda>v. snd (last_log (f v))) ` M" using assms by (intro Max_in) auto
  then have S: "finite ?S" "?S \<noteq> {}" using assms(1) by auto
  let ?l = "Max ((\<lambda>v. fst (last_log (f v))) ` ?S)"
  have "?l \<in> (\<lambda>v. fst (last_log (f v))) ` ?S" using S by (intro Max_in) auto
  then obtain i where i: "i \<in> ?S" "fst (last_log (f i)) = ?l" by auto
  have "is_up_to_date (fst (last_log (f i))) (snd (last_log (f i))) (f v)" if v: "v \<in> M" for v
  proof -
    have le: "snd (last_log (f v)) \<le> ?t" using v assms(1) by (intro Max_ge) auto
    have "fst (last_log (f v)) \<le> ?l" if "snd (last_log (f v)) = ?t" using v S(1) that by (intro Max_ge) auto
    with le i show ?thesis by (auto simp: is_up_to_date_def split: prod.split)
  qed
  with i(1) that show thesis by blast
qed

lemma elect_best:
  assumes r: "history_reachable M H" and card: "2 \<le> card M" and nolead: "\<And>v. v \<in> M \<Longrightarrow> rn_role (rh_node H v) \<noteq> Leader"
    and t: "\<And>v. v \<in> M \<Longrightarrow> rn_current_term (rh_node H v) = t" and "unat t + 1 < 2 ^ 64"
  shows "\<exists>H' i. grows M H H' \<and> i \<in> M \<and> rn_role (rh_node H' i) = Leader \<and>
    (\<forall>v\<in>M. rn_current_term (rh_node H' v) \<le> rn_current_term (rh_node H' i))"
proof -
  have M: "finite M" "M \<noteq> {}" using card by (auto intro: card_ge_0_finite)
  obtain i where i: "i \<in> M" "\<And>v. v \<in> M \<Longrightarrow>
      is_up_to_date (fst (last_log (rh_node H i))) (snd (last_log (rh_node H i))) (rh_node H v)"
    using best_log [OF M] by metis
  from campaign [OF r i(1) nolead [OF i(1)]] t i assms(5) obtain H1 where H1: "grows M H H1"
    "rn_role (rh_node H1 i) = Candidate" "rn_votes (rh_node H1 i) = {i}"
    "\<forall>v\<in>M. rn_current_term (rh_node H1 v) = t + 1"
    "\<forall>v\<in>M - {i}. (v, i, Vote (t + 1) v True) \<in> rc_net (rh_cluster H1)"
    by auto
  have "\<exists>H' n. grows M H1 H' \<and> rh_node H' = (rh_node H1)(i := n) \<and> rn_current_term n = t + 1 \<and>
    rn_log n = rn_log (rh_node H1 i) \<and> rn_id n = rn_id (rh_node H1 i) \<and> rn_members n = rn_members (rh_node H1 i) \<and>
    (rn_role n = Leader \<or> rn_role n = Candidate \<and> rn_votes n = rn_votes (rh_node H1 i) \<union> (M - {i}) \<and>
       (M - {i} \<noteq> {} \<longrightarrow> card (rn_votes n) < raft_majority n))"
    using H1 i(1) M(1) by (intro deliver_votes) auto
  then obtain H' n where H': "grows M H1 H'" "rh_node H' = (rh_node H1)(i := n)" "rn_current_term n = t + 1"
    "rn_members n = rn_members (rh_node H1 i)"
    and role: "rn_role n = Leader \<or> rn_votes n = {i} \<union> (M - {i}) \<and> (M - {i} \<noteq> {} \<longrightarrow> card (rn_votes n) < raft_majority n)"
    using H1(3) by auto
  have "M - {i} \<noteq> {}"
  proof
    assume "M - {i} = {}"
    then have "card M \<le> card {i}" by (intro card_mono) auto
    with card show False by simp
  qed
  moreover have "rn_members n = M" using H'(4) reachable_node(2) [OF grows_reachable [OF H1(1) r] i(1)] by simp
  moreover have "{i} \<union> (M - {i}) = M" using i(1) by blast
  ultimately have "rn_role n = Leader" using role card by (auto simp: raft_majority_def)
  with H' H1 i(1) show ?thesis
    by (intro exI [of _ H'] exI [of _ i]) (auto intro: grows_trans)
qed

text \<open>A leader nobody is ahead of commits a command.\<close>

lemma leader_commits:
  assumes r: "history_reachable M H" and card: "2 \<le> card M" and i: "i \<in> M" and lead: "rn_role (rh_node H i) = Leader"
    and le: "\<And>v. v \<in> M \<Longrightarrow> rn_current_term (rh_node H v) \<le> rn_current_term (rh_node H i)"
  shows "\<exists>H'. grows M H H' \<and> rn_role (rh_node H' i) = Leader \<and>
    rn_log (rh_node H' i) = rn_log (rh_node H i) @ [\<lparr>le_term = rn_current_term (rh_node H i), le_command = c\<rparr>] \<and>
    rn_commit_index (rh_node H' i) = length (rn_log (rh_node H' i))"
proof -
  note R = reachable_node [OF r]
  let ?t = "rn_current_term (rh_node H i)"
  let ?L = "rn_log (rh_node H i) @ [\<lparr>le_term = ?t, le_command = c\<rparr>]"
  let ?n = "(rh_node H i)\<lparr>rn_log := ?L, rn_replication_acks := {i}\<rparr>"
  have st: "raft_step (Propose c) (rh_node H i) = (Inr (heartbeats ?n), ?n)"
    using lead R(1) [OF i] by (simp add: raft_propose_def Let_def)
  obtain H1 where H1: "grows M H H1" "rh_node H1 = (rh_node H)(i := ?n)"
    "\<And>out. out \<in> outs (Inr (heartbeats ?n)) \<Longrightarrow> (i, out_to out, out_message out) \<in> rc_net (rh_cluster H1)"
    by (rule take_step [OF i _ _ st]) simp_all
  have net: "(i, v, AppendEntries ?t i 0 0 ?L (rn_commit_index (rh_node H i))) \<in> rc_net (rh_cluster H1)"
    if "v \<in> M - {i}" for v
  proof -
    have "v \<in> set (peers ?n)" using that R(1,2,3) [OF i] by (simp add: peers_def)
    then have "\<lparr>out_to = v, out_message = AppendEntries ?t i 0 0 ?L (rn_commit_index (rh_node H i))\<rparr> \<in> outs (Inr (heartbeats ?n))"
      using R(1) [OF i] by (auto simp: outs_def heartbeats_def)
    from H1(3) [OF this] show ?thesis by simp
  qed
  have "\<exists>H'. grows M H1 H' \<and> (\<forall>v. v \<notin> M - {i} \<longrightarrow> rh_node H' v = rh_node H1 v) \<and> (\<forall>v\<in>M - {i}. acked H' i ?t ?L v)"
    using net R(3) [OF i] le R(1) H1(2) by (intro deliver_appends) auto
  then obtain H2 where H2: "grows M H1 H2" "rh_node H2 i = ?n" "\<forall>v\<in>M - {i}. acked H2 i ?t ?L v"
    using H1(2) by auto
  have "\<exists>H' n. grows M H2 H' \<and> rh_node H' = (rh_node H2)(i := n) \<and> rn_role n = Leader \<and> rn_current_term n = ?t \<and>
    rn_log n = rn_log (rh_node H2 i) \<and> rn_members n = rn_members (rh_node H2 i) \<and>
    rn_replication_acks n = rn_replication_acks (rh_node H2 i) \<union> (M - {i}) \<and>
    (M - {i} \<noteq> {} \<longrightarrow> raft_majority n \<le> card (rn_replication_acks n) \<longrightarrow> rn_commit_index n = length (rn_log n))"
    using R(3) [OF i] i H2 lead by (intro deliver_acks) (auto simp: sealed_def)
  then obtain H' n where H': "grows M H2 H'" "rh_node H' = (rh_node H2)(i := n)" "rn_role n = Leader" "rn_log n = ?L"
    "rn_members n = M" "rn_replication_acks n = {i} \<union> (M - {i})"
    and commit: "M - {i} \<noteq> {} \<longrightarrow> raft_majority n \<le> card (rn_replication_acks n) \<longrightarrow> rn_commit_index n = length (rn_log n)"
    using H2(2) R(2) [OF i] by auto
  have "{i} \<union> (M - {i}) = M" "M - {i} \<noteq> {}"
    using i card card_mono [of "{i}" M] by auto
  with commit H'(5,6) card have "rn_commit_index n = length (rn_log n)" by (simp add: raft_majority_def)
  with H' grows_trans [OF grows_trans [OF H1(1) H2(1)] H'(1)] show ?thesis by (intro exI [of _ H']) simp
qed

section \<open>Properties\<close>

lemma leader_possible:
  assumes r: "history_reachable M H" and card: "2 \<le> card M"
    and room: "\<And>v. v \<in> M \<Longrightarrow> unat (rn_current_term (rh_node H v)) + 2 < 2 ^ 64"
  shows "\<exists>H' i. grows M H H' \<and> i \<in> M \<and> rn_role (rh_node H' i) = Leader \<and>
    (\<forall>v\<in>M. rn_current_term (rh_node H' v) \<le> rn_current_term (rh_node H' i))"
proof -
  have M: "finite M" "M \<noteq> {}" using card by (auto intro: card_ge_0_finite)
  then have "Max ((\<lambda>v. rn_current_term (rh_node H v)) ` M) \<in> (\<lambda>v. rn_current_term (rh_node H v)) ` M" by (intro Max_in) auto
  then obtain m where m: "m \<in> M" "rn_current_term (rh_node H m) = Max ((\<lambda>v. rn_current_term (rh_node H v)) ` M)" by auto
  with M(1) have le: "rn_current_term (rh_node H v) \<le> rn_current_term (rh_node H m)" if "v \<in> M" for v using that by simp
  show ?thesis
  proof (cases "rn_role (rh_node H m) = Leader")
    case True
    with m(1) le show ?thesis by (intro exI [of _ H] exI [of _ m]) simp
  next
    case False
    have r1: "unat (rn_current_term (rh_node H m)) + 1 < 2 ^ 64" using room [OF m(1)] by simp
    let ?t = "rn_current_term (rh_node H m) + 1"
    from campaign [OF r m(1) False r1 le] obtain H1 where H1: "grows M H H1" "rn_role (rh_node H1 m) = Candidate"
      "\<forall>v\<in>M. rn_current_term (rh_node H1 v) = ?t" "\<forall>v\<in>M - {m}. rn_role (rh_node H1 v) = Follower"
      by blast
    have "\<exists>H' i. grows M H1 H' \<and> i \<in> M \<and> rn_role (rh_node H' i) = Leader \<and>
        (\<forall>v\<in>M. rn_current_term (rh_node H' v) \<le> rn_current_term (rh_node H' i))"
    proof (rule elect_best [OF grows_reachable [OF H1(1) r] card])
      show "rn_role (rh_node H1 v) \<noteq> Leader" if "v \<in> M" for v
        using H1(2,4) that by (cases "v = m") auto
      show "unat ?t + 1 < 2 ^ 64" using room [OF m(1)] checked_add_one(2) [OF r1] by simp
    qed (use H1(3) in blast)
    with grows_trans [OF H1(1)] show ?thesis by blast
  qed
qed

text \<open>C16: A cluster of at least two nodes is never stuck, although its caller is careful: from every state of a
  run in which the terms have room for two more, some continuation of the run makes a node leader and
  has it commit a given command. (A cluster of one node has no such run: see
  \<open>consensus_service_never_leads\<close>.) \<close>

theorem careful_cluster_progresses:
  assumes "history_reachable M H" and "2 \<le> card M"
    and "\<And>v. v \<in> M \<Longrightarrow> unat (rn_current_term (rh_node H v)) + 2 < 2 ^ 64"
  shows "\<exists>H' i. (history_step M)\<^sup>*\<^sup>* H H' \<and> i \<in> M \<and> rn_role (rh_node H' i) = Leader \<and>
    rn_log (rh_node H' i) \<noteq> [] \<and> le_command (last (rn_log (rh_node H' i))) = c \<and>
    rn_commit_index (rh_node H' i) = length (rn_log (rh_node H' i))"
proof -
  from leader_possible [OF assms] obtain H1 i where H1: "grows M H H1" "i \<in> M" "rn_role (rh_node H1 i) = Leader"
    "\<And>v. v \<in> M \<Longrightarrow> rn_current_term (rh_node H1 v) \<le> rn_current_term (rh_node H1 i)" by blast
  from leader_commits [OF grows_reachable [OF H1(1) assms(1)] assms(2) H1(2-4), of c] obtain H' where
    "grows M H1 H'" "rn_role (rh_node H' i) = Leader"
    "rn_log (rh_node H' i) = rn_log (rh_node H1 i) @ [\<lparr>le_term = rn_current_term (rh_node H1 i), le_command = c\<rparr>]"
    "rn_commit_index (rh_node H' i) = length (rn_log (rh_node H' i))" by blast
  with grows_trans [OF H1(1)] H1(2) show ?thesis unfolding grows_def by (intro exI [of _ H'] exI [of _ i]) auto
qed

theorem careful_cluster_progresses_witness:
  "\<exists>H' i. (history_step three_nodes)\<^sup>*\<^sup>* sample_history H' \<and> i \<in> three_nodes \<and>
     le_command (last (rn_log (rh_node H' i))) = [9] \<and> rn_commit_index (rh_node H' i) = length (rn_log (rh_node H' i))"
proof -
  have "card three_nodes = 3" by (simp add: three_nodes_def)
  moreover have "rn_current_term (rh_node sample_history v) = 0" if "v \<in> three_nodes" for v
    using that by (auto simp: three_nodes_def sample_history_def sample_cluster_def raft_new_def)
  ultimately show ?thesis
    using careful_cluster_progresses [OF sample_history_reachable, where c = "[9]"] by auto
qed

end
