(* ===== verification/Commit_Interface.thy ===== *)
theory Commit_Interface
  imports Main
begin

text \<open>
  The contract of atomic commitment, stated over a transition system: an inductive invariant under
  which no member aborts once another has committed, and outcomes that are final. Two-phase and
  three-phase commit interpret it.
\<close>

locale atomic_commitment =
  fixes starts :: "'s \<Rightarrow> bool" and step :: "'s \<Rightarrow> 's \<Rightarrow> bool" and inv :: "'s \<Rightarrow> bool"
    and members :: "'s \<Rightarrow> 'n set" and committed :: "'s \<Rightarrow> 'n \<Rightarrow> bool" and aborted :: "'s \<Rightarrow> 'n \<Rightarrow> bool"
  assumes inv_starts: "starts s \<Longrightarrow> inv s"
    and inv_step: "inv s \<Longrightarrow> step s s' \<Longrightarrow> inv s'"
    and agreement: "inv s \<Longrightarrow> p \<in> members s \<Longrightarrow> q \<in> members s \<Longrightarrow> committed s p \<Longrightarrow> \<not> aborted s q"
    and members_step: "step s s' \<Longrightarrow> members s' = members s"
    and committed_step: "step s s' \<Longrightarrow> committed s p \<Longrightarrow> committed s' p"
    and aborted_step: "step s s' \<Longrightarrow> aborted s p \<Longrightarrow> aborted s' p"
begin

lemma inv_run: "step\<^sup>*\<^sup>* s s' \<Longrightarrow> inv s \<Longrightarrow> inv s'"
  by (induction rule: rtranclp_induct) (auto intro: inv_step)

lemma members_run: "step\<^sup>*\<^sup>* s s' \<Longrightarrow> members s' = members s"
  by (induction rule: rtranclp_induct) (auto dest: members_step)

lemma committed_run: "step\<^sup>*\<^sup>* s s' \<Longrightarrow> committed s p \<Longrightarrow> committed s' p"
  by (induction rule: rtranclp_induct) (auto intro: committed_step)

lemma aborted_run: "step\<^sup>*\<^sup>* s s' \<Longrightarrow> aborted s p \<Longrightarrow> aborted s' p"
  by (induction rule: rtranclp_induct) (auto intro: aborted_step)

text \<open>Once one member has an outcome, no member ever gets the other one.\<close>

lemma outcomes_agree:
  assumes "starts s0" and "step\<^sup>*\<^sup>* s0 s" and "step\<^sup>*\<^sup>* s s'" and "p \<in> members s0" and "q \<in> members s0"
  shows "(committed s p \<longrightarrow> committed s' p \<and> \<not> aborted s' q) \<and>
    (aborted s p \<longrightarrow> aborted s' p \<and> \<not> committed s' q)"
proof -
  have run: "step\<^sup>*\<^sup>* s0 s'" using assms(2,3) by simp
  then have "inv s'" "members s' = members s0" using assms(1) inv_starts inv_run members_run by blast+
  then show ?thesis using assms agreement committed_run aborted_run by metis
qed

end

end
