(* ===== verification/Two_Phase_Commit.thy ===== *)
theory Two_Phase_Commit
  imports Iron_Id Commit_Interface
begin

text \<open>
  Two-phase commit (\<open>iron-2pc/src/lib.rs\<close>): the coordinator and the participant, and their
  composition over a network of messages that may be lost, repeated and reordered.

  A \<open>BTreeSet\<close> of node ids is a finite set. The calls that send and deliver the returned actions are
  the caller's: the composition delivers any action ever returned, to anyone, any number of times.
\<close>

section \<open>Coordinator and participant\<close>

datatype decision = DecideCommit | DecideAbort

datatype coordinator_phase = Idle | Preparing | Decided decision

datatype participant_phase = Working | Prepared | Committed | Aborted

datatype coordinator_action = DoPrepare | DoCommit | DoAbort

datatype participant_action = SayPrepared | SayVoteAbort | SayCommitted | SayAborted

datatype two_pc_error = AlreadyDecided | UnknownParticipant | ConflictingVote | InvalidTransition

record coordinator =
  co_participants :: "node_id set"
  co_prepared :: "node_id set"
  co_aborted :: bool
  co_phase :: coordinator_phase

definition coordinator_new :: "node_id list \<Rightarrow> two_pc_error + coordinator" where
  "coordinator_new participants =
     (if set participants = {} then Inl InvalidTransition
      else Inr \<lparr>co_participants = set participants, co_prepared = {}, co_aborted = False, co_phase = Idle\<rparr>)"

definition coordinator_begin :: "coordinator \<Rightarrow> (two_pc_error + coordinator_action) \<times> coordinator" where
  "coordinator_begin c =
     (if co_phase c \<noteq> Idle then (Inl AlreadyDecided, c)
      else (Inr DoPrepare, c\<lparr>co_phase := Preparing\<rparr>))"

definition vote_prepared ::
  "node_id \<Rightarrow> coordinator \<Rightarrow> (two_pc_error + coordinator_action option) \<times> coordinator" where
  "vote_prepared participant c =
     (if participant \<notin> co_participants c then (Inl UnknownParticipant, c)
      else if co_phase c \<noteq> Preparing then (Inl AlreadyDecided, c)
      else let c = c\<lparr>co_prepared := insert participant (co_prepared c)\<rparr> in
        if co_prepared c = co_participants c
        then (Inr (Some DoCommit), c\<lparr>co_phase := Decided DecideCommit\<rparr>)
        else (Inr None, c))"

definition vote_abort ::
  "node_id \<Rightarrow> coordinator \<Rightarrow> (two_pc_error + coordinator_action) \<times> coordinator" where
  "vote_abort participant c =
     (if participant \<notin> co_participants c then (Inl UnknownParticipant, c)
      else if co_phase c \<noteq> Preparing then (Inl AlreadyDecided, c)
      else (Inr DoAbort, c\<lparr>co_aborted := True, co_phase := Decided DecideAbort\<rparr>))"

definition coordinator_decision :: "coordinator \<Rightarrow> decision option" where
  "coordinator_decision c = (case co_phase c of Decided d \<Rightarrow> Some d | _ \<Rightarrow> None)"

record participant =
  pa_phase :: participant_phase

definition participant_new :: participant where
  "participant_new = \<lparr>pa_phase = Working\<rparr>"

definition participant_prepare :: "bool \<Rightarrow> participant \<Rightarrow> participant_action \<times> participant" where
  "participant_prepare can_commit p =
     (case pa_phase p of
        Prepared \<Rightarrow> (SayPrepared, p)
      | Committed \<Rightarrow> (SayCommitted, p)
      | Aborted \<Rightarrow> (SayAborted, p)
      | Working \<Rightarrow>
          if can_commit then (SayPrepared, p\<lparr>pa_phase := Prepared\<rparr>)
          else (SayVoteAbort, p\<lparr>pa_phase := Aborted\<rparr>))"

definition participant_commit :: "participant \<Rightarrow> (two_pc_error + participant_action) \<times> participant" where
  "participant_commit p =
     (if pa_phase p \<noteq> Prepared then (Inl InvalidTransition, p)
      else (Inr SayCommitted, p\<lparr>pa_phase := Committed\<rparr>))"

definition participant_abort :: "participant \<Rightarrow> (two_pc_error + participant_action) \<times> participant" where
  "participant_abort p =
     (if pa_phase p = Committed then (Inl InvalidTransition, p)
      else (Inr SayAborted, p\<lparr>pa_phase := Aborted\<rparr>))"

section \<open>The coordinator alone\<close>

datatype coordinator_op = OpBegin | OpVotePrepared node_id | OpVoteAbort node_id

fun coordinator_op_run :: "coordinator_op \<Rightarrow> coordinator \<Rightarrow> coordinator" where
  "coordinator_op_run OpBegin c = snd (coordinator_begin c)"
| "coordinator_op_run (OpVotePrepared p) c = snd (vote_prepared p c)"
| "coordinator_op_run (OpVoteAbort p) c = snd (vote_abort p c)"

definition coordinator_ok :: "coordinator \<Rightarrow> bool" where
  "coordinator_ok c \<longleftrightarrow> co_participants c \<noteq> {} \<and> co_prepared c \<subseteq> co_participants c \<and>
     (co_phase c = Idle \<longrightarrow> co_prepared c = {}) \<and>
     (co_phase c = Decided DecideCommit \<longleftrightarrow> co_prepared c = co_participants c) \<and>
     (co_phase c = Decided DecideAbort \<longleftrightarrow> co_aborted c)"

lemmas coordinator_defs = coordinator_begin_def vote_prepared_def vote_abort_def

lemma coordinator_new_fields:
  assumes "coordinator_new ps = Inr c"
  shows "set ps \<noteq> {}" "co_participants c = set ps" "co_prepared c = {}" "\<not> co_aborted c" "co_phase c = Idle"
  using assms by (auto simp: coordinator_new_def split: if_splits)

lemma coordinator_ok_new: "coordinator_new ps = Inr c \<Longrightarrow> coordinator_ok c"
  using coordinator_new_fields [of ps c] by (auto simp: coordinator_ok_def)

lemma coordinator_ok_run: "coordinator_ok c \<Longrightarrow> coordinator_ok (coordinator_op_run op c)"
  by (cases op) (auto simp: coordinator_defs coordinator_ok_def Let_def)

lemma coordinator_run_fixed:
  "co_participants (coordinator_op_run op c) = co_participants c"
  "coordinator_decision c = Some d \<Longrightarrow> coordinator_op_run op c = c"
  by (cases op; auto simp: coordinator_defs coordinator_decision_def Let_def split: coordinator_phase.splits)+

section \<open>The composition\<close>

record two_pc =
  tp_coordinator :: coordinator
  tp_participant :: "node_id \<Rightarrow> participant"
  tp_actions :: "coordinator_action set"
  tp_votes :: "(node_id \<times> participant_action) set"

definition two_pc_starts :: "two_pc \<Rightarrow> bool" where
  "two_pc_starts s \<longleftrightarrow> (\<exists>ps. coordinator_new ps = Inr (tp_coordinator s)) \<and>
     (\<forall>p \<in> co_participants (tp_coordinator s). tp_participant s p = participant_new) \<and>
     tp_actions s = {} \<and> tp_votes s = {}"

text \<open>The caller may give up on a participant at any time (an abort vote in its name), and may abort a
  participant that has not voted.\<close>

inductive two_pc_step :: "two_pc \<Rightarrow> two_pc \<Rightarrow> bool" where
  begins: "coordinator_begin (tp_coordinator s) = (Inr a, c) \<Longrightarrow>
    two_pc_step s (s\<lparr>tp_coordinator := c, tp_actions := insert a (tp_actions s)\<rparr>)"
| prepares: "DoPrepare \<in> tp_actions s \<Longrightarrow> participant_prepare can_commit (tp_participant s p) = (v, n) \<Longrightarrow>
    two_pc_step s (s\<lparr>tp_participant := (tp_participant s)(p := n), tp_votes := insert (p, v) (tp_votes s)\<rparr>)"
| votes_prepared: "(p, SayPrepared) \<in> tp_votes s \<Longrightarrow>
    vote_prepared p (tp_coordinator s) = (Inr a, c) \<Longrightarrow>
    two_pc_step s (s\<lparr>tp_coordinator := c, tp_actions := set_option a \<union> tp_actions s\<rparr>)"
| votes_abort: "vote_abort p (tp_coordinator s) = (Inr a, c) \<Longrightarrow>
    two_pc_step s (s\<lparr>tp_coordinator := c, tp_actions := insert a (tp_actions s)\<rparr>)"
| commits: "DoCommit \<in> tp_actions s \<Longrightarrow> participant_commit (tp_participant s p) = (res, n) \<Longrightarrow>
    two_pc_step s (s\<lparr>tp_participant := (tp_participant s)(p := n)\<rparr>)"
| aborts: "DoAbort \<in> tp_actions s \<or> pa_phase (tp_participant s p) = Working \<Longrightarrow>
    participant_abort (tp_participant s p) = (res, n) \<Longrightarrow>
    two_pc_step s (s\<lparr>tp_participant := (tp_participant s)(p := n)\<rparr>)"

inductive_cases two_pc_stepE: "two_pc_step s s'"

definition two_pc_inv :: "two_pc \<Rightarrow> bool" where
  "two_pc_inv s \<longleftrightarrow> coordinator_ok (tp_coordinator s) \<and>
     (\<forall>p \<in> co_prepared (tp_coordinator s). (p, SayPrepared) \<in> tp_votes s) \<and>
     (\<forall>p. (p, SayPrepared) \<in> tp_votes s \<longrightarrow> pa_phase (tp_participant s p) \<noteq> Working \<and>
        (pa_phase (tp_participant s p) = Aborted \<longrightarrow> DoAbort \<in> tp_actions s)) \<and>
     (\<forall>p \<in> co_participants (tp_coordinator s). pa_phase (tp_participant s p) = Prepared \<longrightarrow>
        (p, SayPrepared) \<in> tp_votes s) \<and>
     (DoCommit \<in> tp_actions s \<longrightarrow> co_phase (tp_coordinator s) = Decided DecideCommit) \<and>
     (DoAbort \<in> tp_actions s \<longrightarrow> co_phase (tp_coordinator s) = Decided DecideAbort) \<and>
     (\<forall>p \<in> co_participants (tp_coordinator s). pa_phase (tp_participant s p) = Committed \<longrightarrow>
        DoCommit \<in> tp_actions s)"

lemma two_pc_inv_starts: "two_pc_starts s \<Longrightarrow> two_pc_inv s"
  by (auto simp: two_pc_starts_def two_pc_inv_def participant_new_def coordinator_new_fields
      intro: coordinator_ok_new)

lemma two_pc_inv_step: "two_pc_step s s' \<Longrightarrow> two_pc_inv s \<Longrightarrow> two_pc_inv s'"
proof (induction rule: two_pc_step.induct)
  case (begins s a c)
  with coordinator_ok_run [of "tp_coordinator s" OpBegin] show ?case
    by (auto simp: two_pc_inv_def coordinator_begin_def split: if_splits)
next
  case (prepares s can_commit p v n)
  then show ?case
    by (auto simp: two_pc_inv_def participant_prepare_def split: participant_phase.splits if_splits)
next
  case (votes_prepared p s a c)
  with coordinator_ok_run [of "tp_coordinator s" "OpVotePrepared p"] show ?case
    by (auto simp: two_pc_inv_def vote_prepared_def Let_def split: if_splits)
next
  case (votes_abort p s a c)
  with coordinator_ok_run [of "tp_coordinator s" "OpVoteAbort p"] show ?case
    by (auto simp: two_pc_inv_def vote_abort_def split: if_splits)
next
  case (commits s p res n)
  then show ?case by (auto simp: two_pc_inv_def participant_commit_def split: if_splits)
next
  case (aborts s p res n)
  then show ?case by (auto simp: two_pc_inv_def participant_abort_def split: if_splits)
qed

abbreviation two_pc_members :: "two_pc \<Rightarrow> node_id set" where
  "two_pc_members s \<equiv> co_participants (tp_coordinator s)"

interpretation two_pc: atomic_commitment two_pc_starts two_pc_step two_pc_inv two_pc_members
  "\<lambda>s p. pa_phase (tp_participant s p) = Committed" "\<lambda>s p. pa_phase (tp_participant s p) = Aborted"
proof
  fix s p q
  assume inv: "two_pc_inv s" and "p \<in> two_pc_members s" "q \<in> two_pc_members s"
    "pa_phase (tp_participant s p) = Committed"
  then have commit: "co_phase (tp_coordinator s) = Decided DecideCommit" by (auto simp: two_pc_inv_def)
  with inv \<open>q \<in> two_pc_members s\<close> have "(q, SayPrepared) \<in> tp_votes s"
    by (auto simp: two_pc_inv_def coordinator_ok_def)
  with inv commit show "pa_phase (tp_participant s q) \<noteq> Aborted" by (auto simp: two_pc_inv_def)
next
  fix s s' assume "two_pc_step s s'"
  then show "two_pc_members s' = two_pc_members s"
    by (cases rule: two_pc_step.cases) (auto simp: coordinator_defs Let_def split: if_splits)
next
  fix s s' p assume "two_pc_step s s'" "pa_phase (tp_participant s p) = Committed"
  then show "pa_phase (tp_participant s' p) = Committed"
    by (cases rule: two_pc_step.cases)
      (auto simp: participant_prepare_def participant_commit_def participant_abort_def split: if_splits)
next
  fix s s' p assume "two_pc_step s s'" "pa_phase (tp_participant s p) = Aborted"
  then show "pa_phase (tp_participant s' p) = Aborted"
    by (cases rule: two_pc_step.cases)
      (auto simp: participant_prepare_def participant_commit_def participant_abort_def split: if_splits)
qed (auto intro: two_pc_inv_starts two_pc_inv_step)

end
