(* ===== verification/Three_Phase_Commit.thy ===== *)
theory Three_Phase_Commit
  imports Iron_Id Commit_Interface
begin

text \<open>
  Three-phase commit (\<open>iron-3pc/src/lib.rs\<close>): coordinator and participant with explicit timeouts, and
  their composition over a network of messages that may be lost, repeated and reordered, with
  timeouts at any moment.
\<close>

section \<open>Coordinator and participant\<close>

datatype phase = PhIdle | PhPreparing | PhPreCommit | PhCommitted | PhAborted

datatype tpc_action = ActPrepare | ActPreCommit | ActCommit | ActAbort

datatype three_pc_error = InvalidPhase | UnknownMember | PartitionMayBlock

record coordinator3 =
  c3_participants :: "node_id set"
  c3_prepared :: "node_id set"
  c3_precommitted :: "node_id set"
  c3_phase :: phase

type_synonym 'a c3_result = "(three_pc_error + 'a) \<times> coordinator3"

definition c3_new :: "node_id list \<Rightarrow> three_pc_error + coordinator3" where
  "c3_new participants =
     (if set participants = {} then Inl InvalidPhase
      else Inr \<lparr>c3_participants = set participants, c3_prepared = {}, c3_precommitted = {}, c3_phase = PhIdle\<rparr>)"

definition c3_begin :: "coordinator3 \<Rightarrow> tpc_action c3_result" where
  "c3_begin c =
     (if c3_phase c \<noteq> PhIdle then (Inl InvalidPhase, c)
      else (Inr ActPrepare, c\<lparr>c3_phase := PhPreparing\<rparr>))"

definition c3_vote_prepared :: "node_id \<Rightarrow> coordinator3 \<Rightarrow> tpc_action option c3_result" where
  "c3_vote_prepared participant c =
     (if participant \<notin> c3_participants c then (Inl UnknownMember, c)
      else if c3_phase c \<noteq> PhPreparing then (Inl InvalidPhase, c)
      else let c = c\<lparr>c3_prepared := insert participant (c3_prepared c)\<rparr> in
        if c3_prepared c = c3_participants c
        then (Inr (Some ActPreCommit), c\<lparr>c3_phase := PhPreCommit\<rparr>)
        else (Inr None, c))"

definition c3_vote_precommitted :: "node_id \<Rightarrow> coordinator3 \<Rightarrow> tpc_action option c3_result" where
  "c3_vote_precommitted participant c =
     (if participant \<notin> c3_participants c then (Inl UnknownMember, c)
      else if c3_phase c \<noteq> PhPreCommit then (Inl InvalidPhase, c)
      else let c = c\<lparr>c3_precommitted := insert participant (c3_precommitted c)\<rparr> in
        if c3_precommitted c = c3_participants c
        then (Inr (Some ActCommit), c\<lparr>c3_phase := PhCommitted\<rparr>)
        else (Inr None, c))"

definition c3_timeout :: "coordinator3 \<Rightarrow> tpc_action c3_result" where
  "c3_timeout c =
     (case c3_phase c of
        PhPreparing \<Rightarrow> (Inr ActAbort, c\<lparr>c3_phase := PhAborted\<rparr>)
      | PhPreCommit \<Rightarrow> (Inl PartitionMayBlock, c)
      | _ \<Rightarrow> (Inl InvalidPhase, c))"

record participant3 =
  p3_phase :: phase

type_synonym p3_result = "(three_pc_error + tpc_action) \<times> participant3"

definition p3_new :: participant3 where
  "p3_new = \<lparr>p3_phase = PhIdle\<rparr>"

definition p3_prepare :: "bool \<Rightarrow> participant3 \<Rightarrow> p3_result" where
  "p3_prepare can_commit p =
     (if p3_phase p \<noteq> PhIdle then (Inl InvalidPhase, p)
      else if can_commit then (Inr ActPrepare, p\<lparr>p3_phase := PhPreparing\<rparr>)
      else (Inr ActAbort, p\<lparr>p3_phase := PhAborted\<rparr>))"

definition p3_precommit :: "participant3 \<Rightarrow> p3_result" where
  "p3_precommit p =
     (if p3_phase p \<noteq> PhPreparing then (Inl InvalidPhase, p)
      else (Inr ActPreCommit, p\<lparr>p3_phase := PhPreCommit\<rparr>))"

definition p3_commit :: "participant3 \<Rightarrow> p3_result" where
  "p3_commit p =
     (if p3_phase p \<noteq> PhPreCommit then (Inl InvalidPhase, p)
      else (Inr ActCommit, p\<lparr>p3_phase := PhCommitted\<rparr>))"

definition p3_timeout :: "participant3 \<Rightarrow> p3_result" where
  "p3_timeout p =
     (case p3_phase p of
        PhPreparing \<Rightarrow> (Inr ActAbort, p\<lparr>p3_phase := PhAborted\<rparr>)
      | PhPreCommit \<Rightarrow> (Inl PartitionMayBlock, p)
      | _ \<Rightarrow> (Inl InvalidPhase, p))"

lemmas c3_defs = c3_begin_def c3_vote_prepared_def c3_vote_precommitted_def c3_timeout_def

lemmas p3_defs = p3_prepare_def p3_precommit_def p3_commit_def p3_timeout_def

definition c3_ok :: "coordinator3 \<Rightarrow> bool" where
  "c3_ok c \<longleftrightarrow> c3_participants c \<noteq> {} \<and> c3_prepared c \<subseteq> c3_participants c \<and>
     c3_precommitted c \<subseteq> c3_participants c \<and>
     (c3_phase c \<in> {PhPreCommit, PhCommitted} \<longrightarrow> c3_prepared c = c3_participants c) \<and>
     (c3_phase c = PhCommitted \<longrightarrow> c3_precommitted c = c3_participants c)"

lemma c3_new_fields:
  assumes "c3_new ps = Inr c"
  shows "set ps \<noteq> {}" "c3_participants c = set ps" "c3_prepared c = {}" "c3_precommitted c = {}" "c3_phase c = PhIdle"
  using assms by (auto simp: c3_new_def split: if_splits)

lemma c3_ok_new: "c3_new ps = Inr c \<Longrightarrow> c3_ok c"
  using c3_new_fields [of ps c] by (auto simp: c3_ok_def)

lemma c3_ok_ops:
  "c3_ok c \<Longrightarrow> c3_begin c = (r, c') \<Longrightarrow> c3_ok c'"
  "c3_ok c \<Longrightarrow> c3_vote_prepared p c = (r', c') \<Longrightarrow> c3_ok c'"
  "c3_ok c \<Longrightarrow> c3_vote_precommitted p c = (r', c') \<Longrightarrow> c3_ok c'"
  "c3_ok c \<Longrightarrow> c3_timeout c = (r, c') \<Longrightarrow> c3_ok c'"
  by (auto simp: c3_ok_def c3_defs Let_def split: if_splits phase.splits)

section \<open>The composition\<close>

record three_pc =
  th_coordinator :: coordinator3
  th_participant :: "node_id \<Rightarrow> participant3"
  th_actions :: "tpc_action set"
  th_votes :: "(node_id \<times> tpc_action) set"

definition three_pc_starts :: "three_pc \<Rightarrow> bool" where
  "three_pc_starts s \<longleftrightarrow> (\<exists>ps. c3_new ps = Inr (th_coordinator s)) \<and>
     (\<forall>p \<in> c3_participants (th_coordinator s). th_participant s p = p3_new) \<and>
     th_actions s = {} \<and> th_votes s = {}"

inductive three_pc_step :: "three_pc \<Rightarrow> three_pc \<Rightarrow> bool" where
  begins: "c3_begin (th_coordinator s) = (Inr a, c) \<Longrightarrow>
    three_pc_step s (s\<lparr>th_coordinator := c, th_actions := insert a (th_actions s)\<rparr>)"
| prepares: "ActPrepare \<in> th_actions s \<Longrightarrow> p3_prepare can_commit (th_participant s p) = (Inr v, n) \<Longrightarrow>
    three_pc_step s (s\<lparr>th_participant := (th_participant s)(p := n), th_votes := insert (p, v) (th_votes s)\<rparr>)"
| votes_prepared: "(p, ActPrepare) \<in> th_votes s \<Longrightarrow>
    c3_vote_prepared p (th_coordinator s) = (Inr a, c) \<Longrightarrow>
    three_pc_step s (s\<lparr>th_coordinator := c, th_actions := set_option a \<union> th_actions s\<rparr>)"
| precommits: "ActPreCommit \<in> th_actions s \<Longrightarrow> p3_precommit (th_participant s p) = (Inr v, n) \<Longrightarrow>
    three_pc_step s (s\<lparr>th_participant := (th_participant s)(p := n), th_votes := insert (p, v) (th_votes s)\<rparr>)"
| votes_precommitted: "(p, ActPreCommit) \<in> th_votes s \<Longrightarrow>
    c3_vote_precommitted p (th_coordinator s) = (Inr a, c) \<Longrightarrow>
    three_pc_step s (s\<lparr>th_coordinator := c, th_actions := set_option a \<union> th_actions s\<rparr>)"
| commits: "ActCommit \<in> th_actions s \<Longrightarrow> p3_commit (th_participant s p) = (Inr v, n) \<Longrightarrow>
    three_pc_step s (s\<lparr>th_participant := (th_participant s)(p := n), th_votes := insert (p, v) (th_votes s)\<rparr>)"
| coordinator_times_out: "c3_timeout (th_coordinator s) = (Inr a, c) \<Longrightarrow>
    three_pc_step s (s\<lparr>th_coordinator := c, th_actions := insert a (th_actions s)\<rparr>)"
| participant_times_out: "p3_timeout (th_participant s p) = (Inr v, n) \<Longrightarrow>
    three_pc_step s (s\<lparr>th_participant := (th_participant s)(p := n), th_votes := insert (p, v) (th_votes s)\<rparr>)"

definition three_pc_inv :: "three_pc \<Rightarrow> bool" where
  "three_pc_inv s \<longleftrightarrow> c3_ok (th_coordinator s) \<and>
     (\<forall>p \<in> c3_precommitted (th_coordinator s). (p, ActPreCommit) \<in> th_votes s) \<and>
     (\<forall>p. (p, ActPreCommit) \<in> th_votes s \<longrightarrow> p3_phase (th_participant s p) \<in> {PhPreCommit, PhCommitted}) \<and>
     (ActPreCommit \<in> th_actions s \<longrightarrow> c3_phase (th_coordinator s) \<in> {PhPreCommit, PhCommitted}) \<and>
     (ActCommit \<in> th_actions s \<longrightarrow> c3_phase (th_coordinator s) = PhCommitted) \<and>
     (\<forall>p \<in> c3_participants (th_coordinator s). p3_phase (th_participant s p) = PhCommitted \<longrightarrow>
        ActCommit \<in> th_actions s)"

lemma three_pc_inv_starts: "three_pc_starts s \<Longrightarrow> three_pc_inv s"
  by (auto simp: three_pc_starts_def three_pc_inv_def p3_new_def c3_new_fields intro: c3_ok_new)

lemma three_pc_inv_step: "three_pc_step s s' \<Longrightarrow> three_pc_inv s \<Longrightarrow> three_pc_inv s'"
proof (induction rule: three_pc_step.induct)
  case (begins s a c)
  with c3_ok_ops(1) [OF _ begins(1)] show ?case
    by (auto simp: three_pc_inv_def c3_begin_def split: if_splits)
next
  case (prepares s can_commit p v n)
  then show ?case by (auto simp: three_pc_inv_def p3_prepare_def split: if_splits)
next
  case (votes_prepared p s a c)
  with c3_ok_ops(2) [OF _ votes_prepared(2)] show ?case
    by (auto simp: three_pc_inv_def c3_vote_prepared_def Let_def split: if_splits)
next
  case (precommits s p v n)
  then show ?case by (auto simp: three_pc_inv_def p3_precommit_def split: if_splits)
next
  case (votes_precommitted p s a c)
  with c3_ok_ops(3) [OF _ votes_precommitted(2)] show ?case
    by (auto simp: three_pc_inv_def c3_vote_precommitted_def Let_def split: if_splits)
next
  case (commits s p v n)
  then show ?case by (auto simp: three_pc_inv_def p3_commit_def split: if_splits)
next
  case (coordinator_times_out s a c)
  with c3_ok_ops(4) [OF _ coordinator_times_out(1)] show ?case
    by (auto simp: three_pc_inv_def c3_timeout_def split: phase.splits)
next
  case (participant_times_out s p v n)
  then show ?case by (auto simp: three_pc_inv_def p3_timeout_def split: phase.splits)
qed

lemma coordinator_committed:
  assumes "three_pc_inv s" and "c3_phase (th_coordinator s) = PhCommitted"
    and "q \<in> c3_participants (th_coordinator s)"
  shows "p3_phase (th_participant s q) \<in> {PhPreCommit, PhCommitted}"
proof -
  have "(q, ActPreCommit) \<in> th_votes s" using assms by (auto simp: three_pc_inv_def c3_ok_def)
  then show ?thesis using assms(1) by (auto simp: three_pc_inv_def)
qed

abbreviation three_pc_members :: "three_pc \<Rightarrow> node_id set" where
  "three_pc_members s \<equiv> c3_participants (th_coordinator s)"

interpretation three_pc: atomic_commitment three_pc_starts three_pc_step three_pc_inv three_pc_members
  "\<lambda>s p. p3_phase (th_participant s p) = PhCommitted" "\<lambda>s p. p3_phase (th_participant s p) = PhAborted"
proof
  fix s p q
  assume inv: "three_pc_inv s" and "p \<in> three_pc_members s" "q \<in> three_pc_members s"
    "p3_phase (th_participant s p) = PhCommitted"
  then have "c3_phase (th_coordinator s) = PhCommitted" by (auto simp: three_pc_inv_def)
  from coordinator_committed [OF inv this \<open>q \<in> three_pc_members s\<close>]
  show "p3_phase (th_participant s q) \<noteq> PhAborted" by auto
next
  fix s s' assume "three_pc_step s s'"
  then show "three_pc_members s' = three_pc_members s"
    by (cases rule: three_pc_step.cases) (auto simp: c3_defs Let_def split: if_splits phase.splits)
next
  fix s s' p assume "three_pc_step s s'" "p3_phase (th_participant s p) = PhCommitted"
  then show "p3_phase (th_participant s' p) = PhCommitted"
    by (cases rule: three_pc_step.cases) (auto simp: p3_defs split: if_splits phase.splits)
next
  fix s s' p assume "three_pc_step s s'" "p3_phase (th_participant s p) = PhAborted"
  then show "p3_phase (th_participant s' p) = PhAborted"
    by (cases rule: three_pc_step.cases) (auto simp: p3_defs split: if_splits phase.splits)
qed (auto intro: three_pc_inv_starts three_pc_inv_step)

section \<open>Blocking\<close>

text \<open>A member that has aborted while the coordinator is in the precommit phase keeps the coordinator and
  every precommitted member there for ever.\<close>

definition three_pc_blocked :: "three_pc \<Rightarrow> node_id \<Rightarrow> bool" where
  "three_pc_blocked s p \<longleftrightarrow> three_pc_inv s \<and> p \<in> three_pc_members s \<and>
     p3_phase (th_participant s p) = PhAborted \<and> c3_phase (th_coordinator s) = PhPreCommit"

lemma three_pc_blocked_step:
  assumes "three_pc_step s s'" and "three_pc_blocked s p"
  shows "three_pc_blocked s' p"
proof -
  have inv: "three_pc_inv s'" using assms three_pc_inv_step by (auto simp: three_pc_blocked_def)
  have p: "p \<in> three_pc_members s'" "p3_phase (th_participant s' p) = PhAborted"
    using three_pc.members_step [OF assms(1)] three_pc.aborted_step [OF assms(1)] assms(2)
    by (auto simp: three_pc_blocked_def)
  from assms have "c3_phase (th_coordinator s') \<in> {PhPreCommit, PhCommitted}"
    by (cases rule: three_pc_step.cases) (auto simp: three_pc_blocked_def c3_defs Let_def split: if_splits)
  moreover have "c3_phase (th_coordinator s') \<noteq> PhCommitted"
    using coordinator_committed [OF inv _ p(1)] p(2) by auto
  ultimately show ?thesis using inv p by (simp add: three_pc_blocked_def)
qed

lemma three_pc_blocked_run:
  "three_pc_step\<^sup>*\<^sup>* s s' \<Longrightarrow> three_pc_blocked s p \<Longrightarrow> three_pc_blocked s' p"
  by (induction rule: rtranclp_induct) (auto intro: three_pc_blocked_step)

lemma blocked_member_step:
  assumes "three_pc_step s s'" and "three_pc_blocked s p" and "q \<in> three_pc_members s"
    and "p3_phase (th_participant s q) = PhPreCommit"
  shows "p3_phase (th_participant s' q) = PhPreCommit"
proof -
  from assms(1,4) have "p3_phase (th_participant s' q) \<in> {PhPreCommit, PhCommitted}"
    by (cases rule: three_pc_step.cases) (auto simp: p3_defs split: if_splits)
  moreover have "p3_phase (th_participant s' q) \<noteq> PhCommitted"
    using three_pc_blocked_step [OF assms(1,2)] three_pc.members_step [OF assms(1)] assms(3)
    by (auto simp: three_pc_blocked_def three_pc_inv_def)
  ultimately show ?thesis by simp
qed

end
