(* ===== verification/Commit_Properties.thy ===== *)
theory Commit_Properties
  imports Two_Phase_Commit Three_Phase_Commit
begin

text \<open>
  The properties of the two commit protocols, with witnesses on executable runs.
\<close>

section \<open>Executable runs\<close>

datatype commit_move =
    MoveBegin
  | MovePrepare node_id bool
  | MoveVotePrepared node_id
  | MoveVoteAbort node_id
  | MovePrecommit node_id
  | MoveVotePrecommitted node_id
  | MoveCommit node_id
  | MoveTimeout node_id

definition two_pc_coordinate ::
  "(two_pc_error + coordinator_action) \<times> coordinator \<Rightarrow> two_pc \<Rightarrow> two_pc option" where
  "two_pc_coordinate res s =
     (case res of (Inr a, c) \<Rightarrow> Some (s\<lparr>tp_coordinator := c, tp_actions := insert a (tp_actions s)\<rparr>)
      | (Inl _, _) \<Rightarrow> None)"

fun two_pc_move :: "commit_move \<Rightarrow> two_pc \<Rightarrow> two_pc option" where
  "two_pc_move MoveBegin s = two_pc_coordinate (coordinator_begin (tp_coordinator s)) s"
| "two_pc_move (MovePrepare p b) s =
     (if DoPrepare \<in> tp_actions s
      then (case participant_prepare b (tp_participant s p) of (v, n) \<Rightarrow>
        Some (s\<lparr>tp_participant := (tp_participant s)(p := n), tp_votes := insert (p, v) (tp_votes s)\<rparr>))
      else None)"
| "two_pc_move (MoveVotePrepared p) s =
     (if (p, SayPrepared) \<in> tp_votes s
      then (case vote_prepared p (tp_coordinator s) of
          (Inr a, c) \<Rightarrow> Some (s\<lparr>tp_coordinator := c, tp_actions := set_option a \<union> tp_actions s\<rparr>)
        | (Inl _, _) \<Rightarrow> None)
      else None)"
| "two_pc_move (MoveVoteAbort p) s = two_pc_coordinate (vote_abort p (tp_coordinator s)) s"
| "two_pc_move (MoveCommit p) s =
     (if DoCommit \<in> tp_actions s
      then (case participant_commit (tp_participant s p) of (_, n) \<Rightarrow>
        Some (s\<lparr>tp_participant := (tp_participant s)(p := n)\<rparr>))
      else None)"
| "two_pc_move _ s = None"

lemma two_pc_move_step: "two_pc_move m s = Some s' \<Longrightarrow> two_pc_step s s'"
  by (cases m)
    (auto simp: two_pc_coordinate_def split: if_splits prod.splits sum.splits intro: two_pc_step.intros)

definition three_pc_answer ::
  "node_id \<Rightarrow> p3_result \<Rightarrow> three_pc \<Rightarrow> three_pc option" where
  "three_pc_answer p res s =
     (case res of
        (Inr v, n) \<Rightarrow>
          Some (s\<lparr>th_participant := (th_participant s)(p := n), th_votes := insert (p, v) (th_votes s)\<rparr>)
      | (Inl _, _) \<Rightarrow> None)"

definition three_pc_count ::
  "tpc_action option c3_result \<Rightarrow> three_pc \<Rightarrow> three_pc option" where
  "three_pc_count res s =
     (case res of
        (Inr a, c) \<Rightarrow> Some (s\<lparr>th_coordinator := c, th_actions := set_option a \<union> th_actions s\<rparr>)
      | (Inl _, _) \<Rightarrow> None)"

fun three_pc_move :: "commit_move \<Rightarrow> three_pc \<Rightarrow> three_pc option" where
  "three_pc_move MoveBegin s =
     (case c3_begin (th_coordinator s) of
        (Inr a, c) \<Rightarrow> Some (s\<lparr>th_coordinator := c, th_actions := insert a (th_actions s)\<rparr>)
      | (Inl _, _) \<Rightarrow> None)"
| "three_pc_move (MovePrepare p b) s =
     (if ActPrepare \<in> th_actions s then three_pc_answer p (p3_prepare b (th_participant s p)) s else None)"
| "three_pc_move (MoveVotePrepared p) s =
     (if (p, ActPrepare) \<in> th_votes s then three_pc_count (c3_vote_prepared p (th_coordinator s)) s else None)"
| "three_pc_move (MovePrecommit p) s =
     (if ActPreCommit \<in> th_actions s then three_pc_answer p (p3_precommit (th_participant s p)) s else None)"
| "three_pc_move (MoveVotePrecommitted p) s =
     (if (p, ActPreCommit) \<in> th_votes s
      then three_pc_count (c3_vote_precommitted p (th_coordinator s)) s else None)"
| "three_pc_move (MoveCommit p) s =
     (if ActCommit \<in> th_actions s then three_pc_answer p (p3_commit (th_participant s p)) s else None)"
| "three_pc_move (MoveTimeout p) s = three_pc_answer p (p3_timeout (th_participant s p)) s"
| "three_pc_move (MoveVoteAbort p) s = None"

lemma three_pc_move_step: "three_pc_move m s = Some s' \<Longrightarrow> three_pc_step s s'"
  by (cases m)
    (auto simp: three_pc_answer_def three_pc_count_def split: if_splits prod.splits sum.splits
      intro: three_pc_step.intros)

fun moves :: "(commit_move \<Rightarrow> 's \<Rightarrow> 's option) \<Rightarrow> commit_move list \<Rightarrow> 's \<Rightarrow> 's option" where
  "moves move [] s = Some s"
| "moves move (m # ms) s = Option.bind (move m s) (moves move ms)"

lemma moves_run:
  "(\<And>m s s'. move m s = Some s' \<Longrightarrow> step s s') \<Longrightarrow> moves move ms s = Some s' \<Longrightarrow> step\<^sup>*\<^sup>* s s'"
proof (induction ms arbitrary: s)
  case (Cons m ms)
  then obtain y where "move m s = Some y" "moves move ms y = Some s'" by (auto simp: bind_eq_Some_conv)
  with Cons show ?case by (meson converse_rtranclp_into_rtranclp)
qed simp

definition sample_two_pc :: two_pc where
  "sample_two_pc =
     \<lparr>tp_coordinator = \<lparr>co_participants = set [NodeId ''a'', NodeId ''b''], co_prepared = {},
        co_aborted = False, co_phase = Idle\<rparr>,
      tp_participant = (\<lambda>_. participant_new), tp_actions = {}, tp_votes = {}\<rparr>"

definition sample_three_pc :: three_pc where
  "sample_three_pc =
     \<lparr>th_coordinator = \<lparr>c3_participants = set [NodeId ''a'', NodeId ''b''], c3_prepared = {},
        c3_precommitted = {}, c3_phase = PhIdle\<rparr>,
      th_participant = (\<lambda>_. p3_new), th_actions = {}, th_votes = {}\<rparr>"

lemma samples_start: "two_pc_starts sample_two_pc" "three_pc_starts sample_three_pc"
  by (auto simp: two_pc_starts_def sample_two_pc_def three_pc_starts_def sample_three_pc_def
      coordinator_new_def c3_new_def intro!: exI [of _ "[NodeId ''a'', NodeId ''b'']"])

section \<open>Two-phase commit\<close>

definition commit_run :: "commit_move list" where
  "commit_run =
     [MoveBegin, MovePrepare (NodeId ''a'') True, MovePrepare (NodeId ''b'') True,
      MoveVotePrepared (NodeId ''a''), MoveVotePrepared (NodeId ''b''), MoveCommit (NodeId ''a'')]"

lemma commit_run_result:
  "map_option (\<lambda>s. (pa_phase (tp_participant s (NodeId ''a'')), pa_phase (tp_participant s (NodeId ''b''))))
     (moves two_pc_move commit_run sample_two_pc) = Some (Committed, Prepared)"
  by code_simp

text \<open>C22: Two-phase commit is atomic: whatever messages are lost, repeated or reordered and whenever the
  caller gives up on a participant, once a participant has committed no participant ever aborts, and
  once one has aborted none ever commits. \<close>

theorem two_pc_atomic:
  assumes "two_pc_starts s0" and "two_pc_step\<^sup>*\<^sup>* s0 s" and "two_pc_step\<^sup>*\<^sup>* s s'"
    and "p \<in> co_participants (tp_coordinator s0)" and "q \<in> co_participants (tp_coordinator s0)"
  shows "(pa_phase (tp_participant s p) = Committed \<longrightarrow>
      pa_phase (tp_participant s' p) = Committed \<and> pa_phase (tp_participant s' q) \<noteq> Aborted) \<and>
    (pa_phase (tp_participant s p) = Aborted \<longrightarrow>
      pa_phase (tp_participant s' p) = Aborted \<and> pa_phase (tp_participant s' q) \<noteq> Committed)"
  by (rule two_pc.outcomes_agree [OF assms])

theorem two_pc_atomic_witness:
  "\<exists>s. two_pc_step\<^sup>*\<^sup>* sample_two_pc s \<and> pa_phase (tp_participant s (NodeId ''a'')) = Committed \<and>
     pa_phase (tp_participant s (NodeId ''b'')) \<noteq> Aborted"
proof -
  from commit_run_result obtain s where s: "moves two_pc_move commit_run sample_two_pc = Some s"
    "pa_phase (tp_participant s (NodeId ''a'')) = Committed" by auto
  from moves_run [OF two_pc_move_step this(1)] have run: "two_pc_step\<^sup>*\<^sup>* sample_two_pc s" .
  from two_pc_atomic [OF samples_start(1) run rtranclp.rtrancl_refl, of "NodeId ''a''" "NodeId ''b''"] s(2) run
  show ?thesis by (auto simp: sample_two_pc_def)
qed

text \<open>Whatever sequence of calls a coordinator gets, it decides to commit exactly when every
  participant has voted prepared after the begin, it decides to abort exactly when an abort vote was
  accepted, and a decision is final. \<close>

lemma coordinator_decides:
  assumes "coordinator_new ps = Inr c" and "c' = fold coordinator_op_run ops c"
  shows "(coordinator_decision c' = Some DecideCommit \<longleftrightarrow> co_prepared c' = set ps) \<and>
    (coordinator_decision c' = Some DecideAbort \<longleftrightarrow> co_aborted c') \<and>
    co_prepared c' \<subseteq> {p. OpVotePrepared p \<in> set ops} \<and>
    (coordinator_decision c' = Some d \<longrightarrow> fold coordinator_op_run later c' = c')"
proof -
  have "coordinator_ok a \<Longrightarrow> coordinator_ok (fold coordinator_op_run ops a) \<and>
      co_participants (fold coordinator_op_run ops a) = co_participants a \<and>
      co_prepared (fold coordinator_op_run ops a) \<subseteq> co_prepared a \<union> {p. OpVotePrepared p \<in> set ops}" for a
  proof (induction ops arbitrary: a)
    case (Cons op ops)
    have "co_prepared (coordinator_op_run op a) \<subseteq> co_prepared a \<union> {p. OpVotePrepared p = op}"
      by (cases op) (auto simp: coordinator_defs Let_def)
    with Cons.IH [OF coordinator_ok_run [OF Cons.prems, of op]] coordinator_run_fixed(1) show ?case by auto
  qed simp
  from this [OF coordinator_ok_new [OF assms(1)]] coordinator_new_fields [OF assms(1)] assms(2)
  have c': "coordinator_ok c'" "co_participants c' = set ps"
    "co_prepared c' \<subseteq> {p. OpVotePrepared p \<in> set ops}" by auto
  have "fold coordinator_op_run later c' = c'" if "coordinator_decision c' = Some d"
    using coordinator_run_fixed(2) [OF that] by (induction later) simp_all
  with c' show ?thesis
    by (auto simp: coordinator_ok_def coordinator_decision_def split: coordinator_phase.splits)
qed

section \<open>Three-phase commit\<close>

definition commit_run3 :: "commit_move list" where
  "commit_run3 =
     [MoveBegin, MovePrepare (NodeId ''a'') True, MovePrepare (NodeId ''b'') True,
      MoveVotePrepared (NodeId ''a''), MoveVotePrepared (NodeId ''b''), MovePrecommit (NodeId ''a'')]"

definition blocked_run :: "commit_move list" where
  "blocked_run = commit_run3 @ [MoveTimeout (NodeId ''b'')]"

lemma commit_run3_result:
  "map_option (\<lambda>s. p3_phase (th_participant s (NodeId ''a'')))
     (moves three_pc_move (commit_run3 @ [MovePrecommit (NodeId ''b''), MoveVotePrecommitted (NodeId ''a''),
        MoveVotePrecommitted (NodeId ''b''), MoveCommit (NodeId ''a'')]) sample_three_pc) = Some PhCommitted"
  by code_simp

lemma blocked_run_result:
  "map_option (\<lambda>s. (c3_phase (th_coordinator s), p3_phase (th_participant s (NodeId ''a'')),
       p3_phase (th_participant s (NodeId ''b''))))
     (moves three_pc_move blocked_run sample_three_pc) = Some (PhPreCommit, PhPreCommit, PhAborted)"
  by code_simp

text \<open>C24: Three-phase commit is atomic even though coordinator and participants may time out at any
  moment: once a participant has committed no participant ever aborts, and once one has aborted none
  ever commits. \<close>

theorem three_pc_atomic:
  assumes "three_pc_starts s0" and "three_pc_step\<^sup>*\<^sup>* s0 s" and "three_pc_step\<^sup>*\<^sup>* s s'"
    and "p \<in> c3_participants (th_coordinator s0)" and "q \<in> c3_participants (th_coordinator s0)"
  shows "(p3_phase (th_participant s p) = PhCommitted \<longrightarrow>
      p3_phase (th_participant s' p) = PhCommitted \<and> p3_phase (th_participant s' q) \<noteq> PhAborted) \<and>
    (p3_phase (th_participant s p) = PhAborted \<longrightarrow>
      p3_phase (th_participant s' p) = PhAborted \<and> p3_phase (th_participant s' q) \<noteq> PhCommitted)"
  by (rule three_pc.outcomes_agree [OF assms])

theorem three_pc_atomic_witness:
  "\<exists>s. three_pc_step\<^sup>*\<^sup>* sample_three_pc s \<and> p3_phase (th_participant s (NodeId ''a'')) = PhCommitted \<and>
     p3_phase (th_participant s (NodeId ''b'')) \<noteq> PhAborted"
proof -
  from commit_run3_result obtain s ms where s: "moves three_pc_move ms sample_three_pc = Some s"
    "p3_phase (th_participant s (NodeId ''a'')) = PhCommitted" by auto
  from moves_run [OF three_pc_move_step this(1)] have run: "three_pc_step\<^sup>*\<^sup>* sample_three_pc s" .
  from three_pc_atomic [OF samples_start(2) run rtranclp.rtrancl_refl, of "NodeId ''a''" "NodeId ''b''"] s(2) run
  show ?thesis by (auto simp: sample_three_pc_def)
qed

text \<open>C25: Three-phase commit blocks: when a participant has timed out and aborted while the coordinator is
  in the precommit phase, the coordinator and every participant in that phase stay in it for ever and
  their timeouts only report that a partition may block. \<close>

theorem three_pc_blocks:
  assumes "three_pc_starts s0" and "three_pc_step\<^sup>*\<^sup>* s0 s" and "three_pc_step\<^sup>*\<^sup>* s s'"
    and "p \<in> c3_participants (th_coordinator s)" and "p3_phase (th_participant s p) = PhAborted"
    and "c3_phase (th_coordinator s) = PhPreCommit"
    and "q \<in> c3_participants (th_coordinator s)" and "p3_phase (th_participant s q) = PhPreCommit"
  shows "c3_phase (th_coordinator s') = PhPreCommit \<and> p3_phase (th_participant s' q) = PhPreCommit \<and>
    fst (c3_timeout (th_coordinator s')) = Inl PartitionMayBlock \<and>
    fst (p3_timeout (th_participant s' q)) = Inl PartitionMayBlock"
proof -
  have blocked: "three_pc_blocked s p"
    using assms(1,2,4-6) three_pc.inv_starts three_pc.inv_run by (auto simp: three_pc_blocked_def)
  have "three_pc_blocked s' p \<and> three_pc_members s' = three_pc_members s \<and>
      p3_phase (th_participant s' q) = PhPreCommit"
    using assms(3)
  proof (induction rule: rtranclp_induct)
    case base
    show ?case using blocked assms(8) by simp
  next
    case (step y z)
    have "three_pc_blocked z p" using three_pc_blocked_step step by blast
    moreover have "p3_phase (th_participant z q) = PhPreCommit"
      by (rule blocked_member_step [OF step(2)]) (use step(3) assms(7) in auto)
    ultimately show ?case using three_pc.members_step [OF step(2)] step(3) by simp
  qed
  then show ?thesis by (simp add: three_pc_blocked_def c3_timeout_def p3_timeout_def)
qed

theorem three_pc_blocks_witness:
  "\<exists>s. three_pc_step\<^sup>*\<^sup>* sample_three_pc s \<and> p3_phase (th_participant s (NodeId ''b'')) = PhAborted \<and>
     p3_phase (th_participant s (NodeId ''a'')) = PhPreCommit \<and>
     fst (c3_timeout (th_coordinator s)) = Inl PartitionMayBlock"
proof -
  from blocked_run_result obtain s where s: "moves three_pc_move blocked_run sample_three_pc = Some s"
    "c3_phase (th_coordinator s) = PhPreCommit" "p3_phase (th_participant s (NodeId ''a'')) = PhPreCommit"
    "p3_phase (th_participant s (NodeId ''b'')) = PhAborted" by auto
  from moves_run [OF three_pc_move_step this(1)] have run: "three_pc_step\<^sup>*\<^sup>* sample_three_pc s" .
  have "c3_participants (th_coordinator s) = {NodeId ''a'', NodeId ''b''}"
    using three_pc.members_run [OF run] by (simp add: sample_three_pc_def)
  with three_pc_blocks [OF samples_start(2) run rtranclp.rtrancl_refl, of "NodeId ''b''" "NodeId ''a''"] s run
  show ?thesis by auto
qed

end
