(* ===== verification/Commit_Progress.thy ===== *)
theory Commit_Progress
  imports Commit_Properties
begin

text \<open>
  Two-phase commit never blocks while its coordinator runs: from every state of a run some continuation gives
  every participant the same outcome, and it is a commit as long as nobody has aborted. Three-phase
  commit, where participants time out, has no such property (\<open>three_pc_blocks\<close>).
\<close>

section \<open>What has been sent\<close>

definition two_pc_sent :: "two_pc \<Rightarrow> bool" where
  "two_pc_sent s \<longleftrightarrow>
     (case co_phase (tp_coordinator s) of
        Idle \<Rightarrow> True
      | Preparing \<Rightarrow> DoPrepare \<in> tp_actions s
      | Decided DecideCommit \<Rightarrow> DoCommit \<in> tp_actions s
      | Decided DecideAbort \<Rightarrow> DoAbort \<in> tp_actions s)"

lemma two_pc_sent_step: "two_pc_step s s' \<Longrightarrow> two_pc_sent s \<Longrightarrow> two_pc_sent s'"
  by (induction rule: two_pc_step.induct)
    (auto simp: two_pc_sent_def coordinator_defs Let_def split: if_splits coordinator_phase.splits decision.splits)

lemma two_pc_run_inv:
  assumes "two_pc_starts s0" and "two_pc_step\<^sup>*\<^sup>* s0 s"
  shows "two_pc_inv s" and "two_pc_sent s" and "finite (two_pc_members s)" and "two_pc_members s \<noteq> {}"
proof -
  from assms(1) obtain ps where ps: "coordinator_new ps = Inr (tp_coordinator s0)" by (auto simp: two_pc_starts_def)
  note new = coordinator_new_fields [OF ps]
  show "two_pc_inv s" using two_pc.inv_run [OF assms(2) two_pc_inv_starts [OF assms(1)]] .
  show "finite (two_pc_members s)" "two_pc_members s \<noteq> {}"
    using two_pc.members_run [OF assms(2)] new(1,2) by simp_all
  show "two_pc_sent s"
    using assms(2)
  proof (induction rule: rtranclp_induct)
    case base
    then show ?case by (simp add: two_pc_sent_def new(5))
  qed (rule two_pc_sent_step)
qed

section \<open>One action for every participant\<close>

lemma deliver_all:
  assumes "finite P" and "P \<subseteq> two_pc_members s" and inv: "two_pc_inv s"
    and one: "\<And>t p. two_pc_inv t \<Longrightarrow> two_pc_members t = two_pc_members s \<Longrightarrow> tp_coordinator t = tp_coordinator s \<Longrightarrow>
      tp_actions t = tp_actions s \<Longrightarrow> p \<in> P \<Longrightarrow> tp_participant t p = tp_participant s p \<Longrightarrow>
      \<exists>u. two_pc_step\<^sup>*\<^sup>* t u \<and> tp_coordinator u = tp_coordinator t \<and> tp_actions u = tp_actions t \<and>
        tp_votes t \<subseteq> tp_votes u \<and> (\<forall>q. q \<noteq> p \<longrightarrow> tp_participant u q = tp_participant t q) \<and> Q (tp_participant u p)"
  shows "\<exists>u. two_pc_step\<^sup>*\<^sup>* s u \<and> tp_coordinator u = tp_coordinator s \<and> tp_actions u = tp_actions s \<and>
    tp_votes s \<subseteq> tp_votes u \<and> (\<forall>q. q \<notin> P \<longrightarrow> tp_participant u q = tp_participant s q) \<and> (\<forall>p\<in>P. Q (tp_participant u p))"
  using assms(1,2) one
proof (induction P)
  case empty
  show ?case by (rule exI [of _ s]) simp
next
  case (insert p P)
  have "\<exists>t. two_pc_step\<^sup>*\<^sup>* s t \<and> tp_coordinator t = tp_coordinator s \<and> tp_actions t = tp_actions s \<and>
      tp_votes s \<subseteq> tp_votes t \<and> (\<forall>q. q \<notin> P \<longrightarrow> tp_participant t q = tp_participant s q) \<and> (\<forall>p\<in>P. Q (tp_participant t p))"
    by (rule insert.IH) (use insert.prems in auto)
  then obtain t where t: "two_pc_step\<^sup>*\<^sup>* s t" "tp_coordinator t = tp_coordinator s" "tp_actions t = tp_actions s"
    "tp_votes s \<subseteq> tp_votes t" "\<forall>q. q \<notin> P \<longrightarrow> tp_participant t q = tp_participant s q" "\<forall>p\<in>P. Q (tp_participant t p)"
    by blast
  have "two_pc_inv t" using two_pc.inv_run [OF t(1) inv] .
  moreover have "tp_participant t p = tp_participant s p" using t(5) insert.hyps(2) by blast
  ultimately obtain u where u: "two_pc_step\<^sup>*\<^sup>* t u" "tp_coordinator u = tp_coordinator t" "tp_actions u = tp_actions t"
    "tp_votes t \<subseteq> tp_votes u" "\<forall>q. q \<noteq> p \<longrightarrow> tp_participant u q = tp_participant t q" "Q (tp_participant u p)"
    using insert.prems(2) [of t p] t(2,3) by auto
  have "\<forall>q\<in>P. Q (tp_participant u q)" using t(6) u(5) insert.hyps(2) by metis
  with t u rtranclp_trans [OF t(1) u(1)] show ?case by (intro exI [of _ u]) auto
qed

lemma abort_all:
  assumes "two_pc_inv s" and "finite (two_pc_members s)" and "DoAbort \<in> tp_actions s"
  shows "\<exists>u. two_pc_step\<^sup>*\<^sup>* s u \<and> (\<forall>p\<in>two_pc_members s. pa_phase (tp_participant u p) = Aborted)"
proof -
  have "\<exists>u. two_pc_step\<^sup>*\<^sup>* s u \<and> tp_coordinator u = tp_coordinator s \<and> tp_actions u = tp_actions s \<and>
    tp_votes s \<subseteq> tp_votes u \<and> (\<forall>q. q \<notin> two_pc_members s \<longrightarrow> tp_participant u q = tp_participant s q) \<and>
    (\<forall>p\<in>two_pc_members s. pa_phase (tp_participant u p) = Aborted)"
  proof (rule deliver_all [OF assms(2) _ assms(1)])
    fix t p
    assume t: "two_pc_inv t" "two_pc_members t = two_pc_members s" "tp_actions t = tp_actions s" "p \<in> two_pc_members s"
    obtain res n where st: "participant_abort (tp_participant t p) = (res, n)" by fastforce
    have "pa_phase (tp_participant t p) \<noteq> Committed" using t assms(3) by (auto simp: two_pc_inv_def)
    then have n: "pa_phase n = Aborted" using st by (auto simp: participant_abort_def split: if_splits)
    from two_pc_step.aborts [OF _ st] t(3) assms(3) n
    show "\<exists>u. two_pc_step\<^sup>*\<^sup>* t u \<and> tp_coordinator u = tp_coordinator t \<and> tp_actions u = tp_actions t \<and>
        tp_votes t \<subseteq> tp_votes u \<and> (\<forall>q. q \<noteq> p \<longrightarrow> tp_participant u q = tp_participant t q) \<and>
        pa_phase (tp_participant u p) = Aborted"
      by (intro exI [of _ "t\<lparr>tp_participant := (tp_participant t)(p := n)\<rparr>"]) auto
  qed simp
  then show ?thesis by blast
qed

lemma commit_all:
  assumes "two_pc_inv s" and "finite (two_pc_members s)" and "DoCommit \<in> tp_actions s"
  shows "\<exists>u. two_pc_step\<^sup>*\<^sup>* s u \<and> (\<forall>p\<in>two_pc_members s. pa_phase (tp_participant u p) = Committed)"
proof -
  have "\<exists>u. two_pc_step\<^sup>*\<^sup>* s u \<and> tp_coordinator u = tp_coordinator s \<and> tp_actions u = tp_actions s \<and>
    tp_votes s \<subseteq> tp_votes u \<and> (\<forall>q. q \<notin> two_pc_members s \<longrightarrow> tp_participant u q = tp_participant s q) \<and>
    (\<forall>p\<in>two_pc_members s. pa_phase (tp_participant u p) = Committed)"
  proof (rule deliver_all [OF assms(2) _ assms(1)])
    fix t p
    assume t: "two_pc_inv t" "two_pc_members t = two_pc_members s" "tp_actions t = tp_actions s" "p \<in> two_pc_members s"
    obtain res n where st: "participant_commit (tp_participant t p) = (res, n)" by fastforce
    have "co_phase (tp_coordinator t) = Decided DecideCommit" using t assms(3) by (auto simp: two_pc_inv_def)
    with t have "(p, SayPrepared) \<in> tp_votes t" "DoAbort \<notin> tp_actions t"
      by (auto simp: two_pc_inv_def coordinator_ok_def)
    with t(1) have "pa_phase (tp_participant t p) = Prepared \<or> pa_phase (tp_participant t p) = Committed"
      by (cases "pa_phase (tp_participant t p)") (auto simp: two_pc_inv_def)
    then have n: "pa_phase n = Committed" using st by (auto simp: participant_commit_def split: if_splits)
    from two_pc_step.commits [OF _ st] t(3) assms(3) n
    show "\<exists>u. two_pc_step\<^sup>*\<^sup>* t u \<and> tp_coordinator u = tp_coordinator t \<and> tp_actions u = tp_actions t \<and>
        tp_votes t \<subseteq> tp_votes u \<and> (\<forall>q. q \<noteq> p \<longrightarrow> tp_participant u q = tp_participant t q) \<and>
        pa_phase (tp_participant u p) = Committed"
      by (intro exI [of _ "t\<lparr>tp_participant := (tp_participant t)(p := n)\<rparr>"]) auto
  qed simp
  then show ?thesis by blast
qed

section \<open>Deciding\<close>

text \<open>A participant that has not aborted answers a prepare request with a prepared vote.\<close>

lemma prepare_all:
  assumes "two_pc_inv s" and "finite (two_pc_members s)" and "DoPrepare \<in> tp_actions s"
    and "co_phase (tp_coordinator s) = Preparing"
    and "\<And>p. p \<in> two_pc_members s \<Longrightarrow> pa_phase (tp_participant s p) \<noteq> Aborted"
  shows "\<exists>u. two_pc_step\<^sup>*\<^sup>* s u \<and> tp_coordinator u = tp_coordinator s \<and>
    (\<forall>p\<in>two_pc_members s. (p, SayPrepared) \<in> tp_votes u)"
proof -
  have "\<exists>u. two_pc_step\<^sup>*\<^sup>* s u \<and> tp_coordinator u = tp_coordinator s \<and> tp_actions u = tp_actions s \<and>
    tp_votes s \<subseteq> tp_votes u \<and> (\<forall>q. q \<notin> two_pc_members s \<longrightarrow> tp_participant u q = tp_participant s q) \<and>
    (\<forall>p\<in>two_pc_members s. pa_phase (tp_participant u p) = Prepared)"
  proof (rule deliver_all [OF assms(2) _ assms(1)])
    fix t p
    assume t: "two_pc_inv t" "two_pc_members t = two_pc_members s" "tp_coordinator t = tp_coordinator s"
      "tp_actions t = tp_actions s" "p \<in> two_pc_members s" "tp_participant t p = tp_participant s p"
    obtain v n where st: "participant_prepare True (tp_participant t p) = (v, n)" by fastforce
    have "pa_phase (tp_participant t p) \<noteq> Committed"
      using t(1,2,3,5) assms(4) unfolding two_pc_inv_def by (metis coordinator_phase.distinct(5))
    with assms(5) t(5,6) have n: "pa_phase n = Prepared"
      using st by (auto simp: participant_prepare_def split: participant_phase.splits)
    from two_pc_step.prepares [OF _ st] t(4) assms(3) n
    show "\<exists>u. two_pc_step\<^sup>*\<^sup>* t u \<and> tp_coordinator u = tp_coordinator t \<and> tp_actions u = tp_actions t \<and>
        tp_votes t \<subseteq> tp_votes u \<and> (\<forall>q. q \<noteq> p \<longrightarrow> tp_participant u q = tp_participant t q) \<and>
        pa_phase (tp_participant u p) = Prepared"
      by (intro exI [of _ "t\<lparr>tp_participant := (tp_participant t)(p := n), tp_votes := insert (p, v) (tp_votes t)\<rparr>"]) auto
  qed simp
  then obtain u where u: "two_pc_step\<^sup>*\<^sup>* s u" "tp_coordinator u = tp_coordinator s"
    "\<forall>p\<in>two_pc_members s. pa_phase (tp_participant u p) = Prepared" by blast
  with two_pc.inv_run [OF u(1) assms(1)] show ?thesis by (intro exI [of _ u]) (auto simp: two_pc_inv_def)
qed

lemma vote_all:
  assumes "two_pc_inv s" and "finite (two_pc_members s)" and "co_phase (tp_coordinator s) = Preparing"
    and "\<And>p. p \<in> two_pc_members s \<Longrightarrow> (p, SayPrepared) \<in> tp_votes s"
  shows "\<exists>u. two_pc_step\<^sup>*\<^sup>* s u \<and> DoCommit \<in> tp_actions u"
  using assms
proof (induction "card (two_pc_members s - co_prepared (tp_coordinator s))" arbitrary: s rule: less_induct)
  case less
  let ?c = "tp_coordinator s"
  have "co_prepared ?c \<subseteq> co_participants ?c" "co_prepared ?c \<noteq> co_participants ?c"
    using less.prems(1,3) by (auto simp: two_pc_inv_def coordinator_ok_def)
  then obtain p where p: "p \<in> co_participants ?c" "p \<notin> co_prepared ?c" by auto
  obtain r c where st: "vote_prepared p ?c = (r, c)" by fastforce
  with p(1) less.prems(3) obtain a where r: "r = Inr a" by (auto simp: vote_prepared_def Let_def split: if_splits)
  let ?s = "s\<lparr>tp_coordinator := c, tp_actions := set_option a \<union> tp_actions s\<rparr>"
  have step: "two_pc_step s ?s" using two_pc_step.votes_prepared [OF less.prems(4) [OF p(1)]] st r by simp
  show ?case
  proof (cases "insert p (co_prepared ?c) = co_participants ?c")
    case True
    then have "DoCommit \<in> tp_actions ?s" using st r p(1) less.prems(3) by (auto simp: vote_prepared_def Let_def)
    with step show ?thesis by blast
  next
    case False
    then have c: "c = ?c\<lparr>co_prepared := insert p (co_prepared ?c)\<rparr>"
      using st p(1) less.prems(3) by (auto simp: vote_prepared_def Let_def)
    have "\<exists>u. two_pc_step\<^sup>*\<^sup>* ?s u \<and> DoCommit \<in> tp_actions u"
    proof (rule less.hyps)
      have "co_participants ?c - insert p (co_prepared ?c) \<subset> co_participants ?c - co_prepared ?c" using p by blast
      from psubset_card_mono [OF _ this] less.prems(2)
      show "card (two_pc_members ?s - co_prepared (tp_coordinator ?s)) < card (two_pc_members s - co_prepared (tp_coordinator s))"
        by (simp add: c)
      show "two_pc_inv ?s" by (rule two_pc_inv_step [OF step less.prems(1)])
    qed (use less.prems c in auto)
    with step show ?thesis by (meson converse_rtranclp_into_rtranclp)
  qed
qed

lemma reach_preparing:
  assumes "two_pc_sent s" and "coordinator_decision (tp_coordinator s) = None"
  shows "\<exists>t. two_pc_step\<^sup>*\<^sup>* s t \<and> co_phase (tp_coordinator t) = Preparing \<and> DoPrepare \<in> tp_actions t \<and>
    tp_participant t = tp_participant s"
proof (cases "co_phase (tp_coordinator s)")
  case Idle
  then have "coordinator_begin (tp_coordinator s) = (Inr DoPrepare, (tp_coordinator s)\<lparr>co_phase := Preparing\<rparr>)"
    by (simp add: coordinator_begin_def)
  from two_pc_step.begins [OF this] show ?thesis
    by (intro exI [of _ "s\<lparr>tp_coordinator := (tp_coordinator s)\<lparr>co_phase := Preparing\<rparr>,
      tp_actions := insert DoPrepare (tp_actions s)\<rparr>"]) auto
qed (use assms in \<open>auto simp: two_pc_sent_def coordinator_decision_def\<close>)

lemma two_pc_same_outcome:
  assumes "two_pc_starts s0" and "two_pc_step\<^sup>*\<^sup>* s0 s"
  shows "\<exists>u. two_pc_step\<^sup>*\<^sup>* s u \<and>
    ((\<forall>p\<in>two_pc_members s0. pa_phase (tp_participant u p) = Committed) \<or>
     (\<forall>p\<in>two_pc_members s0. pa_phase (tp_participant u p) = Aborted))"
proof -
  note I = two_pc_run_inv [OF assms] and M = two_pc.members_run [OF assms(2)]
  show ?thesis
  proof (cases "coordinator_decision (tp_coordinator s)")
    case None
    from reach_preparing [OF I(2) None] obtain t where t: "two_pc_step\<^sup>*\<^sup>* s t" "co_phase (tp_coordinator t) = Preparing"
      by blast
    have run: "two_pc_step\<^sup>*\<^sup>* s0 t" using assms(2) t(1) by simp
    note It = two_pc_run_inv [OF assms(1) run] and Mt = two_pc.members_run [OF run]
    from It(4) obtain p where "p \<in> two_pc_members t" by blast
    with t(2) obtain c where "vote_abort p (tp_coordinator t) = (Inr DoAbort, c)" by (auto simp: vote_abort_def)
    from two_pc_step.votes_abort [OF this]
    have step: "two_pc_step t (t\<lparr>tp_coordinator := c, tp_actions := insert DoAbort (tp_actions t)\<rparr>)" (is "two_pc_step t ?t") .
    have run': "two_pc_step\<^sup>*\<^sup>* s0 ?t" using run step by simp
    from abort_all [OF two_pc_run_inv(1,3) [OF assms(1) run']] obtain u where
      "two_pc_step\<^sup>*\<^sup>* ?t u" "\<forall>p\<in>two_pc_members ?t. pa_phase (tp_participant u p) = Aborted" by auto
    moreover have "two_pc_step\<^sup>*\<^sup>* s ?t" using t(1) step by simp
    ultimately show ?thesis using two_pc.members_run [OF run'] by (metis rtranclp_trans)
  next
    case (Some d)
    show ?thesis
    proof (cases d)
      case DecideCommit
      with Some I(2) have "DoCommit \<in> tp_actions s"
        by (auto simp: two_pc_sent_def coordinator_decision_def split: coordinator_phase.splits)
      from commit_all [OF I(1,3) this] M show ?thesis by auto
    next
      case DecideAbort
      with Some I(2) have "DoAbort \<in> tp_actions s"
        by (auto simp: two_pc_sent_def coordinator_decision_def split: coordinator_phase.splits)
      from abort_all [OF I(1,3) this] M show ?thesis by auto
    qed
  qed
qed

lemma two_pc_can_commit:
  assumes "two_pc_starts s0" and "two_pc_step\<^sup>*\<^sup>* s0 s" and "coordinator_decision (tp_coordinator s) \<noteq> Some DecideAbort"
    and "\<And>p. p \<in> two_pc_members s0 \<Longrightarrow> pa_phase (tp_participant s p) \<noteq> Aborted"
  shows "\<exists>u. two_pc_step\<^sup>*\<^sup>* s u \<and> (\<forall>p\<in>two_pc_members s0. pa_phase (tp_participant u p) = Committed)"
proof -
  note I = two_pc_run_inv [OF assms(1,2)]
  have "\<exists>t. two_pc_step\<^sup>*\<^sup>* s t \<and> DoCommit \<in> tp_actions t"
  proof (cases "coordinator_decision (tp_coordinator s)")
    case None
    from reach_preparing [OF I(2) None] obtain t where t: "two_pc_step\<^sup>*\<^sup>* s t" "co_phase (tp_coordinator t) = Preparing"
      "DoPrepare \<in> tp_actions t" "tp_participant t = tp_participant s" by blast
    have run: "two_pc_step\<^sup>*\<^sup>* s0 t" using assms(2) t(1) by simp
    note It = two_pc_run_inv [OF assms(1) run] and Mt = two_pc.members_run [OF run]
    from prepare_all [OF It(1,3) t(3,2)] assms(4) t(4) Mt obtain u where u: "two_pc_step\<^sup>*\<^sup>* t u"
      "tp_coordinator u = tp_coordinator t" "\<forall>p\<in>two_pc_members t. (p, SayPrepared) \<in> tp_votes u" by auto
    have run': "two_pc_step\<^sup>*\<^sup>* s0 u" using run u(1) by simp
    from vote_all [OF two_pc_run_inv(1,3) [OF assms(1) run']] u(2,3) t(2) obtain w where
      "two_pc_step\<^sup>*\<^sup>* u w" "DoCommit \<in> tp_actions w" by auto
    with t(1) u(1) show ?thesis by (metis rtranclp_trans)
  next
    case (Some d)
    with assms(3) I(2) have "DoCommit \<in> tp_actions s"
      by (cases d) (auto simp: two_pc_sent_def coordinator_decision_def split: coordinator_phase.splits)
    then show ?thesis by blast
  qed
  then obtain t where t: "two_pc_step\<^sup>*\<^sup>* s t" "DoCommit \<in> tp_actions t" by blast
  have run: "two_pc_step\<^sup>*\<^sup>* s0 t" using assms(2) t(1) by simp
  from commit_all [OF two_pc_run_inv(1,3) [OF assms(1) run] t(2)] obtain u where
    "two_pc_step\<^sup>*\<^sup>* t u" "\<forall>p\<in>two_pc_members t. pa_phase (tp_participant u p) = Committed" by blast
  with t(1) two_pc.members_run [OF run] show ?thesis by (metis rtranclp_trans)
qed

section \<open>Property\<close>

text \<open>C23: Two-phase commit does not block: from every state of a run there is a continuation in which all
  participants get the same outcome, and one in which all of them commit as long as no participant has
  aborted and the coordinator has not decided to. \<close>

theorem two_pc_never_blocks:
  assumes "two_pc_starts s0" and "two_pc_step\<^sup>*\<^sup>* s0 s"
  shows "(\<exists>u. two_pc_step\<^sup>*\<^sup>* s u \<and>
      ((\<forall>p \<in> co_participants (tp_coordinator s0). pa_phase (tp_participant u p) = Committed) \<or>
       (\<forall>p \<in> co_participants (tp_coordinator s0). pa_phase (tp_participant u p) = Aborted))) \<and>
    (coordinator_decision (tp_coordinator s) \<noteq> Some DecideAbort \<and>
      (\<forall>p \<in> co_participants (tp_coordinator s0). pa_phase (tp_participant s p) \<noteq> Aborted) \<longrightarrow>
      (\<exists>u. two_pc_step\<^sup>*\<^sup>* s u \<and>
        (\<forall>p \<in> co_participants (tp_coordinator s0). pa_phase (tp_participant u p) = Committed)))"
  using two_pc_same_outcome [OF assms] two_pc_can_commit [OF assms] by blast

theorem two_pc_never_blocks_witness:
  "\<exists>u. two_pc_step\<^sup>*\<^sup>* sample_two_pc u \<and> pa_phase (tp_participant u (NodeId ''a'')) = Committed \<and>
     pa_phase (tp_participant u (NodeId ''b'')) = Committed"
proof -
  have "coordinator_decision (tp_coordinator sample_two_pc) \<noteq> Some DecideAbort"
    "\<forall>p \<in> co_participants (tp_coordinator sample_two_pc). pa_phase (tp_participant sample_two_pc p) \<noteq> Aborted"
    "co_participants (tp_coordinator sample_two_pc) = {NodeId ''a'', NodeId ''b''}"
    by (auto simp: sample_two_pc_def coordinator_decision_def participant_new_def)
  with two_pc_never_blocks [OF samples_start(1) rtranclp.rtrancl_refl] show ?thesis by auto
qed

end
