(* ===== verification/Paxos_Node.thy ===== *)
theory Paxos_Node
  imports Iron_Id "HOL-Library.Mapping" "HOL-Library.AList_Mapping"
begin

text \<open>
  One Multi-Paxos node (\<open>iron-multipaxos/src/lib.rs\<close>): proposer, acceptor and learner.

  Ballots are ordered as the derived \<open>Ord\<close> orders them: by round, then by proposer. A \<open>BTreeMap\<close> is a
  mapping, read in the order of its keys; a \<open>BTreeSet\<close> of node ids is a finite set.
\<close>

section \<open>Ballots, values and messages\<close>

datatype ballot = Ballot (bl_round: u64) (bl_proposer: node_id)

instantiation ballot :: linorder
begin

definition less_eq_ballot :: "ballot \<Rightarrow> ballot \<Rightarrow> bool" where
  "less_eq_ballot a b \<longleftrightarrow> bl_round a < bl_round b \<or> bl_round a = bl_round b \<and> bl_proposer a \<le> bl_proposer b"

definition less_ballot :: "ballot \<Rightarrow> ballot \<Rightarrow> bool" where
  "less_ballot a b \<longleftrightarrow> bl_round a < bl_round b \<or> bl_round a = bl_round b \<and> bl_proposer a < bl_proposer b"

instance
  by standard (auto simp: less_eq_ballot_def less_ballot_def intro: ballot.expand)

end

record paxos_value =
  pv_slot :: u64
  pv_command :: bytes

datatype paxos_message =
    Prepare ballot
  | Promise ballot "(ballot \<times> paxos_value) list"
  | Accept ballot paxos_value
  | AcceptedVote ballot node_id paxos_value
  | Decision ballot paxos_value

record paxos_outbound =
  px_to :: node_id
  px_message :: paxos_message

datatype paxos_error = InvalidMembership | BallotOverflow | NotProposer | InvalidSlot

record paxos_node =
  pn_id :: node_id
  pn_members :: "node_id set"
  pn_ballot :: ballot
  pn_promised :: "ballot option"
  pn_accepted :: "(u64, ballot \<times> paxos_value) mapping"
  pn_promises :: "node_id set"
  pn_accepted_votes :: "(u64, node_id set) mapping"

type_synonym paxos_result = "(paxos_error + paxos_outbound list) \<times> paxos_node"

section \<open>Operations\<close>

definition paxos_new :: "node_id \<Rightarrow> node_id list \<Rightarrow> paxos_error + paxos_node" where
  "paxos_new i members =
     (if set members = {} \<or> i \<notin> set members then Inl InvalidMembership
      else Inr \<lparr>pn_id = i, pn_members = set members, pn_ballot = Ballot 0 i, pn_promised = None,
                pn_accepted = Mapping.empty, pn_promises = {}, pn_accepted_votes = Mapping.empty\<rparr>)"

definition paxos_majority :: "paxos_node \<Rightarrow> nat" where
  "paxos_majority n = card (pn_members n) div 2 + 1"

text \<open>One message to every given node, in the order the membership iterates.\<close>

definition to_all :: "node_id set \<Rightarrow> paxos_message \<Rightarrow> paxos_outbound list" where
  "to_all M msg = map (\<lambda>p. \<lparr>px_to = p, px_message = msg\<rparr>) (sorted_list_of_set M)"

definition start_round :: "paxos_node \<Rightarrow> paxos_result" where
  "start_round n =
     (case checked_add (bl_round (pn_ballot n)) 1 of
        None \<Rightarrow> (Inl BallotOverflow, n)
      | Some r \<Rightarrow>
          let n = n\<lparr>pn_ballot := Ballot r (bl_proposer (pn_ballot n)), pn_promises := {pn_id n}\<rparr>
          in (Inr (to_all (pn_members n - {pn_id n}) (Prepare (pn_ballot n))), n))"

definition paxos_propose :: "paxos_value \<Rightarrow> paxos_node \<Rightarrow> paxos_result" where
  "paxos_propose value n =
     (if pv_slot value = 0 then (Inl InvalidSlot, n)
      else if card (pn_promises n) < paxos_majority n then (Inl NotProposer, n)
      else (Inr (to_all (pn_members n) (Accept (pn_ballot n) value)), n))"

text \<open>The shared update of \<open>restore_accepted\<close> and \<open>promise\<close>: only a newer ballot replaces a value.\<close>

definition keep_newer ::
  "ballot \<times> paxos_value \<Rightarrow> (u64, ballot \<times> paxos_value) mapping \<Rightarrow> (u64, ballot \<times> paxos_value) mapping" where
  "keep_newer entry m =
     (let slot = pv_slot (snd entry);
          replace_it = (case Mapping.lookup m slot of None \<Rightarrow> True | Some (current, _) \<Rightarrow> fst entry > current)
      in if replace_it then Mapping.update slot entry m else m)"

definition restore_accepted ::
  "ballot \<Rightarrow> paxos_value \<Rightarrow> paxos_node \<Rightarrow> (paxos_error + unit) \<times> paxos_node" where
  "restore_accepted b value n =
     (if pv_slot value = 0 then (Inl InvalidSlot, n)
      else (Inr (), n\<lparr>pn_accepted := keep_newer (b, value) (pn_accepted n)\<rparr>))"

definition accepted_values :: "paxos_node \<Rightarrow> (ballot \<times> paxos_value) list" where
  "accepted_values n =
     map (\<lambda>slot. the (Mapping.lookup (pn_accepted n) slot)) (Mapping.ordered_keys (pn_accepted n))"

definition paxos_prepare :: "node_id \<Rightarrow> ballot \<Rightarrow> paxos_node \<Rightarrow> paxos_result" where
  "paxos_prepare proposer b n =
     (if (case pn_promised n of None \<Rightarrow> False | Some current \<Rightarrow> current > b) then (Inr [], n)
      else let n = n\<lparr>pn_promised := Some b\<rparr>
        in (Inr [\<lparr>px_to = proposer, px_message = Promise b (accepted_values n)\<rparr>], n))"

definition paxos_promise ::
  "node_id \<Rightarrow> ballot \<Rightarrow> (ballot \<times> paxos_value) list \<Rightarrow> paxos_node \<Rightarrow> paxos_result" where
  "paxos_promise sender b accepted n =
     (if b \<noteq> pn_ballot n then (Inr [], n)
      else (Inr [], n\<lparr>pn_promises := insert sender (pn_promises n),
                      pn_accepted := fold keep_newer accepted (pn_accepted n)\<rparr>))"

definition paxos_accept :: "ballot \<Rightarrow> paxos_value \<Rightarrow> paxos_node \<Rightarrow> paxos_result" where
  "paxos_accept b value n =
     (if (case pn_promised n of None \<Rightarrow> False | Some current \<Rightarrow> current > b) then (Inr [], n)
      else let n = n\<lparr>pn_promised := Some b, pn_accepted := Mapping.update (pv_slot value) (b, value) (pn_accepted n)\<rparr>
        in (Inr [\<lparr>px_to = bl_proposer b, px_message = AcceptedVote b (pn_id n) value\<rparr>], n))"

definition votes_at :: "u64 \<Rightarrow> paxos_node \<Rightarrow> node_id set" where
  "votes_at slot n = (case Mapping.lookup (pn_accepted_votes n) slot of None \<Rightarrow> {} | Some votes \<Rightarrow> votes)"

definition paxos_accepted_vote :: "ballot \<Rightarrow> node_id \<Rightarrow> paxos_value \<Rightarrow> paxos_node \<Rightarrow> paxos_result" where
  "paxos_accepted_vote b acceptor value n =
     (if b \<noteq> pn_ballot n then (Inr [], n)
      else let votes = insert acceptor (votes_at (pv_slot value) n);
               n = n\<lparr>pn_accepted_votes := Mapping.update (pv_slot value) votes (pn_accepted_votes n)\<rparr>
        in (Inr (if card votes \<ge> paxos_majority n then to_all (pn_members n) (Decision b value) else []), n))"

definition paxos_receive :: "node_id \<Rightarrow> paxos_message \<Rightarrow> paxos_node \<Rightarrow> paxos_result" where
  "paxos_receive sender msg n =
     (case msg of
        Prepare b \<Rightarrow> paxos_prepare sender b n
      | Promise b accepted \<Rightarrow> paxos_promise sender b accepted n
      | Accept b value \<Rightarrow> paxos_accept b value n
      | AcceptedVote b acceptor value \<Rightarrow> paxos_accepted_vote b acceptor value n
      | Decision b value \<Rightarrow>
          (Inr [], n\<lparr>pn_accepted := Mapping.update (pv_slot value) (b, value) (pn_accepted n)\<rparr>))"

lemmas paxos_defs [step_defs] = start_round_def paxos_propose_def paxos_prepare_def paxos_promise_def
  paxos_accept_def paxos_accepted_vote_def

section \<open>One node\<close>

datatype paxos_input = StartRound | ProposeValue paxos_value | RestoreAccepted ballot paxos_value | Deliver node_id paxos_message

fun paxos_step :: "paxos_input \<Rightarrow> paxos_node \<Rightarrow> paxos_result" where
  "paxos_step StartRound n = start_round n"
| "paxos_step (ProposeValue value) n = paxos_propose value n"
| "paxos_step (RestoreAccepted b value) n = map_prod (map_sum id (\<lambda>_. [])) id (restore_accepted b value n)"
| "paxos_step (Deliver sender msg) n = paxos_receive sender msg n"

definition promise_le :: "ballot option \<Rightarrow> ballot option \<Rightarrow> bool" where
  "promise_le a b \<longleftrightarrow> (case a of None \<Rightarrow> True | Some x \<Rightarrow> (case b of None \<Rightarrow> False | Some y \<Rightarrow> x \<le> y))"

lemma promise_le_simps [simp]:
  "promise_le None b" "promise_le (Some x) (Some y) \<longleftrightarrow> x \<le> y" "\<not> promise_le (Some x) None"
  "promise_le a a"
  by (auto simp: promise_le_def split: option.splits)

lemma promise_le_trans: "promise_le a b \<Longrightarrow> promise_le b c \<Longrightarrow> promise_le a c"
  by (auto simp: promise_le_def split: option.splits)

definition paxos_node_ok :: "paxos_node \<Rightarrow> bool" where
  "paxos_node_ok n \<longleftrightarrow> finite (pn_members n) \<and> pn_id n \<in> pn_members n \<and>
     bl_proposer (pn_ballot n) = pn_id n"

lemma paxos_new_fields:
  assumes "paxos_new i members = Inr n"
  shows "pn_id n = i" "pn_members n = set members" "pn_ballot n = Ballot 0 i" "pn_promised n = None"
    "pn_promises n = {}" "pn_accepted_votes n = Mapping.empty" "pn_accepted n = Mapping.empty" "paxos_node_ok n"
  using assms by (auto simp: paxos_new_def paxos_node_ok_def split: if_splits)

lemma paxos_step_fixed:
  "paxos_step input n = (res, n') \<Longrightarrow> pn_id n' = pn_id n \<and> pn_members n' = pn_members n \<and>
     bl_proposer (pn_ballot n') = bl_proposer (pn_ballot n)"
  by (cases input)
    (auto simp: paxos_receive_def paxos_defs restore_accepted_def Let_def split: paxos_message.splits option.splits if_splits)

lemma paxos_step_ok: "paxos_step input n = (res, n') \<Longrightarrow> paxos_node_ok n \<Longrightarrow> paxos_node_ok n'"
  using paxos_step_fixed [of input n res n'] by (simp add: paxos_node_ok_def)

text \<open>Promises and ballots only move forward.\<close>

lemma paxos_step_promised:
  "paxos_step input n = (res, n') \<Longrightarrow> promise_le (pn_promised n) (pn_promised n')"
  by (cases input)
    (auto simp: paxos_receive_def paxos_defs restore_accepted_def Let_def not_less
      split: paxos_message.splits option.splits if_splits)

lemma paxos_step_ballot: "paxos_step input n = (res, n') \<Longrightarrow> pn_ballot n \<le> pn_ballot n'"
  by (cases input)
    (auto simp: paxos_receive_def paxos_defs restore_accepted_def Let_def less_eq_ballot_def checked_add_one_less
      split: paxos_message.splits option.splits if_splits)

end
