(* ===== verification/Paxos_Cluster.thy ===== *)
theory Paxos_Cluster
  imports Paxos_Node Quorums_Majority
begin

text \<open>
  A cluster of Multi-Paxos nodes over a network that may lose, delay, duplicate and reorder messages.
  The caller may start rounds, propose any value and restore any accepted value at any moment, and may
  hand a node the prepare message of its own ballot, which \<open>start_round\<close> sends to the other members only.
\<close>

section \<open>The system\<close>

record paxos_cluster =
  pc_nodes :: "node_id \<Rightarrow> paxos_node"
  pc_net :: "(node_id \<times> node_id \<times> paxos_message) set"

definition paxos_outs :: "paxos_error + paxos_outbound list \<Rightarrow> paxos_outbound set" where
  "paxos_outs res = (case res of Inl _ \<Rightarrow> {} | Inr out \<Rightarrow> set out)"

definition paxos_update ::
  "node_id \<Rightarrow> paxos_error + paxos_outbound list \<Rightarrow> paxos_node \<Rightarrow> paxos_cluster \<Rightarrow> paxos_cluster" where
  "paxos_update i res n C =
     C\<lparr>pc_nodes := (pc_nodes C)(i := n),
       pc_net := pc_net C \<union> (\<lambda>out. (i, px_to out, px_message out)) ` paxos_outs res\<rparr>"

definition paxos_cluster_init :: "node_id set \<Rightarrow> paxos_cluster \<Rightarrow> bool" where
  "paxos_cluster_init M C \<longleftrightarrow>
     (\<forall>i\<in>M. \<exists>members. set members = M \<and> paxos_new i members = Inr (pc_nodes C i)) \<and> pc_net C = {}"

definition paxos_enabled :: "paxos_cluster \<Rightarrow> node_id \<Rightarrow> paxos_input \<Rightarrow> bool" where
  "paxos_enabled C i input \<longleftrightarrow>
     (case input of
        Deliver sender msg \<Rightarrow>
          (sender, i, msg) \<in> pc_net C \<or> sender = i \<and> msg = Prepare (pn_ballot (pc_nodes C i))
      | _ \<Rightarrow> True)"

inductive paxos_cluster_step :: "node_id set \<Rightarrow> paxos_cluster \<Rightarrow> paxos_cluster \<Rightarrow> bool" for M where
  node_step: "i \<in> M \<Longrightarrow> paxos_enabled C i input \<Longrightarrow> paxos_step input (pc_nodes C i) = (res, n) \<Longrightarrow>
    paxos_cluster_step M C (paxos_update i res n C)"

inductive paxos_reachable :: "node_id set \<Rightarrow> paxos_cluster \<Rightarrow> bool" for M where
  initial: "paxos_cluster_init M C \<Longrightarrow> paxos_reachable M C"
| step: "paxos_reachable M C \<Longrightarrow> paxos_cluster_step M C C' \<Longrightarrow> paxos_reachable M C'"

inductive_cases paxos_cluster_stepE: "paxos_cluster_step M C C'"

lemma paxos_update_simps [simp]:
  "pc_nodes (paxos_update i res n C) = (pc_nodes C)(i := n)"
  "pc_net (paxos_update i res n C) = pc_net C \<union> (\<lambda>out. (i, px_to out, px_message out)) ` paxos_outs res"
  by (simp_all add: paxos_update_def)

section \<open>What one step of a node sends\<close>

lemma to_all_message: "out \<in> set (to_all M msg) \<Longrightarrow> px_message out = msg"
  by (auto simp: to_all_def)

lemma step_out_promise:
  "paxos_step input n = (res, n') \<Longrightarrow> out \<in> paxos_outs res \<Longrightarrow> px_message out = Promise b acc \<Longrightarrow>
     pn_promised n' = Some b"
  by (cases input)
    (auto simp: paxos_receive_def paxos_defs restore_accepted_def paxos_outs_def Let_def
      split: paxos_message.splits option.splits if_splits dest!: to_all_message)

lemma step_out_accepted:
  "paxos_step input n = (res, n') \<Longrightarrow> out \<in> paxos_outs res \<Longrightarrow> px_message out = AcceptedVote b a val \<Longrightarrow>
     a = pn_id n \<and> promise_le (pn_promised n) (Some b) \<and> pn_promised n' = Some b \<and>
     (\<exists>sender. input = Deliver sender (Accept b val))"
  by (cases input)
    (auto simp: paxos_receive_def paxos_defs restore_accepted_def paxos_outs_def Let_def not_less
      split: paxos_message.splits option.splits if_splits dest!: to_all_message)

lemma step_out_accept:
  "paxos_step input n = (res, n') \<Longrightarrow> out \<in> paxos_outs res \<Longrightarrow> px_message out = Accept b val \<Longrightarrow>
     b = pn_ballot n \<and> n' = n \<and> paxos_majority n \<le> card (pn_promises n)"
  by (cases input)
    (auto simp: paxos_receive_def paxos_defs restore_accepted_def paxos_outs_def Let_def
      split: paxos_message.splits option.splits if_splits dest!: to_all_message)

lemma step_out_decision:
  "paxos_step input n = (res, n') \<Longrightarrow> out \<in> paxos_outs res \<Longrightarrow> px_message out = Decision b val \<Longrightarrow>
     b = pn_ballot n \<and> pn_ballot n' = b \<and> paxos_majority n \<le> card (votes_at (pv_slot val) n') \<and>
     (\<exists>sender a. input = Deliver sender (AcceptedVote b a val))"
  by (cases input)
    (auto simp: paxos_receive_def paxos_defs restore_accepted_def paxos_outs_def Let_def votes_at_def
      paxos_majority_def
      split: paxos_message.splits option.splits if_splits dest!: to_all_message)

lemma step_promises:
  "paxos_step input n = (res, n') \<Longrightarrow> v \<in> pn_promises n' \<Longrightarrow>
     v = pn_id n \<or> pn_ballot n' = pn_ballot n \<and>
       (v \<in> pn_promises n \<or> (\<exists>acc. input = Deliver v (Promise (pn_ballot n) acc)))"
  by (cases input)
    (auto simp: paxos_receive_def paxos_defs restore_accepted_def Let_def
      split: paxos_message.splits option.splits if_splits)

lemma step_accepted_votes:
  "paxos_step input n = (res, n') \<Longrightarrow> v \<in> votes_at slot n' \<Longrightarrow>
     v \<in> votes_at slot n \<or>
     (\<exists>sender val. input = Deliver sender (AcceptedVote (pn_ballot n) v val) \<and> pv_slot val = slot)"
  by (cases input)
    (auto simp: paxos_receive_def paxos_defs restore_accepted_def votes_at_def Let_def lookup_update'
      split: paxos_message.splits option.splits if_splits)

section \<open>The invariant\<close>

definition voted_at :: "paxos_cluster \<Rightarrow> ballot \<Rightarrow> u64 \<Rightarrow> node_id \<Rightarrow> bool" where
  "voted_at C b slot v \<longleftrightarrow> (\<exists>b' d val. (v, d, AcceptedVote b' v val) \<in> pc_net C \<and>
     pv_slot val = slot \<and> bl_proposer b' = bl_proposer b \<and> b' \<le> b)"

definition promised_to :: "paxos_cluster \<Rightarrow> ballot \<Rightarrow> node_id \<Rightarrow> bool" where
  "promised_to C b v \<longleftrightarrow> v = bl_proposer b \<or> (\<exists>d acc. (v, d, Promise b acc) \<in> pc_net C)"

definition paxos_inv :: "node_id set \<Rightarrow> paxos_cluster \<Rightarrow> bool" where
  "paxos_inv M C \<longleftrightarrow>
     (\<forall>i\<in>M. pn_id (pc_nodes C i) = i \<and> pn_members (pc_nodes C i) = M \<and> paxos_node_ok (pc_nodes C i)) \<and>
     (\<forall>v d b acc. (v, d, Promise b acc) \<in> pc_net C \<longrightarrow>
        v \<in> M \<and> promise_le (Some b) (pn_promised (pc_nodes C v))) \<and>
     (\<forall>v d b a val. (v, d, AcceptedVote b a val) \<in> pc_net C \<longrightarrow>
        a = v \<and> v \<in> M \<and> promise_le (Some b) (pn_promised (pc_nodes C v)) \<and>
        (\<exists>p d. (p, d, Accept b val) \<in> pc_net C)) \<and>
     (\<forall>i\<in>M. \<forall>v\<in>pn_promises (pc_nodes C i). promised_to C (pn_ballot (pc_nodes C i)) v) \<and>
     (\<forall>p d b val. (p, d, Accept b val) \<in> pc_net C \<longrightarrow> p = bl_proposer b \<and>
        (\<exists>Q. majority_of M Q \<and> (\<forall>v\<in>Q. promised_to C b v))) \<and>
     (\<forall>i\<in>M. \<forall>slot. \<forall>v\<in>votes_at slot (pc_nodes C i). voted_at C (pn_ballot (pc_nodes C i)) slot v) \<and>
     (\<forall>p d b val. (p, d, Decision b val) \<in> pc_net C \<longrightarrow> p = bl_proposer b \<and>
        (\<exists>v d. (v, d, AcceptedVote b v val) \<in> pc_net C) \<and>
        (\<exists>Q. majority_of M Q \<and> (\<forall>v\<in>Q. voted_at C b (pv_slot val) v)))"

lemma paxos_invD:
  assumes "paxos_inv M C"
  shows "i \<in> M \<Longrightarrow> pn_id (pc_nodes C i) = i" "i \<in> M \<Longrightarrow> pn_members (pc_nodes C i) = M"
    "i \<in> M \<Longrightarrow> paxos_node_ok (pc_nodes C i)"
    "(v, d, Promise b acc) \<in> pc_net C \<Longrightarrow> v \<in> M \<and> promise_le (Some b) (pn_promised (pc_nodes C v))"
    "(v, d, AcceptedVote b a val) \<in> pc_net C \<Longrightarrow> a = v \<and> v \<in> M \<and>
       promise_le (Some b) (pn_promised (pc_nodes C v)) \<and> (\<exists>p d. (p, d, Accept b val) \<in> pc_net C)"
    "i \<in> M \<Longrightarrow> v \<in> pn_promises (pc_nodes C i) \<Longrightarrow> promised_to C (pn_ballot (pc_nodes C i)) v"
    "(p, d, Accept b val) \<in> pc_net C \<Longrightarrow> p = bl_proposer b \<and>
       (\<exists>Q. majority_of M Q \<and> (\<forall>v\<in>Q. promised_to C b v))"
    "i \<in> M \<Longrightarrow> v \<in> votes_at slot (pc_nodes C i) \<Longrightarrow> voted_at C (pn_ballot (pc_nodes C i)) slot v"
    "(p, d, Decision b val) \<in> pc_net C \<Longrightarrow> p = bl_proposer b \<and>
        (\<exists>v d. (v, d, AcceptedVote b v val) \<in> pc_net C) \<and>
        (\<exists>Q. majority_of M Q \<and> (\<forall>v\<in>Q. voted_at C b (pv_slot val) v))"
  using assms by (auto simp: paxos_inv_def) blast+

lemma paxos_inv_init: "paxos_cluster_init M C \<Longrightarrow> paxos_inv M C"
  by (fastforce simp: paxos_cluster_init_def paxos_inv_def paxos_new_fields votes_at_def dest: paxos_new_fields)

lemma voted_at_mono:
  "voted_at C b slot v \<Longrightarrow> pc_net C \<subseteq> pc_net C' \<Longrightarrow> bl_proposer b = bl_proposer b' \<Longrightarrow> b \<le> b' \<Longrightarrow>
     voted_at C' b' slot v"
  unfolding voted_at_def by (metis subsetD order_trans)

lemma promised_to_mono: "promised_to C b v \<Longrightarrow> pc_net C \<subseteq> pc_net C' \<Longrightarrow> promised_to C' b v"
  unfolding promised_to_def by blast

lemma paxos_inv_step:
  assumes inv: "paxos_inv M C" and "paxos_cluster_step M C C'"
  shows "paxos_inv M C'"
  using assms(2)
proof (rule paxos_cluster_stepE)
  fix i input res n
  assume C': "C' = paxos_update i res n C" and i: "i \<in> M" and en: "paxos_enabled C i input"
    and st: "paxos_step input (pc_nodes C i) = (res, n)"
  let ?o = "pc_nodes C i"
  note D = paxos_invD [OF inv]
  have fixed: "pn_id n = i" "pn_members n = M" "bl_proposer (pn_ballot n) = i"
    "bl_proposer (pn_ballot ?o) = i" "paxos_node_ok n" "finite M"
    using paxos_step_fixed [OF st] paxos_step_ok [OF st D(3) [OF i]] D(1-3) [OF i]
    by (simp_all add: paxos_node_ok_def)
  have majority: "paxos_majority n = card M div 2 + 1" "paxos_majority ?o = card M div 2 + 1"
    using fixed(2) D(2) [OF i] by (simp_all add: paxos_majority_def)
  have mono: "pc_net C \<subseteq> pc_net C'" by (simp add: C')
  have new: "(v, d, msg) \<in> pc_net C \<or> v = i \<and> (\<exists>out\<in>paxos_outs res. px_message out = msg)"
    if "(v, d, msg) \<in> pc_net C'" for v d msg
    using that by (auto simp: C')
  have promised: "promise_le b (pn_promised (pc_nodes C v)) \<Longrightarrow> promise_le b (pn_promised (pc_nodes C' v))" for b v
    using paxos_step_promised [OF st] promise_le_trans by (auto simp: C')
  have promises: "promised_to C' (pn_ballot n) v" if v: "v \<in> pn_promises n" for v
    using step_promises [OF st v]
  proof (elim disjE conjE exE)
    assume "v = pn_id ?o"
    then show ?thesis using D(1) [OF i] fixed(3) by (simp add: promised_to_def)
  next
    assume "pn_ballot n = pn_ballot ?o" "v \<in> pn_promises ?o"
    then show ?thesis using promised_to_mono [OF D(6) [OF i] mono] by simp
  next
    fix acc
    assume "pn_ballot n = pn_ballot ?o" "input = Deliver v (Promise (pn_ballot ?o) acc)"
    with en mono show ?thesis by (auto simp: paxos_enabled_def promised_to_def)
  qed
  have votes: "voted_at C' (pn_ballot n) slot v" if v: "v \<in> votes_at slot n" for v slot
    using step_accepted_votes [OF st v]
  proof (elim disjE conjE exE)
    assume "v \<in> votes_at slot ?o"
    from voted_at_mono [OF D(8) [OF i this] mono _ paxos_step_ballot [OF st]] fixed(3,4) show ?thesis by simp
  next
    fix sender val
    assume *: "input = Deliver sender (AcceptedVote (pn_ballot ?o) v val)" "pv_slot val = slot"
    with en have net: "(sender, i, AcceptedVote (pn_ballot ?o) v val) \<in> pc_net C"
      by (simp add: paxos_enabled_def)
    with D(5) [OF net] have "voted_at C (pn_ballot ?o) slot v" using *(2) by (auto simp: voted_at_def)
    from voted_at_mono [OF this mono _ paxos_step_ballot [OF st]] fixed(3,4) show ?thesis by simp
  qed
  have accept: "p = bl_proposer b \<and> (\<exists>Q. majority_of M Q \<and> (\<forall>v\<in>Q. promised_to C' b v))"
    if "(p, d, Accept b val) \<in> pc_net C'" for p d b val
    using new [OF that]
  proof (elim disjE conjE bexE)
    assume "(p, d, Accept b val) \<in> pc_net C"
    from D(7) [OF this] show ?thesis using promised_to_mono mono by blast
  next
    fix out assume "p = i" "out \<in> paxos_outs res" "px_message out = Accept b val"
    with step_out_accept [OF st] have b: "b = pn_ballot ?o" "n = ?o" "paxos_majority n \<le> card (pn_promises n)"
      by auto
    then have v: "\<forall>v\<in>pn_promises n. promised_to C' b v" using promises by simp
    moreover have "pn_promises n \<subseteq> M"
    proof
      fix v assume "v \<in> pn_promises n"
      with b D(6) [OF i, of v] have "promised_to C b v" by simp
      then show "v \<in> M" using D(4) b(1) fixed(4) i by (auto simp: promised_to_def)
    qed
    ultimately have "majority_of M (pn_promises n)" using b(3) majority fixed(6) by (simp add: majority_of_def)
    with v b(1) fixed(4) \<open>p = i\<close> show ?thesis by auto
  qed
  have promise_net: "v \<in> M \<and> promise_le (Some b) (pn_promised (pc_nodes C' v))"
    if "(v, d, Promise b acc) \<in> pc_net C'" for v d b acc
    using new [OF that]
  proof (elim disjE conjE bexE)
    assume "(v, d, Promise b acc) \<in> pc_net C"
    from D(4) [OF this] promised show ?thesis by blast
  next
    fix out assume "v = i" "out \<in> paxos_outs res" "px_message out = Promise b acc"
    with step_out_promise [OF st] i show ?thesis by (simp add: C')
  qed
  have accepted_net: "a = v \<and> v \<in> M \<and> promise_le (Some b) (pn_promised (pc_nodes C' v)) \<and>
      (\<exists>p d. (p, d, Accept b val) \<in> pc_net C')"
    if "(v, d, AcceptedVote b a val) \<in> pc_net C'" for v d b a val
    using new [OF that]
  proof (elim disjE conjE bexE)
    assume "(v, d, AcceptedVote b a val) \<in> pc_net C"
    from D(5) [OF this] promised mono show ?thesis by blast
  next
    fix out assume v: "v = i" "out \<in> paxos_outs res" "px_message out = AcceptedVote b a val"
    from step_out_accepted [OF st v(2,3)] obtain sender where
      a: "a = pn_id ?o" "pn_promised n = Some b" "input = Deliver sender (Accept b val)" by blast
    with en mono have "(sender, i, Accept b val) \<in> pc_net C'" by (auto simp: paxos_enabled_def)
    with a v(1) i D(1) [OF i] show ?thesis by (auto simp: C')
  qed
  have decision: "p = bl_proposer b \<and> (\<exists>v d. (v, d, AcceptedVote b v val) \<in> pc_net C') \<and>
      (\<exists>Q. majority_of M Q \<and> (\<forall>v\<in>Q. voted_at C' b (pv_slot val) v))"
    if "(p, d, Decision b val) \<in> pc_net C'" for p d b val
    using new [OF that]
  proof (elim disjE conjE bexE)
    assume "(p, d, Decision b val) \<in> pc_net C"
    from D(9) [OF this] show ?thesis using voted_at_mono [OF _ mono refl order_refl] mono by blast
  next
    fix out assume p: "p = i" "out \<in> paxos_outs res" "px_message out = Decision b val"
    let ?Q = "votes_at (pv_slot val) n"
    from step_out_decision [OF st p(2,3)] obtain sender a where b: "b = pn_ballot ?o" "pn_ballot n = b"
      "paxos_majority ?o \<le> card ?Q" "input = Deliver sender (AcceptedVote b a val)" by auto
    with en have net: "(sender, i, AcceptedVote b a val) \<in> pc_net C" by (simp add: paxos_enabled_def)
    from votes b(2) have v: "\<forall>v\<in>?Q. voted_at C' b (pv_slot val) v" by simp
    moreover have "?Q \<subseteq> M" using v accepted_net by (fastforce simp: voted_at_def)
    ultimately have "majority_of M ?Q" using b(3) majority fixed(6) by (simp add: majority_of_def)
    moreover have "p = bl_proposer b" using b(1) fixed(4) p(1) by simp
    moreover have "(sender, i, AcceptedVote b sender val) \<in> pc_net C'" using net D(5) [OF net] mono by auto
    ultimately show ?thesis using v by blast
  qed
  show ?thesis
    unfolding paxos_inv_def
  proof (intro conjI ballI allI impI)
    fix k assume k: "k \<in> M"
    show "pn_id (pc_nodes C' k) = k" "pn_members (pc_nodes C' k) = M" "paxos_node_ok (pc_nodes C' k)"
      using D(1-3) [OF k] fixed by (auto simp: C')
    show "v \<in> pn_promises (pc_nodes C' k) \<Longrightarrow> promised_to C' (pn_ballot (pc_nodes C' k)) v" for v
      using promises promised_to_mono [OF D(6) [OF k] mono] by (cases "k = i") (auto simp: C')
    show "v \<in> votes_at slot (pc_nodes C' k) \<Longrightarrow> voted_at C' (pn_ballot (pc_nodes C' k)) slot v" for v slot
      using votes voted_at_mono [OF D(8) [OF k] mono refl order_refl] by (cases "k = i") (auto simp: C')
  qed (use promise_net accepted_net accept decision in blast)+
qed

lemma paxos_inv_reachable: "paxos_reachable M C \<Longrightarrow> paxos_inv M C"
  by (induction rule: paxos_reachable.induct) (auto intro: paxos_inv_init paxos_inv_step)

end
