(* ===== verification/Paxos_Properties.thy ===== *)
theory Paxos_Properties
  imports Paxos_Cluster
begin

text \<open>
  The properties of the Multi-Paxos crate, with witnesses on executable runs of three nodes.
\<close>

section \<open>Executable runs\<close>

text \<open>Runs from a list of inputs, by a caller that gives an input only where \<open>rule\<close> allows it.\<close>

fun paxos_exec ::
  "(paxos_cluster \<Rightarrow> node_id \<Rightarrow> paxos_input \<Rightarrow> bool) \<Rightarrow> node_id set \<Rightarrow> (node_id \<times> paxos_input) list
   \<Rightarrow> paxos_cluster \<Rightarrow> paxos_cluster option" where
  "paxos_exec rule M [] C = Some C"
| "paxos_exec rule M ((i, input) # inputs) C =
     (if i \<in> M \<and> paxos_enabled C i input \<and> rule C i input
      then (case paxos_step input (pc_nodes C i) of (res, n) \<Rightarrow> paxos_exec rule M inputs (paxos_update i res n C))
      else None)"

abbreviation any_input :: "paxos_cluster \<Rightarrow> node_id \<Rightarrow> paxos_input \<Rightarrow> bool" where
  "any_input \<equiv> \<lambda>_ _ _. True"

lemma paxos_exec_reachable:
  "paxos_exec rule M inputs C = Some C' \<Longrightarrow> paxos_reachable M C \<Longrightarrow> paxos_reachable M C'"
proof (induction rule M inputs C rule: paxos_exec.induct)
  case (2 rule M i input inputs C)
  obtain res n where st: "paxos_step input (pc_nodes C i) = (res, n)" by fastforce
  with 2(2) have "i \<in> M" "paxos_enabled C i input" "paxos_exec rule M inputs (paxos_update i res n C) = Some C'"
    by (auto split: if_splits)
  moreover from this 2(3) st have "paxos_reachable M (paxos_update i res n C)"
    by (blast intro: paxos_reachable.step node_step)
  ultimately show ?case using 2(1) 2(2) st by (auto split: if_splits)
qed simp

abbreviation pa :: node_id where "pa \<equiv> NodeId ''a''"
abbreviation pb :: node_id where "pb \<equiv> NodeId ''b''"
abbreviation pc :: node_id where "pc \<equiv> NodeId ''c''"

definition paxos_members :: "node_id set" where
  "paxos_members = set [pa, pb, pc]"

definition sample_paxos :: paxos_cluster where
  "sample_paxos =
     \<lparr>pc_nodes = (\<lambda>i. case paxos_new i [pa, pb, pc] of Inr n \<Rightarrow> n), pc_net = {}\<rparr>"

lemma sample_paxos_init: "paxos_cluster_init paxos_members sample_paxos"
proof -
  have "paxos_new i [pa, pb, pc] = Inr (pc_nodes sample_paxos i)" if "i \<in> paxos_members" for i
    using that by (simp add: sample_paxos_def paxos_new_def paxos_members_def) blast
  moreover have "set [pa, pb, pc] = paxos_members" by (simp only: paxos_members_def)
  moreover have "pc_net sample_paxos = {}" by (simp add: sample_paxos_def)
  ultimately show ?thesis unfolding paxos_cluster_init_def by blast
qed

lemmas sample_paxos_reachable = paxos_reachable.initial [OF sample_paxos_init]

abbreviation value_x :: paxos_value where "value_x \<equiv> \<lparr>pv_slot = 1, pv_command = [1]\<rparr>"
abbreviation value_y :: paxos_value where "value_y \<equiv> \<lparr>pv_slot = 1, pv_command = [2]\<rparr>"

definition first_round :: "(node_id \<times> paxos_input) list" where
  "first_round =
     [(pa, StartRound),
      (pb, Deliver pa (Prepare (Ballot 1 pa))),
      (pa, Deliver pb (Promise (Ballot 1 pa) [])),
      (pa, ProposeValue value_x),
      (pb, Deliver pa (Accept (Ballot 1 pa) value_x)),
      (pa, Deliver pb (AcceptedVote (Ballot 1 pa) pb value_x))]"

section \<open>Acceptors\<close>

text \<open>C27: Acceptors keep their promises: once a node has sent a promise for a ballot, then in whatever
  states the cluster reaches after that, no input makes it send an accepted vote for a lower ballot, be it
  a new message or one it has sent before. \<close>

theorem acceptors_keep_promises:
  assumes "paxos_reachable M C" and "(v, d, Promise b acc) \<in> pc_net C"
    and "(paxos_cluster_step M)\<^sup>*\<^sup>* C C'" and "paxos_step input (pc_nodes C' v) = (Inr out, n)"
    and "x \<in> set out" and "px_message x = AcceptedVote b' a val"
  shows "b \<le> b'"
proof -
  have later: "paxos_reachable M C' \<and> (v, d, Promise b acc) \<in> pc_net C'"
    using assms(3,1,2) by (induction rule: rtranclp_induct)
      (auto elim!: paxos_cluster_stepE intro: paxos_reachable.step [OF _ node_step])
  have "promise_le (pn_promised (pc_nodes C' v)) (Some b')"
    using step_out_accepted [OF assms(4) _ assms(6)] assms(5) by (simp add: paxos_outs_def)
  moreover have "promise_le (Some b) (pn_promised (pc_nodes C' v))"
    using paxos_invD(4) [OF paxos_inv_reachable] later by blast
  ultimately show "b \<le> b'" using promise_le_trans promise_le_simps(2) by blast
qed

text \<open>Node \<open>b\<close> has voted in ballot 1 and then promised ballot 2; when the accept message of ballot 1 is
  delivered a second time it does not send its vote again, and in ballot 2 it votes.\<close>

definition promised_again :: "(node_id \<times> paxos_input) list" where
  "promised_again = first_round @
     [(pa, StartRound),
      (pb, Deliver pa (Prepare (Ballot 2 pa))),
      (pa, Deliver pb (Promise (Ballot 2 pa) [(Ballot 1 pa, value_x)])),
      (pa, ProposeValue value_x)]"

lemma promised_again_run:
  "map_option (\<lambda>C. (pb, pa, Promise (Ballot 2 pa) [(Ballot 1 pa, value_x)]) \<in> pc_net C \<and>
       (pb, pa, AcceptedVote (Ballot 1 pa) pb value_x) \<in> pc_net C \<and>
       paxos_enabled C pb (Deliver pa (Accept (Ballot 1 pa) value_x)) \<and>
       fst (paxos_step (Deliver pa (Accept (Ballot 2 pa) value_x)) (pc_nodes C pb)) =
         Inr [\<lparr>px_to = pa, px_message = AcceptedVote (Ballot 2 pa) pb value_x\<rparr>])
     (paxos_exec any_input paxos_members promised_again sample_paxos) = Some True"
  by code_simp

theorem acceptors_keep_promises_witness:
  "\<exists>C. paxos_reachable paxos_members C \<and>
     (pb, pa, Promise (Ballot 2 pa) [(Ballot 1 pa, value_x)]) \<in> pc_net C \<and>
     (pb, pa, AcceptedVote (Ballot 1 pa) pb value_x) \<in> pc_net C \<and>
     paxos_enabled C pb (Deliver pa (Accept (Ballot 1 pa) value_x)) \<and>
     (\<forall>input out n x a val. paxos_step input (pc_nodes C pb) = (Inr out, n) \<and> x \<in> set out \<longrightarrow>
        px_message x \<noteq> AcceptedVote (Ballot 1 pa) a val) \<and>
     fst (paxos_step (Deliver pa (Accept (Ballot 2 pa) value_x)) (pc_nodes C pb)) =
       Inr [\<lparr>px_to = pa, px_message = AcceptedVote (Ballot 2 pa) pb value_x\<rparr>]"
proof -
  from promised_again_run obtain C where
    run: "paxos_exec any_input paxos_members promised_again sample_paxos = Some C"
    and C: "(pb, pa, Promise (Ballot 2 pa) [(Ballot 1 pa, value_x)]) \<in> pc_net C"
      "(pb, pa, AcceptedVote (Ballot 1 pa) pb value_x) \<in> pc_net C"
      "paxos_enabled C pb (Deliver pa (Accept (Ballot 1 pa) value_x))"
      "fst (paxos_step (Deliver pa (Accept (Ballot 2 pa) value_x)) (pc_nodes C pb)) =
         Inr [\<lparr>px_to = pa, px_message = AcceptedVote (Ballot 2 pa) pb value_x\<rparr>]"
    by auto
  note reach = paxos_exec_reachable [OF run sample_paxos_reachable]
  have "px_message x \<noteq> AcceptedVote (Ballot 1 pa) a val"
    if "paxos_step input (pc_nodes C pb) = (Inr out, n)" "x \<in> set out" for input out n x a val
    using acceptors_keep_promises [OF reach C(1) rtranclp.rtrancl_refl that, of "Ballot 1 pa" a val]
    by (auto simp: less_eq_ballot_def)
  with reach C show ?thesis by blast
qed

section \<open>Proposals and decisions\<close>

text \<open>A ballot is proposed only by its owner and only with the promises of a majority (the owner
  counted), so for any two proposals some member promised both ballots, where owning one counts. \<close>

lemma proposals_share_a_promiser:
  assumes "paxos_reachable M C"
    and "(p, d, Accept b val) \<in> pc_net C" and "(p', d', Accept b' val') \<in> pc_net C"
  shows "p = bl_proposer b \<and> p' = bl_proposer b' \<and> (\<exists>v. promised_to C b v \<and> promised_to C b' v)"
proof -
  note D = paxos_invD(7) [OF paxos_inv_reachable [OF assms(1)]]
  obtain Q where Q: "majority_of M Q" "\<forall>v\<in>Q. promised_to C b v" using D [OF assms(2)] by blast
  obtain Q' where Q': "majority_of M Q'" "\<forall>v\<in>Q'. promised_to C b' v" using D [OF assms(3)] by blast
  from majority.intersect [OF Q(1) Q'(1)] Q(2) Q'(2) D [OF assms(2)] D [OF assms(3)] show ?thesis by blast
qed

text \<open>What a decision guarantees: its value was proposed in its ballot and accepted there by a node, and
  a majority of the members accepted some value for its slot in ballots of its proposer up to it. \<close>

lemma decisions_have_votes:
  assumes "paxos_reachable M C" and "(p, d, Decision b val) \<in> pc_net C"
  shows "p = bl_proposer b \<and> (\<exists>d. (p, d, Accept b val) \<in> pc_net C) \<and>
    (\<exists>v d. (v, d, AcceptedVote b v val) \<in> pc_net C) \<and>
    (\<exists>Q. majority_of M Q \<and> (\<forall>v\<in>Q. voted_at C b (pv_slot val) v))"
proof -
  note D = paxos_invD [OF paxos_inv_reachable [OF assms(1)]]
  from D(9) [OF assms(2)] obtain v e where "(v, e, AcceptedVote b v val) \<in> pc_net C" by blast
  from D(5) [OF this] D(7) have "\<exists>d. (bl_proposer b, d, Accept b val) \<in> pc_net C" by blast
  with D(9) [OF assms(2)] show ?thesis by blast
qed

section \<open>Restoring accepted values\<close>

definition slot_entries :: "u64 \<Rightarrow> (ballot \<times> paxos_value) list \<Rightarrow> (ballot \<times> paxos_value) list" where
  "slot_entries slot es = filter (\<lambda>e. pv_slot (snd e) = slot) es"

text \<open>Merging recorded values, as recovery and promises do, keeps for every slot an entry of the highest
  ballot among the value the node had and the recorded ones, whatever their order. \<close>

lemma merge_keeps_newest:
  "case Mapping.lookup (fold keep_newer es m) slot of
     None \<Rightarrow> Mapping.lookup m slot = None \<and> slot_entries slot es = []
   | Some e \<Rightarrow> e \<in> set_option (Mapping.lookup m slot) \<union> set (slot_entries slot es) \<and>
       list_all (\<lambda>x. fst x \<le> fst e) (slot_entries slot es) \<and>
       pred_option (\<lambda>x. fst x \<le> fst e) (Mapping.lookup m slot)"
proof (induction es arbitrary: m)
  case Nil
  show ?case by (auto simp: slot_entries_def split: option.split)
next
  case (Cons x es)
  obtain b w where x: "x = (b, w)" by fastforce
  have new: "Mapping.lookup (keep_newer x m) slot =
      (if pv_slot w = slot
       then (case Mapping.lookup m slot of None \<Rightarrow> Some x | Some e \<Rightarrow> if fst e < b then Some x else Some e)
       else Mapping.lookup m slot)"
    by (auto simp: keep_newer_def x Let_def lookup_update' split: option.splits)
  show ?case
    using Cons.IH [of "keep_newer x m"] new x
    by (auto simp: slot_entries_def split: option.splits if_splits)
qed

end
