(* ===== verification/Paxos_Agreement.thy ===== *)
theory Paxos_Agreement
  imports Paxos_Properties
begin

text \<open>
  Agreement of the Multi-Paxos crate under a careful caller. The runs of \<open>decisions_can_differ\<close> show that
  the crate alone does not decide one value per slot; this theory states what its caller has to add
  (\<open>careful\<close>) and proves that then it does. The invariant is the one of Paxos: a proposed value is safe at
  every lower ballot, and what an acceptor reports covers every vote it has cast.
\<close>

section \<open>The careful caller\<close>

text \<open>
  The caller starts a round only while its node has recorded no vote, and has its node promise its own
  ballot before it collects promises or proposes. It proposes the value its node has accepted for the slot,
  if any, and never two values for one slot in one ballot. It restores only values that were proposed.
\<close>

definition own_promise :: "paxos_node \<Rightarrow> bool" where
  "own_promise n \<longleftrightarrow> promise_le (Some (pn_ballot n)) (pn_promised n)"

definition careful :: "paxos_cluster \<Rightarrow> node_id \<Rightarrow> paxos_input \<Rightarrow> bool" where
  "careful C i input \<longleftrightarrow>
     (let n = pc_nodes C i in
      case input of
        StartRound \<Rightarrow> Mapping.is_empty (pn_accepted_votes n)
      | ProposeValue v \<Rightarrow> own_promise n \<and>
          (case Mapping.lookup (pn_accepted n) (pv_slot v) of None \<Rightarrow> True | Some (_, w) \<Rightarrow> v = w) \<and>
          (\<forall>x\<in>pc_net C. case snd (snd x) of
              Accept b w \<Rightarrow> b = pn_ballot n \<and> pv_slot w = pv_slot v \<longrightarrow> w = v
            | _ \<Rightarrow> True)
      | RestoreAccepted b v \<Rightarrow> (\<exists>x\<in>pc_net C. snd (snd x) = Accept b v)
      | Deliver _ msg \<Rightarrow> (case msg of Promise _ _ \<Rightarrow> own_promise n | _ \<Rightarrow> True))"

inductive careful_reachable :: "node_id set \<Rightarrow> paxos_cluster \<Rightarrow> bool" for M where
  initial: "paxos_cluster_init M C \<Longrightarrow> careful_reachable M C"
| step: "careful_reachable M C \<Longrightarrow> i \<in> M \<Longrightarrow> paxos_enabled C i input \<Longrightarrow> careful C i input \<Longrightarrow>
    paxos_step input (pc_nodes C i) = (res, n) \<Longrightarrow> careful_reachable M (paxos_update i res n C)"

lemma careful_reachable_reachable: "careful_reachable M C \<Longrightarrow> paxos_reachable M C"
  by (induction rule: careful_reachable.induct) (blast intro: paxos_reachable.intros node_step)+

lemma carefulD:
  "careful C i StartRound \<Longrightarrow> Mapping.is_empty (pn_accepted_votes (pc_nodes C i))"
  "careful C i (ProposeValue v) \<Longrightarrow> own_promise (pc_nodes C i)"
  "careful C i (ProposeValue v) \<Longrightarrow>
     Mapping.lookup (pn_accepted (pc_nodes C i)) (pv_slot v) = Some e \<Longrightarrow> snd e = v"
  "careful C i (ProposeValue v) \<Longrightarrow> (p, d, Accept (pn_ballot (pc_nodes C i)) w) \<in> pc_net C \<Longrightarrow>
     pv_slot w = pv_slot v \<Longrightarrow> w = v"
  "careful C i (RestoreAccepted b v) \<Longrightarrow> \<exists>p d. (p, d, Accept b v) \<in> pc_net C"
  "careful C i (Deliver s (Promise b acc)) \<Longrightarrow> own_promise (pc_nodes C i)"
  by (fastforce simp: careful_def Let_def split: option.splits)+

section \<open>What a step does to the accepted values\<close>

lemma keep_newer_lookup:
  "Mapping.lookup (keep_newer (b, w) m) slot =
     (if pv_slot w = slot
      then (case Mapping.lookup m slot of None \<Rightarrow> Some (b, w) | Some e \<Rightarrow> if fst e < b then Some (b, w) else Some e)
      else Mapping.lookup m slot)"
  by (auto simp: keep_newer_def Let_def lookup_update' split: option.splits)

lemma merged_lookup:
  assumes "Mapping.lookup (fold keep_newer es m) slot = Some e"
  shows "Mapping.lookup m slot = Some e \<or> e \<in> set es \<and> pv_slot (snd e) = slot"
  using merge_keeps_newest [where es = es and m = m and slot = slot] assms by (auto simp: slot_entries_def)

lemma merged_above:
  assumes "Mapping.lookup m slot = Some x \<or> x \<in> set es \<and> pv_slot (snd x) = slot"
  obtains e where "Mapping.lookup (fold keep_newer es m) slot = Some e" "fst x \<le> fst e"
proof (cases "Mapping.lookup (fold keep_newer es m) slot")
  case None
  with merge_keeps_newest [where es = es and m = m and slot = slot] assms show thesis
    by (auto simp: slot_entries_def filter_empty_conv)
next
  case (Some e)
  with merge_keeps_newest [where es = es and m = m and slot = slot] assms have "fst x \<le> fst e"
    by (cases x) (auto simp: slot_entries_def list_all_iff)
  with Some that show thesis by blast
qed

definition entry_source :: "paxos_input \<Rightarrow> ballot \<times> paxos_value \<Rightarrow> bool" where
  "entry_source input e \<longleftrightarrow>
     (case input of
        RestoreAccepted b v \<Rightarrow> e = (b, v)
      | Deliver _ (Promise _ acc) \<Rightarrow> e \<in> set acc
      | Deliver _ (Accept b v) \<Rightarrow> e = (b, v)
      | Deliver _ (Decision b v) \<Rightarrow> e = (b, v)
      | _ \<Rightarrow> False)"

lemma step_entries:
  "paxos_step input n = (res, n') \<Longrightarrow> Mapping.lookup (pn_accepted n') slot = Some e \<Longrightarrow>
     Mapping.lookup (pn_accepted n) slot = Some e \<or> entry_source input e \<and> pv_slot (snd e) = slot"
  by (cases input)
    (auto simp: paxos_receive_def paxos_defs restore_accepted_def Let_def entry_source_def lookup_update'
      keep_newer_lookup dest!: merged_lookup split: paxos_message.splits option.splits if_splits)

lemma step_entries_kept:
  "paxos_step input n = (res, n') \<Longrightarrow> Mapping.lookup (pn_accepted n) slot = Some e \<Longrightarrow>
     \<exists>e'. Mapping.lookup (pn_accepted n') slot = Some e' \<and>
       (fst e \<le> fst e' \<or> (\<exists>s. input = Deliver s (Decision (fst e') (snd e'))) \<or>
        promise_le (pn_promised n) (Some (fst e')))"
proof (cases input)
  case (RestoreAccepted b v)
  assume "paxos_step input n = (res, n')" "Mapping.lookup (pn_accepted n) slot = Some e"
  with RestoreAccepted show ?thesis
    by (cases e) (auto simp: restore_accepted_def keep_newer_lookup less_imp_le split: if_splits)
next
  case (Deliver s msg)
  assume *: "paxos_step input n = (res, n')" "Mapping.lookup (pn_accepted n) slot = Some e"
  show ?thesis
  proof (cases msg)
    case (Promise b acc)
    obtain e' where "Mapping.lookup (fold keep_newer acc (pn_accepted n)) slot = Some e'" "fst e \<le> fst e'"
      by (rule merged_above [where m = "pn_accepted n" and slot = slot and x = e and es = acc]) (use * in auto)
    with * Deliver Promise show ?thesis
      by (cases e; cases e') (auto simp: paxos_receive_def paxos_promise_def split: if_splits)
  qed (use * Deliver in \<open>cases e; auto simp: paxos_receive_def paxos_defs Let_def lookup_update' not_less
      split: option.splits if_splits\<close>)+
qed (cases e; auto simp: paxos_defs Let_def split: option.splits if_splits)+

lemma finite_keys_merge: "finite (Mapping.keys m) \<Longrightarrow> finite (Mapping.keys (fold keep_newer es m))"
  by (induction es arbitrary: m) (auto simp: keep_newer_def Let_def)

lemma step_finite_keys:
  "paxos_step input n = (res, n') \<Longrightarrow> finite (Mapping.keys (pn_accepted n)) \<Longrightarrow> finite (Mapping.keys (pn_accepted n'))"
  by (cases input)
    (auto simp: paxos_receive_def paxos_defs restore_accepted_def Let_def finite_keys_merge keep_newer_def
      split: paxos_message.splits option.splits if_splits)

lemma accepted_values_lookup:
  assumes "finite (Mapping.keys (pn_accepted n))"
  shows "e \<in> set (accepted_values n) \<longleftrightarrow> (\<exists>slot. Mapping.lookup (pn_accepted n) slot = Some e)"
proof -
  have "e \<in> set (accepted_values n) \<longleftrightarrow>
      e \<in> (\<lambda>slot. the (Mapping.lookup (pn_accepted n) slot)) ` Mapping.keys (pn_accepted n)"
    using assms by (simp add: accepted_values_def)
  also have "\<dots> \<longleftrightarrow> (\<exists>slot. Mapping.lookup (pn_accepted n) slot = Some e)"
    by (force simp: keys_dom_lookup)
  finally show ?thesis .
qed

section \<open>The invariant\<close>

definition proposed :: "paxos_cluster \<Rightarrow> ballot \<Rightarrow> paxos_value \<Rightarrow> bool" where
  "proposed C b v \<longleftrightarrow> (\<exists>p d. (p, d, Accept b v) \<in> pc_net C)"

definition vote_cast :: "paxos_cluster \<Rightarrow> node_id \<Rightarrow> ballot \<Rightarrow> paxos_value \<Rightarrow> bool" where
  "vote_cast C a b v \<longleftrightarrow> (\<exists>d. (a, d, AcceptedVote b a v) \<in> pc_net C)"

definition decided :: "paxos_cluster \<Rightarrow> ballot \<Rightarrow> paxos_value \<Rightarrow> bool" where
  "decided C b v \<longleftrightarrow> (\<exists>p d. (p, d, Decision b v) \<in> pc_net C)"

text \<open>A value is safe at a ballot when a majority can vote for no other value of the slot there any more.\<close>

definition safe_at :: "node_id set \<Rightarrow> paxos_cluster \<Rightarrow> ballot \<Rightarrow> paxos_value \<Rightarrow> bool" where
  "safe_at M C b w \<longleftrightarrow> (\<exists>Q. majority_of M Q \<and> (\<forall>a\<in>Q.
     (\<exists>x. pn_promised (pc_nodes C a) = Some x \<and> b < x) \<and>
     (\<forall>v. vote_cast C a b v \<longrightarrow> pv_slot v = pv_slot w \<longrightarrow> v = w)))"

text \<open>An entry covers the votes up to its ballot, and all votes when it repeats a decision.\<close>

definition covers :: "paxos_cluster \<Rightarrow> ballot \<times> paxos_value \<Rightarrow> ballot \<Rightarrow> bool" where
  "covers C e b \<longleftrightarrow> b \<le> fst e \<or> (\<exists>d\<le>fst e. decided C d (snd e))"

definition recorded :: "paxos_cluster \<Rightarrow> paxos_node \<Rightarrow> ballot \<Rightarrow> paxos_value \<Rightarrow> bool" where
  "recorded C n b v \<longleftrightarrow> (\<exists>e. Mapping.lookup (pn_accepted n) (pv_slot v) = Some e \<and> covers C e b)"

definition entries_inv :: "paxos_cluster \<Rightarrow> paxos_node \<Rightarrow> bool" where
  "entries_inv C n \<longleftrightarrow> finite (Mapping.keys (pn_accepted n)) \<and>
     (\<forall>slot e. Mapping.lookup (pn_accepted n) slot = Some e \<longrightarrow> pv_slot (snd e) = slot \<and> proposed C (fst e) (snd e))"

definition node_safe :: "paxos_cluster \<Rightarrow> node_id \<Rightarrow> paxos_node \<Rightarrow> bool" where
  "node_safe C i n \<longleftrightarrow> entries_inv C n \<and>
     (\<forall>b v. vote_cast C i b v \<longrightarrow> recorded C n b v) \<and>
     (pn_promises n \<subseteq> {i} \<or> own_promise n) \<and>
     (\<forall>a\<in>pn_promises n. \<forall>b v. vote_cast C a b v \<longrightarrow> b < pn_ballot n \<longrightarrow> recorded C n b v) \<and>
     (\<forall>slot. \<forall>a\<in>votes_at slot n. \<exists>v. vote_cast C a (pn_ballot n) v \<and> pv_slot v = slot)"

definition net_safe :: "node_id set \<Rightarrow> paxos_cluster \<Rightarrow> bool" where
  "net_safe M C \<longleftrightarrow>
     (\<forall>b v w. proposed C b v \<longrightarrow> proposed C b w \<longrightarrow> pv_slot v = pv_slot w \<longrightarrow> v = w) \<and>
     (\<forall>b w c. proposed C b w \<longrightarrow> c < b \<longrightarrow> safe_at M C c w) \<and>
     (\<forall>b v. decided C b v \<longrightarrow> (\<exists>Q. majority_of M Q \<and> (\<forall>a\<in>Q. vote_cast C a b v))) \<and>
     (\<forall>a d b acc. (a, d, Promise b acc) \<in> pc_net C \<longrightarrow>
        (\<forall>e\<in>set acc. proposed C (fst e) (snd e)) \<and>
        (\<forall>c v. vote_cast C a c v \<longrightarrow> c < b \<longrightarrow> (\<exists>e\<in>set acc. pv_slot (snd e) = pv_slot v \<and> covers C e c)))"

definition agreement_inv :: "node_id set \<Rightarrow> paxos_cluster \<Rightarrow> bool" where
  "agreement_inv M C \<longleftrightarrow> paxos_inv M C \<and> net_safe M C \<and> (\<forall>i\<in>M. node_safe C i (pc_nodes C i))"

lemma net_safeD:
  assumes "net_safe M C"
  shows "proposed C b v \<Longrightarrow> proposed C b w \<Longrightarrow> pv_slot v = pv_slot w \<Longrightarrow> v = w"
    "proposed C b w \<Longrightarrow> c < b \<Longrightarrow> safe_at M C c w"
    "decided C b v \<Longrightarrow> \<exists>Q. majority_of M Q \<and> (\<forall>a\<in>Q. vote_cast C a b v)"
    "(a, d, Promise b acc) \<in> pc_net C \<Longrightarrow> e \<in> set acc \<Longrightarrow> proposed C (fst e) (snd e)"
    "(a, d, Promise b acc) \<in> pc_net C \<Longrightarrow> vote_cast C a c v \<Longrightarrow> c < b \<Longrightarrow>
       \<exists>e\<in>set acc. pv_slot (snd e) = pv_slot v \<and> covers C e c"
  using assms unfolding net_safe_def by blast+

lemma node_safeD:
  assumes "node_safe C i n"
  shows "finite (Mapping.keys (pn_accepted n))"
    "Mapping.lookup (pn_accepted n) slot = Some e \<Longrightarrow> pv_slot (snd e) = slot \<and> proposed C (fst e) (snd e)"
    "vote_cast C i b v \<Longrightarrow> recorded C n b v"
    "pn_promises n \<subseteq> {i} \<or> own_promise n"
    "a \<in> pn_promises n \<Longrightarrow> vote_cast C a b v \<Longrightarrow> b < pn_ballot n \<Longrightarrow> recorded C n b v"
    "a \<in> votes_at slot n \<Longrightarrow> \<exists>v. vote_cast C a (pn_ballot n) v \<and> pv_slot v = slot"
  using assms unfolding node_safe_def entries_inv_def by blast+

lemma agreement_invD:
  assumes "agreement_inv M C"
  shows "paxos_inv M C" "net_safe M C" "i \<in> M \<Longrightarrow> node_safe C i (pc_nodes C i)"
  using assms by (auto simp: agreement_inv_def)

lemma agreement_inv_init: "paxos_cluster_init M C \<Longrightarrow> agreement_inv M C"
  unfolding agreement_inv_def
proof (intro conjI ballI)
  assume init: "paxos_cluster_init M C"
  then show "paxos_inv M C" by (rule paxos_inv_init)
  from init have net: "pc_net C = {}" by (simp add: paxos_cluster_init_def)
  then show "net_safe M C" by (simp add: net_safe_def proposed_def decided_def)
  fix i assume "i \<in> M"
  with init obtain members where "paxos_new i members = Inr (pc_nodes C i)"
    by (auto simp: paxos_cluster_init_def)
  with net show "node_safe C i (pc_nodes C i)"
    by (simp add: node_safe_def entries_inv_def vote_cast_def votes_at_def paxos_new_fields [of i members])
qed

section \<open>What the invariant says\<close>

lemma vote_proposed: "paxos_inv M C \<Longrightarrow> vote_cast C a b v \<Longrightarrow> proposed C b v"
  unfolding vote_cast_def proposed_def by (blast dest: paxos_invD(5))

lemma vote_promised: "paxos_inv M C \<Longrightarrow> vote_cast C a b v \<Longrightarrow> promise_le (Some b) (pn_promised (pc_nodes C a))"
  unfolding vote_cast_def by (blast dest: paxos_invD(5))

lemma decided_proposed: "paxos_inv M C \<Longrightarrow> net_safe M C \<Longrightarrow> decided C b v \<Longrightarrow> proposed C b v"
  by (metis net_safeD(3) vote_proposed majority.quorum_nonempty ex_in_conv)

text \<open>A decided value is the only one proposed for its slot from its ballot on.\<close>

lemma decided_then_proposed:
  assumes inv: "paxos_inv M C" "net_safe M C"
    and d: "decided C b v" and p: "proposed C c w" and le: "b \<le> c" and slot: "pv_slot v = pv_slot w"
  shows "v = w"
proof (cases "b = c")
  case True
  with net_safeD(1) [OF inv(2) decided_proposed [OF inv d]] p slot show ?thesis by simp
next
  case False
  with le have "b < c" by simp
  with net_safeD(2) [OF inv(2) p] obtain Q where Q: "majority_of M Q"
    "\<And>a. a \<in> Q \<Longrightarrow> vote_cast C a b v \<Longrightarrow> v = w" using slot unfolding safe_at_def by blast
  obtain P where P: "majority_of M P" "\<forall>a\<in>P. vote_cast C a b v" using net_safeD(3) [OF inv(2) d] by blast
  from majority.intersect [OF P(1) Q(1)] P(2) Q(2) show ?thesis by blast
qed

lemma covers_above:
  assumes inv: "paxos_inv M C" "net_safe M C"
    and "covers C e b" and "fst e \<le> fst e'" and "proposed C (fst e') (snd e')" and "pv_slot (snd e) = pv_slot (snd e')"
  shows "covers C e' b"
  using assms(3) unfolding covers_def
proof (elim disjE exE conjE)
  fix d assume d: "d \<le> fst e" "decided C d (snd e)"
  have "snd e = snd e'"
    by (rule decided_then_proposed [OF inv d(2) assms(5) _ assms(6)]) (use d(1) assms(4) in simp)
  with d assms(4) show "b \<le> fst e' \<or> (\<exists>d\<le>fst e'. decided C d (snd e'))" by auto
qed (use assms(4) in auto)

lemma covers_mono: "covers C e b \<Longrightarrow> pc_net C \<subseteq> pc_net C' \<Longrightarrow> covers C' e b"
  unfolding covers_def decided_def by blast

lemma proposed_mono: "proposed C b v \<Longrightarrow> pc_net C \<subseteq> pc_net C' \<Longrightarrow> proposed C' b v"
  unfolding proposed_def by blast

section \<open>One careful step\<close>

definition careful_action ::
  "node_id set \<Rightarrow> paxos_cluster \<Rightarrow> node_id \<Rightarrow> paxos_input \<Rightarrow> paxos_error + paxos_outbound list \<Rightarrow> paxos_node \<Rightarrow> bool" where
  "careful_action M C i input res n \<longleftrightarrow> agreement_inv M C \<and> i \<in> M \<and> paxos_enabled C i input \<and>
     careful C i input \<and> paxos_step input (pc_nodes C i) = (res, n)"

lemma careful_actionD:
  assumes "careful_action M C i input res n"
  shows "paxos_inv M C" "net_safe M C" "i \<in> M" "node_safe C i (pc_nodes C i)" "paxos_enabled C i input"
    "careful C i input" "paxos_step input (pc_nodes C i) = (res, n)" "k \<in> M \<Longrightarrow> node_safe C k (pc_nodes C k)"
    "paxos_inv M (paxos_update i res n C)"
  using assms agreement_invD [of M C] paxos_inv_step [OF _ node_step]
  by (auto simp: careful_action_def)

lemma delivered:
  "paxos_enabled C i (Deliver s msg) \<Longrightarrow> (s, i, msg) \<in> pc_net C \<or> msg = Prepare (pn_ballot (pc_nodes C i))"
  by (auto simp: paxos_enabled_def)

lemma new_message:
  "(v, d, msg) \<in> pc_net (paxos_update i res n C) \<Longrightarrow>
     (v, d, msg) \<in> pc_net C \<or> v = i \<and> (\<exists>out\<in>paxos_outs res. px_message out = msg)"
  by auto

lemma new_vote:
  assumes act: "careful_action M C i input res n" and v: "vote_cast (paxos_update i res n C) a b v"
  shows "vote_cast C a b v \<or> a = i \<and> promise_le (pn_promised (pc_nodes C i)) (Some b) \<and>
    (\<exists>s. input = Deliver s (Accept b v))"
proof -
  from v obtain d where "(a, d, AcceptedVote b a v) \<in> pc_net (paxos_update i res n C)"
    by (auto simp: vote_cast_def)
  from new_message [OF this] show ?thesis
    using step_out_accepted [OF careful_actionD(7) [OF act]] unfolding vote_cast_def by blast
qed

text \<open>Whoever promised the ballot of a promise or of a proposer votes for no lower one.\<close>

lemma promised_vote:
  assumes act: "careful_action M C i input res n" and v: "vote_cast (paxos_update i res n C) a b v"
    and p: "promise_le (Some c) (pn_promised (pc_nodes C a))" and "b < c"
  shows "vote_cast C a b v"
  using new_vote [OF act v]
proof (elim disjE conjE)
  assume "a = i" "promise_le (pn_promised (pc_nodes C i)) (Some b)"
  with p have "c \<le> b" using promise_le_trans promise_le_simps(2) by blast
  with \<open>b < c\<close> show ?thesis by simp
qed

lemma collected_promise:
  assumes "paxos_inv M C" "k \<in> M" "a \<in> pn_promises (pc_nodes C k)" "a \<noteq> k"
  shows "promise_le (Some (pn_ballot (pc_nodes C k))) (pn_promised (pc_nodes C a))"
  using paxos_invD(6) [OF assms(1-3)] paxos_invD(3) [OF assms(1,2)] paxos_invD(1) [OF assms(1,2)] assms(4)
    paxos_invD(4) [OF assms(1)]
  by (auto simp: promised_to_def paxos_node_ok_def)

lemma collected_member:
  assumes "paxos_inv M C" "k \<in> M" "a \<in> pn_promises (pc_nodes C k)"
  shows "a \<in> M"
  using paxos_invD(6) [OF assms] paxos_invD(3) [OF assms(1,2)] paxos_invD(1) [OF assms(1,2)] assms(2)
    paxos_invD(4) [OF assms(1)]
  unfolding promised_to_def paxos_node_ok_def by metis

lemma entry_source_proposed:
  assumes act: "careful_action M C i input res n" and e: "entry_source input e"
  shows "proposed C (fst e) (snd e)"
proof (cases input)
  case (RestoreAccepted b v)
  with e carefulD(5) careful_actionD(6) [OF act] show ?thesis by (auto simp: entry_source_def proposed_def)
next
  case (Deliver s msg)
  with delivered careful_actionD(5) [OF act] have net: "(s, i, msg) \<in> pc_net C \<or> msg = Prepare (pn_ballot (pc_nodes C i))"
    by blast
  show ?thesis
  proof (cases msg)
    case (Promise b acc)
    with net e Deliver show ?thesis
      by (auto simp: entry_source_def intro: net_safeD(4) [OF careful_actionD(2) [OF act]])
  next
    case (Accept b v)
    with net e Deliver show ?thesis by (auto simp: entry_source_def proposed_def)
  next
    case (Decision b v)
    with net have "decided C b v" by (auto simp: decided_def)
    from decided_proposed [OF careful_actionD(1,2) [OF act] this] e Deliver Decision show ?thesis
      by (simp add: entry_source_def)
  qed (use e Deliver in \<open>simp_all add: entry_source_def\<close>)
qed (use e in \<open>simp_all add: entry_source_def\<close>)

lemma step_entries_inv:
  assumes act: "careful_action M C i input res n"
  shows "entries_inv C n"
  unfolding entries_inv_def
  using step_finite_keys [OF careful_actionD(7) [OF act]] node_safeD(1,2) [OF careful_actionD(4) [OF act]]
    step_entries [OF careful_actionD(7) [OF act]] entry_source_proposed [OF act] by blast

lemma entries_invD:
  "entries_inv C n \<Longrightarrow> Mapping.lookup (pn_accepted n) slot = Some e \<Longrightarrow>
     pv_slot (snd e) = slot \<and> proposed C (fst e) (snd e)"
  unfolding entries_inv_def by blast

lemma entries_inv_mono: "entries_inv C n \<Longrightarrow> pc_net C \<subseteq> pc_net C' \<Longrightarrow> entries_inv C' n"
  unfolding entries_inv_def by (blast intro: proposed_mono)

lemma recorded_mono: "recorded C n b v \<Longrightarrow> pc_net C \<subseteq> pc_net C' \<Longrightarrow> recorded C' n b v"
  unfolding recorded_def by (blast intro: covers_mono)

text \<open>A recorded vote stays recorded.\<close>

lemma recorded_kept:
  assumes act: "careful_action M C i input res n" and r: "recorded C (pc_nodes C i) b v"
    and b: "promise_le (Some b) (pn_promised (pc_nodes C i))"
  shows "recorded C n b v"
proof -
  note inv = careful_actionD(1,2) [OF act] and st = careful_actionD(7) [OF act]
  from r obtain e where e: "Mapping.lookup (pn_accepted (pc_nodes C i)) (pv_slot v) = Some e" "covers C e b"
    by (auto simp: recorded_def)
  from step_entries_kept [OF st e(1)] obtain e' where e': "Mapping.lookup (pn_accepted n) (pv_slot v) = Some e'"
    and kept: "fst e \<le> fst e' \<or> (\<exists>s. input = Deliver s (Decision (fst e') (snd e'))) \<or>
      promise_le (pn_promised (pc_nodes C i)) (Some (fst e'))" by blast
  have slots: "pv_slot (snd e) = pv_slot v" "pv_slot (snd e') = pv_slot v" "proposed C (fst e') (snd e')"
    using node_safeD(2) [OF careful_actionD(4) [OF act] e(1)] entries_invD [OF step_entries_inv [OF act] e'] by auto
  from kept have "covers C e' b"
  proof (elim disjE exE)
    assume "fst e \<le> fst e'"
    with covers_above [OF inv e(2)] slots show ?thesis by simp
  next
    fix s assume "input = Deliver s (Decision (fst e') (snd e'))"
    with delivered careful_actionD(5) [OF act] have "decided C (fst e') (snd e')" by (fastforce simp: decided_def)
    then show ?thesis by (auto simp: covers_def)
  next
    assume "promise_le (pn_promised (pc_nodes C i)) (Some (fst e'))"
    from promise_le_trans [OF b this] show ?thesis by (simp add: covers_def)
  qed
  with e' show ?thesis by (auto simp: recorded_def)
qed

section \<open>The stepping node\<close>

lemma own_vote_recorded:
  assumes act: "careful_action M C i input res n" and v: "vote_cast (paxos_update i res n C) i b v"
  shows "recorded (paxos_update i res n C) n b v"
  using new_vote [OF act v]
proof (elim disjE conjE exE)
  note inv = careful_actionD(1) [OF act]
  assume v: "vote_cast C i b v"
  from recorded_kept [OF act node_safeD(3) [OF careful_actionD(4) [OF act] v] vote_promised [OF inv v]]
  show ?thesis by (rule recorded_mono) simp
next
  fix s assume "input = Deliver s (Accept b v)" "promise_le (pn_promised (pc_nodes C i)) (Some b)"
  with careful_actionD(7) [OF act] have "Mapping.lookup (pn_accepted n) (pv_slot v) = Some (b, v)"
    by (auto simp: paxos_receive_def paxos_accept_def Let_def split: option.splits if_splits)
  then show ?thesis by (auto simp: recorded_def covers_def)
qed

text \<open>The entries of a delivered promise are merged, so they cover the votes of their sender.\<close>

lemma promise_recorded:
  assumes act: "careful_action M C i (Deliver a (Promise (pn_ballot (pc_nodes C i)) acc)) res n"
    and v: "vote_cast C a b v" "b < pn_ballot (pc_nodes C i)"
  shows "recorded C n b v"
proof -
  note inv = careful_actionD(1,2) [OF act]
  from delivered [OF careful_actionD(5) [OF act]] have net: "(a, i, Promise (pn_ballot (pc_nodes C i)) acc) \<in> pc_net C"
    by simp
  from net_safeD(5) [OF inv(2) net v] obtain e where e: "e \<in> set acc" "pv_slot (snd e) = pv_slot v" "covers C e b"
    by blast
  from careful_actionD(7) [OF act] have n: "pn_accepted n = fold keep_newer acc (pn_accepted (pc_nodes C i))"
    by (auto simp: paxos_receive_def paxos_promise_def)
  obtain e' where e': "Mapping.lookup (pn_accepted n) (pv_slot v) = Some e'" "fst e \<le> fst e'"
    by (rule merged_above [where m = "pn_accepted (pc_nodes C i)" and es = acc and x = e and slot = "pv_slot v"])
      (use e n in auto)
  from entries_invD [OF step_entries_inv [OF act] e'(1)] covers_above [OF inv e(3) e'(2)] e(2)
  have "covers C e' b" by simp
  with e'(1) show ?thesis by (auto simp: recorded_def)
qed

lemma step_ballot_same: "paxos_step input n = (res, n') \<Longrightarrow> input \<noteq> StartRound \<Longrightarrow> pn_ballot n' = pn_ballot n"
  by (cases input) (auto simp: paxos_receive_def paxos_defs restore_accepted_def Let_def
      split: paxos_message.splits if_splits)

lemma step_own_promise:
  assumes "paxos_step input n = (res, n')" and "input \<noteq> StartRound" and "own_promise n"
  shows "own_promise n'"
  using promise_le_trans [OF _ paxos_step_promised [OF assms(1)]] assms(3)
  unfolding own_promise_def step_ballot_same [OF assms(1,2)] by blast

lemma promises_after_step:
  assumes act: "careful_action M C i input res n"
  shows "pn_promises n \<subseteq> {i} \<or> own_promise n"
proof -
  note st = careful_actionD(7) [OF act] and D = node_safeD(4) [OF careful_actionD(4) [OF act]]
  have id: "pn_id (pc_nodes C i) = i" using paxos_invD(1) careful_actionD(1,3) [OF act] by blast
  show ?thesis
  proof (cases input)
    case StartRound
    with st D id show ?thesis by (auto simp: start_round_def Let_def split: option.splits)
  next
    case (Deliver s msg)
    then have ns: "input \<noteq> StartRound" by simp
    show ?thesis
    proof (cases "\<exists>b acc. msg = Promise b acc")
      case True
      with carefulD(6) careful_actionD(6) [OF act] Deliver have "own_promise (pc_nodes C i)" by blast
      with step_own_promise [OF st ns] show ?thesis by blast
    next
      case False
      with st Deliver have "pn_promises n = pn_promises (pc_nodes C i)"
        by (auto simp: paxos_receive_def paxos_defs Let_def split: paxos_message.splits option.splits if_splits)
      with step_own_promise [OF st ns] D show ?thesis by auto
    qed
  qed (use st D in \<open>auto simp: paxos_propose_def restore_accepted_def own_promise_def split: if_splits\<close>)
qed

lemma promisers_recorded:
  assumes act: "careful_action M C i input res n" and a: "a \<in> pn_promises n"
    and v: "vote_cast (paxos_update i res n C) a b v" and b: "b < pn_ballot n"
  shows "recorded (paxos_update i res n C) n b v"
proof (cases "a = i")
  case True
  with own_vote_recorded [OF act] v show ?thesis by simp
next
  case False
  note st = careful_actionD(7) [OF act] and inv = careful_actionD(1) [OF act]
  note safe = careful_actionD(4) [OF act]
  have old: "vote_cast C a b v" using new_vote [OF act v] False by blast
  have id: "pn_id (pc_nodes C i) = i" using paxos_invD(1) [OF inv] careful_actionD(3) [OF act] by blast
  from step_promises [OF st a] False id have same: "pn_ballot n = pn_ballot (pc_nodes C i)"
    and src: "a \<in> pn_promises (pc_nodes C i) \<or>
      (\<exists>acc. input = Deliver a (Promise (pn_ballot (pc_nodes C i)) acc))" by auto
  from src have "recorded C n b v"
  proof (elim disjE exE)
    assume a: "a \<in> pn_promises (pc_nodes C i)"
    with node_safeD(4) [OF safe] False have "own_promise (pc_nodes C i)" by auto
    then have "promise_le (Some b) (pn_promised (pc_nodes C i))"
      unfolding own_promise_def by (rule promise_le_trans [rotated]) (use b same in simp)
    from recorded_kept [OF act node_safeD(5) [OF safe a old] this] b same show ?thesis by simp
  next
    fix acc assume "input = Deliver a (Promise (pn_ballot (pc_nodes C i)) acc)"
    with promise_recorded act old b same show ?thesis by simp
  qed
  then show ?thesis by (rule recorded_mono) simp
qed

lemma votes_after_step:
  assumes act: "careful_action M C i input res n" and a: "a \<in> votes_at slot n"
  shows "\<exists>v. vote_cast C a (pn_ballot n) v \<and> pv_slot v = slot"
proof (cases "input = StartRound \<and> pn_ballot n \<noteq> pn_ballot (pc_nodes C i)")
  case True
  with carefulD(1) careful_actionD(6) [OF act] have "Mapping.is_empty (pn_accepted_votes (pc_nodes C i))" by blast
  moreover from True careful_actionD(7) [OF act] have "pn_accepted_votes n = pn_accepted_votes (pc_nodes C i)"
    by (auto simp: start_round_def Let_def split: option.splits)
  ultimately have "votes_at slot n = {}" by (simp add: votes_at_def Mapping.is_empty_def keys_dom_lookup)
  with a show ?thesis by simp
next
  case False
  note st = careful_actionD(7) [OF act] and inv = careful_actionD(1) [OF act]
  from False step_ballot_same [OF st] have same: "pn_ballot n = pn_ballot (pc_nodes C i)" by blast
  from step_accepted_votes [OF st a] show ?thesis
  proof (elim disjE exE conjE)
    assume "a \<in> votes_at slot (pc_nodes C i)"
    with node_safeD(6) [OF careful_actionD(4) [OF act]] same show ?thesis by simp
  next
    fix s v assume "input = Deliver s (AcceptedVote (pn_ballot (pc_nodes C i)) a v)" "pv_slot v = slot"
    moreover from this delivered careful_actionD(5) [OF act]
    have net: "(s, i, AcceptedVote (pn_ballot (pc_nodes C i)) a v) \<in> pc_net C" by blast
    moreover from paxos_invD(5) [OF inv net] have "a = s" by simp
    ultimately show ?thesis using same by (auto simp: vote_cast_def)
  qed
qed

lemma stepping_node_safe:
  assumes act: "careful_action M C i input res n"
  shows "node_safe (paxos_update i res n C) i n"
  unfolding node_safe_def
proof (intro conjI allI impI ballI)
  show "entries_inv (paxos_update i res n C) n"
    by (rule entries_inv_mono [OF step_entries_inv [OF act]]) simp
  show "pn_promises n \<subseteq> {i} \<or> own_promise n" by (rule promises_after_step [OF act])
  fix slot a assume "a \<in> votes_at slot n"
  from votes_after_step [OF act this] show "\<exists>v. vote_cast (paxos_update i res n C) a (pn_ballot n) v \<and> pv_slot v = slot"
    by (auto simp: vote_cast_def)
qed (auto intro: own_vote_recorded [OF act] promisers_recorded [OF act])

lemma other_node_safe:
  assumes act: "careful_action M C i input res n" and k: "k \<in> M" "k \<noteq> i"
  shows "node_safe (paxos_update i res n C) k (pc_nodes C k)"
proof -
  note safe = careful_actionD(8) [OF act k(1)] and inv = careful_actionD(1) [OF act]
  have mono: "pc_net C \<subseteq> pc_net (paxos_update i res n C)" by simp
  show ?thesis
    unfolding node_safe_def
  proof (intro conjI allI impI ballI)
    show "entries_inv (paxos_update i res n C) (pc_nodes C k)"
      by (rule entries_inv_mono [OF _ mono]) (use safe in \<open>simp add: node_safe_def\<close>)
    show "pn_promises (pc_nodes C k) \<subseteq> {k} \<or> own_promise (pc_nodes C k)" by (rule node_safeD(4) [OF safe])
    show "\<exists>v. vote_cast (paxos_update i res n C) a (pn_ballot (pc_nodes C k)) v \<and> pv_slot v = slot"
      if "a \<in> votes_at slot (pc_nodes C k)" for slot a
      using node_safeD(6) [OF safe that] by (auto simp: vote_cast_def)
    show "recorded (paxos_update i res n C) (pc_nodes C k) b v"
      if "vote_cast (paxos_update i res n C) k b v" for b v
      using node_safeD(3) [OF safe] new_vote [OF act that] k(2) by (blast intro: recorded_mono [OF _ mono])
    show "recorded (paxos_update i res n C) (pc_nodes C k) b v"
      if a: "a \<in> pn_promises (pc_nodes C k)" and v: "vote_cast (paxos_update i res n C) a b v"
        and b: "b < pn_ballot (pc_nodes C k)" for a b v
    proof -
      have "vote_cast C a b v"
        using promised_vote [OF act v collected_promise [OF inv k(1) a] b] new_vote [OF act v] k(2)
        by (cases "a = k") auto
      from recorded_mono [OF node_safeD(5) [OF safe a this b] mono] show ?thesis .
    qed
  qed
qed

section \<open>The network\<close>

lemma safe_at_kept:
  assumes act: "careful_action M C i input res n" and s: "safe_at M C c w"
  shows "safe_at M (paxos_update i res n C) c w"
proof -
  let ?C' = "paxos_update i res n C"
  from s obtain Q where Q: "majority_of M Q" "\<And>a. a \<in> Q \<Longrightarrow> \<exists>x. pn_promised (pc_nodes C a) = Some x \<and> c < x"
    "\<And>a v. a \<in> Q \<Longrightarrow> vote_cast C a c v \<Longrightarrow> pv_slot v = pv_slot w \<Longrightarrow> v = w"
    unfolding safe_at_def by blast
  show ?thesis
    unfolding safe_at_def
  proof (rule exI [of _ Q], intro conjI ballI allI impI)
    show "majority_of M Q" by (rule Q(1))
    fix a assume a: "a \<in> Q"
    from Q(2) [OF a] obtain x where x: "pn_promised (pc_nodes C a) = Some x" "c < x" by blast
    have "promise_le (Some x) (pn_promised (pc_nodes ?C' a))"
      using paxos_step_promised [OF careful_actionD(7) [OF act]] x(1) by auto
    with x(2) show "\<exists>x. pn_promised (pc_nodes ?C' a) = Some x \<and> c < x"
      by (auto simp: promise_le_def split: option.splits)
    show "v = w" if "vote_cast ?C' a c v" "pv_slot v = pv_slot w" for v
      using Q(3) [OF a promised_vote [OF act that(1) _ x(2)] that(2)] x(1) by simp
  qed
qed

text \<open>A careful proposal is safe at every lower ballot: the majority that promised has reported its votes.\<close>

lemma proposal_safe:
  assumes inv: "paxos_inv M C" "net_safe M C" and i: "i \<in> M" and safe: "node_safe C i (pc_nodes C i)"
    and careful: "careful C i (ProposeValue v)"
    and majority: "paxos_majority (pc_nodes C i) \<le> card (pn_promises (pc_nodes C i))"
    and c: "c < pn_ballot (pc_nodes C i)"
  shows "safe_at M C c v"
proof -
  let ?n = "pc_nodes C i" let ?Q = "pn_promises ?n"
  have own: "own_promise ?n" by (rule carefulD(2) [OF careful])
  have p: "promise_le (Some (pn_ballot ?n)) (pn_promised (pc_nodes C a))" if "a \<in> ?Q" for a
    using collected_promise [OF inv(1) i that] own by (cases "a = i") (auto simp: own_promise_def)
  have "?Q \<subseteq> M"
    using collected_member [OF inv(1) i] by blast
  then have Q: "majority_of M ?Q"
    using majority paxos_invD(2,3) [OF inv(1) i] by (simp add: majority_of_def paxos_majority_def paxos_node_ok_def)
  have quorum: "safe_at M C c v"
    if votes: "\<And>a w. a \<in> ?Q \<Longrightarrow> vote_cast C a c w \<Longrightarrow> pv_slot w = pv_slot v \<Longrightarrow> w = v"
    unfolding safe_at_def
  proof (rule exI [of _ ?Q], intro conjI ballI allI impI)
    show "majority_of M ?Q" by (rule Q)
    fix a assume a: "a \<in> ?Q"
    from p [OF a] c show "\<exists>x. pn_promised (pc_nodes C a) = Some x \<and> c < x"
      by (auto simp: promise_le_def split: option.splits)
  qed (use votes in blast)
  show ?thesis
  proof (cases "Mapping.lookup (pn_accepted ?n) (pv_slot v)")
    case None
    show ?thesis by (rule quorum) (use node_safeD(5) [OF safe _ _ c] None in \<open>fastforce simp: recorded_def\<close>)
  next
    case (Some e)
    have e: "snd e = v" "proposed C (fst e) v"
      using carefulD(3) [OF careful Some] node_safeD(2) [OF safe Some] by auto
    show ?thesis
    proof (cases "c < fst e")
      case True
      from net_safeD(2) [OF inv(2) e(2) True] show ?thesis .
    next
      case False
      show ?thesis
      proof (rule quorum)
        fix a w assume w: "a \<in> ?Q" "vote_cast C a c w" "pv_slot w = pv_slot v"
        from node_safeD(5) [OF safe w(1,2) c] Some w(3) e(1) have "c \<le> fst e \<or> (\<exists>d\<le>fst e. decided C d v)"
          by (auto simp: recorded_def covers_def)
        then show "w = v"
        proof
          assume "c \<le> fst e"
          with False have "fst e = c" by simp
          with net_safeD(1) [OF inv(2) vote_proposed [OF inv(1) w(2)]] e(2) w(3) show ?thesis by simp
        next
          assume "\<exists>d\<le>fst e. decided C d v"
          then obtain d where d: "d \<le> fst e" "decided C d v" by blast
          from decided_then_proposed [OF inv d(2) vote_proposed [OF inv(1) w(2)]] d(1) False w(3)
          show ?thesis by simp
        qed
      qed
    qed
  qed
qed

text \<open>What a step adds to the proposals and decisions.\<close>

lemma new_proposal:
  assumes act: "careful_action M C i input res n" and p: "proposed (paxos_update i res n C) b v"
  shows "proposed C b v \<or> b = pn_ballot (pc_nodes C i) \<and> input = ProposeValue v \<and>
    paxos_majority (pc_nodes C i) \<le> card (pn_promises (pc_nodes C i))"
proof -
  from p obtain p d where "(p, d, Accept b v) \<in> pc_net (paxos_update i res n C)" by (auto simp: proposed_def)
  from new_message [OF this] consider "proposed C b v" | out where "out \<in> paxos_outs res" "px_message out = Accept b v"
    by (auto simp: proposed_def)
  then show ?thesis
  proof cases
    case 2
    note st = careful_actionD(7) [OF act]
    from step_out_accept [OF st 2] have b: "b = pn_ballot (pc_nodes C i)"
      "paxos_majority (pc_nodes C i) \<le> card (pn_promises (pc_nodes C i))" by auto
    from st 2 have "input = ProposeValue v"
      by (cases input) (auto simp: paxos_receive_def paxos_defs restore_accepted_def paxos_outs_def Let_def
        split: paxos_message.splits option.splits if_splits dest!: to_all_message)
    with b show ?thesis by simp
  qed simp
qed

lemma proposals_unique:
  assumes act: "careful_action M C i input res n"
    and p: "proposed (paxos_update i res n C) b v" "proposed (paxos_update i res n C) b w" and slot: "pv_slot v = pv_slot w"
  shows "v = w"
proof -
  note careful = careful_actionD(6) [OF act]
  from new_proposal [OF act p(1)] new_proposal [OF act p(2)] show ?thesis
    using net_safeD(1) [OF careful_actionD(2) [OF act] _ _ slot] careful carefulD(4) [of C i v _ _ w]
      carefulD(4) [of C i w _ _ v] slot
    unfolding proposed_def by (metis paxos_input.inject(1))
qed

lemma decisions_voted:
  assumes act: "careful_action M C i input res n" and d: "decided (paxos_update i res n C) b v"
  shows "\<exists>Q. majority_of M Q \<and> (\<forall>a\<in>Q. vote_cast (paxos_update i res n C) a b v)"
proof -
  let ?C' = "paxos_update i res n C"
  note inv = careful_actionD(1,2) [OF act] and st = careful_actionD(7) [OF act]
  have mono: "vote_cast C a b v \<Longrightarrow> vote_cast ?C' a b v" for a by (auto simp: vote_cast_def)
  from d obtain p e where "(p, e, Decision b v) \<in> pc_net ?C'" by (auto simp: decided_def)
  from new_message [OF this] consider "decided C b v" | out where "out \<in> paxos_outs res" "px_message out = Decision b v"
    by (auto simp: decided_def)
  then show ?thesis
  proof cases
    case 1
    from net_safeD(3) [OF inv(2) this] mono show ?thesis by blast
  next
    case 2
    let ?Q = "votes_at (pv_slot v) n"
    from step_out_decision [OF st 2] obtain s a where b: "b = pn_ballot (pc_nodes C i)" "pn_ballot n = b"
      "paxos_majority (pc_nodes C i) \<le> card ?Q" "input = Deliver s (AcceptedVote b a v)" by blast
    with delivered careful_actionD(5) [OF act] have net: "(s, i, AcceptedVote b a v) \<in> pc_net C" by blast
    with paxos_invD(5) [OF inv(1) net] have v: "proposed C b v" by (auto simp: proposed_def)
    have vote: "vote_cast C x b v" if x: "x \<in> ?Q" for x
    proof -
      from votes_after_step [OF act x] b(2) obtain u where u: "vote_cast C x b u" "pv_slot u = pv_slot v" by blast
      with net_safeD(1) [OF inv(2) vote_proposed [OF inv(1) u(1)] v] show ?thesis by simp
    qed
    then have "?Q \<subseteq> M" using paxos_invD(5) [OF inv(1)] by (fastforce simp: vote_cast_def)
    with b(3) paxos_invD(2,3) [OF inv(1) careful_actionD(3) [OF act]] have "majority_of M ?Q"
      by (simp add: majority_of_def paxos_majority_def paxos_node_ok_def)
    with vote mono show ?thesis by blast
  qed
qed

lemma promises_cover:
  assumes act: "careful_action M C i input res n"
    and p: "(a, d, Promise b acc) \<in> pc_net (paxos_update i res n C)"
  shows "\<forall>e\<in>set acc. proposed (paxos_update i res n C) (fst e) (snd e)"
    and "vote_cast (paxos_update i res n C) a c v \<Longrightarrow> c < b \<Longrightarrow>
      \<exists>e\<in>set acc. pv_slot (snd e) = pv_slot v \<and> covers (paxos_update i res n C) e c"
proof -
  let ?C' = "paxos_update i res n C"
  note inv = careful_actionD(1,2) [OF act] and st = careful_actionD(7) [OF act]
  have mono: "pc_net C \<subseteq> pc_net ?C'" by simp
  have "(\<forall>e\<in>set acc. proposed ?C' (fst e) (snd e)) \<and> (vote_cast ?C' a c v \<longrightarrow> c < b \<longrightarrow>
      (\<exists>e\<in>set acc. pv_slot (snd e) = pv_slot v \<and> covers ?C' e c))"
    using new_message [OF p]
  proof (elim disjE conjE bexE)
    assume old: "(a, d, Promise b acc) \<in> pc_net C"
    from paxos_invD(4) [OF inv(1) old] have pr: "promise_le (Some b) (pn_promised (pc_nodes C a))" by simp
    show ?thesis
      using net_safeD(4) [OF inv(2) old] net_safeD(5) [OF inv(2) old promised_vote [OF act _ pr]]
      by (blast intro: proposed_mono [OF _ mono] covers_mono [OF _ mono])
  next
    fix out assume a: "a = i" and out: "out \<in> paxos_outs res" "px_message out = Promise b acc"
    with st have acc: "acc = accepted_values n"
      by (cases input) (auto simp: paxos_receive_def paxos_defs restore_accepted_def paxos_outs_def Let_def
        split: paxos_message.splits option.splits if_splits dest!: to_all_message)
    have ok: "entries_inv ?C' n" by (rule entries_inv_mono [OF step_entries_inv [OF act] mono])
    then have "finite (Mapping.keys (pn_accepted n))" by (simp add: entries_inv_def)
    note acc = accepted_values_lookup [OF this] acc
    show ?thesis
      using entries_invD [OF ok] own_vote_recorded [OF act] a unfolding acc(2) recorded_def
      by (metis acc(1))
  qed
  then show "\<forall>e\<in>set acc. proposed ?C' (fst e) (snd e)"
    and "vote_cast ?C' a c v \<Longrightarrow> c < b \<Longrightarrow> \<exists>e\<in>set acc. pv_slot (snd e) = pv_slot v \<and> covers ?C' e c"
    by blast+
qed

lemma proposals_safe:
  assumes act: "careful_action M C i input res n" and p: "proposed (paxos_update i res n C) b w" and "c < b"
  shows "safe_at M (paxos_update i res n C) c w"
proof (rule safe_at_kept [OF act])
  from new_proposal [OF act p] show "safe_at M C c w"
  proof (elim disjE conjE)
    assume "proposed C b w"
    from net_safeD(2) [OF careful_actionD(2) [OF act] this \<open>c < b\<close>] show ?thesis .
  next
    assume "b = pn_ballot (pc_nodes C i)" "input = ProposeValue w"
      "paxos_majority (pc_nodes C i) \<le> card (pn_promises (pc_nodes C i))"
    with careful_actionD(6) [OF act] \<open>c < b\<close> show ?thesis
      by (intro proposal_safe [OF careful_actionD(1-4) [OF act]]) auto
  qed
qed

lemma agreement_inv_step: "careful_action M C i input res n \<Longrightarrow> agreement_inv M (paxos_update i res n C)"
  unfolding agreement_inv_def
proof (intro conjI ballI)
  assume act: "careful_action M C i input res n"
  show "paxos_inv M (paxos_update i res n C)" by (rule careful_actionD(9) [OF act])
  show "net_safe M (paxos_update i res n C)"
    unfolding net_safe_def
    by (intro conjI allI impI; (erule (2) proposals_unique [OF act] | erule (1) proposals_safe [OF act] |
        erule decisions_voted [OF act] | erule promises_cover(1) [OF act] | erule (2) promises_cover(2) [OF act]))
  fix k assume "k \<in> M"
  then show "node_safe (paxos_update i res n C) k (pc_nodes (paxos_update i res n C) k)"
    using stepping_node_safe [OF act] other_node_safe [OF act] by simp
qed

lemma agreement_inv_reachable: "careful_reachable M C \<Longrightarrow> agreement_inv M C"
  by (induction rule: careful_reachable.induct)
    (auto intro: agreement_inv_init agreement_inv_step simp: careful_action_def)

section \<open>Agreement\<close>

text \<open>C26: Under a careful caller the nodes agree: any two decisions sent for one slot, by whichever nodes and
  in whichever ballots, carry the same value, however the network delays, duplicates, reorders or drops
  messages.\<close>

theorem careful_callers_agree:
  assumes "careful_reachable M C"
    and "(p, d, Decision b v) \<in> pc_net C" and "(p', d', Decision b' v') \<in> pc_net C" and "pv_slot v = pv_slot v'"
  shows "v = v'"
proof -
  note inv = agreement_invD(1,2) [OF agreement_inv_reachable [OF assms(1)]]
  from assms(2,3) have d: "decided C b v" "decided C b' v'" by (auto simp: decided_def)
  note p = decided_proposed [OF inv d(1)] decided_proposed [OF inv d(2)]
  show ?thesis
  proof (cases "b \<le> b'")
    case True
    from decided_then_proposed [OF inv d(1) p(2) True assms(4)] show ?thesis .
  next
    case False
    with decided_then_proposed [OF inv d(2) p(1) _ assms(4) [symmetric]] show ?thesis by simp
  qed
qed

lemma careful_exec_reachable:
  "paxos_exec rule M inputs C = Some C' \<Longrightarrow> rule = careful \<Longrightarrow> careful_reachable M C \<Longrightarrow> careful_reachable M C'"
proof (induction rule M inputs C rule: paxos_exec.induct)
  case (2 rule M i input inputs C)
  obtain res n where st: "paxos_step input (pc_nodes C i) = (res, n)" by fastforce
  with 2(2,3) have ok: "i \<in> M" "paxos_enabled C i input" "careful C i input"
    and run: "paxos_exec rule M inputs (paxos_update i res n C) = Some C'"
    by (auto split: if_splits)
  from careful_reachable.step [OF 2(4) ok st] 2(1,3) st ok run show ?case by auto
qed simp

text \<open>Node \<open>a\<close> decides a value with the votes of \<open>a\<close> and \<open>c\<close>; then \<open>b\<close>, which voted for nothing, learns the
  value from the promise of \<open>c\<close> and decides it again in its own ballot.\<close>

definition careful_rounds :: "(node_id \<times> paxos_input) list" where
  "careful_rounds =
     [(pa, StartRound),
      (pa, Deliver pa (Prepare (Ballot 1 pa))),
      (pc, Deliver pa (Prepare (Ballot 1 pa))),
      (pa, Deliver pc (Promise (Ballot 1 pa) [])),
      (pa, ProposeValue value_x),
      (pa, Deliver pa (Accept (Ballot 1 pa) value_x)),
      (pc, Deliver pa (Accept (Ballot 1 pa) value_x)),
      (pa, Deliver pa (AcceptedVote (Ballot 1 pa) pa value_x)),
      (pa, Deliver pc (AcceptedVote (Ballot 1 pa) pc value_x)),
      (pb, StartRound),
      (pb, Deliver pb (Prepare (Ballot 1 pb))),
      (pc, Deliver pb (Prepare (Ballot 1 pb))),
      (pb, Deliver pc (Promise (Ballot 1 pb) [(Ballot 1 pa, value_x)])),
      (pb, ProposeValue value_x),
      (pb, Deliver pb (Accept (Ballot 1 pb) value_x)),
      (pc, Deliver pb (Accept (Ballot 1 pb) value_x)),
      (pb, Deliver pb (AcceptedVote (Ballot 1 pb) pb value_x)),
      (pb, Deliver pc (AcceptedVote (Ballot 1 pb) pc value_x))]"

lemma careful_rounds_run:
  "map_option (\<lambda>C. (pa, pc, Decision (Ballot 1 pa) value_x) \<in> pc_net C \<and>
       (pb, pc, Decision (Ballot 1 pb) value_x) \<in> pc_net C)
     (paxos_exec careful paxos_members careful_rounds sample_paxos) = Some True"
  by code_simp

theorem careful_callers_agree_witness:
  "\<exists>C. careful_reachable paxos_members C \<and> (pa, pc, Decision (Ballot 1 pa) value_x) \<in> pc_net C \<and>
     (pb, pc, Decision (Ballot 1 pb) value_x) \<in> pc_net C \<and>
     (\<forall>d b v. (pb, d, Decision b v) \<in> pc_net C \<and> pv_slot v = 1 \<longrightarrow> v = value_x)"
proof -
  from careful_rounds_run obtain C where run: "paxos_exec careful paxos_members careful_rounds sample_paxos = Some C"
    and net: "(pa, pc, Decision (Ballot 1 pa) value_x) \<in> pc_net C" "(pb, pc, Decision (Ballot 1 pb) value_x) \<in> pc_net C"
    by auto
  have C: "careful_reachable paxos_members C"
    by (rule careful_exec_reachable [OF run refl careful_reachable.initial [OF sample_paxos_init]])
  have "v = value_x" if "(pb, d, Decision b v) \<in> pc_net C" "pv_slot v = 1" for d b v
    by (rule careful_callers_agree [OF C that(1) net(1)]) (use that(2) in simp)
  with C net show ?thesis by blast
qed

section \<open>Why the caller has to be careful\<close>

text \<open>Two callers that leave out one of its duties: the first starts a round at any moment; the second
  does not have its node promise its own ballot.\<close>

definition careful_but_rounds :: "paxos_cluster \<Rightarrow> node_id \<Rightarrow> paxos_input \<Rightarrow> bool" where
  "careful_but_rounds C i input \<longleftrightarrow> careful C i input \<or> input = StartRound"

definition careful_but_promise :: "paxos_cluster \<Rightarrow> node_id \<Rightarrow> paxos_input \<Rightarrow> bool" where
  "careful_but_promise C i input \<longleftrightarrow>
     (let n = pc_nodes C i in
      case input of
        StartRound \<Rightarrow> Mapping.is_empty (pn_accepted_votes n)
      | ProposeValue v \<Rightarrow>
          (case Mapping.lookup (pn_accepted n) (pv_slot v) of None \<Rightarrow> True | Some (_, w) \<Rightarrow> v = w) \<and>
          (\<forall>x\<in>pc_net C. case snd (snd x) of
              Accept b w \<Rightarrow> b = pn_ballot n \<and> pv_slot w = pv_slot v \<longrightarrow> w = v
            | _ \<Rightarrow> True)
      | RestoreAccepted b v \<Rightarrow> (\<exists>x\<in>pc_net C. snd (snd x) = Accept b v)
      | Deliver _ _ \<Rightarrow> True)"

lemma careful_parts:
  "careful C i input \<longleftrightarrow> careful_but_promise C i input \<and>
     (case input of
        ProposeValue _ \<Rightarrow> own_promise (pc_nodes C i)
      | Deliver _ (Promise _ _) \<Rightarrow> own_promise (pc_nodes C i)
      | _ \<Rightarrow> True)"
  by (auto simp: careful_def careful_but_promise_def Let_def split: paxos_input.split paxos_message.split)

text \<open>Every node promises its own ballots. The vote of \<open>b\<close> in ballot 1 of \<open>a\<close> still counts in ballot 2 of
  \<open>a\<close>, so one vote in ballot 2 makes a decision; \<open>b\<close> and \<open>a\<close> then decide the other value in ballot 2 of \<open>b\<close>.\<close>

definition repeated_rounds :: "(node_id \<times> paxos_input) list" where
  "repeated_rounds =
     [(pa, StartRound),
      (pa, Deliver pa (Prepare (Ballot 1 pa))),
      (pb, Deliver pa (Prepare (Ballot 1 pa))),
      (pa, Deliver pb (Promise (Ballot 1 pa) [])),
      (pa, ProposeValue value_x),
      (pb, Deliver pa (Accept (Ballot 1 pa) value_x)),
      (pa, Deliver pb (AcceptedVote (Ballot 1 pa) pb value_x)),
      (pa, StartRound),
      (pa, Deliver pa (Prepare (Ballot 2 pa))),
      (pc, Deliver pa (Prepare (Ballot 2 pa))),
      (pa, Deliver pc (Promise (Ballot 2 pa) [])),
      (pa, ProposeValue value_y),
      (pc, Deliver pa (Accept (Ballot 2 pa) value_y)),
      (pa, Deliver pc (AcceptedVote (Ballot 2 pa) pc value_y)),
      (pb, StartRound), (pb, StartRound),
      (pb, Deliver pb (Prepare (Ballot 2 pb))),
      (pa, Deliver pb (Prepare (Ballot 2 pb))),
      (pb, Deliver pa (Promise (Ballot 2 pb) [])),
      (pb, ProposeValue value_x),
      (pb, Deliver pb (Accept (Ballot 2 pb) value_x)),
      (pa, Deliver pb (Accept (Ballot 2 pb) value_x)),
      (pb, Deliver pb (AcceptedVote (Ballot 2 pb) pb value_x)),
      (pb, Deliver pa (AcceptedVote (Ballot 2 pb) pa value_x))]"

lemma repeated_rounds_run:
  "map_option (\<lambda>C. (pa, pc, Decision (Ballot 2 pa) value_y) \<in> pc_net C \<and>
       (pb, pc, Decision (Ballot 2 pb) value_x) \<in> pc_net C)
     (paxos_exec careful_but_rounds paxos_members repeated_rounds sample_paxos) = Some True"
  by code_simp

text \<open>One round per node: the owner of a ballot counts its own promise without recording it, so it still
  accepts a lower ballot after it has proposed.\<close>

definition single_rounds :: "(node_id \<times> paxos_input) list" where
  "single_rounds =
     [(pa, StartRound),
      (pb, Deliver pa (Prepare (Ballot 1 pa))),
      (pa, Deliver pb (Promise (Ballot 1 pa) [])),
      (pa, ProposeValue value_x),
      (pb, StartRound),
      (pc, Deliver pb (Prepare (Ballot 1 pb))),
      (pb, Deliver pc (Promise (Ballot 1 pb) [])),
      (pb, ProposeValue value_y),
      (pb, Deliver pa (Accept (Ballot 1 pa) value_x)),
      (pa, Deliver pa (Accept (Ballot 1 pa) value_x)),
      (pa, Deliver pb (AcceptedVote (Ballot 1 pa) pb value_x)),
      (pa, Deliver pa (AcceptedVote (Ballot 1 pa) pa value_x)),
      (pb, Deliver pb (Accept (Ballot 1 pb) value_y)),
      (pc, Deliver pb (Accept (Ballot 1 pb) value_y)),
      (pb, Deliver pb (AcceptedVote (Ballot 1 pb) pb value_y)),
      (pb, Deliver pc (AcceptedVote (Ballot 1 pb) pc value_y))]"

definition rounds_started :: "(node_id \<times> paxos_input) list \<Rightarrow> node_id list" where
  "rounds_started inputs = map fst (filter (\<lambda>x. snd x = StartRound) inputs)"

lemma single_rounds_run:
  "map_option (\<lambda>C. (pa, pc, Decision (Ballot 1 pa) value_x) \<in> pc_net C \<and>
       (pb, pc, Decision (Ballot 1 pb) value_y) \<in> pc_net C)
     (paxos_exec careful_but_promise paxos_members single_rounds sample_paxos) = Some True"
  "distinct (rounds_started single_rounds)"
  by code_simp+

text \<open>C28: Agreement needs each of these duties. Some run of a caller that is careful except that it starts
  rounds at any moment sends two decisions with different commands for one slot, since accepted votes are
  counted per slot and not reset with a new round. So does some run in which every node starts at most one
  round, of a caller that is careful except that its nodes do not promise their own ballots, since the
  owner of a ballot counts its own promise without recording it. \<close>

theorem decisions_can_differ:
  "(\<exists>inputs C b b' val val'. paxos_exec careful_but_rounds paxos_members inputs sample_paxos = Some C \<and>
     (pa, pc, Decision b val) \<in> pc_net C \<and> (pb, pc, Decision b' val') \<in> pc_net C \<and>
     pv_slot val = pv_slot val' \<and> pv_command val \<noteq> pv_command val') \<and>
   (\<exists>inputs C b b' val val'. paxos_exec careful_but_promise paxos_members inputs sample_paxos = Some C \<and>
     distinct (rounds_started inputs) \<and>
     (pa, pc, Decision b val) \<in> pc_net C \<and> (pb, pc, Decision b' val') \<in> pc_net C \<and>
     pv_slot val = pv_slot val' \<and> pv_command val \<noteq> pv_command val')"
proof
  from repeated_rounds_run obtain C where
    "paxos_exec careful_but_rounds paxos_members repeated_rounds sample_paxos = Some C"
    "(pa, pc, Decision (Ballot 2 pa) value_y) \<in> pc_net C" "(pb, pc, Decision (Ballot 2 pb) value_x) \<in> pc_net C"
    by auto
  then show "\<exists>inputs C b b' val val'. paxos_exec careful_but_rounds paxos_members inputs sample_paxos = Some C \<and>
     (pa, pc, Decision b val) \<in> pc_net C \<and> (pb, pc, Decision b' val') \<in> pc_net C \<and>
     pv_slot val = pv_slot val' \<and> pv_command val \<noteq> pv_command val'"
    by force
next
  from single_rounds_run(1) obtain C where
    "paxos_exec careful_but_promise paxos_members single_rounds sample_paxos = Some C"
    "(pa, pc, Decision (Ballot 1 pa) value_x) \<in> pc_net C" "(pb, pc, Decision (Ballot 1 pb) value_y) \<in> pc_net C"
    by auto
  with single_rounds_run(2) show "\<exists>inputs C b b' val val'.
     paxos_exec careful_but_promise paxos_members inputs sample_paxos = Some C \<and>
     distinct (rounds_started inputs) \<and>
     (pa, pc, Decision b val) \<in> pc_net C \<and> (pb, pc, Decision b' val') \<in> pc_net C \<and>
     pv_slot val = pv_slot val' \<and> pv_command val \<noteq> pv_command val'"
    by force
qed

end
