(* ===== verification/Iron_Config.thy ===== *)
theory Iron_Config
  imports Iron_Dedup Wal_Writer "HOL-Library.Mapping" "HOL-Library.AList_Mapping" "HOL-Library.Product_Lexorder"
begin

text \<open>
  The configuration boundary (\<open>iron-core/src/config.rs\<close>): raw configurations, the validated ones and
  the conversions that collect every validation error (\<open>error.rs\<close>).

  Parsing a URL (crate \<open>url\<close>), a UUID (crate \<open>uuid\<close>) and a socket address (\<open>std::net\<close>) are arguments of
  the definitions, gathered in the record \<open>parsers\<close>. The serde parts are left out. The \<open>expect\<close> calls
  and the \<open>debug_assert\<close> are outcomes: \<open>None\<close> is a panic.
\<close>

section \<open>Validation errors (error.rs)\<close>

instantiation validation_error :: linorder
begin

definition error_key :: "validation_error \<Rightarrow> string \<times> string \<times> string" where
  "error_key e = (ve_field_path e, ve_code e, ve_message e)"

definition less_eq_validation_error :: "validation_error \<Rightarrow> validation_error \<Rightarrow> bool" where
  "less_eq_validation_error a b \<longleftrightarrow> error_key a \<le> error_key b"

definition less_validation_error :: "validation_error \<Rightarrow> validation_error \<Rightarrow> bool" where
  "less_validation_error a b \<longleftrightarrow> error_key a < error_key b"

instance
proof
  fix a b :: validation_error
  show "a \<le> b \<Longrightarrow> b \<le> a \<Longrightarrow> a = b"
    by (auto simp: less_eq_validation_error_def error_key_def intro: validation_error.expand
        dest!: antisym)
qed (auto simp: less_eq_validation_error_def less_validation_error_def intro: linear)

end

text \<open>A nonempty list is sorted by path, code and message.\<close>

definition errors_from_vec :: "validation_error list \<Rightarrow> validation_error list option" where
  "errors_from_vec errors = (if errors = [] then None else Some (sort errors))"

section \<open>Peer endpoints\<close>

record url =
  url_text :: string
  url_scheme :: string
  url_has_host :: bool
  url_cannot_be_a_base :: bool
  url_username :: string
  url_password :: "string option"
  url_query :: "string option"
  url_fragment :: "string option"

datatype peer_endpoint = PeerEndpoint (endpoint_url: url)

record 'a parsers =
  parse_url :: "string \<Rightarrow> url option"
  parse_uuid :: "string \<Rightarrow> bytes option"
  parse_socket :: "string \<Rightarrow> 'a option"

definition endpoint_str :: "peer_endpoint \<Rightarrow> string" where
  "endpoint_str e = url_text (endpoint_url e)"

definition peer_endpoint_parse :: "'a parsers \<Rightarrow> string \<Rightarrow> core_error + peer_endpoint" where
  "peer_endpoint_parse ps input =
     (case parse_url ps input of
        None \<Rightarrow> Inl InvalidPeerEndpointUrl
      | Some u \<Rightarrow>
          if url_scheme u \<notin> {''http'', ''https''} then Inl InvalidPeerEndpointScheme
          else if \<not> url_has_host u \<or> url_cannot_be_a_base u then Inl MissingPeerEndpointHost
          else if url_username u \<noteq> [] \<or> url_password u \<noteq> None then Inl PeerEndpointCredentialsNotAllowed
          else if url_query u \<noteq> None then Inl PeerEndpointQueryNotAllowed
          else if url_fragment u \<noteq> None then Inl PeerEndpointFragmentNotAllowed
          else Inr (PeerEndpoint u))"

definition cluster_id_parse :: "'a parsers \<Rightarrow> string \<Rightarrow> core_error + cluster_id" where
  "cluster_id_parse ps input =
     (case parse_uuid ps input of
        None \<Rightarrow> Inl (InvalidUuid ''cluster ID'')
      | Some bs \<Rightarrow> cluster_id_from_bytes bs)"

section \<open>Raw and validated configurations\<close>

definition DEFAULT_MAX_RECORD_BYTES :: u32 where "DEFAULT_MAX_RECORD_BYTES = 8 * MEBIBYTE"
definition DEFAULT_MAX_DEDUP_ENTRIES :: u32 where "DEFAULT_MAX_DEDUP_ENTRIES = 65536"
definition DEFAULT_MAX_OUTCOME_BYTES :: u32 where "DEFAULT_MAX_OUTCOME_BYTES = 64 * KIBIBYTE"
definition DEFAULT_MAX_TOTAL_OUTCOME_BYTES :: u32 where "DEFAULT_MAX_TOTAL_OUTCOME_BYTES = 64 * MEBIBYTE"

datatype raw_sync_policy = RawAlways | RawBatch u64 | RawManual

record raw_wal_config =
  rw_directory :: string
  rw_max_record_bytes :: u64
  rw_sync_policy :: raw_sync_policy
  rw_tail_repair :: tail_repair

record raw_transport_config =
  rt_listen_address :: string
  rt_advertised_url :: string
  rt_request_timeout_ms :: u64
  rt_connect_timeout_ms :: u64
  rt_max_message_bytes :: u64

record raw_dedup_config =
  rd_max_entries :: u64
  rd_max_outcome_bytes :: u64
  rd_max_total_outcome_bytes :: u64

definition raw_dedup_default :: raw_dedup_config where
  "raw_dedup_default =
     \<lparr>rd_max_entries = ucast DEFAULT_MAX_DEDUP_ENTRIES, rd_max_outcome_bytes = ucast DEFAULT_MAX_OUTCOME_BYTES,
      rd_max_total_outcome_bytes = ucast DEFAULT_MAX_TOTAL_OUTCOME_BYTES\<rparr>"

record raw_node_config =
  rnc_cluster_id :: string
  rnc_node_id :: string
  rnc_members :: "(string, string) mapping"
  rnc_wal :: raw_wal_config
  rnc_transport :: raw_transport_config
  rnc_dedup :: raw_dedup_config

text \<open>The validated WAL configuration is the writer's, extended by the directory.\<close>

record wal_config_dir = wal_config +
  wcfg_directory :: string

record 'a transport_config =
  tc_listen_address :: 'a
  tc_advertised_url :: peer_endpoint
  tc_request_timeout :: u32
  tc_connect_timeout :: u32
  tc_max_message_bytes :: u32

record 'a node_config =
  nc_cluster_id :: cluster_id
  nc_node_id :: node_id
  nc_members :: "(node_id, peer_endpoint) mapping"
  nc_wal :: wal_config_dir
  nc_transport :: "'a transport_config"
  nc_dedup :: dedup_config

type_synonym 'a validated = "(validation_error list + 'a) option"

text \<open>A validation step: the value of a success, or an error pushed onto the list.\<close>

definition check ::
  "'e + 'a \<Rightarrow> ('e \<Rightarrow> validation_error) \<Rightarrow> validation_error list \<Rightarrow> 'a option \<times> validation_error list" where
  "check res describe errors =
     (case res of Inr v \<Rightarrow> (Some v, errors) | Inl e \<Rightarrow> (None, errors @ [describe e]))"

section \<open>Conversions\<close>

definition sync_policy_batch :: "u64 \<Rightarrow> core_error + sync_policy" where
  "sync_policy_batch n = and_then (max_unsynced_records_new n) (\<lambda>v. Inr (Batch v))"

definition sync_policy_from_raw :: "raw_sync_policy \<Rightarrow> core_error + sync_policy" where
  "sync_policy_from_raw p =
     (case p of RawAlways \<Rightarrow> Inr Always | RawManual \<Rightarrow> Inr Manual | RawBatch n \<Rightarrow> sync_policy_batch n)"

definition wal_config_try_from :: "raw_wal_config \<Rightarrow> wal_config_dir validated" where
  "wal_config_try_from raw =
     (let errors = (if rw_directory raw = []
            then [ValidationError ''directory'' ''empty'' ''WAL directory must not be empty''] else []);
          (max_record_bytes, errors) = check (max_record_bytes_new (rw_max_record_bytes raw))
            (\<lambda>_. ValidationError ''max_record_bytes'' ''out_of_range''
              ''WAL record limit must be between 1 KiB and 64 MiB'') errors;
          (policy, errors) = check (sync_policy_from_raw (rw_sync_policy raw))
            (\<lambda>_. ValidationError ''sync_policy.max_unsynced_records'' ''zero''
              ''batch size must be nonzero'') errors
      in case errors_from_vec errors of
           Some es \<Rightarrow> Some (Inl es)
         | None \<Rightarrow>
             (case (max_record_bytes, policy) of
                (Some m, Some p) \<Rightarrow>
                  Some (Inr \<lparr>wcfg_max_record_bytes = m, wcfg_sync_policy = p,
                             wcfg_tail_repair = rw_tail_repair raw, wcfg_directory = rw_directory raw\<rparr>)
              | _ \<Rightarrow> None))"

definition identity_error_description :: "core_error \<Rightarrow> string \<times> string" where
  "identity_error_description e =
     (case e of
        InvalidUuid _ \<Rightarrow> (''invalid_uuid'', ''cluster ID must be a UUID'')
      | ZeroIdentifier _ \<Rightarrow> (''zero'', ''cluster ID must not be all zeroes'')
      | _ \<Rightarrow> (''invalid'', ''cluster ID is invalid''))"

definition endpoint_error_description :: "core_error \<Rightarrow> string \<times> string" where
  "endpoint_error_description e =
     (case e of
        InvalidPeerEndpointUrl \<Rightarrow> (''invalid_url'', ''peer endpoint must be a valid URL'')
      | InvalidPeerEndpointScheme \<Rightarrow> (''invalid_scheme'', ''peer endpoint scheme must be http or https'')
      | MissingPeerEndpointHost \<Rightarrow> (''missing_host'', ''peer endpoint must contain a host'')
      | PeerEndpointCredentialsNotAllowed \<Rightarrow>
          (''credentials_not_allowed'', ''peer endpoint must not contain credentials'')
      | PeerEndpointQueryNotAllowed \<Rightarrow>
          (''query_not_allowed'', ''peer endpoint must not contain a query string'')
      | PeerEndpointFragmentNotAllowed \<Rightarrow>
          (''fragment_not_allowed'', ''peer endpoint must not contain a fragment'')
      | _ \<Rightarrow> (''invalid_url'', ''peer endpoint is invalid''))"

definition described :: "string \<Rightarrow> string \<times> string \<Rightarrow> validation_error" where
  "described path d = ValidationError path (fst d) (snd d)"

definition validate_timeout ::
  "u64 \<Rightarrow> string \<Rightarrow> validation_error list \<Rightarrow> u32 option \<times> validation_error list" where
  "validate_timeout raw path =
     check (timeout_millis_new raw)
       (\<lambda>_. ValidationError path ''out_of_range'' ''timeout must be between 1 and 300000 milliseconds'')"

definition transport_config_try_from ::
  "'a parsers \<Rightarrow> raw_transport_config \<Rightarrow> 'a transport_config validated" where
  "transport_config_try_from ps raw =
     (let (address, errors) = check
            (case parse_socket ps (rt_listen_address raw) of None \<Rightarrow> Inl () | Some a \<Rightarrow> Inr a)
            (\<lambda>_. ValidationError ''listen_address'' ''invalid_socket_address''
              ''listen address must be an explicit IP socket address'') [];
          (endpoint, errors) = check (peer_endpoint_parse ps (rt_advertised_url raw))
            (\<lambda>e. described ''advertised_url'' (endpoint_error_description e)) errors;
          (request, errors) = validate_timeout (rt_request_timeout_ms raw) ''request_timeout_ms'' errors;
          (connect, errors) = validate_timeout (rt_connect_timeout_ms raw) ''connect_timeout_ms'' errors;
          (message_bytes, errors) = check (max_message_bytes_new (rt_max_message_bytes raw))
            (\<lambda>_. ValidationError ''max_message_bytes'' ''out_of_range''
              ''message limit must be nonzero and at most 64 MiB'') errors
      in case errors_from_vec errors of
           Some es \<Rightarrow> Some (Inl es)
         | None \<Rightarrow>
             (case (address, endpoint, request, connect, message_bytes) of
                (Some a, Some e, Some r, Some c, Some m) \<Rightarrow>
                  Some (Inr \<lparr>tc_listen_address = a, tc_advertised_url = e, tc_request_timeout = r,
                             tc_connect_timeout = c, tc_max_message_bytes = m\<rparr>)
              | _ \<Rightarrow> None))"

definition dedup_config_try_from :: "raw_dedup_config \<Rightarrow> dedup_config validated" where
  "dedup_config_try_from raw =
     (let (entries, errors) = check (max_dedup_entries_new (rd_max_entries raw))
            (\<lambda>_. ValidationError ''max_entries'' ''out_of_range''
              ''dedup entry limit must be nonzero and fit in 32 bits'') [];
          (outcome, errors) = check (max_outcome_bytes_new (rd_max_outcome_bytes raw))
            (\<lambda>_. ValidationError ''max_outcome_bytes'' ''out_of_range''
              ''outcome limit must be nonzero and at most 1 GiB'') errors;
          (total, errors) = check (max_total_outcome_bytes_new (rd_max_total_outcome_bytes raw))
            (\<lambda>_. ValidationError ''max_total_outcome_bytes'' ''out_of_range''
              ''total outcome limit must be between 64 KiB and 1 GiB'') errors;
          errors = (case (outcome, total) of
             (Some o', Some t) \<Rightarrow>
               if o' > t
               then errors @ [ValidationError ''max_total_outcome_bytes'' ''less_than_max_outcome_bytes''
                      ''total outcome limit must be at least the per-outcome limit'']
               else errors
           | _ \<Rightarrow> errors)
      in case errors_from_vec errors of
           Some es \<Rightarrow> Some (Inl es)
         | None \<Rightarrow>
             (case (entries, outcome, total) of
                (Some e, Some o', Some t) \<Rightarrow>
                  Some (Inr \<lparr>cfg_max_entries = e, cfg_max_outcome_bytes = o', cfg_max_total_outcome_bytes = t\<rparr>)
              | _ \<Rightarrow> None))"

text \<open>Decimal digits of an index, as \<open>format!\<close> prints them.\<close>

fun show_nat :: "nat \<Rightarrow> string" where
  "show_nat n =
     (if n < 10 then [char_of (48 + n)] else show_nat (n div 10) @ [char_of (48 + n mod 10)])"

declare show_nat.simps [simp del]

definition member_path :: "nat \<Rightarrow> string \<Rightarrow> string" where
  "member_path index field = ''members['' @ show_nat index @ ''].'' @ field"

text \<open>The loop over the raw members: the members so far, the index of every endpoint seen, the errors.\<close>

fun members_loop ::
  "'a parsers \<Rightarrow> nat \<Rightarrow> (string \<times> string) list \<Rightarrow> (node_id, peer_endpoint) mapping \<Rightarrow> (string, nat) mapping
   \<Rightarrow> validation_error list \<Rightarrow> ((node_id, peer_endpoint) mapping \<times> validation_error list) option" where
  "members_loop ps index [] members endpoints errors = Some (members, errors)"
| "members_loop ps index ((raw_node, raw_endpoint) # rest) members endpoints errors =
     (let (node, errors) = check (node_id_parse raw_node)
            (\<lambda>_. ValidationError (member_path index ''node_id'') ''invalid_node_id''
              ''member node ID must satisfy the lowercase 1-64 byte grammar'') errors;
          (endpoint, endpoints, errors) =
            (case peer_endpoint_parse ps raw_endpoint of
               Inr e \<Rightarrow>
                 (Some e, Mapping.update (endpoint_str e) index endpoints,
                  if Mapping.lookup endpoints (endpoint_str e) \<noteq> None
                  then errors @ [ValidationError (member_path index ''endpoint'') ''duplicate_endpoint''
                         ''member endpoints must be unique'']
                  else errors)
             | Inl e \<Rightarrow>
                 (None, endpoints,
                  errors @ [described (member_path index ''endpoint'') (endpoint_error_description e)]))
      in case (node, endpoint) of
           (Some n, Some e) \<Rightarrow>
             if Mapping.lookup members n \<noteq> None then None
             else members_loop ps (Suc index) rest (Mapping.update n e members) endpoints errors
         | _ \<Rightarrow> members_loop ps (Suc index) rest members endpoints errors)"

definition validate_members ::
  "'a parsers \<Rightarrow> (string, string) mapping \<Rightarrow> node_id option \<Rightarrow> validation_error list
   \<Rightarrow> ((node_id, peer_endpoint) mapping \<times> validation_error list) option" where
  "validate_members ps raw_members local errors =
     (case members_loop ps 0 (Mapping.ordered_entries raw_members) Mapping.empty Mapping.empty errors of
        None \<Rightarrow> None
      | Some (members, errors) \<Rightarrow>
          Some (members,
            case local of
              Some n \<Rightarrow>
                if Mapping.lookup members n = None
                then errors @ [ValidationError ''members'' ''missing_local_node''
                       ''members must contain the local node exactly once'']
                else errors
            | None \<Rightarrow> errors))"

definition extend_prefixed :: "validation_error list \<Rightarrow> string \<Rightarrow> validation_error list \<Rightarrow> validation_error list" where
  "extend_prefixed target prefix nested =
     target @ map (\<lambda>e. ValidationError (prefix @ ''.'' @ ve_field_path e) (ve_code e) (ve_message e)) nested"

definition check_nested ::
  "validation_error list + 'b \<Rightarrow> string \<Rightarrow> validation_error list \<Rightarrow> 'b option \<times> validation_error list" where
  "check_nested res prefix errors =
     (case res of Inr v \<Rightarrow> (Some v, errors) | Inl nested \<Rightarrow> (None, extend_prefixed errors prefix nested))"

definition message_limit_errors ::
  "wal_config_dir option \<Rightarrow> 'a transport_config option \<Rightarrow> dedup_config option \<Rightarrow> validation_error list
   \<Rightarrow> validation_error list" where
  "message_limit_errors wal transport dedup errors =
     (let errors = (case (wal, transport) of
            (Some w, Some t) \<Rightarrow>
              (let framed = checked_add (tc_max_message_bytes t) WAL_FRAME_OVERHEAD_BYTES in
               if framed = None \<or> (\<exists>n \<in> set_option framed. n > wcfg_max_record_bytes w)
               then errors @ [ValidationError ''transport.max_message_bytes'' ''exceeds_wal_record_limit''
                      ''message plus WAL framing must fit within the WAL record limit'']
               else errors)
          | _ \<Rightarrow> errors)
      in case (dedup, transport) of
           (Some d, Some t) \<Rightarrow>
             if cfg_max_outcome_bytes d > tc_max_message_bytes t
             then errors @ [ValidationError ''dedup.max_outcome_bytes'' ''exceeds_message_limit''
                    ''one dedup outcome must fit within the message limit'']
             else errors
         | _ \<Rightarrow> errors)"

definition node_config_try_from :: "'a parsers \<Rightarrow> raw_node_config \<Rightarrow> 'a node_config validated" where
  "node_config_try_from ps raw =
     (let (cluster, errors) = check (cluster_id_parse ps (rnc_cluster_id raw))
            (\<lambda>e. described ''cluster_id'' (identity_error_description e)) [];
          (node, errors) = check (node_id_parse (rnc_node_id raw))
            (\<lambda>_. ValidationError ''node_id'' ''invalid_node_id''
              ''node ID must satisfy the lowercase 1-64 byte grammar'') errors
      in Option.bind (validate_members ps (rnc_members raw) node errors) (\<lambda>(members, errors).
         Option.bind (wal_config_try_from (rnc_wal raw)) (\<lambda>wal_res.
         Option.bind (transport_config_try_from ps (rnc_transport raw)) (\<lambda>transport_res.
         Option.bind (dedup_config_try_from (rnc_dedup raw)) (\<lambda>dedup_res.
           let (wal, errors) = check_nested wal_res ''wal'' errors;
               (transport, errors) = check_nested transport_res ''transport'' errors;
               (dedup, errors) = check_nested dedup_res ''dedup'' errors;
               errors = message_limit_errors wal transport dedup errors
           in case errors_from_vec errors of
                Some es \<Rightarrow> Some (Inl es)
              | None \<Rightarrow>
                  (case (cluster, node, wal, transport, dedup) of
                     (Some c, Some n, Some w, Some t, Some d) \<Rightarrow>
                       Some (Inr \<lparr>nc_cluster_id = c, nc_node_id = n, nc_members = members, nc_wal = w,
                                  nc_transport = t, nc_dedup = d\<rparr>)
                   | _ \<Rightarrow> None))))))"

end
