(* ===== verification/Config_Properties.thy ===== *)
theory Config_Properties
  imports Iron_Config
begin

text \<open>
  The properties of configuration validation: which raw configurations are accepted, what a validated
  configuration guarantees, and that validation always ends with a value.
\<close>

section \<open>Steps\<close>

lemma errors_from_vec_None [simp]: "errors_from_vec errors = None \<longleftrightarrow> errors = []"
  by (simp add: errors_from_vec_def)

lemma errors_from_vec_Nil [simp]: "errors_from_vec [] = None"
  by (simp add: errors_from_vec_def)

lemma errors_from_vec_Some: "errors_from_vec errors = Some es \<Longrightarrow> es \<noteq> [] \<and> sorted es"
  by (auto simp: errors_from_vec_def split: if_splits) (metis set_sort set_empty)

lemma bounded_u32_new_if:
  "bounded_u32_new kind lo hi v =
     (if unat lo \<le> unat v \<and> unat v \<le> unat hi then Inr (ucast v)
      else Inl (ValueOutOfRange kind v (ucast lo) (ucast hi)))"
proof -
  have "unat hi < 2 ^ 32" using unsigned_less [of hi, where ?'a = nat] by simp
  then show ?thesis by (auto simp: bounded_u32_new_def Let_def word_le_nat_alt)
qed

lemma unat_ucast_bound: "unat (v :: u64) \<le> unat (hi :: u32) \<Longrightarrow> unat (ucast v :: u32) = unat v"
proof -
  assume "unat v \<le> unat hi"
  moreover have "unat hi < 2 ^ 32" using unsigned_less [of hi, where ?'a = nat] by simp
  ultimately show ?thesis by (simp add: unsigned_ucast_eq take_bit_nat_eq_self)
qed

lemma limit_unats:
  "unat MIN_RECORD_BYTES = 1024" "unat MAX_RECORD_BYTES = 67108864" "unat MIN_MESSAGE_BYTES = 1"
  "unat MAX_MESSAGE_BYTES = 67108864" "unat MIN_TIMEOUT_MILLIS = 1" "unat MAX_TIMEOUT_MILLIS = 300000"
  "unat MIN_TOTAL_OUTCOME_BYTES = 65536" "unat MAX_TOTAL_OUTCOME_BYTES = 1073741824"
  "unat WAL_FRAME_OVERHEAD_BYTES = 40" "unat (- 1 :: u32) = 4294967295"
  by (simp_all add: limit_defs unsigned_minus_1_eq_mask mask_eq_exp_minus_1)

lemmas limit_news = max_record_bytes_new_def max_message_bytes_new_def timeout_millis_new_def
  max_dedup_entries_new_def max_outcome_bytes_new_def max_total_outcome_bytes_new_def
  max_unsynced_records_new_def bounded_u32_new_if limit_unats

section \<open>What is accepted\<close>

definition endpoint_ok :: "'a parsers \<Rightarrow> string \<Rightarrow> bool" where
  "endpoint_ok ps s \<longleftrightarrow>
     (case parse_url ps s of
        None \<Rightarrow> False
      | Some u \<Rightarrow> url_scheme u \<in> {''http'', ''https''} \<and> url_has_host u \<and> \<not> url_cannot_be_a_base u \<and>
          url_username u = [] \<and> url_password u = None \<and> url_query u = None \<and> url_fragment u = None)"

definition endpoint_text :: "'a parsers \<Rightarrow> string \<Rightarrow> string" where
  "endpoint_text ps s = (case parse_url ps s of Some u \<Rightarrow> url_text u | None \<Rightarrow> [])"

definition wal_accepts :: "raw_wal_config \<Rightarrow> bool" where
  "wal_accepts raw \<longleftrightarrow> rw_directory raw \<noteq> [] \<and> unat (rw_max_record_bytes raw) \<in> {1024..67108864} \<and>
     (case rw_sync_policy raw of RawBatch n \<Rightarrow> unat n \<in> {1..4294967295} | _ \<Rightarrow> True)"

definition transport_accepts :: "'a parsers \<Rightarrow> raw_transport_config \<Rightarrow> bool" where
  "transport_accepts ps raw \<longleftrightarrow> parse_socket ps (rt_listen_address raw) \<noteq> None \<and>
     endpoint_ok ps (rt_advertised_url raw) \<and> unat (rt_request_timeout_ms raw) \<in> {1..300000} \<and>
     unat (rt_connect_timeout_ms raw) \<in> {1..300000} \<and> unat (rt_max_message_bytes raw) \<in> {1..67108864}"

definition dedup_accepts :: "raw_dedup_config \<Rightarrow> bool" where
  "dedup_accepts raw \<longleftrightarrow> unat (rd_max_entries raw) \<in> {1..4294967295} \<and> 1 \<le> unat (rd_max_outcome_bytes raw) \<and>
     rd_max_outcome_bytes raw \<le> rd_max_total_outcome_bytes raw \<and>
     unat (rd_max_total_outcome_bytes raw) \<in> {65536..1073741824}"

definition members_accepts :: "'a parsers \<Rightarrow> (string \<times> string) list \<Rightarrow> bool" where
  "members_accepts ps xs \<longleftrightarrow>
     list_all (\<lambda>x. validate_node_id (fst x) = Inr () \<and> endpoint_ok ps (snd x)) xs \<and>
     distinct (map (\<lambda>x. endpoint_text ps (snd x)) xs)"

definition raw_accepts :: "'a parsers \<Rightarrow> raw_node_config \<Rightarrow> bool" where
  "raw_accepts ps raw \<longleftrightarrow>
     (case parse_uuid ps (rnc_cluster_id raw) of None \<Rightarrow> False | Some bs \<Rightarrow> bs \<noteq> replicate 16 0) \<and>
     validate_node_id (rnc_node_id raw) = Inr () \<and>
     members_accepts ps (Mapping.ordered_entries (rnc_members raw)) \<and>
     rnc_node_id raw \<in> set (Mapping.ordered_keys (rnc_members raw)) \<and>
     wal_accepts (rnc_wal raw) \<and> transport_accepts ps (rnc_transport raw) \<and> dedup_accepts (rnc_dedup raw) \<and>
     unat (rt_max_message_bytes (rnc_transport raw)) + 40 \<le> unat (rw_max_record_bytes (rnc_wal raw)) \<and>
     rd_max_outcome_bytes (rnc_dedup raw) \<le> rt_max_message_bytes (rnc_transport raw)"

lemma peer_endpoint_parse_iff:
  "peer_endpoint_parse ps s = Inr e \<longleftrightarrow> endpoint_ok ps s \<and> parse_url ps s = Some (endpoint_url e)"
  by (cases e) (auto simp: peer_endpoint_parse_def endpoint_ok_def split: option.splits)

lemma endpoint_ok_parse:
  "endpoint_ok ps s \<longleftrightarrow> (\<exists>e. peer_endpoint_parse ps s = Inr e)"
  by (auto simp: peer_endpoint_parse_def endpoint_ok_def split: option.splits)

section \<open>The three parts\<close>

definition sync_policy_of :: "raw_sync_policy \<Rightarrow> sync_policy" where
  "sync_policy_of p = (case p of RawAlways \<Rightarrow> Always | RawManual \<Rightarrow> Manual | RawBatch n \<Rightarrow> Batch (ucast n))"

lemma wal_config_cases:
  "if wal_accepts raw
   then wal_config_try_from raw = Some (Inr \<lparr>wcfg_max_record_bytes = ucast (rw_max_record_bytes raw),
     wcfg_sync_policy = sync_policy_of (rw_sync_policy raw), wcfg_tail_repair = rw_tail_repair raw,
     wcfg_directory = rw_directory raw\<rparr>)
   else \<exists>es. wal_config_try_from raw = Some (Inl es) \<and> es \<noteq> [] \<and> sorted es"
  by (auto simp: wal_config_try_from_def wal_accepts_def check_def limit_news sync_policy_from_raw_def
      sync_policy_batch_def and_then_def sync_policy_of_def errors_from_vec_def
      split: raw_sync_policy.splits)


lemma check_no_error: "check res d errors = (a, errors') \<Longrightarrow> errors' = [] \<longleftrightarrow> errors = [] \<and> (\<exists>v. res = Inr v)"
  by (auto simp: check_def split: sum.splits)

lemma check_Inr [simp]: "check (Inr v) d errors = (Some v, errors)"
  by (simp add: check_def)

lemma transport_config_accepted:
  assumes "transport_accepts ps raw"
  shows "\<exists>a u. parse_socket ps (rt_listen_address raw) = Some a \<and> parse_url ps (rt_advertised_url raw) = Some u \<and>
     transport_config_try_from ps raw = Some (Inr \<lparr>tc_listen_address = a, tc_advertised_url = PeerEndpoint u,
       tc_request_timeout = ucast (rt_request_timeout_ms raw), tc_connect_timeout = ucast (rt_connect_timeout_ms raw),
       tc_max_message_bytes = ucast (rt_max_message_bytes raw)\<rparr>)"
proof -
  from assms obtain a e where "parse_socket ps (rt_listen_address raw) = Some a"
    and e: "peer_endpoint_parse ps (rt_advertised_url raw) = Inr e"
    by (auto simp: transport_accepts_def endpoint_ok_parse)
  moreover from e have "parse_url ps (rt_advertised_url raw) = Some (endpoint_url e)"
    by (simp add: peer_endpoint_parse_iff)
  ultimately show ?thesis using assms
    by (simp add: transport_config_try_from_def transport_accepts_def validate_timeout_def limit_news)
qed

lemma transport_config_rejected:
  assumes "\<not> transport_accepts ps raw"
  shows "\<exists>es. transport_config_try_from ps raw = Some (Inl es) \<and> es \<noteq> [] \<and> sorted es"
proof -
  let ?socket = "case parse_socket ps (rt_listen_address raw) of None \<Rightarrow> Inl () | Some a \<Rightarrow> Inr a"
  obtain a e1 where c1: "check ?socket (\<lambda>_. ValidationError ''listen_address'' ''invalid_socket_address''
      ''listen address must be an explicit IP socket address'') [] = (a, e1)" by fastforce
  obtain b e2 where c2: "check (peer_endpoint_parse ps (rt_advertised_url raw))
      (\<lambda>e. described ''advertised_url'' (endpoint_error_description e)) e1 = (b, e2)" by fastforce
  obtain c e3 where c3: "validate_timeout (rt_request_timeout_ms raw) ''request_timeout_ms'' e2 = (c, e3)"
    by fastforce
  obtain d e4 where c4: "validate_timeout (rt_connect_timeout_ms raw) ''connect_timeout_ms'' e3 = (d, e4)"
    by fastforce
  obtain f e5 where c5: "check (max_message_bytes_new (rt_max_message_bytes raw))
      (\<lambda>_. ValidationError ''max_message_bytes'' ''out_of_range''
        ''message limit must be nonzero and at most 64 MiB'') e4 = (f, e5)" by fastforce
  have "e5 \<noteq> []"
  proof
    assume "e5 = []"
    with check_no_error [OF c1] check_no_error [OF c2] check_no_error [OF c3 [unfolded validate_timeout_def]]
      check_no_error [OF c4 [unfolded validate_timeout_def]] check_no_error [OF c5]
    have "\<exists>v. ?socket = Inr v" "\<exists>v. peer_endpoint_parse ps (rt_advertised_url raw) = Inr v"
      "\<exists>v. timeout_millis_new (rt_request_timeout_ms raw) = Inr v"
      "\<exists>v. timeout_millis_new (rt_connect_timeout_ms raw) = Inr v"
      "\<exists>v. max_message_bytes_new (rt_max_message_bytes raw) = Inr v" by simp_all
    with assms show False
      by (auto simp: transport_accepts_def endpoint_ok_parse limit_news split: option.splits if_splits)
  qed
  then show ?thesis
    using c1 c2 c3 c4 c5 errors_from_vec_Some [of e5 "sort e5"]
    by (simp add: transport_config_try_from_def errors_from_vec_def)
qed

lemma dedup_limits_less:
  assumes "unat (o' :: u64) \<le> 1073741824" and "unat (t :: u64) \<le> 1073741824"
  shows "(ucast t :: u32) < ucast o' \<longleftrightarrow> t < o'"
  using assms unat_ucast_bound [of o' MAX_TOTAL_OUTCOME_BYTES] unat_ucast_bound [of t MAX_TOTAL_OUTCOME_BYTES]
  by (simp add: word_less_nat_alt limit_unats)

lemma dedup_config_accepted:
  assumes "dedup_accepts raw"
  shows "dedup_config_try_from raw = Some (Inr \<lparr>cfg_max_entries = ucast (rd_max_entries raw),
     cfg_max_outcome_bytes = ucast (rd_max_outcome_bytes raw),
     cfg_max_total_outcome_bytes = ucast (rd_max_total_outcome_bytes raw)\<rparr>)"
proof -
  have "unat (rd_max_outcome_bytes raw) \<le> 1073741824"
    using assms by (auto simp: dedup_accepts_def word_le_nat_alt)
  moreover have "\<not> rd_max_total_outcome_bytes raw < rd_max_outcome_bytes raw"
    using assms by (simp add: dedup_accepts_def not_less)
  ultimately show ?thesis
    using assms by (simp add: dedup_config_try_from_def dedup_accepts_def limit_news dedup_limits_less)
qed

lemma dedup_config_rejected:
  assumes "\<not> dedup_accepts raw"
  shows "\<exists>es. dedup_config_try_from raw = Some (Inl es) \<and> es \<noteq> [] \<and> sorted es"
proof -
  obtain a e1 where c1: "check (max_dedup_entries_new (rd_max_entries raw))
      (\<lambda>_. ValidationError ''max_entries'' ''out_of_range''
        ''dedup entry limit must be nonzero and fit in 32 bits'') [] = (a, e1)" by fastforce
  obtain b e2 where c2: "check (max_outcome_bytes_new (rd_max_outcome_bytes raw))
      (\<lambda>_. ValidationError ''max_outcome_bytes'' ''out_of_range''
        ''outcome limit must be nonzero and at most 1 GiB'') e1 = (b, e2)" by fastforce
  obtain c e3 where c3: "check (max_total_outcome_bytes_new (rd_max_total_outcome_bytes raw))
      (\<lambda>_. ValidationError ''max_total_outcome_bytes'' ''out_of_range''
        ''total outcome limit must be between 64 KiB and 1 GiB'') e2 = (c, e3)" by fastforce
  show ?thesis
  proof (cases "e3 = []")
    case False
    then have "sort e3 \<noteq> []" "\<And>e. errors_from_vec (e3 @ [e]) = Some (sort (e3 @ [e]))"
      "sort (e3 @ [e]) \<noteq> []" for e
      using errors_from_vec_Some [of e3 "sort e3"] errors_from_vec_Some [of "e3 @ [e]" "sort (e3 @ [e])"]
      by (simp_all add: errors_from_vec_def)
    with False c1 c2 c3 show ?thesis
      by (simp add: dedup_config_try_from_def errors_from_vec_def split: option.split)
  next
    case True
    with check_no_error [OF c1] check_no_error [OF c2] check_no_error [OF c3]
    have v: "\<exists>v. max_dedup_entries_new (rd_max_entries raw) = Inr v"
      "\<exists>v. max_outcome_bytes_new (rd_max_outcome_bytes raw) = Inr v"
      "\<exists>v. max_total_outcome_bytes_new (rd_max_total_outcome_bytes raw) = Inr v" by simp_all
    then have bounds: "unat (rd_max_entries raw) \<in> {1..4294967295}" "unat (rd_max_outcome_bytes raw) \<in> {1..1073741824}"
      "unat (rd_max_total_outcome_bytes raw) \<in> {65536..1073741824}"
      by (auto simp: limit_news split: if_splits)
    with assms have "rd_max_total_outcome_bytes raw < rd_max_outcome_bytes raw"
      by (auto simp: dedup_accepts_def)
    with bounds show ?thesis
      by (simp add: dedup_config_try_from_def limit_news dedup_limits_less errors_from_vec_def)
  qed
qed

section \<open>The members\<close>

lemma node_id_parse_cases:
  "node_id_parse s = (case validate_node_id s of Inl e \<Rightarrow> Inl e | Inr _ \<Rightarrow> Inr (NodeId s))"
  by (simp add: node_id_parse_def and_then_def split: sum.split)

text \<open>The errors of the loop are appended; none are exactly when the members are acceptable and no
  endpoint has been seen before. Then every key is a member.\<close>

definition loop_clean ::
  "'a parsers \<Rightarrow> (string \<times> string) list \<Rightarrow> (string, nat) mapping \<Rightarrow> bool" where
  "loop_clean ps xs E \<longleftrightarrow> members_accepts ps xs \<and>
     (\<forall>x \<in> set xs. Mapping.lookup E (endpoint_text ps (snd x)) = None)"

lemma loop_clean_Cons:
  "loop_clean ps ((n, s) # xs) E \<longleftrightarrow> validate_node_id n = Inr () \<and>
     (\<exists>e. peer_endpoint_parse ps s = Inr e \<and> Mapping.lookup E (endpoint_str e) = None \<and>
       loop_clean ps xs (Mapping.update (endpoint_str e) i E))"
proof -
  have "peer_endpoint_parse ps s = Inr e \<Longrightarrow> endpoint_text ps s = endpoint_str e" for e
    by (simp add: peer_endpoint_parse_iff endpoint_text_def endpoint_str_def)
  then show ?thesis
    by (fastforce simp: loop_clean_def members_accepts_def endpoint_ok_parse lookup_update' list_all_iff
        split: if_splits)
qed

definition loop_result ::
  "'a parsers \<Rightarrow> (string \<times> string) list \<Rightarrow> (node_id, peer_endpoint) mapping \<Rightarrow> (string, nat) mapping
   \<Rightarrow> (node_id, peer_endpoint) mapping \<Rightarrow> bool \<Rightarrow> bool" where
  "loop_result ps xs M E M' clean \<longleftrightarrow> (clean \<longleftrightarrow> loop_clean ps xs E) \<and>
     (clean \<longrightarrow> (\<forall>n. Mapping.lookup M' n \<noteq> None \<longleftrightarrow> node_str n \<in> fst ` set xs \<or> Mapping.lookup M n \<noteq> None))"

lemma members_loop_result:
  assumes "distinct (map fst xs)" and "\<forall>n. Mapping.lookup M n \<noteq> None \<longrightarrow> node_str n \<notin> fst ` set xs"
  shows "\<exists>M' new. members_loop ps i xs M E errors = Some (M', errors @ new) \<and> loop_result ps xs M E M' (new = [])"
  using assms
proof (induction xs arbitrary: i M E errors)
  case Nil
  then show ?case by (simp add: loop_result_def loop_clean_def members_accepts_def)
next
  case (Cons x xs)
  obtain n s where x: "x = (n, s)" by fastforce
  have d: "distinct (map fst xs)" "n \<notin> fst ` set xs" using Cons.prems(1) x by auto
  have fresh: "Mapping.lookup M (NodeId n) = None" using Cons.prems(2) x by auto
  have M: "\<forall>m. Mapping.lookup M m \<noteq> None \<longrightarrow> node_str m \<notin> fst ` set xs"
    using Cons.prems(2) x by auto
  have M': "\<forall>m. Mapping.lookup (Mapping.update (NodeId n) e M) m \<noteq> None \<longrightarrow> node_str m \<notin> fst ` set xs" for e
    using M d(2) by (metis lookup_update' node_id.sel)
  note IH = Cons.IH [OF d(1)]
  show ?case
  proof (cases "validate_node_id n = Inr ()")
    case False
    then obtain err where err: "validate_node_id n = Inl err" by (cases "validate_node_id n") auto
    have dirty: "\<not> loop_clean ps ((n, s) # xs) E" using err by (simp add: loop_clean_Cons [where i = i])
    show ?thesis
    proof (cases "peer_endpoint_parse ps s")
      case (Inl e)
      let ?more = "[ValidationError (member_path i ''node_id'') ''invalid_node_id''
        ''member node ID must satisfy the lowercase 1-64 byte grammar'',
        described (member_path i ''endpoint'') (endpoint_error_description e)]"
      from IH [OF M, of "Suc i" E "errors @ ?more"] obtain M1 new
        where "members_loop ps (Suc i) xs M E (errors @ ?more) = Some (M1, errors @ (?more @ new))" by auto
      with err Inl dirty show ?thesis
        by (intro exI [of _ M1] exI [of _ "?more @ new"])
          (simp add: x node_id_parse_cases check_def loop_result_def)
    next
      case (Inr e)
      let ?more = "[ValidationError (member_path i ''node_id'') ''invalid_node_id''
        ''member node ID must satisfy the lowercase 1-64 byte grammar'']"
      let ?dup = "if Mapping.lookup E (endpoint_str e) \<noteq> None
        then [ValidationError (member_path i ''endpoint'') ''duplicate_endpoint''
          ''member endpoints must be unique''] else []"
      from IH [OF M, of "Suc i" "Mapping.update (endpoint_str e) i E" "errors @ ?more @ ?dup"] obtain M1 new
        where "members_loop ps (Suc i) xs M (Mapping.update (endpoint_str e) i E) (errors @ ?more @ ?dup) =
          Some (M1, errors @ (?more @ ?dup @ new))" by auto
      with err Inr dirty show ?thesis
        by (cases "Mapping.lookup E (endpoint_str e)"; intro exI [of _ M1] exI [of _ "?more @ ?dup @ new"])
          (simp_all add: x node_id_parse_cases check_def loop_result_def)
    qed
  next
    case valid: True
    show ?thesis
    proof (cases "peer_endpoint_parse ps s")
      case (Inl e)
      let ?more = "[described (member_path i ''endpoint'') (endpoint_error_description e)]"
      have dirty: "\<not> loop_clean ps ((n, s) # xs) E" using Inl by (simp add: loop_clean_Cons [where i = i])
      from IH [OF M, of "Suc i" E "errors @ ?more"] obtain M1 new
        where "members_loop ps (Suc i) xs M E (errors @ ?more) = Some (M1, errors @ (?more @ new))" by auto
      with valid Inl dirty show ?thesis
        by (intro exI [of _ M1] exI [of _ "?more @ new"])
          (simp add: x node_id_parse_cases check_def loop_result_def)
    next
      case (Inr e)
      let ?E = "Mapping.update (endpoint_str e) i E"
      let ?dup = "if Mapping.lookup E (endpoint_str e) \<noteq> None
        then [ValidationError (member_path i ''endpoint'') ''duplicate_endpoint''
          ''member endpoints must be unique''] else []"
      from IH [OF M' [of e], of "Suc i" ?E "errors @ ?dup"] obtain M1 new
        where run: "members_loop ps (Suc i) xs (Mapping.update (NodeId n) e M) ?E (errors @ ?dup) =
            Some (M1, errors @ (?dup @ new))"
          and res: "loop_result ps xs (Mapping.update (NodeId n) e M) ?E M1 (new = [])" by auto
      have clean: "loop_clean ps ((n, s) # xs) E \<longleftrightarrow> ?dup = [] \<and> loop_clean ps xs ?E"
        using valid Inr by (simp add: loop_clean_Cons [where i = i])
      have "loop_result ps ((n, s) # xs) M E M1 (?dup @ new = [])"
        using res unfolding loop_result_def clean by (auto simp: lookup_update' split: if_splits)
      with valid Inr run fresh show ?thesis
        by (cases "Mapping.lookup E (endpoint_str e)"; intro exI [of _ M1] exI [of _ "?dup @ new"])
          (simp_all add: x node_id_parse_cases check_def)
    qed
  qed
qed


lemma validate_members_result:
  obtains M new where "validate_members ps raw local errors = Some (M, errors @ new)"
    "new = [] \<longleftrightarrow> members_accepts ps (Mapping.ordered_entries raw) \<and>
       (\<forall>n \<in> set_option local. node_str n \<in> set (Mapping.ordered_keys raw))"
    "new = [] \<Longrightarrow> \<forall>n. Mapping.lookup M n \<noteq> None \<longleftrightarrow> node_str n \<in> set (Mapping.ordered_keys raw)"
proof -
  let ?xs = "Mapping.ordered_entries raw"
  have keys: "fst ` set ?xs = set (Mapping.ordered_keys raw)"
    by (metis list.set_map map_fst_ordered_entries)
  obtain M new where run: "members_loop ps 0 ?xs Mapping.empty Mapping.empty errors = Some (M, errors @ new)"
    and res: "loop_result ps ?xs Mapping.empty Mapping.empty M (new = [])"
    using members_loop_result [of ?xs Mapping.empty ps 0 Mapping.empty errors] by auto
  have clean: "new = [] \<longleftrightarrow> members_accepts ps ?xs"
    "new = [] \<Longrightarrow> Mapping.lookup M n \<noteq> None \<longleftrightarrow> node_str n \<in> set (Mapping.ordered_keys raw)" for n
    using res keys by (auto simp: loop_result_def loop_clean_def)
  let ?missing = "[ValidationError ''members'' ''missing_local_node''
    ''members must contain the local node exactly once'']"
  show thesis
  proof (cases "\<exists>m. local = Some m \<and> Mapping.lookup M m = None")
    case True
    with run have "validate_members ps raw local errors = Some (M, errors @ (new @ ?missing))"
      by (auto simp: validate_members_def)
    moreover have "\<not> (members_accepts ps ?xs \<and> (\<forall>n \<in> set_option local. node_str n \<in> set (Mapping.ordered_keys raw)))"
    proof
      assume acc: "members_accepts ps ?xs \<and> (\<forall>n \<in> set_option local. node_str n \<in> set (Mapping.ordered_keys raw))"
      obtain m where m: "local = Some m" "Mapping.lookup M m = None" using True by blast
      from acc clean(1) clean(2) [of m] m show False by simp
    qed
    ultimately show thesis by (intro that) auto
  next
    case False
    with run have "validate_members ps raw local errors = Some (M, errors @ new)"
      by (auto simp: validate_members_def split: option.splits)
    then show thesis using False clean by (intro that) auto
  qed
qed


section \<open>The whole configuration\<close>

lemma wal_config_total:
  obtains (accepted) "wal_accepts raw" "wal_config_try_from raw =
      Some (Inr \<lparr>wcfg_max_record_bytes = ucast (rw_max_record_bytes raw),
        wcfg_sync_policy = sync_policy_of (rw_sync_policy raw), wcfg_tail_repair = rw_tail_repair raw,
        wcfg_directory = rw_directory raw\<rparr>)"
    | (rejected) es where "\<not> wal_accepts raw" "wal_config_try_from raw = Some (Inl es)" "es \<noteq> []"
  using wal_config_cases [of raw] by (cases "wal_accepts raw") auto

lemma transport_config_total:
  obtains (accepted) a u where "transport_accepts ps raw" "parse_url ps (rt_advertised_url raw) = Some u"
      "transport_config_try_from ps raw = Some (Inr \<lparr>tc_listen_address = a, tc_advertised_url = PeerEndpoint u,
        tc_request_timeout = ucast (rt_request_timeout_ms raw), tc_connect_timeout = ucast (rt_connect_timeout_ms raw),
        tc_max_message_bytes = ucast (rt_max_message_bytes raw)\<rparr>)"
    | (rejected) es where "\<not> transport_accepts ps raw" "transport_config_try_from ps raw = Some (Inl es)" "es \<noteq> []"
  using transport_config_accepted [of ps raw] transport_config_rejected [of ps raw]
  by (cases "transport_accepts ps raw") blast+

lemma dedup_config_total:
  obtains (accepted) "dedup_accepts raw" "dedup_config_try_from raw =
      Some (Inr \<lparr>cfg_max_entries = ucast (rd_max_entries raw),
        cfg_max_outcome_bytes = ucast (rd_max_outcome_bytes raw),
        cfg_max_total_outcome_bytes = ucast (rd_max_total_outcome_bytes raw)\<rparr>)"
    | (rejected) es where "\<not> dedup_accepts raw" "dedup_config_try_from raw = Some (Inl es)" "es \<noteq> []"
  using dedup_config_accepted [of raw] dedup_config_rejected [of raw] by (cases "dedup_accepts raw") blast+

lemma parts_total:
  "wal_config_try_from w = Some wr \<Longrightarrow> (\<forall>es. wr = Inl es \<longrightarrow> es \<noteq> []) \<and> ((\<exists>v. wr = Inr v) \<longleftrightarrow> wal_accepts w)"
  "transport_config_try_from ps t = Some tr \<Longrightarrow>
     (\<forall>es. tr = Inl es \<longrightarrow> es \<noteq> []) \<and> ((\<exists>v. tr = Inr v) \<longleftrightarrow> transport_accepts ps t)"
  "dedup_config_try_from d = Some dr \<Longrightarrow> (\<forall>es. dr = Inl es \<longrightarrow> es \<noteq> []) \<and> ((\<exists>v. dr = Inr v) \<longleftrightarrow> dedup_accepts d)"
  subgoal by (rule wal_config_total [of w]) auto
  subgoal by (rule transport_config_total [of ps t]) auto
  subgoal by (rule dedup_config_total [of d]) auto
  done

text \<open>The two limits that span parts, on the numbers of the raw configuration.\<close>

lemma check_nested_simps [simp]:
  "check_nested (Inr v) prefix errors = (Some v, errors)"
  "check_nested (Inl nested) prefix errors = (None, extend_prefixed errors prefix nested)"
  by (simp_all add: check_nested_def)

lemma message_limit_errors_append:
  "\<exists>new. message_limit_errors w t d errors = errors @ new"
  by (auto simp: message_limit_errors_def Let_def split: option.splits)

lemma message_limits:
  assumes "unat m \<le> 67108864" and "unat r \<le> 67108864" and "unat o' \<le> 1073741824"
    and "tc_max_message_bytes t = ucast (m :: u64)" and "wcfg_max_record_bytes w = ucast (r :: u64)"
    and "cfg_max_outcome_bytes d = ucast (o' :: u64)"
  shows "message_limit_errors (Some w) (Some t) (Some d) [] = [] \<longleftrightarrow> unat m + 40 \<le> unat r \<and> o' \<le> m"
proof -
  have u: "unat (ucast m :: u32) = unat m" "unat (ucast r :: u32) = unat r" "unat (ucast o' :: u32) = unat o'"
    using assms(1-3) unat_ucast_bound [of _ MAX_TOTAL_OUTCOME_BYTES] by (simp_all add: limit_unats)
  have "checked_add (ucast m :: u32) WAL_FRAME_OVERHEAD_BYTES = Some (ucast m + 40)"
    using assms(1) u(1) by (simp add: checked_add_def limit_defs)
  moreover have "unat (ucast m + 40 :: u32) = unat m + 40"
    using assms(1) u(1) by (subst unat_add_lem [THEN iffD1]) simp_all
  ultimately show ?thesis
    using u assms(4-6) by (simp add: message_limit_errors_def word_less_nat_alt word_le_nat_alt not_less Let_def)
qed

definition config_values :: "'a parsers \<Rightarrow> raw_node_config \<Rightarrow> 'a node_config \<Rightarrow> bool" where
  "config_values ps raw cfg \<longleftrightarrow> nc_node_id cfg = NodeId (rnc_node_id raw) \<and>
     (\<forall>n. Mapping.lookup (nc_members cfg) n \<noteq> None \<longleftrightarrow> node_str n \<in> set (Mapping.ordered_keys (rnc_members raw))) \<and>
     wcfg_max_record_bytes (nc_wal cfg) = ucast (rw_max_record_bytes (rnc_wal raw)) \<and>
     wcfg_sync_policy (nc_wal cfg) = sync_policy_of (rw_sync_policy (rnc_wal raw)) \<and>
     tc_max_message_bytes (nc_transport cfg) = ucast (rt_max_message_bytes (rnc_transport raw)) \<and>
     cfg_max_entries (nc_dedup cfg) = ucast (rd_max_entries (rnc_dedup raw)) \<and>
     cfg_max_outcome_bytes (nc_dedup cfg) = ucast (rd_max_outcome_bytes (rnc_dedup raw)) \<and>
     cfg_max_total_outcome_bytes (nc_dedup cfg) = ucast (rd_max_total_outcome_bytes (rnc_dedup raw))"

lemma nested_no_error:
  assumes "check_nested res prefix errors = (a, errors')" and "\<forall>es. res = Inl es \<longrightarrow> es \<noteq> []"
  shows "errors' = [] \<longleftrightarrow> errors = [] \<and> (\<exists>v. res = Inr v)" and "res = Inr v \<Longrightarrow> a = Some v \<and> errors' = errors"
  using assms by (auto simp: check_nested_def extend_prefixed_def split: sum.splits)

lemma cluster_id_parse_iff:
  "(\<exists>k. cluster_id_parse ps s = Inr k) \<longleftrightarrow>
     (case parse_uuid ps s of None \<Rightarrow> False | Some bs \<Rightarrow> bs \<noteq> replicate 16 0)"
  by (auto simp: cluster_id_parse_def cluster_id_from_bytes_def opaque_from_bytes_def OPAQUE_ID_BYTES_def
      split: option.splits)

lemma node_config_result:
  "if raw_accepts ps raw then \<exists>cfg. node_config_try_from ps raw = Some (Inr cfg) \<and> config_values ps raw cfg
   else \<exists>es. node_config_try_from ps raw = Some (Inl es) \<and> es \<noteq> [] \<and> sorted es"
proof -
  obtain c e1 where c1: "check (cluster_id_parse ps (rnc_cluster_id raw))
      (\<lambda>e. described ''cluster_id'' (identity_error_description e)) [] = (c, e1)" by fastforce
  obtain n e2 where c2: "check (node_id_parse (rnc_node_id raw))
      (\<lambda>_. ValidationError ''node_id'' ''invalid_node_id''
        ''node ID must satisfy the lowercase 1-64 byte grammar'') e1 = (n, e2)" by fastforce
  obtain M new where c3: "validate_members ps (rnc_members raw) n e2 = Some (M, e2 @ new)"
    and new: "new = [] \<longleftrightarrow> members_accepts ps (Mapping.ordered_entries (rnc_members raw)) \<and>
       (\<forall>m \<in> set_option n. node_str m \<in> set (Mapping.ordered_keys (rnc_members raw)))"
    and M: "new = [] \<Longrightarrow> \<forall>m. Mapping.lookup M m \<noteq> None \<longleftrightarrow> node_str m \<in> set (Mapping.ordered_keys (rnc_members raw))"
    using validate_members_result [of ps "rnc_members raw" n e2] by blast
  obtain wr tr dr where parts: "wal_config_try_from (rnc_wal raw) = Some wr"
    "transport_config_try_from ps (rnc_transport raw) = Some tr" "dedup_config_try_from (rnc_dedup raw) = Some dr"
    by (metis wal_config_total transport_config_total dedup_config_total)
  obtain w e4 where c4: "check_nested wr ''wal'' (e2 @ new) = (w, e4)" by fastforce
  obtain t e5 where c5: "check_nested tr ''transport'' e4 = (t, e5)" by fastforce
  obtain d e6 where c6: "check_nested dr ''dedup'' e5 = (d, e6)" by fastforce
  let ?e = "message_limit_errors w t d e6"
  have result: "node_config_try_from ps raw = (case errors_from_vec ?e of
      Some es \<Rightarrow> Some (Inl es)
    | None \<Rightarrow> (case (c, n, w, t, d) of
        (Some c, Some n, Some w, Some t, Some d) \<Rightarrow>
          Some (Inr \<lparr>nc_cluster_id = c, nc_node_id = n, nc_members = M, nc_wal = w, nc_transport = t, nc_dedup = d\<rparr>)
      | _ \<Rightarrow> None))"
    unfolding node_config_try_from_def by (simp add: c1 c2 c3 parts c4 c5 c6)
  note total = parts_total(1) [OF parts(1)] parts_total(2) [OF parts(2)] parts_total(3) [OF parts(3)]
  then have nested: "\<forall>es. wr = Inl es \<longrightarrow> es \<noteq> []" "\<forall>es. tr = Inl es \<longrightarrow> es \<noteq> []" "\<forall>es. dr = Inl es \<longrightarrow> es \<noteq> []"
    and parts_ok: "(\<exists>v. wr = Inr v) \<longleftrightarrow> wal_accepts (rnc_wal raw)"
      "(\<exists>v. tr = Inr v) \<longleftrightarrow> transport_accepts ps (rnc_transport raw)"
      "(\<exists>v. dr = Inr v) \<longleftrightarrow> dedup_accepts (rnc_dedup raw)"
    by blast+
  note N = nested_no_error [OF c4 nested(1)] nested_no_error [OF c5 nested(2)] nested_no_error [OF c6 nested(3)]
  have e6: "e6 = [] \<longleftrightarrow> (\<exists>k. cluster_id_parse ps (rnc_cluster_id raw) = Inr k) \<and>
      validate_node_id (rnc_node_id raw) = Inr () \<and> new = [] \<and> wal_accepts (rnc_wal raw) \<and>
      transport_accepts ps (rnc_transport raw) \<and> dedup_accepts (rnc_dedup raw)"
    using N(1,3,5) parts_ok check_no_error [OF c1] check_no_error [OF c2]
    by (auto simp: node_id_parse_cases split: sum.splits)
  show ?thesis
  proof (cases "e6 = []")
    case False
    then have "\<not> raw_accepts ps raw"
      using new c2 by (auto simp: e6 raw_accepts_def cluster_id_parse_iff node_id_parse_cases)
    moreover have "?e \<noteq> []" using message_limit_errors_append [of w t d e6] False by auto
    ultimately show ?thesis using result errors_from_vec_Some [of ?e "sort ?e"]
      by (simp add: errors_from_vec_def)
  next
    case True
    then have acc: "validate_node_id (rnc_node_id raw) = Inr ()" "new = []" "wal_accepts (rnc_wal raw)"
      "transport_accepts ps (rnc_transport raw)" "dedup_accepts (rnc_dedup raw)"
      "\<exists>k. cluster_id_parse ps (rnc_cluster_id raw) = Inr k" by (simp_all add: e6)
    then obtain k where k: "cluster_id_parse ps (rnc_cluster_id raw) = Inr k" by blast
    have c: "c = Some k" "n = Some (NodeId (rnc_node_id raw))"
      using c1 c2 k acc(1) by (auto simp: node_id_parse_cases)
    obtain a u where vals: "wr = Inr \<lparr>wcfg_max_record_bytes = ucast (rw_max_record_bytes (rnc_wal raw)),
        wcfg_sync_policy = sync_policy_of (rw_sync_policy (rnc_wal raw)),
        wcfg_tail_repair = rw_tail_repair (rnc_wal raw), wcfg_directory = rw_directory (rnc_wal raw)\<rparr>"
      "tr = Inr \<lparr>tc_listen_address = a, tc_advertised_url = PeerEndpoint u,
        tc_request_timeout = ucast (rt_request_timeout_ms (rnc_transport raw)),
        tc_connect_timeout = ucast (rt_connect_timeout_ms (rnc_transport raw)),
        tc_max_message_bytes = ucast (rt_max_message_bytes (rnc_transport raw))\<rparr>"
      "dr = Inr \<lparr>cfg_max_entries = ucast (rd_max_entries (rnc_dedup raw)),
        cfg_max_outcome_bytes = ucast (rd_max_outcome_bytes (rnc_dedup raw)),
        cfg_max_total_outcome_bytes = ucast (rd_max_total_outcome_bytes (rnc_dedup raw))\<rparr>"
      using parts acc(3-5) wal_config_cases [of "rnc_wal raw"] transport_config_accepted [OF acc(4)]
        dedup_config_accepted [OF acc(5)] by auto
    note some = N(2) [OF vals(1)] N(4) [OF vals(2)] N(6) [OF vals(3)]
    let ?m = "rt_max_message_bytes (rnc_transport raw)" and ?r = "rw_max_record_bytes (rnc_wal raw)"
      and ?o = "rd_max_outcome_bytes (rnc_dedup raw)"
    have "unat ?m \<le> 67108864" "unat ?r \<le> 67108864" "unat ?o \<le> 1073741824"
      using acc(3-5) by (auto simp: wal_accepts_def transport_accepts_def dedup_accepts_def word_le_nat_alt)
    from message_limits [OF this, of "the t" "the w" "the d"] some True
    have e: "?e = [] \<longleftrightarrow> unat ?m + 40 \<le> unat ?r \<and> ?o \<le> ?m" by simp
    have acc_iff: "raw_accepts ps raw \<longleftrightarrow> ?e = []"
      unfolding raw_accepts_def e cluster_id_parse_iff [symmetric] using acc new c(2) by auto
    show ?thesis
    proof (cases "?e = []")
      case True
      with result c some acc_iff M acc(2) show ?thesis by (simp add: config_values_def)
    next
      case False
      with result acc_iff errors_from_vec_Some [of ?e "sort ?e"] show ?thesis by (simp add: errors_from_vec_def)
    qed
  qed
qed


section \<open>Properties\<close>

definition sample_parsers :: "unit parsers" where
  "sample_parsers =
     \<lparr>parse_url = (\<lambda>s. Some \<lparr>url_text = s, url_scheme = ''http'', url_has_host = True,
        url_cannot_be_a_base = False, url_username = [], url_password = None, url_query = None,
        url_fragment = None\<rparr>),
      parse_uuid = (\<lambda>s. Some (replicate 16 1)), parse_socket = (\<lambda>s. Some ())\<rparr>"

definition sample_raw :: raw_node_config where
  "sample_raw =
     \<lparr>rnc_cluster_id = ''c'', rnc_node_id = ''a'', rnc_members = Mapping.update ''a'' ''http://a'' Mapping.empty,
      rnc_wal = \<lparr>rw_directory = ''wal'', rw_max_record_bytes = 8388608, rw_sync_policy = RawBatch 4,
        rw_tail_repair = Reject\<rparr>,
      rnc_transport = \<lparr>rt_listen_address = ''l'', rt_advertised_url = ''http://a'', rt_request_timeout_ms = 100,
        rt_connect_timeout_ms = 100, rt_max_message_bytes = 4194304\<rparr>,
      rnc_dedup = raw_dedup_default\<rparr>"

lemma sample_raw_accepts: "raw_accepts sample_parsers sample_raw"
proof -
  have "validate_node_id ''a'' = Inr ()" by code_simp
  moreover have "replicate 16 1 \<noteq> (replicate 16 0 :: bytes)" by (simp add: replicate_eq_replicate)
  ultimately show ?thesis
    by (simp add: raw_accepts_def sample_raw_def sample_parsers_def members_accepts_def wal_accepts_def
        transport_accepts_def dedup_accepts_def endpoint_ok_def raw_dedup_default_def
        DEFAULT_MAX_DEDUP_ENTRIES_def DEFAULT_MAX_OUTCOME_BYTES_def DEFAULT_MAX_TOTAL_OUTCOME_BYTES_def limit_defs
        insort_insert_key_def)
qed

text \<open>C30: Validation accepts a raw configuration exactly when every identifier and endpoint is valid, every
  limit lies in its range, the endpoints are distinct, the local node is a member, a framed message
  fits in a WAL record and an outcome fits in a message. It never panics (no \<open>expect\<close> on a missing
  value and no failed assertion is reached), and a rejection carries a nonempty list of errors sorted
  by path, code and message. \<close>

theorem config_accepts_exactly:
  "case node_config_try_from ps raw of
     None \<Rightarrow> False
   | Some (Inl es) \<Rightarrow> \<not> raw_accepts ps raw \<and> es \<noteq> [] \<and> sorted es
   | Some (Inr cfg) \<Rightarrow> raw_accepts ps raw \<and> nc_node_id cfg = NodeId (rnc_node_id raw)"
  using node_config_result [of ps raw] by (auto simp: config_values_def split: if_splits)

text \<open>C29: A validated configuration satisfies what the other components assume of it: the local node is a
  member, a framed message fits in a record, an outcome fits in a message, the deduplication limits
  are consistent and a batch policy has a nonzero size. \<close>

theorem validated_config_consistent:
  assumes "node_config_try_from ps raw = Some (Inr cfg)"
  shows "Mapping.lookup (nc_members cfg) (nc_node_id cfg) \<noteq> None \<and>
    unat (tc_max_message_bytes (nc_transport cfg)) + unat WAL_FRAME_OVERHEAD_BYTES \<le> unat (wcfg_max_record_bytes (nc_wal cfg)) \<and>
    cfg_max_outcome_bytes (nc_dedup cfg) \<le> tc_max_message_bytes (nc_transport cfg) \<and>
    config_ok (nc_dedup cfg) \<and> wcfg_sync_policy (nc_wal cfg) \<noteq> Batch 0"
proof -
  from assms node_config_result [of ps raw] have acc: "raw_accepts ps raw" and v: "config_values ps raw cfg"
    by (auto split: if_splits)
  note D = acc [unfolded raw_accepts_def wal_accepts_def transport_accepts_def dedup_accepts_def]
  have "unat (rt_max_message_bytes (rnc_transport raw)) \<le> unat MAX_TOTAL_OUTCOME_BYTES"
    "unat (rw_max_record_bytes (rnc_wal raw)) \<le> unat MAX_TOTAL_OUTCOME_BYTES"
    "unat (rd_max_total_outcome_bytes (rnc_dedup raw)) \<le> unat MAX_TOTAL_OUTCOME_BYTES"
    "unat (rd_max_outcome_bytes (rnc_dedup raw)) \<le> unat MAX_TOTAL_OUTCOME_BYTES"
    "unat (rd_max_entries (rnc_dedup raw)) \<le> unat (- 1 :: u32)"
    using D by (auto simp: limit_unats word_le_nat_alt)
  note u = this [THEN unat_ucast_bound]
  have "wcfg_sync_policy (nc_wal cfg) \<noteq> Batch 0"
  proof (cases "rw_sync_policy (rnc_wal raw)")
    case (RawBatch n)
    with D have "unat (ucast n :: u32) = unat n" "1 \<le> unat n"
      using unat_ucast_bound [of n "- 1"] by (auto simp: limit_unats)
    then have "(ucast n :: u32) \<noteq> 0" by auto
    with RawBatch v show ?thesis by (simp add: config_values_def sync_policy_of_def)
  qed (use v in \<open>simp_all add: config_values_def sync_policy_of_def\<close>)
  moreover have "(ucast (rd_max_entries (rnc_dedup raw)) :: u32) \<noteq> 0"
    using D u(5) by auto
  ultimately show ?thesis using v D u
    by (simp add: config_values_def config_ok_def word_le_nat_alt limit_unats)
qed

theorem validated_config_consistent_witness:
  "\<exists>cfg. node_config_try_from sample_parsers sample_raw = Some (Inr cfg) \<and>
     Mapping.lookup (nc_members cfg) (NodeId ''a'') \<noteq> None \<and> config_ok (nc_dedup cfg)"
proof -
  obtain cfg where cfg: "node_config_try_from sample_parsers sample_raw = Some (Inr cfg)"
    "nc_node_id cfg = NodeId ''a''"
    using node_config_result [of sample_parsers sample_raw] sample_raw_accepts
    by (auto simp: config_values_def sample_raw_def)
  with validated_config_consistent [OF cfg(1)] show ?thesis by auto
qed

end
