(* ===== verification/Iron_Text.thy ===== *)
theory Iron_Text
  imports Iron_Config
begin

text \<open>
  The text forms of the scalars of \<open>iron-core\<close> (the \<open>Display\<close>, \<open>FromStr\<close> and error texts of \<open>id.rs\<close>,
  \<open>limits.rs\<close>, \<open>envelope.rs\<close>, \<open>config.rs\<close> and \<open>error.rs\<close>) and their \<open>serde\<close> forms.

  The crate \<open>uuid\<close> is the pair of arguments \<open>uuid_parse\<close> (\<open>Uuid::parse_str\<close>) and \<open>uuid_text\<close>
  (\<open>Uuid::from_bytes(..).hyphenated()\<close>). A format of \<open>serde\<close> is not part of the repository either: a
  \<open>Serialize\<close> impl is the call it makes on its serializer (\<open>ser_call\<close>), and a \<open>Deserialize\<close> impl is a function
  of what its deserializer answers to each request (\<open>deserializer\<close>).
\<close>

section \<open>Display and FromStr\<close>

definition opaque_parse :: "string \<Rightarrow> (bytes \<Rightarrow> 'i) \<Rightarrow> (string \<Rightarrow> bytes option) \<Rightarrow> string \<Rightarrow> core_error + 'i" where
  "opaque_parse kind mk uuid_parse input =
     (case uuid_parse input of
        None \<Rightarrow> Inl (InvalidUuid kind)
      | Some bs \<Rightarrow> opaque_from_bytes kind mk bs)"

definition opaque_display :: "(bytes \<Rightarrow> string) \<Rightarrow> bytes \<Rightarrow> string" where
  "opaque_display uuid_text bs = uuid_text bs"

definition node_id_display :: "node_id \<Rightarrow> string" where
  "node_id_display n = node_str n"

definition protocol_name_display :: "protocol_name \<Rightarrow> string" where
  "protocol_name_display n = protocol_str n"

definition message_type_display :: "message_type \<Rightarrow> string" where
  "message_type_display t = type_str t"

definition nonzero_display :: "'a::len word \<Rightarrow> string" where
  "nonzero_display v = show_nat (unat v)"

definition bounded_display :: "u32 \<Rightarrow> string" where
  "bounded_display v = show_nat (unat v)"

definition endpoint_display :: "peer_endpoint \<Rightarrow> string" where
  "endpoint_display e = url_text (endpoint_url e)"

text \<open>Endpoints are compared by their text.\<close>

definition endpoint_less_eq :: "peer_endpoint \<Rightarrow> peer_endpoint \<Rightarrow> bool" where
  "endpoint_less_eq a b \<longleftrightarrow> endpoint_str a \<le> endpoint_str b"

lemma cluster_id_parse_opaque: "cluster_id_parse ps = opaque_parse ''cluster ID'' ClusterId (parse_uuid ps)"
  by (simp add: fun_eq_iff cluster_id_parse_def opaque_parse_def cluster_id_from_bytes_def split: option.split)

section \<open>Error texts\<close>

definition validation_error_display :: "validation_error \<Rightarrow> string" where
  "validation_error_display e = ve_field_path e @ '' ['' @ ve_code e @ '']: '' @ ve_message e"

definition validation_errors_new :: "validation_error \<Rightarrow> validation_error list \<Rightarrow> validation_error list" where
  "validation_errors_new first rest = sort (first # rest)"

definition validation_errors_display :: "validation_error list \<Rightarrow> string" where
  "validation_errors_display errors =
     ''configuration validation failed with '' @ show_nat (length errors) @ '' error(s)''"

definition core_error_display :: "core_error \<Rightarrow> string" where
  "core_error_display e =
     (case e of
        InvalidUuid kind \<Rightarrow> kind @ '' is not a valid UUID''
      | ZeroIdentifier kind \<Rightarrow> kind @ '' must not be all zeroes''
      | GeneratedZeroIdentifier kind \<Rightarrow> ''generated '' @ kind @ '' must not be all zeroes''
      | InvalidText kind reason \<Rightarrow> kind @ '' is invalid: '' @ reason
      | InvalidInteger kind _ \<Rightarrow> kind @ '' is not a valid integer''
      | ZeroValue kind \<Rightarrow> kind @ '' must be nonzero''
      | ValueOutOfRange kind actual minimum maximum \<Rightarrow>
          kind @ '' value '' @ show_nat (unat actual) @ '' is outside the accepted range '' @
          show_nat (unat minimum) @ ''..='' @ show_nat (unat maximum)
      | InvalidPeerEndpointUrl \<Rightarrow> ''peer endpoint is not a valid URL''
      | InvalidPeerEndpointScheme \<Rightarrow> ''peer endpoint scheme must be http or https''
      | MissingPeerEndpointHost \<Rightarrow> ''peer endpoint must contain a host''
      | PeerEndpointCredentialsNotAllowed \<Rightarrow> ''peer endpoint credentials are not permitted''
      | PeerEndpointQueryNotAllowed \<Rightarrow> ''peer endpoint query strings are not permitted''
      | PeerEndpointFragmentNotAllowed \<Rightarrow> ''peer endpoint fragments are not permitted''
      | UnsupportedEnvelopeVersion version \<Rightarrow> ''unsupported envelope version '' @ show_nat (unat version)
      | PayloadTooLarge actual maximum \<Rightarrow>
          ''envelope payload is '' @ show_nat (unat actual) @ '' bytes but the configured maximum is '' @
          show_nat (unat maximum)
      | DeliveryAttemptOverflow \<Rightarrow> ''delivery attempt overflow''
      | InvalidFingerprint reason \<Rightarrow> ''semantic fingerprint is invalid: '' @ reason
      | SequenceExhausted counter \<Rightarrow> counter @ '' sequence counter is exhausted''
      | OutcomeTooLarge actual maximum \<Rightarrow>
          ''dedup outcome is '' @ show_nat (unat actual) @
          '' bytes but the configured per-outcome maximum is '' @ show_nat (unat maximum)
      | Validation errors \<Rightarrow> validation_errors_display errors)"

section \<open>Decimal numbers\<close>

lemma to_digit_char: "d < 10 \<Longrightarrow> to_digit (char_of (48 + d)) = Some d"
proof -
  have "list_all (\<lambda>d. to_digit (char_of (48 + d)) = Some d) [0..<10]" by code_simp
  then show "d < 10 \<Longrightarrow> ?thesis" by (simp add: list_all_iff)
qed

lemma parse_digits_snoc:
  "parse_digits limit acc (s @ [char_of (48 + d)]) =
     and_then (parse_digits limit acc s) (\<lambda>v. if v * 10 + d > limit then Inl PosOverflow else Inr (v * 10 + d))"
  if "d < 10"
proof (induction s arbitrary: acc)
  case Nil
  then show ?case using to_digit_char [OF that] by auto
qed (auto split: option.splits)

lemma parse_show_nat: "n \<le> limit \<Longrightarrow> parse_digits limit 0 (show_nat n) = Inr n"
proof (induction n rule: show_nat.induct)
  case (1 n)
  show ?case
  proof (cases "n < 10")
    case True
    with 1(2) show ?thesis by (simp add: show_nat.simps [of n] to_digit_char)
  next
    case False
    moreover have "n div 10 \<le> limit" using 1(2) by linarith
    ultimately have "parse_digits limit 0 (show_nat (n div 10)) = Inr (n div 10)" using 1(1) by simp
    with False 1(2) show ?thesis
      by (simp add: show_nat.simps [of n] parse_digits_snoc)
  qed
qed

lemma show_nat_digits: "show_nat n \<noteq> [] \<and> list_all (\<lambda>c. to_digit c \<noteq> None) (show_nat n)"
proof (induction n rule: show_nat.induct)
  case (1 n)
  have "to_digit (char_of (48 + n mod 10)) \<noteq> None" using to_digit_char [of "n mod 10"] by simp
  with 1 show ?case
    by (cases "n < 10") (auto simp: show_nat.simps [of n] to_digit_char)
qed

lemma parse_unsigned_show_nat:
  assumes "n \<le> limit"
  shows "parse_unsigned limit (show_nat n) = Inr n"
proof -
  obtain c cs where s: "show_nat n = c # cs" using show_nat_digits [of n] by (cases "show_nat n") auto
  then have "to_digit c \<noteq> None" using show_nat_digits [of n] by simp
  moreover have "to_digit CHR ''+'' = None" "to_digit CHR ''-'' = None" by code_simp+
  ultimately have "c \<noteq> CHR ''+''" "c \<noteq> CHR ''-''" by auto
  with s parse_show_nat [OF assms] show ?thesis by (simp add: parse_unsigned_def del: parse_digits.simps)
qed

lemma nonzero_text:
  assumes "v \<noteq> 0"
  shows "nonzero_parse kind mk (nonzero_display v) = Inr (mk (v :: 'a::len word))"
proof -
  have "unat v < 2 ^ LENGTH('a)" by (rule unsigned_less)
  then have "unat v \<le> 2 ^ LENGTH('a) - 1" by linarith
  with assms show ?thesis
    by (simp add: nonzero_parse_def nonzero_display_def parse_unsigned_show_nat nonzero_new_def)
qed

lemma bounded_text:
  assumes "lo \<le> v" and "v \<le> hi"
  shows "bounded_u32_parse kind lo hi (bounded_display v) = Inr v"
proof -
  have v: "unat v < 2 ^ 32" using unsigned_less [of v, where ?'a = nat] by simp
  then have "unat v \<le> 2 ^ 64 - 1" by simp
  then have "bounded_u32_parse kind lo hi (bounded_display v) = bounded_u32_new kind lo hi (word_of_nat (unat v))"
    by (simp add: bounded_u32_parse_def bounded_display_def parse_unsigned_show_nat)
  also have "\<dots> = Inr v" using assms v by (simp add: bounded_u32_new_Inr_iff unat_of_nat)
  finally show ?thesis .
qed

lemma fingerprint_text:
  "length (fingerprint_bytes fp) = 32 \<Longrightarrow> fingerprint_parse (fingerprint_display fp) = Inr fp"
  using decode_hex_pairs_display [of "fingerprint_bytes fp"]
  by (cases fp) (simp add: fingerprint_parse_def fingerprint_display_def length_concat hex_byte_def o_def sum_list_triv)

section \<open>Serialization\<close>

text \<open>What a \<open>Serialize\<close> impl hands to its serializer.\<close>

datatype ser_call =
    SerializeStr string
  | SerializeTuple nat bytes
  | SerializeU16 u16
  | SerializeU32 u32
  | SerializeU64 u64

text \<open>The elements a sequence yields, each of them an element or an error of the format; past the last one
  \<open>next_element\<close> returns \<open>None\<close>. A deserializer asked for a tuple calls one method of the visitor.\<close>

datatype 'e tuple_visit =
    VisitSeq "('e + u8) list"
  | VisitBytes bytes
  | VisitBorrowedBytes bytes
  | VisitError 'e

record 'e deserializer =
  de_human_readable :: bool
  de_string :: "'e + string"
  de_u16 :: "'e + u16"
  de_u32 :: "'e + u32"
  de_u64 :: "'e + u64"
  de_tuple :: "nat \<Rightarrow> 'e tuple_visit"
  de_bytes32 :: "'e + bytes"
  de_invalid_length :: "nat \<Rightarrow> 'e"
  de_custom :: "string \<Rightarrow> 'e"

text \<open>The loop of \<open>visit_seq\<close>: \<open>count\<close> elements are read, from \<open>index\<close> on; a missing one is an error.\<close>

fun visit_seq :: "'e deserializer \<Rightarrow> nat \<Rightarrow> nat \<Rightarrow> ('e + u8) list \<Rightarrow> 'e + bytes" where
  "visit_seq d index 0 elements = Inr []"
| "visit_seq d index (Suc count) [] = Inl (de_invalid_length d index)"
| "visit_seq d index (Suc count) (element # elements) =
     and_then element (\<lambda>b. and_then (visit_seq d (Suc index) count elements) (\<lambda>bs. Inr (b # bs)))"

definition visit_bytes :: "'e deserializer \<Rightarrow> nat \<Rightarrow> bytes \<Rightarrow> 'e + bytes" where
  "visit_bytes d n bs = (if length bs = n then Inr bs else Inl (de_invalid_length d (length bs)))"

definition deserialize_fixed_bytes :: "'e deserializer \<Rightarrow> nat \<Rightarrow> 'e + bytes" where
  "deserialize_fixed_bytes d n =
     (case de_tuple d n of
        VisitSeq elements \<Rightarrow> visit_seq d 0 n elements
      | VisitBytes bs \<Rightarrow> visit_bytes d n bs
      | VisitBorrowedBytes bs \<Rightarrow> visit_bytes d n bs
      | VisitError e \<Rightarrow> Inl e)"

definition serialize_fixed_bytes :: "nat \<Rightarrow> bytes \<Rightarrow> ser_call" where
  "serialize_fixed_bytes n bs = SerializeTuple n bs"

definition opaque_serialize :: "(bytes \<Rightarrow> string) \<Rightarrow> bool \<Rightarrow> bytes \<Rightarrow> ser_call" where
  "opaque_serialize uuid_text human_readable bs =
     (if human_readable then SerializeStr (opaque_display uuid_text bs) else serialize_fixed_bytes OPAQUE_ID_BYTES bs)"

definition opaque_deserialize ::
  "string \<Rightarrow> (bytes \<Rightarrow> 'i) \<Rightarrow> (string \<Rightarrow> bytes option) \<Rightarrow> 'e deserializer \<Rightarrow> 'e + 'i" where
  "opaque_deserialize kind mk uuid_parse d =
     (if de_human_readable d
      then and_then (de_string d) (\<lambda>input.
        map_err (\<lambda>e. de_custom d (core_error_display e)) (opaque_parse kind mk uuid_parse input))
      else and_then (deserialize_fixed_bytes d OPAQUE_ID_BYTES) (\<lambda>bs.
        map_err (\<lambda>e. de_custom d (core_error_display e)) (opaque_from_bytes kind mk bs)))"

text \<open>The impls of \<open>NodeId\<close>, of the names and of \<open>PeerEndpoint\<close> share one form.\<close>

definition text_serialize :: "string \<Rightarrow> ser_call" where
  "text_serialize s = SerializeStr s"

definition text_deserialize :: "(string \<Rightarrow> core_error + 'i) \<Rightarrow> 'e deserializer \<Rightarrow> 'e + 'i" where
  "text_deserialize parse d =
     and_then (de_string d) (\<lambda>input. map_err (\<lambda>e. de_custom d (core_error_display e)) (parse input))"

definition node_id_deserialize :: "'e deserializer \<Rightarrow> 'e + node_id" where
  "node_id_deserialize d = text_deserialize node_id_parse d"

definition protocol_name_deserialize :: "'e deserializer \<Rightarrow> 'e + protocol_name" where
  "protocol_name_deserialize d = text_deserialize protocol_name_parse d"

definition message_type_deserialize :: "'e deserializer \<Rightarrow> 'e + message_type" where
  "message_type_deserialize d = text_deserialize message_type_parse d"

definition endpoint_deserialize :: "'a parsers \<Rightarrow> 'e deserializer \<Rightarrow> 'e + peer_endpoint" where
  "endpoint_deserialize ps d = text_deserialize (peer_endpoint_parse ps) d"

text \<open>\<open>nonzero_integer\<close> derives a transparent \<open>Serialize\<close>.\<close>

definition nonzero_deserialize ::
  "string \<Rightarrow> ('a::len word \<Rightarrow> 'i) \<Rightarrow> ('e deserializer \<Rightarrow> 'e + 'a word) \<Rightarrow> 'e deserializer \<Rightarrow> 'e + 'i" where
  "nonzero_deserialize kind mk read d =
     and_then (read d) (\<lambda>v. map_err (\<lambda>e. de_custom d (core_error_display e)) (nonzero_new kind mk v))"

definition lsn_deserialize :: "'e deserializer \<Rightarrow> 'e + lsn" where
  "lsn_deserialize d = nonzero_deserialize ''LSN'' Lsn de_u64 d"

definition schema_version_deserialize :: "'e deserializer \<Rightarrow> 'e + schema_version" where
  "schema_version_deserialize d = nonzero_deserialize ''schema version'' SchemaVersion de_u16 d"

definition bounded_serialize :: "u32 \<Rightarrow> ser_call" where
  "bounded_serialize v = SerializeU32 v"

definition bounded_deserialize :: "string \<Rightarrow> u32 \<Rightarrow> u32 \<Rightarrow> 'e deserializer \<Rightarrow> 'e + u32" where
  "bounded_deserialize kind lo hi d =
     and_then (de_u64 d) (\<lambda>v. map_err (\<lambda>e. de_custom d (core_error_display e)) (bounded_u32_new kind lo hi v))"

definition fingerprint_serialize :: "bool \<Rightarrow> semantic_fingerprint \<Rightarrow> ser_call" where
  "fingerprint_serialize human_readable fp =
     (if human_readable then SerializeStr (fingerprint_display fp) else SerializeTuple 32 (fingerprint_bytes fp))"

definition fingerprint_deserialize :: "'e deserializer \<Rightarrow> 'e + semantic_fingerprint" where
  "fingerprint_deserialize d =
     (if de_human_readable d
      then and_then (de_string d) (\<lambda>input.
        map_err (\<lambda>e. de_custom d (core_error_display e)) (fingerprint_parse input))
      else and_then (de_bytes32 d) (\<lambda>bs. Inr (SemanticFingerprint bs)))"

section \<open>The members of a raw configuration\<close>

text \<open>\<open>MembersVisitor::visit_map\<close>: an entry under a key seen before is an error, where inserting it would
  silently replace the first one.\<close>

fun visit_members ::
  "'e deserializer \<Rightarrow> ('e + string \<times> string) list \<Rightarrow> (string, string) mapping \<Rightarrow> 'e + (string, string) mapping" where
  "visit_members d [] members = Inr members"
| "visit_members d (entry # entries) members =
     and_then entry (\<lambda>(node_id, endpoint).
       let replaced = Mapping.lookup members node_id;
           members = Mapping.update node_id endpoint members
       in if replaced \<noteq> None then Inl (de_custom d ''members must not contain a duplicate node ID'')
          else visit_members d entries members)"

definition deserialize_members ::
  "'e deserializer \<Rightarrow> ('e + string \<times> string) list \<Rightarrow> 'e + (string, string) mapping" where
  "deserialize_members d entries = visit_members d entries Mapping.empty"

definition default_max_record_bytes :: u64 where "default_max_record_bytes = ucast DEFAULT_MAX_RECORD_BYTES"
definition default_max_message_bytes :: u64 where "default_max_message_bytes = ucast DEFAULT_MAX_MESSAGE_BYTES"
definition default_max_dedup_entries :: u64 where "default_max_dedup_entries = ucast DEFAULT_MAX_DEDUP_ENTRIES"
definition default_max_outcome_bytes :: u64 where "default_max_outcome_bytes = ucast DEFAULT_MAX_OUTCOME_BYTES"
definition default_max_total_outcome_bytes :: u64 where
  "default_max_total_outcome_bytes = ucast DEFAULT_MAX_TOTAL_OUTCOME_BYTES"

text \<open>The \<open>Default\<close> impls of the limits.\<close>

definition max_record_bytes_default :: u32 where "max_record_bytes_default = DEFAULT_MAX_RECORD_BYTES"
definition max_message_bytes_default :: u32 where "max_message_bytes_default = DEFAULT_MAX_MESSAGE_BYTES"
definition max_dedup_entries_default :: u32 where "max_dedup_entries_default = DEFAULT_MAX_DEDUP_ENTRIES"
definition max_outcome_bytes_default :: u32 where "max_outcome_bytes_default = DEFAULT_MAX_OUTCOME_BYTES"
definition max_total_outcome_bytes_default :: u32 where
  "max_total_outcome_bytes_default = DEFAULT_MAX_TOTAL_OUTCOME_BYTES"

end
