(* ===== verification/Text_Properties.thy ===== *)
theory Text_Properties
  imports Iron_Text Config_Properties
begin

text \<open>
  The properties of the text and \<open>serde\<close> forms: what is printed or serialized is read back, and what is read
  is valid or refused.
\<close>

section \<open>Text\<close>

text \<open>Printing a validated scalar and parsing the text gives the scalar back: opaque identifiers (when the
  UUID crate reads its own hyphenated form), node ids, names, nonzero integers, bounded limits and
  fingerprints.\<close>

lemma text_forms_round_trip:
  assumes "opaque_ok bs" and "uuid_parse (uuid_text bs) = Some bs"
    and "node_id_ok n" and "protocol_name_ok p" and "message_type_ok t"
    and "v \<noteq> 0" and "lo \<le> w" and "w \<le> hi" and "length (fingerprint_bytes fp) = 32"
  shows "opaque_parse kind mk uuid_parse (opaque_display uuid_text bs) = Inr (mk bs) \<and>
    node_id_parse (node_id_display n) = Inr n \<and>
    protocol_name_parse (protocol_name_display p) = Inr p \<and>
    message_type_parse (message_type_display t) = Inr t \<and>
    nonzero_parse kind mk' (nonzero_display v) = Inr (mk' (v :: 'a::len word)) \<and>
    bounded_u32_parse kind lo hi (bounded_display w) = Inr w \<and>
    fingerprint_parse (fingerprint_display fp) = Inr fp"
  using assms
  by (simp add: opaque_parse_def opaque_display_def opaque_from_bytes_ok node_id_display_def node_id_parse_Inr_iff
      protocol_name_display_def protocol_name_parse_Inr_iff message_type_display_def message_type_parse_Inr_iff
      nonzero_text bounded_text fingerprint_text)

definition one_id :: bytes where "one_id = replicate 15 0 @ [1]"

text \<open>A UUID text that is its 16 bytes as characters.\<close>

definition raw_uuid_text :: "bytes \<Rightarrow> string" where "raw_uuid_text bs = map (\<lambda>b. char_of (unat b)) bs"
definition raw_uuid_parse :: "string \<Rightarrow> bytes option" where
  "raw_uuid_parse s = (if length s = 16 then Some (str_bytes s) else None)"

section \<open>Deserialization yields validated values\<close>

lemma visit_seq_length: "visit_seq d i n es = Inr bs \<Longrightarrow> length bs = n"
  by (induction d i n es arbitrary: bs rule: visit_seq.induct) (auto simp: result_iff)

lemma deserialize_fixed_bytes_length: "deserialize_fixed_bytes d n = Inr bs \<Longrightarrow> length bs = n"
  by (auto simp: deserialize_fixed_bytes_def visit_bytes_def visit_seq_length split: tuple_visit.splits if_splits)

text \<open>C32: Deserialization cannot smuggle in an invalid value: whatever the format delivers, an identifier that
  deserializes is 16 bytes and not zero, node ids and names meet their grammar, numbers are nonzero or
  within their limits, an endpoint is acceptable, and a fingerprint has 32 bytes.\<close>

theorem deserialized_values_valid:
  assumes "\<And>s bs. uuid_parse s = Some bs \<Longrightarrow> length bs = OPAQUE_ID_BYTES"
    and "\<And>bs. de_bytes32 d = Inr bs \<Longrightarrow> length bs = 32"
  shows "(opaque_deserialize kind mk uuid_parse d = Inr i \<longrightarrow> (\<exists>bs. i = mk bs \<and> opaque_ok bs)) \<and>
    (node_id_deserialize d = Inr n \<longrightarrow> node_id_ok n) \<and>
    (protocol_name_deserialize d = Inr p \<longrightarrow> protocol_name_ok p) \<and>
    (message_type_deserialize d = Inr t \<longrightarrow> message_type_ok t) \<and>
    (lsn_deserialize d = Inr l \<longrightarrow> lsn_ok l) \<and> (schema_version_deserialize d = Inr v \<longrightarrow> schema_ok v) \<and>
    (bounded_deserialize kind lo hi d = Inr w \<longrightarrow> lo \<le> w \<and> w \<le> hi) \<and>
    (endpoint_deserialize ps d = Inr e \<longrightarrow> (\<exists>s. endpoint_ok ps s \<and> parse_url ps s = Some (endpoint_url e))) \<and>
    (fingerprint_deserialize d = Inr fp \<longrightarrow> length (fingerprint_bytes fp) = 32)"
proof (intro conjI impI)
  assume i: "opaque_deserialize kind mk uuid_parse d = Inr i"
  have "\<exists>bs. i = mk bs \<and> bs \<noteq> replicate OPAQUE_ID_BYTES 0 \<and> length bs = OPAQUE_ID_BYTES"
  proof (cases "de_human_readable d")
    case True
    with i assms(1) show ?thesis
      by (auto simp: opaque_deserialize_def result_iff opaque_parse_def split: option.splits)
  next
    case False
    with i deserialize_fixed_bytes_length show ?thesis by (auto simp: opaque_deserialize_def result_iff)
  qed
  then show "\<exists>bs. i = mk bs \<and> opaque_ok bs" by (auto simp: opaque_ok_def)
next
  assume "fingerprint_deserialize d = Inr fp"
  then show "length (fingerprint_bytes fp) = 32"
    using assms(2) length_decode_hex_pairs
    by (fastforce simp: fingerprint_deserialize_def fingerprint_parse_def result_iff split: if_splits)
next
  assume "endpoint_deserialize ps d = Inr e"
  then show "\<exists>s. endpoint_ok ps s \<and> parse_url ps s = Some (endpoint_url e)"
    by (auto simp: endpoint_deserialize_def text_deserialize_def result_iff peer_endpoint_parse_iff)
qed (auto simp: node_id_deserialize_def protocol_name_deserialize_def message_type_deserialize_def
  text_deserialize_def lsn_deserialize_def schema_version_deserialize_def nonzero_deserialize_def
  bounded_deserialize_def result_iff lsn_ok_def schema_ok_def)

text \<open>A format that answers with fixed values; its errors are texts.\<close>

definition sample_format :: "bool \<Rightarrow> string \<Rightarrow> u64 \<Rightarrow> bytes \<Rightarrow> string deserializer" where
  "sample_format human_readable s v bs =
     \<lparr>de_human_readable = human_readable, de_string = Inr s, de_u16 = Inr (ucast v), de_u32 = Inr (ucast v), de_u64 = Inr v,
      de_tuple = (\<lambda>_. VisitSeq (map Inr bs)),
      de_bytes32 = (if length bs = 32 then Inr bs else Inl ''invalid length''),
      de_invalid_length = (\<lambda>_. ''invalid length''), de_custom = (\<lambda>message. message)\<rparr>"

theorem deserialized_values_valid_witness:
  "opaque_deserialize ''timer ID'' TimerId raw_uuid_parse (sample_format False ''node-1'' 7 one_id) = Inr (TimerId one_id) \<and>
   opaque_ok one_id \<and>
   node_id_deserialize (sample_format False ''node-1'' 7 one_id) = Inr (NodeId ''node-1'') \<and> node_id_ok (NodeId ''node-1'')"
proof -
  have run: "opaque_deserialize ''timer ID'' TimerId raw_uuid_parse (sample_format False ''node-1'' 7 one_id) = Inr (TimerId one_id)"
    "node_id_deserialize (sample_format False ''node-1'' 7 one_id) = Inr (NodeId ''node-1'')"
    by code_simp+
  have uuid: "length bs = OPAQUE_ID_BYTES" if "raw_uuid_parse s = Some bs" for s bs
    using that by (auto simp: raw_uuid_parse_def OPAQUE_ID_BYTES_def split: if_splits)
  have b32: "length bs = 32" if "de_bytes32 (sample_format False ''node-1'' 7 one_id) = Inr bs" for bs
    using that by (simp add: sample_format_def split: if_splits)
  note valid = deserialized_values_valid [where uuid_parse = raw_uuid_parse and
      d = "sample_format False ''node-1'' 7 one_id" and kind = "''timer ID''" and mk = TimerId and i = "TimerId one_id"
      and n = "NodeId ''node-1''", OF uuid b32]
  from mp [OF conjunct1 [OF valid] run(1)] have "opaque_ok one_id" by auto
  with run mp [OF conjunct1 [OF conjunct2 [OF valid]] run(2)] show ?thesis by simp
qed

section \<open>Serialization and deserialization\<close>

text \<open>A deserializer reads back what a call wrote when it delivers the value to the request of the same
  type; a tuple of the announced length may come as a sequence or as bytes. A format is what its deserializer
  answers after one call has been written; it is faithful when it reads back every call.\<close>

definition reads_back :: "'e deserializer \<Rightarrow> ser_call \<Rightarrow> bool" where
  "reads_back d call \<longleftrightarrow>
     (case call of
        SerializeStr s \<Rightarrow> de_string d = Inr s
      | SerializeTuple n bs \<Rightarrow> length bs = n \<longrightarrow>
          (de_tuple d n = VisitSeq (map Inr bs) \<or> de_tuple d n = VisitBytes bs \<or> de_tuple d n = VisitBorrowedBytes bs) \<and>
          (n = 32 \<longrightarrow> de_bytes32 d = Inr bs)
      | SerializeU16 v \<Rightarrow> de_u16 d = Inr v
      | SerializeU32 v \<Rightarrow> de_u32 d = Inr v
      | SerializeU64 v \<Rightarrow> de_u64 d = Inr v)"

definition faithful_format :: "bool \<Rightarrow> (ser_call \<Rightarrow> 'e deserializer) \<Rightarrow> bool" where
  "faithful_format human_readable format \<longleftrightarrow>
     (\<forall>call. de_human_readable (format call) = human_readable \<and> reads_back (format call) call)"

text \<open>Self-describing formats (JSON, TOML) deliver an integer to a request of any width that can hold it; a
  format that writes integers at their width does not.\<close>

definition widens_integers :: "(ser_call \<Rightarrow> 'e deserializer) \<Rightarrow> bool" where
  "widens_integers format \<longleftrightarrow> (\<forall>v. de_u64 (format (SerializeU32 v)) = Inr (ucast v))"

lemma faithful_formatD:
  "faithful_format h format \<Longrightarrow> de_human_readable (format call) = h"
  "faithful_format h format \<Longrightarrow> reads_back (format call) call"
  by (simp_all add: faithful_format_def)

lemma visit_seq_all: "length bs = n \<Longrightarrow> visit_seq d i n (map Inr bs) = Inr bs"
  by (induction bs arbitrary: i n) auto

lemma fixed_bytes_read_back:
  "reads_back d (SerializeTuple n bs) \<Longrightarrow> length bs = n \<Longrightarrow> deserialize_fixed_bytes d n = Inr bs"
  by (auto simp: reads_back_def deserialize_fixed_bytes_def visit_seq_all visit_bytes_def)

text \<open>C33: Serializing a valid id, name, fingerprint, LSN or schema version and deserializing it gives the value
  again, in every human-readable or binary format that reads back what was written at the type it was
  written. A bounded limit is written as \<open>u32\<close> and read as \<open>u64\<close>, so it comes back when the format moreover
  delivers an integer to a wider request.\<close>

theorem serde_round_trip:
  assumes "faithful_format human_readable format"
    and "opaque_ok bs" and "uuid_parse (uuid_text bs) = Some bs" and "length (fingerprint_bytes fp) = 32"
    and "node_id_ok n" and "protocol_name_ok p" and "message_type_ok t" and "l \<noteq> 0" and "v \<noteq> 0"
    and "lo \<le> w" and "w \<le> hi"
  shows "opaque_deserialize kind mk uuid_parse (format (opaque_serialize uuid_text human_readable bs)) = Inr (mk bs) \<and>
    fingerprint_deserialize (format (fingerprint_serialize human_readable fp)) = Inr fp \<and>
    node_id_deserialize (format (text_serialize (node_str n))) = Inr n \<and>
    protocol_name_deserialize (format (text_serialize (protocol_str p))) = Inr p \<and>
    message_type_deserialize (format (text_serialize (type_str t))) = Inr t \<and>
    lsn_deserialize (format (SerializeU64 l)) = Inr (Lsn l) \<and>
    schema_version_deserialize (format (SerializeU16 v)) = Inr (SchemaVersion v) \<and>
    (widens_integers format \<longrightarrow> bounded_deserialize kind lo hi (format (bounded_serialize w)) = Inr w)"
proof (intro conjI impI)
  note human = faithful_formatD(1) [OF assms(1)] and reads = faithful_formatD(2) [OF assms(1)]
  show "opaque_deserialize kind mk uuid_parse (format (opaque_serialize uuid_text human_readable bs)) = Inr (mk bs)"
  proof (cases human_readable)
    case True
    with reads [of "SerializeStr (uuid_text bs)"] assms(2,3) human show ?thesis
      by (simp add: opaque_deserialize_def opaque_serialize_def reads_back_def opaque_display_def opaque_parse_def
          opaque_from_bytes_ok)
  next
    case False
    have "length bs = OPAQUE_ID_BYTES" using assms(2) by (simp add: opaque_ok_def)
    with fixed_bytes_read_back [OF reads] have
      "deserialize_fixed_bytes (format (SerializeTuple OPAQUE_ID_BYTES bs)) OPAQUE_ID_BYTES = Inr bs" by blast
    with False assms(2) human show ?thesis
      by (simp add: opaque_deserialize_def opaque_serialize_def serialize_fixed_bytes_def opaque_from_bytes_ok)
  qed
  show "fingerprint_deserialize (format (fingerprint_serialize human_readable fp)) = Inr fp"
    using fingerprint_text [OF assms(4)] assms(4) human reads [of "SerializeStr (fingerprint_display fp)"]
      reads [of "SerializeTuple 32 (fingerprint_bytes fp)"]
    by (simp add: fingerprint_deserialize_def fingerprint_serialize_def reads_back_def)
  show "node_id_deserialize (format (text_serialize (node_str n))) = Inr n"
    "protocol_name_deserialize (format (text_serialize (protocol_str p))) = Inr p"
    "message_type_deserialize (format (text_serialize (type_str t))) = Inr t"
    using reads [of "SerializeStr s" for s] assms(5-7) node_id_parse_Inr_iff [of "node_str n" n]
      protocol_name_parse_Inr_iff [of "protocol_str p" p] message_type_parse_Inr_iff [of "type_str t" t]
    by (simp_all add: reads_back_def text_serialize_def node_id_deserialize_def protocol_name_deserialize_def
        message_type_deserialize_def text_deserialize_def)
  show "lsn_deserialize (format (SerializeU64 l)) = Inr (Lsn l)"
    "schema_version_deserialize (format (SerializeU16 v)) = Inr (SchemaVersion v)"
    using reads [of "SerializeU64 l"] reads [of "SerializeU16 v"] assms(8,9)
    by (simp_all add: reads_back_def lsn_deserialize_def schema_version_deserialize_def nonzero_deserialize_def
        nonzero_new_def)
  assume "widens_integers format"
  then show "bounded_deserialize kind lo hi (format (bounded_serialize w)) = Inr w"
    using assms(10,11)
    by (simp add: widens_integers_def bounded_serialize_def bounded_deserialize_def bounded_u32_new_Inr_iff [THEN iffD2])
qed

text \<open>A self-describing human-readable format, and a binary format that writes integers big-endian at their
  width and a text as its bytes.\<close>

definition described_format :: "ser_call \<Rightarrow> string deserializer" where
  "described_format call =
     (let nothing_there = \<lparr>de_human_readable = True, de_string = Inl ''not a string'',
            de_u16 = Inl ''not an integer'', de_u32 = Inl ''not an integer'', de_u64 = Inl ''not an integer'',
            de_tuple = (\<lambda>_. VisitError ''not a sequence''), de_bytes32 = Inl ''not a sequence'',
            de_invalid_length = (\<lambda>_. ''invalid length''), de_custom = (\<lambda>message. message)\<rparr>
      in case call of
           SerializeStr s \<Rightarrow> nothing_there\<lparr>de_string := Inr s\<rparr>
         | SerializeTuple n bs \<Rightarrow> nothing_there\<lparr>de_tuple := (\<lambda>_. VisitSeq (map Inr bs)), de_bytes32 := Inr bs\<rparr>
         | SerializeU16 v \<Rightarrow> nothing_there\<lparr>de_u16 := Inr v, de_u32 := Inr (ucast v), de_u64 := Inr (ucast v)\<rparr>
         | SerializeU32 v \<Rightarrow> nothing_there\<lparr>de_u32 := Inr v, de_u64 := Inr (ucast v)\<rparr>
         | SerializeU64 v \<Rightarrow> nothing_there\<lparr>de_u64 := Inr v\<rparr>)"

definition fixed_width_write :: "ser_call \<Rightarrow> bytes" where
  "fixed_width_write call =
     (case call of
        SerializeStr s \<Rightarrow> str_bytes s
      | SerializeTuple n bs \<Rightarrow> bs
      | SerializeU16 v \<Rightarrow> be16 v
      | SerializeU32 v \<Rightarrow> be32 v
      | SerializeU64 v \<Rightarrow> be64 v)"

definition fixed_width_read :: "bytes \<Rightarrow> string deserializer" where
  "fixed_width_read bs =
     (let first = (\<lambda>n. if length bs < n then Inl ''unexpected end'' else Inr (take n bs))
      in \<lparr>de_human_readable = False, de_string = Inr (map (\<lambda>b. char_of (unat b)) bs),
          de_u16 = and_then (first 2) (\<lambda>x. Inr (from_be16 x)),
          de_u32 = and_then (first 4) (\<lambda>x. Inr (from_be32 x)),
          de_u64 = and_then (first 8) (\<lambda>x. Inr (from_be64 x)),
          de_tuple = (\<lambda>n. case first n of Inl e \<Rightarrow> VisitError e | Inr x \<Rightarrow> VisitSeq (map Inr x)),
          de_bytes32 = first 32, de_invalid_length = (\<lambda>_. ''invalid length''), de_custom = (\<lambda>message. message)\<rparr>)"

definition fixed_width_format :: "ser_call \<Rightarrow> string deserializer" where
  "fixed_width_format call = fixed_width_read (fixed_width_write call)"

lemma char_of_str_bytes: "map (\<lambda>b. char_of (unat b)) (str_bytes s) = s"
proof -
  have "char_of (unat (of_char c :: u8)) = c" for c
  proof -
    have "unat (of_char c :: u8) = of_char c mod 256"
      unfolding of_nat_of_char [symmetric, where ?'a = "8 word"] by (simp only: unat_of_nat) simp
    then show ?thesis by simp
  qed
  then show ?thesis by (simp add: str_bytes_def comp_def)
qed

lemma sample_formats:
  "faithful_format True described_format" "widens_integers described_format"
  "faithful_format False fixed_width_format"
  by (auto simp: faithful_format_def widens_integers_def reads_back_def described_format_def Let_def
      fixed_width_format_def fixed_width_write_def fixed_width_read_def char_of_str_bytes
      split: ser_call.split)

text \<open>In such a binary format a limit that was written cannot be read again.\<close>

lemma limits_unreadable_at_fixed_width:
  "bounded_deserialize kind lo hi (fixed_width_format (bounded_serialize w)) = Inl ''unexpected end''"
  by (simp add: fixed_width_format_def fixed_width_read_def fixed_width_write_def bounded_serialize_def
      bounded_deserialize_def)

theorem serde_round_trip_witness:
  "opaque_deserialize ''timer ID'' TimerId raw_uuid_parse
     (fixed_width_format (opaque_serialize raw_uuid_text False one_id)) = Inr (TimerId one_id) \<and>
   lsn_deserialize (fixed_width_format (SerializeU64 7)) = Inr (Lsn 7) \<and>
   node_id_deserialize (described_format (text_serialize ''a'')) = Inr (NodeId ''a'') \<and>
   bounded_deserialize ''timer ID'' 5 9 (described_format (bounded_serialize 6)) = Inr 6"
proof -
  have ok: "opaque_ok one_id" "raw_uuid_parse (raw_uuid_text one_id) = Some one_id"
    "length (fingerprint_bytes (SemanticFingerprint (replicate 32 0))) = 32" "node_id_ok (NodeId ''a'')"
    "protocol_name_ok (ProtocolName ''a'')" "message_type_ok (MessageType ''a'')" "(7 :: u64) \<noteq> 0" "(7 :: u16) \<noteq> 0"
    "(5 :: u32) \<le> 6" "(6 :: u32) \<le> 9"
    by code_simp+
  note binary = serde_round_trip [where uuid_parse = raw_uuid_parse and uuid_text = raw_uuid_text and
      kind = "''timer ID''" and mk = TimerId, OF sample_formats(3) ok]
  note readable = serde_round_trip [where uuid_parse = raw_uuid_parse and uuid_text = raw_uuid_text and
      kind = "''timer ID''" and mk = TimerId, OF sample_formats(1) ok]
  from binary readable sample_formats(2) show ?thesis by simp
qed

section \<open>The members of a raw configuration\<close>

lemma visit_members_Inr:
  "visit_members d entries M = Inr M' \<longleftrightarrow>
     (\<exists>xs. entries = map Inr xs \<and> distinct (map fst xs) \<and> (\<forall>x\<in>set xs. Mapping.lookup M (fst x) = None) \<and>
       (\<forall>k. Mapping.lookup M' k = (map_of xs ++ Mapping.lookup M) k))"
proof (induction entries arbitrary: M)
  case Nil
  have "M = M' \<longleftrightarrow> (\<forall>k. Mapping.lookup M' k = Mapping.lookup M k)" by (metis mapping_eqI)
  then show ?case by simp
next
  case (Cons entry entries)
  show ?case
  proof (cases entry)
    case (Inl e)
    then show ?thesis by auto
  next
    case (Inr x)
    obtain n u where x: "x = (n, u)" by fastforce
    let ?M = "Mapping.update n u M"
    have split: "(\<exists>xs. Inr x # entries = map Inr xs \<and> P xs) \<longleftrightarrow> (\<exists>xs. entries = map Inr xs \<and> P (x # xs))" for P
      by (cases x) (auto simp: Cons_eq_map_conv)
    have merge: "map_of xs ++ Mapping.lookup ?M = map_of (x # xs) ++ Mapping.lookup M" if "n \<notin> fst ` set xs" "Mapping.lookup M n = None" for xs
      by (rule ext) (use that in \<open>auto simp: x map_add_def lookup_update' map_of_eq_None_iff split: option.splits\<close>)
    have fresh: "Mapping.lookup M n = None \<and> distinct (map fst xs) \<and> (\<forall>y\<in>set xs. Mapping.lookup ?M (fst y) = None) \<longleftrightarrow>
        distinct (map fst (x # xs)) \<and> (\<forall>y\<in>set (x # xs). Mapping.lookup M (fst y) = None)" for xs
      by (force simp: x lookup_update' split: if_splits)
    have "visit_members d (Inr x # entries) M = Inr M' \<longleftrightarrow>
        Mapping.lookup M n = None \<and> visit_members d entries ?M = Inr M'" by (auto simp: x Let_def)
    also have "\<dots> \<longleftrightarrow> (\<exists>xs. entries = map Inr xs \<and> (Mapping.lookup M n = None \<and> distinct (map fst xs) \<and>
        (\<forall>y\<in>set xs. Mapping.lookup ?M (fst y) = None)) \<and> (\<forall>k. Mapping.lookup M' k = (map_of xs ++ Mapping.lookup ?M) k))"
      unfolding Cons.IH by blast
    also have "\<dots> \<longleftrightarrow> (\<exists>xs. entries = map Inr xs \<and> distinct (map fst (x # xs)) \<and>
        (\<forall>y\<in>set (x # xs). Mapping.lookup M (fst y) = None) \<and>
        (\<forall>k. Mapping.lookup M' k = (map_of (x # xs) ++ Mapping.lookup M) k))"
      unfolding fresh using merge by (fastforce simp: x)
    finally show ?thesis unfolding Inr split .
  qed
qed

text \<open>C31: The members of a raw configuration are exactly the entries of the map that was read: reading fails when
  the format fails or a node id occurs twice, so no entry silently replaces another.\<close>

theorem members_read_exactly:
  "deserialize_members d entries = Inr M \<longleftrightarrow>
     (\<exists>xs. entries = map Inr xs \<and> distinct (map fst xs) \<and> (\<forall>k. Mapping.lookup M k = map_of xs k))"
proof -
  have "Mapping.lookup Mapping.empty = (Map.empty :: string \<Rightarrow> string option)" by (rule ext) simp
  then show ?thesis unfolding deserialize_members_def visit_members_Inr by simp
qed

section \<open>Defaults\<close>

text \<open>The defaults of the raw configuration are the validated defaults, so an absent section is accepted.\<close>

lemmas default_defs = default_max_record_bytes_def default_max_message_bytes_def default_max_dedup_entries_def
  default_max_outcome_bytes_def default_max_total_outcome_bytes_def max_record_bytes_default_def
  max_message_bytes_default_def max_dedup_entries_default_def max_outcome_bytes_default_def
  max_total_outcome_bytes_default_def DEFAULT_MAX_RECORD_BYTES_def DEFAULT_MAX_DEDUP_ENTRIES_def
  DEFAULT_MAX_OUTCOME_BYTES_def DEFAULT_MAX_TOTAL_OUTCOME_BYTES_def

lemma defaults_accepted:
  "max_record_bytes_new default_max_record_bytes = Inr max_record_bytes_default"
  "max_message_bytes_new default_max_message_bytes = Inr max_message_bytes_default"
  "max_dedup_entries_new default_max_dedup_entries = Inr max_dedup_entries_default"
  "max_outcome_bytes_new default_max_outcome_bytes = Inr max_outcome_bytes_default"
  "max_total_outcome_bytes_new default_max_total_outcome_bytes = Inr max_total_outcome_bytes_default"
  by (simp_all add: limit_news default_defs limit_defs)

lemma default_dedup_accepted:
  "dedup_config_try_from raw_dedup_default = Some (Inr \<lparr>cfg_max_entries = max_dedup_entries_default,
     cfg_max_outcome_bytes = max_outcome_bytes_default,
     cfg_max_total_outcome_bytes = max_total_outcome_bytes_default\<rparr>)"
proof -
  have "dedup_accepts raw_dedup_default"
    by (simp add: dedup_accepts_def raw_dedup_default_def default_defs limit_defs word_le_nat_alt)
  from dedup_config_accepted [OF this] show ?thesis
    by (simp add: raw_dedup_default_def default_defs limit_defs)
qed

end
