(* ===== verification/Iron_Grpc.thy ===== *)
theory Iron_Grpc
  imports Envelope_Properties
begin

text \<open>
  The wire adapter of \<open>iron-grpc/src/lib.rs\<close>: the protobuf envelope, its conversion from and to the
  validated envelope, and the delivery service.

  The protobuf encoding itself is generated code (crate \<open>prost\<close>), and so is the server. A protobuf
  string is its UTF-8 byte sequence, like every \<open>str\<close>. A status carries the error instead of its text.
\<close>

section \<open>Wire envelopes\<close>

record wire_envelope =
  we_envelope_version :: u32
  we_cluster_id :: bytes
  we_source_node_id :: string
  we_destination_node_id :: string
  we_message_id :: bytes
  we_correlation_id :: "bytes option"
  we_protocol :: string
  we_message_type :: string
  we_schema_version :: u32
  we_delivery_attempt :: u32
  we_payload :: bytes

datatype grpc_error = InvalidField string | CoreFailure core_error

definition from_core :: "envelope \<Rightarrow> wire_envelope" where
  "from_core envelope =
     \<lparr>we_envelope_version = ucast (envelope_version_get (envelope_version_of envelope)),
      we_cluster_id = cluster_bytes (envelope_cluster_id envelope),
      we_source_node_id = node_str (envelope_source envelope),
      we_destination_node_id = node_str (envelope_destination envelope),
      we_message_id = message_bytes (envelope_message_id envelope),
      we_correlation_id = map_option correlation_bytes (envelope_correlation_id envelope),
      we_protocol = protocol_str (envelope_protocol envelope),
      we_message_type = type_str (envelope_message_type envelope),
      we_schema_version = ucast (schema_get (envelope_schema_version envelope)),
      we_delivery_attempt = envelope_delivery_attempt envelope, we_payload = envelope_payload envelope\<rparr>"

lemma envelope_version_of_V1 [simp]: "envelope_version_of e = ENVELOPE_V1"
  by (cases e) (simp add: envelope_version_of_def)

definition bytes16 :: "bytes \<Rightarrow> string \<Rightarrow> grpc_error + bytes" where
  "bytes16 bs field = (if length bs = 16 then Inr bs else Inl (InvalidField field))"

definition u16_try_from :: "u32 \<Rightarrow> string \<Rightarrow> grpc_error + u16" where
  "u16_try_from v field = (if unat v < 2 ^ 16 then Inr (ucast v) else Inl (InvalidField field))"

definition core_result :: "core_error + 'a \<Rightarrow> grpc_error + 'a" where
  "core_result r = (case r of Inl e \<Rightarrow> Inl (CoreFailure e) | Inr v \<Rightarrow> Inr v)"

definition correlation_from_wire :: "bytes option \<Rightarrow> grpc_error + correlation_id option" where
  "correlation_from_wire c =
     (case c of
        None \<Rightarrow> Inr None
      | Some bs \<Rightarrow>
          and_then (bytes16 bs ''correlation_id'') (\<lambda>bs.
          and_then (core_result (correlation_id_from_bytes bs)) (\<lambda>i. Inr (Some i))))"

definition into_core :: "wire_envelope \<Rightarrow> u32 \<Rightarrow> grpc_error + envelope" where
  "into_core w max_message_bytes =
     and_then (bytes16 (we_cluster_id w) ''cluster_id'') (\<lambda>cluster_bs.
     and_then (core_result (cluster_id_from_bytes cluster_bs)) (\<lambda>cluster.
     and_then (bytes16 (we_message_id w) ''message_id'') (\<lambda>message_bs.
     and_then (core_result (message_id_from_bytes message_bs)) (\<lambda>mid.
     and_then (correlation_from_wire (we_correlation_id w)) (\<lambda>corr.
     and_then (core_result (node_id_parse (we_source_node_id w))) (\<lambda>src.
     and_then (core_result (node_id_parse (we_destination_node_id w))) (\<lambda>dst.
     and_then (core_result (protocol_name_parse (we_protocol w))) (\<lambda>protocol.
     and_then (core_result (message_type_parse (we_message_type w))) (\<lambda>mtype.
     and_then (u16_try_from (we_schema_version w) ''schema_version'') (\<lambda>schema_raw.
     and_then (core_result (schema_version_new schema_raw)) (\<lambda>schema.
     and_then (u16_try_from (we_envelope_version w) ''envelope_version'') (\<lambda>version.
     core_result (try_from_version version
       (fields_new cluster src dst mid corr protocol mtype schema (we_delivery_attempt w) (we_payload w)) max_message_bytes)))))))))))))"

section \<open>Delivery\<close>

datatype status = InvalidArgument grpc_error | InternalStatus grpc_error

text \<open>The handler is the application behind the service, a function of its state; \<open>True\<close> is the
  acknowledgement.\<close>

definition service_deliver ::
  "(envelope \<Rightarrow> 'h \<Rightarrow> (grpc_error + unit) \<times> 'h) \<Rightarrow> u32 \<Rightarrow> wire_envelope \<Rightarrow> 'h \<Rightarrow> (status + bool) \<times> 'h" where
  "service_deliver handler max_message_bytes wire h =
     (case into_core wire max_message_bytes of
        Inl e \<Rightarrow> (Inl (InvalidArgument e), h)
      | Inr envelope \<Rightarrow>
          (case handler envelope h of
             (Inl e, h) \<Rightarrow> (Inl (InternalStatus e), h)
           | (Inr _, h) \<Rightarrow> (Inr True, h)))"

section \<open>Conversion is exact\<close>

lemma core_result_Inr_iff [result_iff]: "core_result r = Inr v \<longleftrightarrow> r = Inr v"
  by (simp add: core_result_def split: sum.split)

lemma bytes16_Inr_iff [result_iff]: "bytes16 bs field = Inr v \<longleftrightarrow> length bs = 16 \<and> v = bs"
  by (auto simp: bytes16_def)

lemma u16_try_from_Inr_iff [result_iff]: "u16_try_from v field = Inr r \<longleftrightarrow> v = ucast r"
proof -
  have "unat v < 2 ^ 16 \<and> r = ucast v \<longleftrightarrow> v = (ucast r :: u32)"
  proof
    assume r: "v = ucast r"
    have "unat r < 2 ^ 16" using unsigned_less [of r, where ?'a = nat] by simp
    then show "unat v < 2 ^ 16 \<and> r = ucast v"
      using r by (simp add: word_unat_eq_iff unsigned_ucast_eq take_bit_nat_eq_self)
  next
    assume "unat v < 2 ^ 16 \<and> r = ucast v"
    then show "v = ucast r" by (simp add: word_unat_eq_iff unsigned_ucast_eq take_bit_nat_eq_self)
  qed
  then show ?thesis by (auto simp: u16_try_from_def)
qed

lemma correlation_from_wire_Inr_iff [result_iff]:
  "correlation_from_wire c = Inr v \<longleftrightarrow>
     pred_option (\<lambda>i. opaque_ok (correlation_bytes i)) v \<and> c = map_option correlation_bytes v"
  by (cases c; cases v)
    (auto simp: correlation_from_wire_def result_iff id_from_bytes_defs opaque_ok_def OPAQUE_ID_BYTES_def)

lemma id_from_bytes_Inr_iff:
  "cluster_id_from_bytes bs = Inr i \<longleftrightarrow> bs \<noteq> replicate 16 0 \<and> i = ClusterId bs"
  "message_id_from_bytes bs = Inr j \<longleftrightarrow> bs \<noteq> replicate 16 0 \<and> j = MessageId bs"
  by (simp_all add: id_from_bytes_defs result_iff OPAQUE_ID_BYTES_def)

lemma try_from_version_Inr_iff:
  "length (fld_payload f) < 2 ^ 64 \<Longrightarrow> try_from_version v f m = Inr e \<longleftrightarrow> v = 1 \<and> from_fields f m = Inr (as_v1 e)"
  by (cases e) (auto simp: try_from_version_def new_v1_def result_iff ENVELOPE_V1_def)

lemmas into_core_iffs = result_iff id_from_bytes_Inr_iff try_from_version_Inr_iff schema_version_new_def

text \<open>The wire form of an envelope determines it, and every wire form that is accepted is the wire form
  of a valid envelope.\<close>

lemma into_core_sound:
  assumes "length (we_payload w) < 2 ^ 64" and "into_core w m = Inr e"
  shows "envelope_ok m e \<and> w = from_core e"
  using assms
  by (cases w; cases e)
    (auto simp: into_core_def into_core_iffs fields_new_def envelope_ok_def from_core_def opaque_ok_def schema_ok_def
      OPAQUE_ID_BYTES_def ENVELOPE_V1_def Let_def)

lemma into_core_complete:
  assumes "length (env_payload (as_v1 e)) < 2 ^ 64" and "envelope_ok m e"
  shows "into_core (from_core e) m = Inr e"
proof -
  let ?v = "as_v1 e"
  note ok = assms(2) [unfolded envelope_ok_def]
  have "cluster_id_from_bytes (cluster_bytes (env_cluster_id ?v)) = Inr (env_cluster_id ?v)"
    "message_id_from_bytes (message_bytes (env_message_id ?v)) = Inr (env_message_id ?v)"
    "length (cluster_bytes (env_cluster_id ?v)) = 16" "length (message_bytes (env_message_id ?v)) = 16"
    using ok by (simp_all add: id_from_bytes_Inr_iff opaque_ok_def OPAQUE_ID_BYTES_def)
  moreover have "correlation_from_wire (map_option correlation_bytes (env_correlation_id ?v)) = Inr (env_correlation_id ?v)"
    using ok by (simp add: result_iff)
  moreover have "node_id_parse (node_str (env_source ?v)) = Inr (env_source ?v)"
    "node_id_parse (node_str (env_destination ?v)) = Inr (env_destination ?v)"
    "protocol_name_parse (protocol_str (env_protocol ?v)) = Inr (env_protocol ?v)"
    "message_type_parse (type_str (env_message_type ?v)) = Inr (env_message_type ?v)"
    using ok by (simp_all add: result_iff)
  moreover have "u16_try_from (ucast (schema_get (env_schema_version ?v))) s = Inr (schema_get (env_schema_version ?v))"
    "u16_try_from (ucast (envelope_version_get ENVELOPE_V1)) s = Inr (envelope_version_get ENVELOPE_V1)" for s
    by (simp_all add: result_iff)
  moreover have "schema_version_new (schema_get (env_schema_version ?v)) = Inr (env_schema_version ?v)"
    using ok by (simp add: schema_version_new_def result_iff schema_ok_def)
  moreover have "from_fields \<lparr>fld_cluster_id = env_cluster_id ?v, fld_source = env_source ?v,
      fld_destination = env_destination ?v, fld_message_id = env_message_id ?v,
      fld_correlation_id = env_correlation_id ?v, fld_protocol = env_protocol ?v,
      fld_message_type = env_message_type ?v, fld_schema_version = env_schema_version ?v,
      fld_delivery_attempt = env_delivery_attempt ?v, fld_payload = env_payload ?v\<rparr> m = Inr ?v"
    using ok assms(1) by (simp add: from_fields_Inr_iff)
  ultimately show ?thesis
    by (simp add: into_core_def fields_new_def from_core_def Let_def bytes16_def core_result_def try_from_version_def new_v1_def)
qed

section \<open>Properties\<close>

text \<open>C36: The wire conversion is exact: a wire envelope is accepted as an envelope exactly when the envelope
  is valid (identifiers nonzero, names well formed, versions in range, payload within the limit) and
  the wire form is the one the envelope is sent as. \<close>

theorem wire_conversion_exact:
  assumes "length (we_payload w) < 2 ^ 64"
  shows "into_core w m = Inr e \<longleftrightarrow> envelope_ok m e \<and> w = from_core e"
proof
  assume "envelope_ok m e \<and> w = from_core e"
  moreover from this assms have "length (env_payload (as_v1 e)) < 2 ^ 64" by (simp add: from_core_def Let_def)
  ultimately show "into_core w m = Inr e" using into_core_complete by simp
qed (rule into_core_sound [OF assms])

theorem wire_conversion_exact_witness:
  "into_core (from_core sample_envelope) 1024 = Inr sample_envelope"
proof -
  have "length (we_payload (from_core sample_envelope)) < 2 ^ 64"
    by (simp add: from_core_def sample_envelope_def)
  from wire_conversion_exact [OF this] show ?thesis using sample_envelope_ok by simp
qed

end
