(* ===== verification/Iron_Services.thy ===== *)
theory Iron_Services
  imports Iron_Grpc Two_Phase_Commit Raft_Node "HOL-Library.Sublist"
begin

text \<open>
  The node binaries: the handlers of \<open>iron-coordinator\<close>, \<open>iron-participant\<close> and \<open>iron-consensus-node\<close>
  behind the delivery service, and what \<open>main\<close> builds from the environment and hands to \<open>serve\<close>.

  The HTTP/2 server of the crate \<open>tonic\<close> is left out: a served node is the sequence of the wire envelopes
  its service is given. Parsing a socket address is the argument \<open>parse_socket\<close>.
\<close>

section \<open>Text\<close>

text \<open>\<open>str::from_utf8\<close>: the byte sequences the standard library accepts.\<close>

definition continuation :: "u8 \<Rightarrow> bool" where
  "continuation b \<longleftrightarrow> 128 \<le> b \<and> b \<le> 191"

fun utf8_valid :: "bytes \<Rightarrow> bool" where
  "utf8_valid [] = True"
| "utf8_valid (a # bs) =
     (if a < 128 then utf8_valid bs
      else if 194 \<le> a \<and> a \<le> 223
        then (case bs of b # bs \<Rightarrow> continuation b \<and> utf8_valid bs | _ \<Rightarrow> False)
      else if 224 \<le> a \<and> a \<le> 239
        then (case bs of
            b # c # bs \<Rightarrow> continuation b \<and> (a = 224 \<longrightarrow> 160 \<le> b) \<and> (a = 237 \<longrightarrow> b \<le> 159) \<and>
              continuation c \<and> utf8_valid bs
          | _ \<Rightarrow> False)
      else if 240 \<le> a \<and> a \<le> 244
        then (case bs of
            b # c # d # bs \<Rightarrow> continuation b \<and> (a = 240 \<longrightarrow> 144 \<le> b) \<and> (a = 244 \<longrightarrow> b \<le> 143) \<and>
              continuation c \<and> continuation d \<and> utf8_valid bs
          | _ \<Rightarrow> False)
      else False)"

definition from_utf8 :: "bytes \<Rightarrow> string option" where
  "from_utf8 bs = (if utf8_valid bs then Some (map (\<lambda>b. char_of (unat b)) bs) else None)"

text \<open>\<open>str::trim\<close> removes the characters with the Unicode property \<open>White_Space\<close>, here as UTF-8.\<close>

definition white_space :: "string list" where
  "white_space =
     [[CHR 0x09], [CHR 0x0A], [CHR 0x0B], [CHR 0x0C], [CHR 0x0D], [CHR 0x20],
      [CHR 0xC2, CHR 0x85], [CHR 0xC2, CHR 0xA0], [CHR 0xE1, CHR 0x9A, CHR 0x80]] @
     map (\<lambda>n. [CHR 0xE2, CHR 0x80, char_of (n :: nat)]) ([128..<139] @ [168, 169, 175]) @
     [[CHR 0xE2, CHR 0x81, CHR 0x9F], [CHR 0xE3, CHR 0x80, CHR 0x80]]"

function strip_any :: "string list \<Rightarrow> string \<Rightarrow> string" where
  "strip_any ws s =
     (case find (\<lambda>w. w \<noteq> [] \<and> prefix w s) ws of
        None \<Rightarrow> s
      | Some w \<Rightarrow> strip_any ws (drop (length w) s))"
  by auto

termination
  by (relation "measure (\<lambda>(ws, s). length s)") (auto simp: find_Some_iff prefix_def)

definition trim :: "string \<Rightarrow> string" where
  "trim s = rev (strip_any (map rev white_space) (rev (strip_any white_space s)))"

text \<open>\<open>split(',')\<close>.\<close>

fun split_commas :: "string \<Rightarrow> string list" where
  "split_commas [] = [[]]"
| "split_commas (c # cs) =
     (if c = CHR '','' then [] # split_commas cs
      else case split_commas cs of [] \<Rightarrow> [[c]] | part # parts \<Rightarrow> (c # part) # parts)"

fun parse_names :: "string list \<Rightarrow> core_error + node_id list" where
  "parse_names [] = Inr []"
| "parse_names (name # names) =
     and_then (node_id_parse (trim name)) (\<lambda>n. and_then (parse_names names) (\<lambda>ns. Inr (n # ns)))"

section \<open>Handlers\<close>

datatype start_error = StartAddress | StartCore core_error | StartTwoPc two_pc_error | StartRaft raft_error

definition locked ::
  "string \<Rightarrow> ('s \<Rightarrow> (grpc_error + unit) \<times> 's) \<Rightarrow> 's mutex \<Rightarrow> (grpc_error + unit) \<times> 's mutex" where
  "locked field body m =
     (if mx_poisoned m then (Inl (InvalidField field), m)
      else case body (mx_value m) of (res, s) \<Rightarrow> (res, m\<lparr>mx_value := s\<rparr>))"

definition field_result :: "string \<Rightarrow> ('e + 'a) \<times> 's \<Rightarrow> (grpc_error + unit) \<times> 's" where
  "field_result field r =
     (case r of (Inl _, s) \<Rightarrow> (Inl (InvalidField field), s) | (Inr _, s) \<Rightarrow> (Inr (), s))"

subsection \<open>Coordinator\<close>

definition coordinator_start :: "string option \<Rightarrow> start_error + coordinator" where
  "coordinator_start participants_var =
     (let names = (case participants_var of Some v \<Rightarrow> v | None \<Rightarrow> ''participant'') in
      case parse_names (split_commas names) of
        Inl e \<Rightarrow> Inl (StartCore e)
      | Inr participants \<Rightarrow>
          (case coordinator_new participants of Inl e \<Rightarrow> Inl (StartTwoPc e) | Inr c \<Rightarrow> Inr c))"

definition voter_of :: "bytes \<Rightarrow> grpc_error + node_id" where
  "voter_of payload =
     (case from_utf8 payload of
        None \<Rightarrow> Inl (InvalidField ''payload'')
      | Some name \<Rightarrow>
          (case node_id_parse (trim name) of Inl _ \<Rightarrow> Inl (InvalidField ''payload'') | Inr n \<Rightarrow> Inr n))"

definition coordinator_deliver ::
  "envelope \<Rightarrow> coordinator mutex \<Rightarrow> (grpc_error + unit) \<times> coordinator mutex" where
  "coordinator_deliver envelope =
     locked ''coordinator_state'' (\<lambda>c.
       let kind = type_str (envelope_message_type envelope); payload = envelope_payload envelope in
       if kind = ''begin'' then field_result ''message_type'' (coordinator_begin c)
       else if kind = ''prepared'' then
         (case voter_of payload of
            Inl e \<Rightarrow> (Inl e, c)
          | Inr p \<Rightarrow> field_result ''payload'' (vote_prepared p c))
       else if kind = ''abort'' then
         (case voter_of payload of
            Inl e \<Rightarrow> (Inl e, c)
          | Inr p \<Rightarrow> field_result ''payload'' (vote_abort p c))
       else (Inl (InvalidField ''message_type''), c))"

subsection \<open>Participant\<close>

definition participant_deliver ::
  "envelope \<Rightarrow> participant mutex \<Rightarrow> (grpc_error + unit) \<times> participant mutex" where
  "participant_deliver envelope =
     locked ''participant_state'' (\<lambda>p.
       let kind = type_str (envelope_message_type envelope); payload = envelope_payload envelope in
       if kind = ''prepare'' then
         (case participant_prepare (payload = str_bytes ''1'') p of (_, p) \<Rightarrow> (Inr (), p))
       else if kind = ''commit'' then field_result ''message_type'' (participant_commit p)
       else if kind = ''abort'' then field_result ''message_type'' (participant_abort p)
       else (Inl (InvalidField ''message_type''), p))"

subsection \<open>Consensus node\<close>

definition consensus_start :: "string option \<Rightarrow> string option \<Rightarrow> start_error + raft_node" where
  "consensus_start id_var members_var =
     (case node_id_parse (case id_var of Some v \<Rightarrow> v | None \<Rightarrow> ''node-1'') of
        Inl e \<Rightarrow> Inl (StartCore e)
      | Inr i \<Rightarrow>
          (case parse_names (split_commas (case members_var of Some v \<Rightarrow> v | None \<Rightarrow> node_str i)) of
             Inl e \<Rightarrow> Inl (StartCore e)
           | Inr members \<Rightarrow>
               (case raft_new i members 5 of Inl e \<Rightarrow> Inl (StartRaft e) | Inr n \<Rightarrow> Inr n)))"

definition consensus_deliver ::
  "envelope \<Rightarrow> raft_node mutex \<Rightarrow> (grpc_error + unit) \<times> raft_node mutex" where
  "consensus_deliver envelope =
     locked ''raft_state'' (\<lambda>n.
       let kind = type_str (envelope_message_type envelope); payload = envelope_payload envelope in
       if kind = ''tick'' then field_result ''message_type'' (raft_tick n)
       else if kind = ''propose'' then field_result ''message_type'' (raft_propose payload n)
       else (Inl (InvalidField ''message_type''), n))"

section \<open>Starting a node\<close>

text \<open>What \<open>serve\<close> gets: the address, the handler and the message limit.\<close>

record ('a, 's) node_service =
  ns_address :: 'a
  ns_handler :: "'s mutex"
  ns_max_message_bytes :: u32

definition listen_address :: "(string \<Rightarrow> 'a option) \<Rightarrow> string option \<Rightarrow> string \<Rightarrow> start_error + 'a" where
  "listen_address parse_socket var fallback =
     ok_or (parse_socket (case var of Some v \<Rightarrow> v | None \<Rightarrow> fallback)) StartAddress"

definition service_limit :: "start_error + u32" where
  "service_limit = map_err StartCore (max_message_bytes_new (ucast DEFAULT_MAX_MESSAGE_BYTES))"

definition coordinator_main ::
  "(string \<Rightarrow> 'a option) \<Rightarrow> string option \<Rightarrow> string option \<Rightarrow> start_error + ('a, coordinator) node_service" where
  "coordinator_main parse_socket address_var participants_var =
     and_then (listen_address parse_socket address_var ''127.0.0.1:7001'') (\<lambda>address.
     and_then (coordinator_start participants_var) (\<lambda>c.
     and_then service_limit (\<lambda>limit.
       Inr \<lparr>ns_address = address, ns_handler = unlocked c, ns_max_message_bytes = limit\<rparr>)))"

definition participant_main ::
  "(string \<Rightarrow> 'a option) \<Rightarrow> string option \<Rightarrow> start_error + ('a, participant) node_service" where
  "participant_main parse_socket address_var =
     and_then (listen_address parse_socket address_var ''127.0.0.1:7002'') (\<lambda>address.
     and_then service_limit (\<lambda>limit.
       Inr \<lparr>ns_address = address, ns_handler = unlocked participant_new, ns_max_message_bytes = limit\<rparr>))"

definition consensus_main ::
  "(string \<Rightarrow> 'a option) \<Rightarrow> string option \<Rightarrow> string option \<Rightarrow> string option
   \<Rightarrow> start_error + ('a, raft_node) node_service" where
  "consensus_main parse_socket address_var id_var members_var =
     and_then (listen_address parse_socket address_var ''127.0.0.1:7003'') (\<lambda>address.
     and_then (consensus_start id_var members_var) (\<lambda>n.
     and_then service_limit (\<lambda>limit.
       Inr \<lparr>ns_address = address, ns_handler = unlocked n, ns_max_message_bytes = limit\<rparr>)))"

lemmas main_defs = coordinator_main_def participant_main_def consensus_main_def

section \<open>Runs\<close>

definition deliveries :: "(envelope \<Rightarrow> 'm \<Rightarrow> 'r \<times> 'm) \<Rightarrow> envelope list \<Rightarrow> 'm \<Rightarrow> 'm" where
  "deliveries deliver es m = fold (\<lambda>e m. snd (deliver e m)) es m"

lemma deliveries_induct:
  assumes "P m" and "\<And>e m. e \<in> set es \<Longrightarrow> P m \<Longrightarrow> P (snd (deliver e m))"
  shows "P (deliveries deliver es m)"
  using assms by (induction es arbitrary: m) (simp_all add: deliveries_def)

text \<open>A served node: its service is given one wire envelope after the other. It does what the handler does
  for the envelopes that are accepted.\<close>

definition served ::
  "(envelope \<Rightarrow> 's mutex \<Rightarrow> (grpc_error + unit) \<times> 's mutex) \<Rightarrow> wire_envelope list \<Rightarrow> ('a, 's) node_service \<Rightarrow> 's" where
  "served deliver ws s =
     mx_value (fold (\<lambda>w h. snd (service_deliver deliver (ns_max_message_bytes s) w h)) ws (ns_handler s))"

definition accepted_envelopes :: "u32 \<Rightarrow> wire_envelope list \<Rightarrow> envelope list" where
  "accepted_envelopes limit ws = concat (map (\<lambda>w. case into_core w limit of Inl _ \<Rightarrow> [] | Inr e \<Rightarrow> [e]) ws)"

lemma snd_service_deliver:
  "snd (service_deliver deliver limit w h) =
     (case into_core w limit of Inl _ \<Rightarrow> h | Inr e \<Rightarrow> snd (deliver e h))"
  by (auto simp: service_deliver_def split: sum.split prod.split)

lemma served_deliveries:
  "served deliver ws s =
     mx_value (deliveries deliver (accepted_envelopes (ns_max_message_bytes s) ws) (ns_handler s))"
proof -
  have "fold (\<lambda>w h. snd (service_deliver deliver limit w h)) ws h =
      fold (\<lambda>e h. snd (deliver e h)) (accepted_envelopes limit ws) h" for limit h
    by (induction ws arbitrary: h) (auto simp: accepted_envelopes_def snd_service_deliver split: sum.split)
  then show ?thesis by (simp add: served_def deliveries_def)
qed

lemma into_core_content:
  "into_core w m = Inr e \<Longrightarrow>
     type_str (env_message_type (as_v1 e)) = we_message_type w \<and> env_payload (as_v1 e) = we_payload w"
  by (auto simp: into_core_def and_then_Inr_iff core_result_Inr_iff try_from_version_def new_v1_def from_fields_def
      fields_new_def message_type_parse_Inr_iff Let_def split: if_splits)

text \<open>A node behind the service never leads and never stores a command.\<close>

definition never_led :: "raft_node mutex \<Rightarrow> bool" where
  "never_led m \<longleftrightarrow> rn_role (mx_value m) \<noteq> Leader \<and> rn_log (mx_value m) = [] \<and> \<not> mx_poisoned m"

lemma never_led_deliver: "never_led m \<Longrightarrow> never_led (snd (consensus_deliver e m))"
  by (auto simp: never_led_def consensus_deliver_def locked_def field_result_def raft_tick_def
      raft_propose_def Let_def split: option.splits prod.splits sum.splits if_splits)

text \<open>What a delivery keeps of the coordinator behind the service.\<close>

definition coordinator_kept :: "node_id set \<Rightarrow> coordinator mutex \<Rightarrow> bool" where
  "coordinator_kept M m \<longleftrightarrow> coordinator_ok (mx_value m) \<and> co_participants (mx_value m) = M \<and> \<not> mx_poisoned m"

lemma snd_field_result [simp]: "snd (field_result field r) = snd r"
  by (simp add: field_result_def split: prod.split sum.split)

lemma snd_locked:
  "snd (locked field body m) = (if mx_poisoned m then m else m\<lparr>mx_value := snd (body (mx_value m))\<rparr>)"
  by (simp add: locked_def split: prod.split)

lemma fst_locked:
  "\<not> mx_poisoned m \<Longrightarrow> fst (locked field body m) = fst (body (mx_value m))"
  by (simp add: locked_def split: prod.split)

lemma coordinator_deliver_value:
  "mx_value (snd (coordinator_deliver e m)) = mx_value m \<or>
   mx_value (snd (coordinator_deliver e m)) = coordinator_op_run OpBegin (mx_value m) \<or>
   (\<exists>p. type_str (env_message_type (as_v1 e)) = ''prepared'' \<and> voter_of (env_payload (as_v1 e)) = Inr p \<and>
      mx_value (snd (coordinator_deliver e m)) = coordinator_op_run (OpVotePrepared p) (mx_value m)) \<or>
   (\<exists>p. mx_value (snd (coordinator_deliver e m)) = coordinator_op_run (OpVoteAbort p) (mx_value m))"
  by (auto simp: coordinator_deliver_def snd_locked Let_def split: sum.split)

lemma coordinator_deliver_cases:
  obtains (same) "mx_value (snd (coordinator_deliver e m)) = mx_value m"
  | (begins) "mx_value (snd (coordinator_deliver e m)) = coordinator_op_run OpBegin (mx_value m)"
  | (prepared) p where "type_str (env_message_type (as_v1 e)) = ''prepared''"
      "voter_of (env_payload (as_v1 e)) = Inr p"
      "mx_value (snd (coordinator_deliver e m)) = coordinator_op_run (OpVotePrepared p) (mx_value m)"
  | (aborts) p where
      "mx_value (snd (coordinator_deliver e m)) = coordinator_op_run (OpVoteAbort p) (mx_value m)"
  using coordinator_deliver_value [of e m] by blast

lemma coordinator_kept_deliver:
  assumes "coordinator_kept M m"
  shows "coordinator_kept M (snd (coordinator_deliver e m))"
proof -
  have "\<not> mx_poisoned (snd (coordinator_deliver e m))"
    using assms by (simp add: coordinator_deliver_def snd_locked coordinator_kept_def)
  moreover have "coordinator_ok (coordinator_op_run op (mx_value m)) \<and>
      co_participants (coordinator_op_run op (mx_value m)) = M" for op
    using assms coordinator_ok_run [of "mx_value m" op] coordinator_run_fixed(1) [of op "mx_value m"]
    by (simp add: coordinator_kept_def)
  ultimately show ?thesis
    using assms unfolding coordinator_kept_def
    by (cases rule: coordinator_deliver_cases [of e m]) metis+
qed

text \<open>A vote is counted only by a delivery that succeeds, of an envelope that names the voter.\<close>

lemma vote_counted:
  assumes "\<not> mx_poisoned m" and "p \<in> co_prepared (mx_value (snd (coordinator_deliver e m)))"
    and "p \<notin> co_prepared (mx_value m)"
  shows "type_str (env_message_type (as_v1 e)) = ''prepared'' \<and> voter_of (env_payload (as_v1 e)) = Inr p \<and>
    fst (coordinator_deliver e m) = Inr ()"
proof -
  have vote: "p = q \<and> fst (field_result ''payload'' (vote_prepared q c)) = Inr ()"
    if "p \<in> co_prepared (snd (vote_prepared q c))" "p \<notin> co_prepared c" for q c
    using that by (auto simp: vote_prepared_def field_result_def Let_def split: if_splits)
  have "p \<notin> co_prepared (snd (coordinator_begin (mx_value m)))" "p \<notin> co_prepared (snd (vote_abort q (mx_value m)))" for q
    using assms(3) by (auto simp: coordinator_begin_def vote_abort_def)
  with assms vote [of _ "mx_value m"] show ?thesis
    by (auto simp: coordinator_deliver_def snd_locked fst_locked Let_def split: if_splits sum.splits)
qed

lemma counted_votes_accepted:
  assumes "coordinator_kept M (ns_handler s)" and "co_prepared (mx_value (ns_handler s)) = {}"
    and "p \<in> co_prepared (served coordinator_deliver ws s)"
  shows "\<exists>before w after e. ws = before @ w # after \<and> into_core w (ns_max_message_bytes s) = Inr e \<and>
    we_message_type w = ''prepared'' \<and> voter_of (we_payload w) = Inr p \<and>
    fst (service_deliver coordinator_deliver (ns_max_message_bytes s) w
      (unlocked (served coordinator_deliver before s))) = Inr True"
  using assms(3)
proof (induction ws rule: rev_induct)
  case Nil
  then show ?case using assms(2) by (simp add: served_def)
next
  case (snoc w ws)
  let ?limit = "ns_max_message_bytes s"
  let ?m = "fold (\<lambda>w h. snd (service_deliver coordinator_deliver ?limit w h)) ws (ns_handler s)"
  show ?case
  proof (cases "p \<in> co_prepared (served coordinator_deliver ws s)")
    case True
    with snoc.IH show ?thesis by (metis append_Cons append_assoc)
  next
    case False
    have "coordinator_kept M ?m"
      using assms(1) by (induction ws rule: rev_induct)
        (auto simp: snd_service_deliver coordinator_kept_deliver split: sum.split)
    then have m: "\<not> mx_poisoned ?m" "?m = unlocked (served coordinator_deliver ws s)"
      by (auto simp: coordinator_kept_def served_def unlocked_def intro: mutex.equality)
    from snoc.prems have new: "p \<in> co_prepared (mx_value (snd (service_deliver coordinator_deliver ?limit w ?m)))"
      by (simp add: served_def)
    from False have old: "p \<notin> co_prepared (mx_value ?m)" by (simp add: served_def)
    with new obtain e where e: "into_core w ?limit = Inr e"
      "p \<in> co_prepared (mx_value (snd (coordinator_deliver e ?m)))"
      by (auto simp: snd_service_deliver split: sum.splits)
    note counted = vote_counted [OF m(1) e(2) old]
    have "fst (service_deliver coordinator_deliver ?limit w ?m) = Inr True"
      using counted e(1) by (cases "coordinator_deliver e ?m") (simp add: service_deliver_def)
    with counted e(1) into_core_content [OF e(1)] m(2) show ?thesis
      by (intro exI [of _ ws] exI [of _ w] exI [of _ "[]"] exI [of _ e]) simp
  qed
qed

section \<open>Properties\<close>

text \<open>C38: The deployed consensus node cannot make progress: whatever wire envelopes its service is given, it
  never becomes leader and its log stays empty, and every proposal it accepts from the wire is answered
  with an error. The binary delivers only ticks and proposals, never a vote. \<close>

theorem consensus_service_never_leads:
  assumes "consensus_main parse_socket address_var id_var members_var = Inr s"
    and "n = served consensus_deliver ws s"
  shows "rn_role n \<noteq> Leader \<and> rn_log n = [] \<and>
    (we_message_type w = ''propose'' \<longrightarrow> isl (fst (service_deliver consensus_deliver (ns_max_message_bytes s) w (unlocked n))))"
proof -
  have "never_led (ns_handler s)"
    using assms(1) by (auto simp: consensus_main_def and_then_Inr_iff consensus_start_def never_led_def unlocked_def
        raft_new_fields split: sum.splits)
  then have "never_led (deliveries consensus_deliver (accepted_envelopes (ns_max_message_bytes s) ws) (ns_handler s))"
    by (rule deliveries_induct) (rule never_led_deliver)
  then have n: "rn_role n \<noteq> Leader" "rn_log n = []"
    by (auto simp: assms(2) served_deliveries never_led_def)
  then have "fst (consensus_deliver e (unlocked n)) = Inl (InvalidField ''message_type'')"
    if "type_str (env_message_type (as_v1 e)) = ''propose''" for e
    using that by (simp add: consensus_deliver_def locked_def raft_propose_def field_result_def unlocked_def)
  then have "isl (fst (service_deliver consensus_deliver (ns_max_message_bytes s) w (unlocked n)))"
    if "we_message_type w = ''propose''"
    using that into_core_content [of w "ns_max_message_bytes s"]
    by (auto simp: service_deliver_def split: sum.split prod.split) (metis fst_conv sum.distinct(1))
  with n show ?thesis by blast
qed

text \<open>C37: The coordinator service decides to commit only after its service, in the state it was in, accepted
  and acknowledged for every participant a wire envelope of type \<open>prepared\<close> whose payload names it; who sent
  the envelope is not checked. \<close>

theorem coordinator_service_needs_every_vote:
  assumes "coordinator_main parse_socket address_var participants_var = Inr s"
    and "coordinator_decision (served coordinator_deliver ws s) = Some DecideCommit"
    and "p \<in> co_participants (mx_value (ns_handler s))"
  shows "\<exists>before w after e. ws = before @ w # after \<and> into_core w (ns_max_message_bytes s) = Inr e \<and>
    we_message_type w = ''prepared'' \<and> voter_of (we_payload w) = Inr p \<and>
    fst (service_deliver coordinator_deliver (ns_max_message_bytes s) w
      (unlocked (served coordinator_deliver before s))) = Inr True"
proof -
  obtain c ps where c: "ns_handler s = unlocked c" "coordinator_new ps = Inr c"
    using assms(1) by (auto simp: coordinator_main_def and_then_Inr_iff coordinator_start_def Let_def split: sum.splits)
  then have kept: "coordinator_kept (co_participants c) (ns_handler s)" "co_prepared (mx_value (ns_handler s)) = {}"
    by (simp_all add: coordinator_kept_def unlocked_def coordinator_ok_new coordinator_new_fields)
  have "coordinator_kept (co_participants c)
      (deliveries coordinator_deliver (accepted_envelopes (ns_max_message_bytes s) ws) (ns_handler s))"
    using kept(1) by (rule deliveries_induct) (rule coordinator_kept_deliver)
  then have "co_prepared (served coordinator_deliver ws s) = co_participants c"
    using assms(2) unfolding served_deliveries
    by (auto simp: coordinator_kept_def coordinator_ok_def coordinator_decision_def split: coordinator_phase.splits)
  with assms(3) c(1) have "p \<in> co_prepared (served coordinator_deliver ws s)" by (simp add: unlocked_def)
  from counted_votes_accepted [OF kept this] show ?thesis .
qed

subsection \<open>Runs on inputs\<close>

definition service_message :: "string \<Rightarrow> bytes \<Rightarrow> envelope" where
  "service_message kind payload =
     V1 ((as_v1 sample_envelope)\<lparr>env_message_type := MessageType kind, env_payload := payload\<rparr>)"

lemma accepted_from_core:
  "list_all (\<lambda>e. envelope_ok m e \<and> length (env_payload (as_v1 e)) < 2 ^ 64) es \<Longrightarrow>
     accepted_envelopes m (map from_core es) = es"
  by (induction es) (auto simp: accepted_envelopes_def into_core_complete)

lemma service_message_ok:
  assumes "message_type_ok (MessageType kind)" and "length payload \<le> 1024"
  shows "envelope_ok 4194304 (service_message kind payload) \<and> length (env_payload (as_v1 (service_message kind payload))) < 2 ^ 64"
  using sample_envelope_ok assms by (simp add: envelope_ok_def service_message_def)

lemma service_limit_value: "service_limit = Inr 4194304"
proof -
  have "max_message_bytes_new (ucast DEFAULT_MAX_MESSAGE_BYTES) = Inr 4194304"
    by (simp add: max_message_bytes_new_def bounded_u32_new_Inr_iff limit_defs word_le_nat_alt)
  then show ?thesis by (simp add: service_limit_def)
qed

definition sample_consensus :: "(string, raft_node) node_service" where
  "sample_consensus =
     \<lparr>ns_address = ''127.0.0.1:7003'', ns_handler = unlocked (case consensus_start None None of Inr n \<Rightarrow> n),
      ns_max_message_bytes = 4194304\<rparr>"

lemma sample_consensus_main: "consensus_main Some None None None = Inr sample_consensus"
proof -
  have "\<not> isl (consensus_start None None)" by code_simp
  then obtain n where "consensus_start None None = Inr n" by (cases "consensus_start None None") auto
  then show ?thesis
    by (simp add: sample_consensus_def consensus_main_def listen_address_def service_limit_value)
qed

theorem consensus_service_never_leads_witness:
  "rn_role (served consensus_deliver (replicate 6 (from_core (service_message ''tick'' []))) sample_consensus) \<noteq> Leader"
  using consensus_service_never_leads [OF sample_consensus_main refl] by simp

definition sample_coordinator :: "(string, coordinator) node_service" where
  "sample_coordinator =
     \<lparr>ns_address = ''127.0.0.1:7001'', ns_handler = unlocked (case coordinator_start (Some ''a, b'') of Inr c \<Rightarrow> c),
      ns_max_message_bytes = 4194304\<rparr>"

lemma sample_coordinator_main: "coordinator_main Some None (Some ''a, b'') = Inr sample_coordinator"
proof -
  have "\<not> isl (coordinator_start (Some ''a, b''))" by code_simp
  then obtain c where "coordinator_start (Some ''a, b'') = Inr c" by (cases "coordinator_start (Some ''a, b'')") auto
  then show ?thesis
    by (simp add: sample_coordinator_def coordinator_main_def listen_address_def service_limit_value)
qed

definition sample_votes :: "envelope list" where
  "sample_votes = [service_message ''begin'' [], service_message ''prepared'' (str_bytes ''b ''),
     service_message ''prepared'' (str_bytes ''a'')]"

theorem coordinator_service_needs_every_vote_witness:
  "\<exists>before w after e. map from_core sample_votes = before @ w # after \<and> into_core w 4194304 = Inr e \<and>
     voter_of (we_payload w) = Inr (NodeId ''b'')"
proof -
  have "message_type_ok (MessageType ''begin'')" "message_type_ok (MessageType ''prepared'')" by code_simp+
  then have "accepted_envelopes 4194304 (map from_core sample_votes) = sample_votes"
    using service_message_ok by (intro accepted_from_core) (simp add: sample_votes_def)
  moreover have "coordinator_decision (mx_value (deliveries coordinator_deliver sample_votes
      (ns_handler sample_coordinator))) = Some DecideCommit" by code_simp
  ultimately have d: "coordinator_decision (served coordinator_deliver (map from_core sample_votes) sample_coordinator) =
      Some DecideCommit" by (simp add: served_deliveries) (simp add: sample_coordinator_def)
  have limit: "ns_max_message_bytes sample_coordinator = 4194304" by (simp add: sample_coordinator_def)
  have "NodeId ''b'' \<in> co_participants (mx_value (ns_handler sample_coordinator))" by code_simp
  from coordinator_service_needs_every_vote [OF sample_coordinator_main d this] show ?thesis
    unfolding limit by blast
qed

end
