(* ===== verification/Testkit_Driver.thy ===== *)
theory Testkit_Driver
  imports Iron_Prelude "HOL-Library.Product_Lexorder" "HOL-Library.Multiset"
begin

text \<open>
  The deterministic scheduler of \<open>iron-testkit\<close> (\<open>clock.rs\<close>, \<open>driver.rs\<close>): logical ticks, the manual
  clock, and the event queue ordered by tick and insertion sequence.

  A \<open>BTreeMap\<close> is the list of its entries in ascending key order. The \<open>debug_assert\<close> of \<open>schedule_at\<close> is
  the error \<open>AssertionFailed\<close>, which no reachable queue returns. The generator of
  \<open>SeededScenario\<close> (crate \<open>rand_chacha\<close>) is a pair of arguments: seeding and the next word.
\<close>

section \<open>Logical time\<close>

datatype logical_tick = LogicalTick (tick_get: u64)

instantiation logical_tick :: linorder
begin

definition less_eq_logical_tick :: "logical_tick \<Rightarrow> logical_tick \<Rightarrow> bool" where
  "less_eq_logical_tick a b \<longleftrightarrow> tick_get a \<le> tick_get b"

definition less_logical_tick :: "logical_tick \<Rightarrow> logical_tick \<Rightarrow> bool" where
  "less_logical_tick a b \<longleftrightarrow> tick_get a < tick_get b"

instance
  by standard (auto simp: less_eq_logical_tick_def less_logical_tick_def intro: logical_tick.expand)

end

definition TICK_ZERO :: logical_tick where
  "TICK_ZERO = LogicalTick 0"

datatype clock_error = ClockOverflow | WentBackwards logical_tick logical_tick

definition tick_checked_add :: "logical_tick \<Rightarrow> u64 \<Rightarrow> clock_error + logical_tick" where
  "tick_checked_add t ticks = ok_or (map_option LogicalTick (checked_add (tick_get t) ticks)) ClockOverflow"

record logical_clock =
  clk_now :: logical_tick

definition clock_new :: logical_clock where
  "clock_new = \<lparr>clk_now = TICK_ZERO\<rparr>"

definition advance_by :: "u64 \<Rightarrow> logical_clock \<Rightarrow> (clock_error + logical_tick) \<times> logical_clock" where
  "advance_by ticks c =
     (case tick_checked_add (clk_now c) ticks of
        Inl e \<Rightarrow> (Inl e, c)
      | Inr t \<Rightarrow> (Inr t, c\<lparr>clk_now := t\<rparr>))"

definition advance_to :: "logical_tick \<Rightarrow> logical_clock \<Rightarrow> (clock_error + unit) \<times> logical_clock" where
  "advance_to target c =
     (if target < clk_now c then (Inl (WentBackwards (clk_now c) target), c)
      else (Inr (), c\<lparr>clk_now := target\<rparr>))"

section \<open>Ordered maps\<close>

text \<open>\<open>BTreeMap::insert\<close>, which returns the value it replaces, \<open>pop_first\<close> and \<open>retain\<close>, whose predicate
  may keep a state.\<close>

fun map_insert :: "'k::linorder \<Rightarrow> 'v \<Rightarrow> ('k \<times> 'v) list \<Rightarrow> 'v option \<times> ('k \<times> 'v) list" where
  "map_insert k v [] = (None, [(k, v)])"
| "map_insert k v ((k', v') # m) =
     (if k < k' then (None, (k, v) # (k', v') # m)
      else if k = k' then (Some v', (k, v) # m)
      else (case map_insert k v m of (old, m) \<Rightarrow> (old, (k', v') # m)))"

fun map_pop_first :: "('k \<times> 'v) list \<Rightarrow> (('k \<times> 'v) \<times> ('k \<times> 'v) list) option" where
  "map_pop_first [] = None"
| "map_pop_first (x # m) = Some (x, m)"

fun map_retain :: "('v \<Rightarrow> 's \<Rightarrow> bool \<times> 's) \<Rightarrow> 's \<Rightarrow> ('k \<times> 'v) list \<Rightarrow> ('k \<times> 'v) list \<times> 's" where
  "map_retain keep s [] = ([], s)"
| "map_retain keep s ((k, v) # m) =
     (case keep v s of (b, s) \<Rightarrow> case map_retain keep s m of (m, s) \<Rightarrow> (if b then (k, v) # m else m, s))"

section \<open>The driver\<close>

datatype driver_error =
    SequenceOverflow
  | PastTick logical_tick logical_tick
  | DriverClock clock_error
  | AssertionFailed

record 't scheduled =
  sc_tick :: logical_tick
  sc_insertion_sequence :: u64
  sc_event :: 't

record 't driver =
  dr_clock :: logical_clock
  dr_next_sequence :: u64
  dr_queue :: "((logical_tick \<times> u64) \<times> 't) list"

definition driver_new :: "'t driver" where
  "driver_new = \<lparr>dr_clock = clock_new, dr_next_sequence = 0, dr_queue = []\<rparr>"

definition driver_now :: "'t driver \<Rightarrow> logical_tick" where
  "driver_now d = clk_now (dr_clock d)"

definition driver_len :: "'t driver \<Rightarrow> nat" where
  "driver_len d = length (dr_queue d)"

definition schedule_at :: "logical_tick \<Rightarrow> 't \<Rightarrow> 't driver \<Rightarrow> (driver_error + u64) \<times> 't driver" where
  "schedule_at tick event d =
     (if tick < driver_now d then (Inl (PastTick (driver_now d) tick), d)
      else let sequence = dr_next_sequence d in
        (case checked_add (dr_next_sequence d) 1 of
           None \<Rightarrow> (Inl SequenceOverflow, d)
         | Some next_sequence \<Rightarrow>
             (case map_insert (tick, sequence) event (dr_queue d) of (replaced, queue) \<Rightarrow>
                (if replaced = None then Inr sequence else Inl AssertionFailed,
                 d\<lparr>dr_next_sequence := next_sequence, dr_queue := queue\<rparr>))))"

definition schedule_after :: "u64 \<Rightarrow> 't \<Rightarrow> 't driver \<Rightarrow> (driver_error + u64) \<times> 't driver" where
  "schedule_after delay event d =
     (case tick_checked_add (driver_now d) delay of
        Inl e \<Rightarrow> (Inl (DriverClock e), d)
      | Inr tick \<Rightarrow> schedule_at tick event d)"

definition pop_next :: "'t driver \<Rightarrow> (driver_error + 't scheduled option) \<times> 't driver" where
  "pop_next d =
     (case map_pop_first (dr_queue d) of
        None \<Rightarrow> (Inr None, d)
      | Some (((tick, sequence), event), queue) \<Rightarrow>
          (case advance_to tick (dr_clock d) of
             (Inl e, c) \<Rightarrow> (Inl (DriverClock e), d\<lparr>dr_queue := queue, dr_clock := c\<rparr>)
           | (Inr _, c) \<Rightarrow>
               (Inr (Some \<lparr>sc_tick = tick, sc_insertion_sequence = sequence, sc_event = event\<rparr>),
                d\<lparr>dr_queue := queue, dr_clock := c\<rparr>)))"

definition driver_retain :: "('t \<Rightarrow> 's \<Rightarrow> bool \<times> 's) \<Rightarrow> 's \<Rightarrow> 't driver \<Rightarrow> 't driver \<times> 's" where
  "driver_retain keep s d =
     (case map_retain keep s (dr_queue d) of (queue, s) \<Rightarrow> (d\<lparr>dr_queue := queue\<rparr>, s))"

section \<open>Seeded scenarios\<close>

record 'g scenario =
  sn_seed :: u64
  sn_rng :: 'g
  sn_trace :: "string list"

definition scenario_new :: "(u64 \<Rightarrow> 'g) \<Rightarrow> u64 \<Rightarrow> 'g scenario" where
  "scenario_new seed_from seed = \<lparr>sn_seed = seed, sn_rng = seed_from seed, sn_trace = []\<rparr>"

definition scenario_next :: "('g \<Rightarrow> u64 \<times> 'g) \<Rightarrow> 'g scenario \<Rightarrow> u64 \<times> 'g scenario" where
  "scenario_next next_word s = (case next_word (sn_rng s) of (v, g) \<Rightarrow> (v, s\<lparr>sn_rng := g\<rparr>))"

definition scenario_record :: "string \<Rightarrow> 'g scenario \<Rightarrow> 'g scenario" where
  "scenario_record action s = s\<lparr>sn_trace := sn_trace s @ [action]\<rparr>"

datatype scenario_op = NextWord | RecordAction string

fun scenario_run :: "('g \<Rightarrow> u64 \<times> 'g) \<Rightarrow> scenario_op list \<Rightarrow> 'g scenario \<Rightarrow> u64 list \<times> 'g scenario" where
  "scenario_run next_word [] s = ([], s)"
| "scenario_run next_word (NextWord # ops) s =
     (case scenario_next next_word s of (v, s) \<Rightarrow>
       (case scenario_run next_word ops s of (vs, s) \<Rightarrow> (v # vs, s)))"
| "scenario_run next_word (RecordAction a # ops) s = scenario_run next_word ops (scenario_record a s)"

text \<open>A scenario replays from its seed: the words do not depend on what is recorded between them, and the
  trace is exactly what was recorded.\<close>

lemma scenario_replays:
  "fst (scenario_run next_word ops s) = fst (scenario_run next_word (filter (\<lambda>op. op = NextWord) ops) s) \<and>
   sn_trace (snd (scenario_run next_word ops s)) =
     sn_trace s @ concat (map (\<lambda>op. case op of RecordAction a \<Rightarrow> [a] | NextWord \<Rightarrow> []) ops) \<and>
   sn_seed (snd (scenario_run next_word ops s)) = sn_seed s"
proof -
  have words: "fst (scenario_run next_word ops s) = fst (scenario_run next_word (filter (\<lambda>op. op = NextWord) ops) t)"
    if "sn_rng s = sn_rng t" for s t
    using that
  proof (induction ops arbitrary: s t)
    case (Cons op ops)
    show ?case
    proof (cases op)
      case NextWord
      with Cons.prems Cons.IH [of "s\<lparr>sn_rng := snd (next_word (sn_rng s))\<rparr>" "t\<lparr>sn_rng := snd (next_word (sn_rng t))\<rparr>"]
      show ?thesis by (simp add: scenario_next_def split_beta)
    next
      case (RecordAction a)
      have "sn_rng (scenario_record a s) = sn_rng t" using Cons.prems by (simp add: scenario_record_def)
      with RecordAction Cons.IH show ?thesis by simp
    qed
  qed simp
  have "sn_trace (snd (scenario_run next_word ops s)) =
      sn_trace s @ concat (map (\<lambda>op. case op of RecordAction a \<Rightarrow> [a] | NextWord \<Rightarrow> []) ops) \<and>
    sn_seed (snd (scenario_run next_word ops s)) = sn_seed s"
  proof (induction ops arbitrary: s)
    case (Cons op ops)
    then show ?case by (cases op) (simp_all add: scenario_next_def scenario_record_def split_beta)
  qed simp
  with words [OF refl] show ?thesis by simp
qed

section \<open>The contract of an event queue\<close>

text \<open>What a scheduler promises its client: events are kept in the order of their times, a new event goes
  behind those of the same time, and a pop returns the first one and moves the clock to its time.\<close>

definition schedule_each :: "('t \<Rightarrow> 'e \<Rightarrow> 'q \<Rightarrow> 'r \<times> 'q) \<Rightarrow> ('t \<times> 'e) list \<Rightarrow> 'q \<Rightarrow> 'q" where
  "schedule_each schedule xs q = fold (\<lambda>x q. snd (schedule (fst x) (snd x) q)) xs q"

fun pop_each :: "('q \<Rightarrow> 'r \<times> 'q) \<Rightarrow> nat \<Rightarrow> 'q \<Rightarrow> 'r list" where
  "pop_each pop 0 q = []"
| "pop_each pop (Suc n) q = (case pop q of (r, q) \<Rightarrow> r # pop_each pop n q)"

locale event_queue =
  fixes inv :: "'q \<Rightarrow> bool"
    and events :: "'q \<Rightarrow> ('t::linorder \<times> 'e) list"
    and now :: "'q \<Rightarrow> 't"
    and room :: "'q \<Rightarrow> nat"
    and schedule :: "'t \<Rightarrow> 'e \<Rightarrow> 'q \<Rightarrow> ('x + 's) \<times> 'q"
    and pop :: "'q \<Rightarrow> ('x + ('t \<times> 'e) option) \<times> 'q"
  assumes events_sorted: "inv q \<Longrightarrow> sorted (map fst (events q))"
    and schedule_accepts: "inv q \<Longrightarrow> now q \<le> t \<Longrightarrow> 0 < room q \<Longrightarrow> schedule t e q = (res, q') \<Longrightarrow>
      is_ok res \<and> inv q' \<and> now q' = now q \<and> room q' = room q - 1 \<and>
      events q' = filter (\<lambda>x. fst x \<le> t) (events q) @ (t, e) # filter (\<lambda>x. t < fst x) (events q)"
    and pop_empty: "inv q \<Longrightarrow> events q = [] \<Longrightarrow> pop q = (Inr None, q)"
    and pop_first: "inv q \<Longrightarrow> events q = x # xs \<Longrightarrow> pop q = (popped, q') \<Longrightarrow>
      popped = Inr (Some x) \<and> inv q' \<and> events q' = xs \<and> now q' = fst x"
begin

lemma pop_each_events: "inv q \<Longrightarrow> n = length (events q) \<Longrightarrow> pop_each pop n q = map (Inr \<circ> Some) (events q)"
proof (induction n arbitrary: q)
  case (Suc n)
  then obtain x xs where "events q = x # xs" by (cases "events q") auto
  then show ?case
    using Suc.IH [of "snd (pop q)"] Suc.prems pop_first [of q x xs "fst (pop q)" "snd (pop q)"]
    by (simp add: split_beta)
qed simp

text \<open>A stable insertion behind the events of the same time is one step of the stable sort.\<close>

lemma sort_key_snoc:
  "sort_key f (xs @ [x]) =
     filter (\<lambda>y. f y \<le> f x) (sort_key f xs) @ x # filter (\<lambda>y. f x < f y) (sort_key f xs)"
  for f :: "'a \<Rightarrow> 't"
proof (rule properties_for_sort_key)
  have "mset (filter (\<lambda>y. f x < f y) (sort_key f xs)) = mset (filter (\<lambda>y. \<not> f y \<le> f x) (sort_key f xs))"
    by (simp add: not_le)
  then show "mset (filter (\<lambda>y. f y \<le> f x) (sort_key f xs) @ x # filter (\<lambda>y. f x < f y) (sort_key f xs)) =
      mset (xs @ [x])"
    by (simp add: multiset_partition [symmetric])
  show "sorted (map f (filter (\<lambda>y. f y \<le> f x) (sort_key f xs) @ x # filter (\<lambda>y. f x < f y) (sort_key f xs)))"
    by (auto simp: sorted_append sorted_filter intro: less_imp_le)
  fix k
  have same_key: "filter (\<lambda>y. f k = f y) (filter (\<lambda>y. P (f y)) ys) =
      (if P (f k) then filter (\<lambda>y. f k = f y) ys else [])" for P ys
    by (auto simp: filter_empty_conv intro: filter_cong)
  have "filter (\<lambda>y. f k = f y) (sort_key f xs) = filter (\<lambda>y. f k = f y) xs"
    by (simp only: filter_sort, rule sort_key_id_if_sorted)
      (use sorted_map_same [of f "\<lambda>_. f k" xs] in \<open>simp add: eq_commute\<close>)
  then show "filter (\<lambda>y. f k = f y)
      (filter (\<lambda>y. f y \<le> f x) (sort_key f xs) @ x # filter (\<lambda>y. f x < f y) (sort_key f xs)) =
      filter (\<lambda>y. f k = f y) (xs @ [x])"
    unfolding filter_append filter.simps same_key [of "\<lambda>v. v \<le> f x"] same_key [of "\<lambda>v. f x < v"]
    by (cases rule: linorder_cases [of "f k" "f x"]) (auto simp: not_le [symmetric])
qed

lemma schedule_each_events:
  "inv q \<Longrightarrow> \<forall>x\<in>set xs. now q \<le> fst x \<Longrightarrow> length xs \<le> room q \<Longrightarrow>
     inv (schedule_each schedule xs q) \<and> now (schedule_each schedule xs q) = now q \<and> room (schedule_each schedule xs q) = room q - length xs \<and>
     events (schedule_each schedule xs q) = sort_key fst (events q @ xs)"
proof (induction xs rule: rev_induct)
  case Nil
  then show ?case by (simp add: schedule_each_def events_sorted sort_key_id_if_sorted)
next
  case (snoc x xs)
  let ?q = "schedule_each schedule xs q"
  have IH: "inv ?q" "now ?q = now q" "room ?q = room q - length xs" "events ?q = sort_key fst (events q @ xs)"
    using snoc by auto
  have "schedule_each schedule (xs @ [x]) q = snd (schedule (fst x) (snd x) ?q)" by (simp add: schedule_each_def)
  then show ?case
    using schedule_accepts [of ?q "fst x" "snd x" "fst (schedule (fst x) (snd x) ?q)" "schedule_each schedule (xs @ [x]) q"]
      IH snoc.prems sort_key_snoc [of fst "events q @ xs" x]
    by simp
qed

lemma drains_in_stable_order:
  assumes "inv q" and "\<forall>x\<in>set xs. now q \<le> fst x" and "length xs \<le> room q"
  shows "pop_each pop (length (events q) + length xs) (schedule_each schedule xs q) = map (Inr \<circ> Some) (sort_key fst (events q @ xs))"
  using schedule_each_events [OF assms] pop_each_events [of "schedule_each schedule xs q"] by simp

end

section \<open>The driver keeps it\<close>

definition driver_ok :: "'t driver \<Rightarrow> bool" where
  "driver_ok d \<longleftrightarrow> sorted_wrt (<) (map fst (dr_queue d)) \<and>
     (\<forall>x \<in> set (dr_queue d). driver_now d \<le> fst (fst x) \<and> snd (fst x) < dr_next_sequence d)"

definition driver_events :: "'t driver \<Rightarrow> (logical_tick \<times> 't) list" where
  "driver_events d = map (\<lambda>x. (fst (fst x), snd x)) (dr_queue d)"

definition driver_room :: "'t driver \<Rightarrow> nat" where
  "driver_room d = 2 ^ 64 - 1 - unat (dr_next_sequence d)"

definition pop_event :: "'t driver \<Rightarrow> (driver_error + (logical_tick \<times> 't) option) \<times> 't driver" where
  "pop_event d = (case pop_next d of (r, d) \<Rightarrow> (map_sum id (map_option (\<lambda>s. (sc_tick s, sc_event s))) r, d))"

lemma map_insert_newest:
  assumes "sorted_wrt (<) (map fst q)" and "\<forall>x \<in> set q. snd (fst x) < s"
  shows "map_insert (t, s) e q =
    (None, filter (\<lambda>x. fst (fst x) \<le> t) q @ ((t, s), e) # filter (\<lambda>x. t < fst (fst x)) q)"
  using assms
proof (induction q)
  case (Cons x q)
  obtain t' s' e' where x: "x = ((t', s'), e')" by (metis prod.exhaust)
  have s': "s' < s" using Cons.prems(2) x by simp
  show ?case
  proof (cases "t < t'")
    case True
    then have "\<forall>x \<in> set q. t < fst (fst x)"
      using Cons.prems(1) x by (auto simp: less_prod_def)
    then have "filter (\<lambda>x. fst (fst x) \<le> t) q = []" "filter (\<lambda>x. t < fst (fst x)) q = q"
      by (auto simp: filter_empty_conv filter_id_conv not_le)
    with True x show ?thesis by (simp add: less_prod_def)
  next
    case False
    then have "\<not> (t, s) < (t', s')" "(t, s) \<noteq> (t', s')" using s' by (auto simp: less_prod_def)
    with False Cons x show ?thesis by auto
  qed
qed simp

lemma schedule_at_accepts:
  assumes ok: "driver_ok d" and t: "driver_now d \<le> t" and room: "0 < driver_room d"
    and run: "schedule_at t e d = (res, d')"
  shows "res = Inr (dr_next_sequence d)" "driver_ok d'" "driver_now d' = driver_now d"
    "driver_room d' = driver_room d - 1"
    "driver_events d' = filter (\<lambda>x. fst x \<le> t) (driver_events d) @ (t, e) # filter (\<lambda>x. t < fst x) (driver_events d)"
proof -
  let ?s = "dr_next_sequence d"
  obtain n where n: "checked_add ?s 1 = Some n"
    using room unsigned_less [of ?s, where ?'a = nat]
    by (cases "checked_add ?s 1") (auto simp: checked_add_None_iff driver_room_def)
  have un: "unat n = unat ?s + 1" using n by (simp add: result_iff)
  have q: "map_insert (t, ?s) e (dr_queue d) = (None, filter (\<lambda>x. fst (fst x) \<le> t) (dr_queue d) @
      ((t, ?s), e) # filter (\<lambda>x. t < fst (fst x)) (dr_queue d))"
    using ok by (intro map_insert_newest) (auto simp: driver_ok_def)
  have d': "res = Inr ?s" "d' = d\<lparr>dr_next_sequence := n, dr_queue := filter (\<lambda>x. fst (fst x) \<le> t) (dr_queue d) @
      ((t, ?s), e) # filter (\<lambda>x. t < fst (fst x)) (dr_queue d)\<rparr>"
    using run t unfolding schedule_at_def Let_def n q by (auto simp: not_less [symmetric])
  show "res = Inr ?s" "driver_now d' = driver_now d" by (simp_all add: d' driver_now_def)
  show "driver_room d' = driver_room d - 1" by (simp add: d' driver_room_def un)
  show "driver_events d' = filter (\<lambda>x. fst x \<le> t) (driver_events d) @ (t, e) # filter (\<lambda>x. t < fst x) (driver_events d)"
    by (simp add: d' driver_events_def filter_map comp_def)
  have "sorted_wrt (<) (map fst (filter P (dr_queue d)))" for P
    using ok by (auto simp: driver_ok_def sorted_wrt_map intro: sorted_wrt_filter)
  then show "driver_ok d'"
    using ok t by (auto simp: d' driver_ok_def driver_now_def sorted_wrt_append less_prod_def word_less_nat_alt un
        less_Suc_eq)
qed

lemma pop_event_empty: "driver_events d = [] \<Longrightarrow> pop_event d = (Inr None, d)"
  by (simp add: driver_events_def pop_event_def pop_next_def)

lemma driver_ok_later:
  "driver_ok d \<Longrightarrow> dr_queue d = ((t, s), e) # q \<Longrightarrow> \<not> t < driver_now d \<and> (\<forall>x\<in>set q. t \<le> fst (fst x))"
  by (auto simp: driver_ok_def less_prod_def)

lemma pop_next_first:
  assumes ok: "driver_ok d" and q: "dr_queue d = ((t, s), e) # q"
  shows "pop_next d = (Inr (Some \<lparr>sc_tick = t, sc_insertion_sequence = s, sc_event = e\<rparr>),
      d\<lparr>dr_queue := q, dr_clock := clock_new\<lparr>clk_now := t\<rparr>\<rparr>)"
    and "driver_ok (d\<lparr>dr_queue := q, dr_clock := clock_new\<lparr>clk_now := t\<rparr>\<rparr>)"
proof -
  have later: "\<not> t < clk_now (dr_clock d)" "\<forall>x\<in>set q. t \<le> fst (fst x)"
    using driver_ok_later [OF assms] by (simp_all add: driver_now_def)
  have "(dr_clock d)\<lparr>clk_now := t\<rparr> = clock_new\<lparr>clk_now := t\<rparr>" by (cases "dr_clock d") (simp add: clock_new_def)
  with later show "pop_next d = (Inr (Some \<lparr>sc_tick = t, sc_insertion_sequence = s, sc_event = e\<rparr>),
      d\<lparr>dr_queue := q, dr_clock := clock_new\<lparr>clk_now := t\<rparr>\<rparr>)"
    by (simp add: pop_next_def q advance_to_def)
  show "driver_ok (d\<lparr>dr_queue := q, dr_clock := clock_new\<lparr>clk_now := t\<rparr>\<rparr>)"
    using ok q later by (simp add: driver_ok_def driver_now_def)
qed

lemma pop_event_first:
  assumes "driver_ok d" and "driver_events d = x # xs" and "pop_event d = (res, d')"
  shows "res = Inr (Some x) \<and> driver_ok d' \<and> driver_events d' = xs \<and> driver_now d' = fst x"
proof -
  obtain t s e q where q: "dr_queue d = ((t, s), e) # q" "x = (t, e)" "xs = map (\<lambda>x. (fst (fst x), snd x)) q"
    using assms(2) by (auto simp: driver_events_def)
  show ?thesis
    using pop_next_first [OF assms(1) q(1)] assms(3) q(2,3)
    by (auto simp: pop_event_def driver_events_def driver_now_def)
qed

interpretation driver_queue: event_queue driver_ok driver_events driver_now driver_room schedule_at pop_event
proof
  fix d :: "'t driver"
  assume ok: "driver_ok d"
  then have "sorted_wrt (\<lambda>x y. fst x < fst y) (dr_queue d)"
    by (simp add: driver_ok_def sorted_wrt_map)
  then have "sorted_wrt (\<lambda>x y. fst (fst x) \<le> fst (fst y)) (dr_queue d)"
    by (rule sorted_wrt_mono_rel [rotated]) (auto simp: less_prod_def)
  then show "sorted (map fst (driver_events d))"
    by (simp add: driver_events_def sorted_wrt_map)
next
  fix d d' :: "'t driver" and t :: logical_tick and e :: 't and res
  assume ok: "driver_ok d"
  assume run: "driver_now d \<le> t" "0 < driver_room d" "schedule_at t e d = (res, d')"
  from schedule_at_accepts [OF ok run] show "is_ok res \<and> driver_ok d' \<and> driver_now d' = driver_now d \<and> driver_room d' = driver_room d - 1 \<and>
      driver_events d' = filter (\<lambda>x. fst x \<le> t) (driver_events d) @ (t, e) # filter (\<lambda>x. t < fst x) (driver_events d)"
    by simp
next
  show "driver_ok d \<Longrightarrow> driver_events d = [] \<Longrightarrow> pop_event d = (Inr None, d)" for d :: "'t driver"
    by (simp add: pop_event_empty)
  show "driver_ok d \<Longrightarrow> driver_events d = x # xs \<Longrightarrow> pop_event d = (res, d') \<Longrightarrow>
      res = Inr (Some x) \<and> driver_ok d' \<and> driver_events d' = xs \<and> driver_now d' = fst x"
    for d d' :: "'t driver" and x xs res
    by (rule pop_event_first)
qed

lemma driver_ok_new: "driver_ok driver_new"
  by (simp add: driver_ok_def driver_new_def)

lemma schedule_at_cases:
  obtains (refused) err where "schedule_at t e d = (Inl err, d)" "err \<noteq> AssertionFailed"
      "t < driver_now d \<or> driver_room d = 0"
  | (accepted) "driver_now d \<le> t" "0 < driver_room d"
proof (cases "t < driver_now d \<or> driver_room d = 0")
  case True
  then have "t < driver_now d \<or> checked_add (dr_next_sequence d) 1 = None"
    using unsigned_less [of "dr_next_sequence d", where ?'a = nat]
    by (auto simp: driver_room_def checked_add_None_iff)
  then show thesis
    using refused [of "PastTick (driver_now d) t"] refused [of SequenceOverflow] True
    by (cases "t < driver_now d") (simp_all add: schedule_at_def)
qed (use accepted in auto)

lemma schedule_at_ok:
  assumes "driver_ok d"
  shows "driver_ok (snd (schedule_at t e d))" "fst (schedule_at t e d) \<noteq> Inl AssertionFailed"
    "driver_now (snd (schedule_at t e d)) = driver_now d"
proof -
  obtain res d' where run: "schedule_at t e d = (res, d')" by fastforce
  have "driver_ok d' \<and> res \<noteq> Inl AssertionFailed \<and> driver_now d' = driver_now d"
  proof (cases rule: schedule_at_cases [of t e d])
    case accepted
    with schedule_at_accepts [OF assms _ _ run] show ?thesis by simp
  qed (use assms run in auto)
  with run show "driver_ok (snd (schedule_at t e d))" "fst (schedule_at t e d) \<noteq> Inl AssertionFailed"
    "driver_now (snd (schedule_at t e d)) = driver_now d" by simp_all
qed

lemma schedule_after_ok:
  assumes "driver_ok d"
  shows "driver_ok (snd (schedule_after n e d))" "fst (schedule_after n e d) \<noteq> Inl AssertionFailed"
    "driver_now (snd (schedule_after n e d)) = driver_now d"
  using assms by (simp_all add: schedule_after_def schedule_at_ok split: sum.split)

lemma map_retain_sorted:
  "map_retain keep s m = (m', s') \<Longrightarrow>
     set m' \<subseteq> set m \<and> (sorted_wrt (<) (map fst m) \<longrightarrow> sorted_wrt (<) (map fst m'))"
  by (induction keep s m arbitrary: m' s' rule: map_retain.induct)
    (fastforce split: prod.splits if_splits)+

lemma driver_retain_ok:
  assumes "driver_ok d"
  shows "driver_ok (fst (driver_retain keep s d))" "driver_now (fst (driver_retain keep s d)) = driver_now d"
proof -
  obtain m s' where "map_retain keep s (dr_queue d) = (m, s')" by fastforce
  with map_retain_sorted [OF this] assms
  show "driver_ok (fst (driver_retain keep s d))" "driver_now (fst (driver_retain keep s d)) = driver_now d"
    by (auto simp: driver_retain_def driver_ok_def driver_now_def)
qed

lemma pop_next_ok:
  assumes "driver_ok d"
  shows "driver_ok (snd (pop_next d))" "\<exists>r. fst (pop_next d) = Inr r" "driver_now d \<le> driver_now (snd (pop_next d))"
proof -
  have "driver_ok (snd (pop_next d)) \<and> (\<exists>r. fst (pop_next d) = Inr r) \<and> driver_now d \<le> driver_now (snd (pop_next d))"
  proof (cases "dr_queue d")
    case Nil
    then show ?thesis using assms by (simp add: pop_next_def)
  next
    case (Cons x q)
    moreover obtain t s e where "x = ((t, s), e)" by (metis prod.exhaust)
    ultimately have q: "dr_queue d = ((t, s), e) # q" by simp
    show ?thesis
      using pop_next_first [OF assms q] driver_ok_later [OF assms q] by (simp add: driver_now_def not_less)
  qed
  then show "driver_ok (snd (pop_next d))" "\<exists>r. fst (pop_next d) = Inr r"
    "driver_now d \<le> driver_now (snd (pop_next d))" by auto
qed

section \<open>Properties\<close>

datatype 't driver_op =
    OpScheduleAt logical_tick 't
  | OpScheduleAfter u64 't
  | OpPopNext
  | OpRetain "'t \<Rightarrow> bool"

fun driver_op_run :: "'t driver_op \<Rightarrow> 't driver \<Rightarrow> 't driver" where
  "driver_op_run (OpScheduleAt t e) d = snd (schedule_at t e d)"
| "driver_op_run (OpScheduleAfter n e) d = snd (schedule_after n e d)"
| "driver_op_run OpPopNext d = snd (pop_next d)"
| "driver_op_run (OpRetain keep) d = fst (driver_retain (\<lambda>e s. (keep e, s)) () d)"

lemma driver_op_run_ok: "driver_ok d \<Longrightarrow> driver_ok (driver_op_run op d)"
  by (cases op) (simp_all add: schedule_at_ok schedule_after_ok pop_next_ok driver_retain_ok)

lemma driver_runs_ok: "driver_ok d \<Longrightarrow> driver_ok (fold driver_op_run ops d)"
  by (induction ops arbitrary: d) (simp_all add: driver_op_run_ok)

text \<open>C39: The scheduler is a stable sort: whatever was done to a driver before, scheduling events that are not
  in the past and popping everything returns, without an error, the pending and the new events sorted
  by tick, those of one tick in the order they were scheduled. \<close>

theorem driver_drains_in_stable_order:
  assumes "d = fold driver_op_run ops driver_new"
    and "\<forall>x\<in>set xs. driver_now d \<le> fst x"
    and "unat (dr_next_sequence d) + length xs < 2 ^ 64"
  shows "pop_each pop_event (length (driver_events d) + length xs) (schedule_each schedule_at xs d) =
    map (Inr \<circ> Some) (sort_key fst (driver_events d @ xs))"
  using assms(2,3)
  by (intro driver_queue.drains_in_stable_order)
    (simp_all add: assms(1) driver_runs_ok driver_ok_new driver_room_def)

theorem driver_drains_in_stable_order_witness:
  "pop_each pop_event 3 (schedule_each schedule_at [(LogicalTick 1, ''first''), (LogicalTick 1, ''second'')]
     (fold driver_op_run [OpScheduleAt (LogicalTick 2) ''later''] driver_new)) =
   [Inr (Some (LogicalTick 1, ''first'')), Inr (Some (LogicalTick 1, ''second'')),
    Inr (Some (LogicalTick 2, ''later''))]"
proof -
  let ?d = "fold driver_op_run [OpScheduleAt (LogicalTick 2) ''later''] driver_new"
  let ?xs = "[(LogicalTick 1, ''first''), (LogicalTick 1, ''second'')]"
  have seq: "dr_next_sequence ?d = 1" and now: "\<forall>x\<in>set ?xs. driver_now ?d \<le> fst x" by code_simp+
  have room: "unat (dr_next_sequence ?d) + length ?xs < 2 ^ 64" by (simp only: seq) simp
  have "length (driver_events ?d) + length ?xs = 3" by code_simp
  moreover have "map (Inr \<circ> Some) (sort_key fst (driver_events ?d @ ?xs)) =
      [Inr (Some (LogicalTick 1, ''first'')), Inr (Some (LogicalTick 1, ''second'')),
       Inr (Some (LogicalTick 2, ''later'')) :: driver_error + (logical_tick \<times> string) option]" by code_simp
  ultimately show ?thesis
    using driver_drains_in_stable_order [OF refl now room] by (simp only:)
qed

end
