(* ===== verification/Testkit_Network.thy ===== *)
theory Testkit_Network
  imports Testkit_Driver Iron_Protocol
begin

text \<open>
  The simulated network of \<open>iron-testkit\<close> (\<open>fault.rs\<close>, \<open>network.rs\<close>): scripted faults, partitions, crashes,
  held messages, and the delivery loop over the event queue.

  A \<open>BTreeSet\<close> of nodes or of node pairs is a finite set. The delivery loop is a partial function, so that
  its termination is a theorem.
\<close>

section \<open>Faults\<close>

record fault_predicate =
  fp_ordinal :: "u64 option"
  fp_source :: "node_id option"
  fp_destination :: "node_id option"
  fp_protocol :: "protocol_name option"
  fp_message_type :: "message_type option"

definition is_none_or :: "'a option \<Rightarrow> 'a \<Rightarrow> bool" where
  "is_none_or expected v \<longleftrightarrow> (case expected of None \<Rightarrow> True | Some w \<Rightarrow> w = v)"

definition predicate_matches :: "fault_predicate \<Rightarrow> u64 \<Rightarrow> envelope \<Rightarrow> bool" where
  "predicate_matches p ordinal envelope \<longleftrightarrow>
     is_none_or (fp_ordinal p) ordinal \<and>
     is_none_or (fp_source p) (env_source (as_v1 envelope)) \<and>
     is_none_or (fp_destination p) (env_destination (as_v1 envelope)) \<and>
     is_none_or (fp_protocol p) (env_protocol (as_v1 envelope)) \<and>
     is_none_or (fp_message_type p) (env_message_type (as_v1 envelope))"

datatype fault_action = FaultDrop | FaultDuplicate u32 | FaultDelay u64 | FaultReorderAtTick u64

record fault_rule =
  fr_predicate :: fault_predicate
  fr_action :: fault_action
  fr_consuming :: bool
  fr_consumed :: bool

definition fault_rule_new :: "fault_predicate \<Rightarrow> fault_action \<Rightarrow> bool \<Rightarrow> fault_rule" where
  "fault_rule_new predicate action consuming =
     \<lparr>fr_predicate = predicate, fr_action = action, fr_consuming = consuming, fr_consumed = False\<rparr>"

definition try_match :: "u64 \<Rightarrow> envelope \<Rightarrow> fault_rule \<Rightarrow> fault_action option \<times> fault_rule" where
  "try_match ordinal envelope r =
     (if fr_consumed r \<or> \<not> predicate_matches (fr_predicate r) ordinal envelope then (None, r)
      else (Some (fr_action r), if fr_consuming r then r\<lparr>fr_consumed := True\<rparr> else r))"

text \<open>\<open>iter_mut().find_map(..)\<close>: the first rule that matches, which may mark itself consumed.\<close>

fun first_match :: "u64 \<Rightarrow> envelope \<Rightarrow> fault_rule list \<Rightarrow> fault_action option \<times> fault_rule list" where
  "first_match ordinal envelope [] = (None, [])"
| "first_match ordinal envelope (r # rs) =
     (case try_match ordinal envelope r of
        (Some a, r) \<Rightarrow> (Some a, r # rs)
      | (None, r) \<Rightarrow> (case first_match ordinal envelope rs of (a, rs) \<Rightarrow> (a, r # rs)))"

section \<open>The network\<close>

record held_delivery =
  hd_tick :: logical_tick
  hd_envelope :: envelope

record accepted_attempt =
  aa_ordinal :: u64
  aa_enqueued_copies :: u32

datatype network_error =
    AttemptOverflow
  | DuplicateCountOverflow
  | ReorderInPast logical_tick logical_tick
  | NetworkDriver driver_error

record sim_network =
  nw_deliveries :: "envelope driver"
  nw_held :: "held_delivery list"
  nw_rules :: "fault_rule list"
  nw_partitions :: "(node_id \<times> node_id) set"
  nw_crashed :: "node_id set"
  nw_last_ordinal :: u64

definition network_new :: sim_network where
  "network_new = \<lparr>nw_deliveries = driver_new, nw_held = [], nw_rules = [], nw_partitions = {},
     nw_crashed = {}, nw_last_ordinal = 0\<rparr>"

definition add_fault :: "fault_rule \<Rightarrow> sim_network \<Rightarrow> sim_network" where
  "add_fault r n = n\<lparr>nw_rules := nw_rules n @ [r]\<rparr>"

definition partition_link :: "node_id \<Rightarrow> node_id \<Rightarrow> sim_network \<Rightarrow> sim_network" where
  "partition_link src dst n = n\<lparr>nw_partitions := insert (src, dst) (nw_partitions n)\<rparr>"

definition heal :: "node_id \<Rightarrow> node_id \<Rightarrow> sim_network \<Rightarrow> bool \<times> sim_network" where
  "heal src dst n = ((src, dst) \<in> nw_partitions n, n\<lparr>nw_partitions := nw_partitions n - {(src, dst)}\<rparr>)"

definition crash :: "node_id \<Rightarrow> sim_network \<Rightarrow> sim_network" where
  "crash node n = n\<lparr>nw_crashed := insert node (nw_crashed n)\<rparr>"

definition restart :: "node_id \<Rightarrow> sim_network \<Rightarrow> bool \<times> sim_network" where
  "restart node n = (node \<in> nw_crashed n, n\<lparr>nw_crashed := nw_crashed n - {node}\<rparr>)"

definition is_blocked :: "envelope \<Rightarrow> sim_network \<Rightarrow> bool" where
  "is_blocked envelope n \<longleftrightarrow> env_destination (as_v1 envelope) \<in> nw_crashed n \<or>
     (env_source (as_v1 envelope), env_destination (as_v1 envelope)) \<in> nw_partitions n"

text \<open>The driver's result of one scheduling call as the network's.\<close>

definition on_deliveries ::
  "(envelope driver \<Rightarrow> (driver_error + 'a) \<times> envelope driver) \<Rightarrow> sim_network \<Rightarrow> (network_error + 'a) \<times> sim_network" where
  "on_deliveries f n =
     (case f (nw_deliveries n) of
        (Inl e, d) \<Rightarrow> (Inl (NetworkDriver e), n\<lparr>nw_deliveries := d\<rparr>)
      | (Inr v, d) \<Rightarrow> (Inr v, n\<lparr>nw_deliveries := d\<rparr>))"

fun schedule_copies :: "nat \<Rightarrow> envelope \<Rightarrow> envelope driver \<Rightarrow> (driver_error + unit) \<times> envelope driver" where
  "schedule_copies 0 envelope d = (Inr (), d)"
| "schedule_copies (Suc copies) envelope d =
     (case schedule_after 0 envelope d of
        (Inl e, d) \<Rightarrow> (Inl e, d)
      | (Inr _, d) \<Rightarrow> schedule_copies copies envelope d)"

definition counted :: "u64 \<Rightarrow> u32 \<Rightarrow> (network_error + 'a) \<times> sim_network \<Rightarrow> (network_error + accepted_attempt) \<times> sim_network" where
  "counted ordinal copies r =
     (case r of
        (Inl e, n) \<Rightarrow> (Inl e, n)
      | (Inr _, n) \<Rightarrow> (Inr \<lparr>aa_ordinal = ordinal, aa_enqueued_copies = copies\<rparr>, n))"

definition network_send :: "envelope \<Rightarrow> sim_network \<Rightarrow> (network_error + accepted_attempt) \<times> sim_network" where
  "network_send envelope n =
     (case checked_add (nw_last_ordinal n) 1 of
        None \<Rightarrow> (Inl AttemptOverflow, n)
      | Some ordinal \<Rightarrow>
          let n = n\<lparr>nw_last_ordinal := ordinal\<rparr> in
          if is_blocked envelope n then (Inr \<lparr>aa_ordinal = ordinal, aa_enqueued_copies = 0\<rparr>, n)
          else (case first_match ordinal envelope (nw_rules n) of (action, rules) \<Rightarrow>
            let n = n\<lparr>nw_rules := rules\<rparr> in
            (case action of
               None \<Rightarrow> counted ordinal 1 (on_deliveries (schedule_after 0 envelope) n)
             | Some FaultDrop \<Rightarrow> (Inr \<lparr>aa_ordinal = ordinal, aa_enqueued_copies = 0\<rparr>, n)
             | Some (FaultDuplicate additional_copies) \<Rightarrow>
                 (case checked_add additional_copies 1 of
                    None \<Rightarrow> (Inl DuplicateCountOverflow, n)
                  | Some copies \<Rightarrow>
                      counted ordinal copies (on_deliveries (schedule_copies (unat copies) envelope) n))
             | Some (FaultDelay delay) \<Rightarrow> counted ordinal 1 (on_deliveries (schedule_after delay envelope) n)
             | Some (FaultReorderAtTick tick) \<Rightarrow>
                 let tick = LogicalTick tick in
                 if tick < driver_now (nw_deliveries n)
                 then (Inl (ReorderInPast (driver_now (nw_deliveries n)) tick), n)
                 else (Inr \<lparr>aa_ordinal = ordinal, aa_enqueued_copies = 0\<rparr>,
                       n\<lparr>nw_held := nw_held n @ [\<lparr>hd_tick = tick, hd_envelope = envelope\<rparr>]\<rparr>))))"

text \<open>The loop of \<open>release_reordered_at\<close> stops at the first error.\<close>

fun schedule_released ::
  "logical_tick \<Rightarrow> held_delivery list \<Rightarrow> envelope driver \<Rightarrow> (driver_error + unit) \<times> envelope driver" where
  "schedule_released tick [] d = (Inr (), d)"
| "schedule_released tick (delivery # releasing) d =
     (case schedule_at tick (hd_envelope delivery) d of
        (Inl e, d) \<Rightarrow> (Inl e, d)
      | (Inr _, d) \<Rightarrow> schedule_released tick releasing d)"

definition release_reordered_at :: "logical_tick \<Rightarrow> sim_network \<Rightarrow> (network_error + nat) \<times> sim_network" where
  "release_reordered_at tick n =
     (let releasing = filter (\<lambda>d. hd_tick d = tick) (nw_held n);
          n = n\<lparr>nw_held := filter (\<lambda>d. hd_tick d \<noteq> tick) (nw_held n)\<rparr>
      in case on_deliveries (schedule_released tick (rev releasing)) n of
           (Inl e, n) \<Rightarrow> (Inl e, n)
         | (Inr _, n) \<Rightarrow> (Inr (length releasing), n))"

partial_function (option) pop_delivery ::
  "sim_network \<Rightarrow> ((network_error + envelope scheduled option) \<times> sim_network) option" where
  [code]: "pop_delivery n =
     (case on_deliveries pop_next n of
        (Inl e, n) \<Rightarrow> Some (Inl e, n)
      | (Inr None, n) \<Rightarrow> Some (Inr None, n)
      | (Inr (Some delivery), n) \<Rightarrow>
          if \<not> is_blocked (sc_event delivery) n then Some (Inr (Some delivery), n) else pop_delivery n)"

section \<open>The transport adapter\<close>

datatype adapter_error = LockPoisoned | AdapterNetwork network_error

text \<open>\<open>TransportError::Internal\<close> boxes the adapter's error; it is kept beside it.\<close>

definition simulated_send ::
  "envelope \<Rightarrow> sim_network mutex \<Rightarrow> (transport_error \<times> adapter_error + unit) \<times> sim_network mutex" where
  "simulated_send envelope m =
     (if mx_poisoned m then (Inl (Internal, LockPoisoned), m)
      else case network_send envelope (mx_value m) of
        (Inl e, n) \<Rightarrow> (Inl (Internal, AdapterNetwork e), m\<lparr>mx_value := n\<rparr>)
      | (Inr _, n) \<Rightarrow> (Inr (), m\<lparr>mx_value := n\<rparr>))"

definition exercise_at_least_once_contract ::
  "(envelope \<Rightarrow> 't \<Rightarrow> ('e + unit) \<times> 't) \<Rightarrow> envelope \<Rightarrow> 't \<Rightarrow> ('e + unit) \<times> 't" where
  "exercise_at_least_once_contract send envelope t =
     (case send envelope t of (Inl e, t) \<Rightarrow> (Inl e, t) | (Inr _, t) \<Rightarrow> send envelope t)"

section \<open>Runs\<close>

datatype network_op =
    NetSend envelope
  | NetFault fault_rule
  | NetPartition node_id node_id
  | NetHeal node_id node_id
  | NetCrash node_id
  | NetRestart node_id
  | NetRelease logical_tick
  | NetPop

fun network_op_run :: "network_op \<Rightarrow> sim_network \<Rightarrow> sim_network" where
  "network_op_run (NetSend e) n = snd (network_send e n)"
| "network_op_run (NetFault r) n = add_fault r n"
| "network_op_run (NetPartition a b) n = partition_link a b n"
| "network_op_run (NetHeal a b) n = snd (heal a b n)"
| "network_op_run (NetCrash a) n = crash a n"
| "network_op_run (NetRestart a) n = snd (restart a n)"
| "network_op_run (NetRelease t) n = snd (release_reordered_at t n)"
| "network_op_run NetPop n = (case pop_delivery n of None \<Rightarrow> n | Some (_, n) \<Rightarrow> n)"

text \<open>\<open>scheduled_by f\<close>: \<open>f\<close> only schedules.\<close>

definition scheduled_by :: "(envelope driver \<Rightarrow> (driver_error + 'a) \<times> envelope driver) \<Rightarrow> bool" where
  "scheduled_by f \<longleftrightarrow> (\<forall>d. driver_ok d \<longrightarrow> driver_ok (snd (f d)) \<and> driver_now (snd (f d)) = driver_now d \<and>
     fst (f d) \<noteq> Inl AssertionFailed)"

lemma scheduled_by_calls [simp]: "scheduled_by (schedule_at t e)" "scheduled_by (schedule_after n e)"
  by (simp_all add: scheduled_by_def schedule_at_ok schedule_after_ok)

lemma scheduled_by_copies [simp]: "scheduled_by (schedule_copies k e)"
proof -
  have "driver_ok d \<Longrightarrow> driver_ok (snd (schedule_copies k e d)) \<and>
      driver_now (snd (schedule_copies k e d)) = driver_now d \<and> fst (schedule_copies k e d) \<noteq> Inl AssertionFailed" for d
  proof (induction k arbitrary: d)
    case (Suc k)
    then show ?case
      using schedule_after_ok [OF Suc.prems, of 0 e]
      by (cases "schedule_after 0 e d") (auto split: sum.split)
  qed simp
  then show ?thesis by (simp add: scheduled_by_def)
qed

lemma scheduled_by_released [simp]: "scheduled_by (schedule_released t hs)"
proof -
  have "driver_ok d \<Longrightarrow> driver_ok (snd (schedule_released t hs d)) \<and>
      driver_now (snd (schedule_released t hs d)) = driver_now d \<and>
      fst (schedule_released t hs d) \<noteq> Inl AssertionFailed" for d
  proof (induction hs arbitrary: d)
    case (Cons h hs)
    then show ?case
      using schedule_at_ok [OF Cons.prems, of t "hd_envelope h"]
      by (cases "schedule_at t (hd_envelope h) d") (auto split: sum.split)
  qed simp
  then show ?thesis by (simp add: scheduled_by_def)
qed

abbreviation network_ok :: "sim_network \<Rightarrow> bool" where
  "network_ok n \<equiv> driver_ok (nw_deliveries n)"

lemma on_deliveries_ok:
  assumes "scheduled_by f" and "network_ok n"
  shows "network_ok (snd (on_deliveries f n))"
  using assms by (simp add: on_deliveries_def scheduled_by_def split: prod.splits sum.splits) (metis snd_conv)

lemma snd_counted [simp]: "snd (counted ordinal copies r) = snd r"
  by (simp add: counted_def split: prod.split sum.split)

lemma network_send_ok: "network_ok n \<Longrightarrow> network_ok (snd (network_send e n))"
  by (auto simp: network_send_def Let_def on_deliveries_ok split: option.split prod.split fault_action.split)

lemma release_ok: "network_ok n \<Longrightarrow> network_ok (snd (release_reordered_at t n))"
  using on_deliveries_ok [of "schedule_released t (rev (filter (\<lambda>d. hd_tick d = t) (nw_held n)))"
      "n\<lparr>nw_held := filter (\<lambda>d. hd_tick d \<noteq> t) (nw_held n)\<rparr>"]
  by (auto simp: release_reordered_at_def Let_def split: prod.split sum.split)

section \<open>Deliveries\<close>

text \<open>The first queued copy that is not blocked.\<close>

definition scheduled_entry :: "(logical_tick \<times> u64) \<times> envelope \<Rightarrow> envelope scheduled" where
  "scheduled_entry x = \<lparr>sc_tick = fst (fst x), sc_insertion_sequence = snd (fst x), sc_event = snd x\<rparr>"

definition deliverable :: "sim_network \<Rightarrow> ((logical_tick \<times> u64) \<times> envelope) list" where
  "deliverable n = dropWhile (\<lambda>x. is_blocked (snd x) n) (dr_queue (nw_deliveries n))"

lemma is_blocked_deliveries [simp]: "is_blocked e (n\<lparr>nw_deliveries := d\<rparr>) = is_blocked e n"
  by (simp add: is_blocked_def)

lemma pop_delivery_first:
  assumes "network_ok n" and "k = length (dr_queue (nw_deliveries n))"
  shows "\<exists>n'. pop_delivery n = Some (Inr (case deliverable n of [] \<Rightarrow> None | x # _ \<Rightarrow> Some (scheduled_entry x)), n') \<and>
     network_ok n' \<and> dr_queue (nw_deliveries n') = tl (deliverable n) \<and>
     driver_now (nw_deliveries n) \<le> driver_now (nw_deliveries n')"
  using assms
proof (induction k arbitrary: n)
  case 0
  then show ?case
    by (subst pop_delivery.simps) (simp add: on_deliveries_def pop_next_def deliverable_def)
next
  case (Suc k)
  obtain t s e q where q: "dr_queue (nw_deliveries n) = ((t, s), e) # q"
    using Suc.prems(2) by (cases "dr_queue (nw_deliveries n)") auto
  define d where "d = (nw_deliveries n)\<lparr>dr_queue := q, dr_clock := clock_new\<lparr>clk_now := t\<rparr>\<rparr>"
  have pop: "on_deliveries pop_next n = (Inr (Some (scheduled_entry ((t, s), e))), n\<lparr>nw_deliveries := d\<rparr>)"
    and ok: "driver_ok d" and dq: "dr_queue d = q" and now: "driver_now (nw_deliveries n) \<le> driver_now d"
    using pop_next_first [OF Suc.prems(1) q] driver_ok_later [OF Suc.prems(1) q]
    by (simp_all add: on_deliveries_def d_def scheduled_entry_def driver_now_def not_less)
  show ?case
  proof (cases "is_blocked e n")
    case True
    have "deliverable (n\<lparr>nw_deliveries := d\<rparr>) = deliverable n"
      by (simp add: deliverable_def dq q True)
    with Suc.IH [of "n\<lparr>nw_deliveries := d\<rparr>"] ok dq Suc.prems(2) q True pop now show ?thesis
      by (subst pop_delivery.simps) (auto simp: scheduled_entry_def)
  next
    case False
    with ok dq pop q now show ?thesis
      by (subst pop_delivery.simps) (simp add: scheduled_entry_def deliverable_def)
  qed
qed

lemma network_op_run_ok: "network_ok n \<Longrightarrow> network_ok (network_op_run op n)"
proof (cases op)
  case NetPop
  assume "network_ok n"
  from pop_delivery_first [OF this refl] NetPop show ?thesis by auto
qed (simp_all add: network_send_ok release_ok add_fault_def partition_link_def heal_def crash_def restart_def)

lemma network_runs_ok: "network_ok n \<Longrightarrow> network_ok (fold network_op_run ops n)"
  by (induction ops arbitrary: n) (simp_all add: network_op_run_ok)

lemma network_reachable_ok: "network_ok (fold network_op_run ops network_new)"
  by (rule network_runs_ok) (simp add: network_new_def driver_ok_new)

section \<open>Accounting of copies\<close>

definition queued :: "envelope driver \<Rightarrow> envelope multiset" where
  "queued d = image_mset snd (mset (dr_queue d))"

lemma queued_events: "queued d = image_mset snd (mset (driver_events d))"
  by (simp add: queued_def driver_events_def image_mset.compositionality comp_def)

lemma schedule_at_queued:
  assumes "driver_ok d" and "schedule_at t e d = (Inr s, d')"
  shows "queued d' = add_mset e (queued d)"
proof (cases rule: schedule_at_cases [of t e d])
  case accepted
  let ?before = "filter_mset (\<lambda>x. fst x \<le> t) (mset (driver_events d))"
  have "mset (driver_events d) = ?before + filter_mset (\<lambda>x. \<not> fst x \<le> t) (mset (driver_events d))"
    by (rule multiset_partition)
  moreover have "mset (driver_events d') = add_mset (t, e) (?before + filter_mset (\<lambda>x. t < fst x) (mset (driver_events d)))"
    using schedule_at_accepts(5) [OF assms(1) accepted assms(2)] by simp
  ultimately show ?thesis by (simp add: queued_events not_le)
qed (use assms in simp)

definition limit_error :: "driver_error \<Rightarrow> bool" where
  "limit_error e \<longleftrightarrow> e = SequenceOverflow \<or> e = DriverClock ClockOverflow"

lemma schedule_after_result:
  assumes ok: "driver_ok d" and run: "schedule_after n e d = (res, d')"
  shows "res = Inl err \<Longrightarrow> limit_error err" "res = Inr s \<Longrightarrow> queued d' = add_mset e (queued d)"
proof -
  show "limit_error err" if "res = Inl err"
  proof (cases "tick_checked_add (driver_now d) n")
    case (Inl c)
    then show ?thesis
      using run that by (auto simp: schedule_after_def tick_checked_add_def result_iff limit_error_def)
  next
    case (Inr t)
    then have t: "\<not> t < driver_now d"
      by (auto simp: tick_checked_add_def result_iff less_logical_tick_def word_less_nat_alt)
    with Inr run that have "schedule_at t e d = (Inl err, d')" by (simp add: schedule_after_def)
    moreover have "err \<noteq> AssertionFailed"
      using schedule_at_ok(2) [OF ok, of t e] calculation by simp
    ultimately show ?thesis
      using t by (auto simp: schedule_at_def limit_error_def Let_def split: option.splits prod.splits if_splits)
  qed
  show "queued d' = add_mset e (queued d)" if "res = Inr s"
    using run that schedule_at_queued [OF ok] by (auto simp: schedule_after_def split: sum.splits)
qed

lemma schedule_copies_result:
  assumes "driver_ok d" and "schedule_copies k e d = (res, d')"
  shows "case res of Inl err \<Rightarrow> limit_error err | Inr _ \<Rightarrow> queued d' = queued d + replicate_mset k e"
  using assms
proof (induction k arbitrary: d)
  case (Suc k)
  obtain r c where c: "schedule_after 0 e d = (r, c)" by fastforce
  show ?case
  proof (cases r)
    case (Inl err)
    with c Suc.prems(2) schedule_after_result(1) [OF Suc.prems(1) c] show ?thesis by auto
  next
    case (Inr s)
    have "driver_ok c" using schedule_after_ok(1) [OF Suc.prems(1), of 0 e] c by simp
    with Suc.IH [of c] Suc.prems c Inr schedule_after_result(2) [OF Suc.prems(1) c Inr] show ?thesis
      by (auto split: sum.split)
  qed
qed auto

text \<open>What \<open>send\<close> promises of its result.\<close>

definition send_promise ::
  "envelope \<Rightarrow> sim_network \<Rightarrow> (network_error + accepted_attempt) \<times> sim_network \<Rightarrow> bool" where
  "send_promise e n r = (case r of
      (Inr a, n') \<Rightarrow> unat (aa_ordinal a) = unat (nw_last_ordinal n) + 1 \<and> nw_last_ordinal n' = aa_ordinal a \<and>
        queued (nw_deliveries n') = queued (nw_deliveries n) + replicate_mset (unat (aa_enqueued_copies a)) e \<and>
        (is_blocked e n \<longrightarrow> aa_enqueued_copies a = 0 \<and> nw_held n' = nw_held n)
    | (Inl (NetworkDriver err), n') \<Rightarrow> limit_error err
    | (Inl _, n') \<Rightarrow> nw_deliveries n' = nw_deliveries n \<and> nw_held n' = nw_held n)"

lemma counted_promise:
  assumes "scheduled_by f" and "network_ok n" and "\<not> is_blocked e n"
    and "unat i = unat (nw_last_ordinal n) + 1"
    and "\<And>res d. f (nw_deliveries n) = (res, d) \<Longrightarrow>
      (case res of Inl err \<Rightarrow> limit_error err | Inr _ \<Rightarrow> queued d = queued (nw_deliveries n) + replicate_mset (unat c) e)"
  shows "send_promise e n (counted i c (on_deliveries f (n\<lparr>nw_last_ordinal := i, nw_rules := rs\<rparr>)))"
proof -
  obtain res d where f: "f (nw_deliveries n) = (res, d)" by fastforce
  from assms(5) [OF f] assms(3,4) show ?thesis
    by (cases res) (simp_all add: send_promise_def counted_def on_deliveries_def f)
qed

text \<open>A send reports what it did: an accepted attempt gets the next ordinal and enqueues exactly the copies
  of the envelope it counts, none for a blocked link; it fails only when a counter overflows or a
  reorder rule lies in the past, and no assertion fails.\<close>

lemma network_send_promise:
  assumes ok: "network_ok n"
  shows "send_promise e n (network_send e n)"
proof (cases "checked_add (nw_last_ordinal n) 1")
  case None
  then show ?thesis by (simp add: network_send_def send_promise_def)
next
  case (Some i)
  then have i: "unat i = unat (nw_last_ordinal n) + 1" by (simp add: result_iff)
  have blocked: "is_blocked e (n\<lparr>nw_last_ordinal := i\<rparr>) = is_blocked e n" by (simp add: is_blocked_def)
  obtain action rs where m: "first_match i e (nw_rules n) = (action, rs)" by fastforce
  show ?thesis
  proof (cases "is_blocked e n")
    case True
    then show ?thesis by (simp add: network_send_def Some blocked send_promise_def i)
  next
    case free: False
    note promise = counted_promise [OF _ ok free i]
    have one: "send_promise e n (counted i 1 (on_deliveries (schedule_after k e) (n\<lparr>nw_last_ordinal := i, nw_rules := rs\<rparr>)))" for k
      by (rule promise) (auto split: sum.split intro: schedule_after_result [OF ok])
    have many: "send_promise e n (counted i c (on_deliveries (schedule_copies (unat c) e) (n\<lparr>nw_last_ordinal := i, nw_rules := rs\<rparr>)))" for c
      by (rule promise) (auto dest: schedule_copies_result [OF ok])
    show ?thesis
      using one many i free
      by (auto simp: network_send_def Some blocked m Let_def send_promise_def split: option.split fault_action.split)
  qed
qed

text \<open>A release behind the clock: the held messages are gone and nothing is scheduled.\<close>

lemma late_release_loses_messages:
  assumes "t < driver_now (nw_deliveries n)" and "h \<in> set (nw_held n)" and "hd_tick h = t"
  shows "release_reordered_at t n =
    (Inl (NetworkDriver (PastTick (driver_now (nw_deliveries n)) t)),
     n\<lparr>nw_held := filter (\<lambda>d. hd_tick d \<noteq> t) (nw_held n)\<rparr>)"
proof -
  have "rev (filter (\<lambda>d. hd_tick d = t) (nw_held n)) \<noteq> []"
    using assms(2,3) by (auto simp: filter_empty_conv)
  then obtain x xs where "rev (filter (\<lambda>d. hd_tick d = t) (nw_held n)) = x # xs" by (metis neq_Nil_conv)
  then show ?thesis
    using assms(1) by (simp add: release_reordered_at_def on_deliveries_def schedule_at_def Let_def)
qed

section \<open>Properties\<close>

text \<open>C40: The delivery loop terminates on every network a script can reach: it never fails and returns the
  earliest queued copy whose destination is up and whose link is not cut, dropping exactly the blocked
  copies before it, or nothing when there is none; the clock never goes back. \<close>

theorem pop_delivery_terminates:
  assumes "n = fold network_op_run ops network_new"
  shows "\<exists>n'. pop_delivery n = Some (Inr (case deliverable n of [] \<Rightarrow> None | x # _ \<Rightarrow> Some (scheduled_entry x)), n') \<and>
     dr_queue (nw_deliveries n') = tl (deliverable n) \<and>
     driver_now (nw_deliveries n) \<le> driver_now (nw_deliveries n')"
  using pop_delivery_first [OF _ refl, of n] network_reachable_ok [of ops] assms by blast

subsection \<open>Runs on inputs\<close>

definition test_envelope :: "string \<Rightarrow> string \<Rightarrow> envelope" where
  "test_envelope src dst = V1
     \<lparr>env_cluster_id = ClusterId (replicate 16 1), env_source = NodeId src, env_destination = NodeId dst,
      env_message_id = MessageId (replicate 16 2), env_correlation_id = None,
      env_protocol = ProtocolName ''raft'', env_message_type = MessageType ''append'',
      env_schema_version = SchemaVersion 1, env_delivery_attempt = 0, env_payload = []\<rparr>"

definition test_script :: "network_op list" where
  "test_script = [NetSend (test_envelope ''a'' ''b''), NetSend (test_envelope ''a'' ''c''), NetCrash (NodeId ''b''),
     NetFault (fault_rule_new \<lparr>fp_ordinal = None, fp_source = Some (NodeId ''b''), fp_destination = None,
       fp_protocol = None, fp_message_type = None\<rparr> (FaultDuplicate 2) True)]"

theorem pop_delivery_terminates_witness:
  "\<exists>n'. pop_delivery (fold network_op_run test_script network_new) =
     Some (Inr (Some \<lparr>sc_tick = LogicalTick 0, sc_insertion_sequence = 1, sc_event = test_envelope ''a'' ''c''\<rparr>), n')"
proof -
  let ?n = "fold network_op_run test_script network_new"
  have "(case deliverable ?n of [] \<Rightarrow> None | x # _ \<Rightarrow> Some (scheduled_entry x)) =
      Some \<lparr>sc_tick = LogicalTick 0, sc_insertion_sequence = 1, sc_event = test_envelope ''a'' ''c''\<rparr>"
    by code_simp
  with pop_delivery_terminates [of ?n test_script] show ?thesis by auto
qed

end
