(* ===== verification/Testkit_Wal.thy ===== *)
theory Testkit_Wal
  imports Wal_Io Config_Properties
begin

unbundle bit_operations_syntax

text \<open>
  The damage tools of \<open>iron-testkit/src/wal_fixture.rs\<close>: truncating the log, flipping bits of one byte and
  appending raw bytes, over the file whose calls may fail.

  The state is the log file of the fixture's directory, absent before it is created. Creating the
  temporary directory is a call of \<open>tempfile\<close>; the directory is an argument.
\<close>

section \<open>Operations\<close>

definition NOT_FOUND :: io_error where "NOT_FOUND = IoError 2"
definition INVALID_INPUT :: io_error where "INVALID_INPUT = IoError 22"

definition io_then ::
  "(io_error + 'a) \<times> wal_file \<Rightarrow> ('a \<Rightarrow> wal_file \<Rightarrow> (io_error + 'b) \<times> wal_file) \<Rightarrow> (io_error + 'b) \<times> wal_file" where
  "io_then r k = (case r of (Inl e, f) \<Rightarrow> (Inl e, f) | (Inr v, f) \<Rightarrow> k v f)"

definition with_file ::
  "(wal_file \<Rightarrow> (io_error + 'a) \<times> wal_file) \<Rightarrow> wal_file option \<Rightarrow> (io_error + 'a) \<times> wal_file option" where
  "with_file action fx =
     (case fx of
        None \<Rightarrow> (Inl NOT_FOUND, None)
      | Some f \<Rightarrow> map_prod id Some (action (f\<lparr>io_pos := 0\<rparr>)))"

text \<open>The configuration of a log in the fixture's directory.\<close>

definition fixture_config ::
  "string \<Rightarrow> u64 \<Rightarrow> raw_sync_policy \<Rightarrow> tail_repair \<Rightarrow> wal_config_dir validated" where
  "fixture_config directory max_record_bytes policy repair =
     wal_config_try_from \<lparr>rw_directory = directory, rw_max_record_bytes = max_record_bytes,
       rw_sync_policy = policy, rw_tail_repair = repair\<rparr>"

lemma fixture_config_valid:
  assumes "fixture_config directory n policy repair = Some (Inr cfg)"
  shows "unat (wcfg_max_record_bytes cfg) = unat n \<and> 1024 \<le> unat n \<and> wcfg_tail_repair cfg = repair \<and>
    wcfg_directory cfg = directory"
proof -
  let ?raw = "\<lparr>rw_directory = directory, rw_max_record_bytes = n, rw_sync_policy = policy, rw_tail_repair = repair\<rparr>"
  have ok: "wal_accepts ?raw"
    using wal_config_cases [of ?raw] assms by (auto simp: fixture_config_def split: if_splits)
  then have "unat n \<le> unat MAX_RECORD_BYTES" "1024 \<le> unat n" by (simp_all add: wal_accepts_def limit_unats)
  with ok wal_config_cases [of ?raw] assms unat_ucast_bound [of n MAX_RECORD_BYTES] show ?thesis
    by (auto simp: fixture_config_def)
qed

definition truncate_to :: "nat \<Rightarrow> wal_file option \<Rightarrow> (io_error + unit) \<times> wal_file option" where
  "truncate_to len = with_file (\<lambda>f. io_then (set_len len f) (\<lambda>_. sync_data))"

definition flip_bits :: "nat \<Rightarrow> u8 \<Rightarrow> wal_file option \<Rightarrow> (io_error + unit) \<times> wal_file option" where
  "flip_bits offset bits fx =
     (if bits = 0 then (Inl INVALID_INPUT, fx)
      else with_file (\<lambda>f.
        io_then (seek_start offset f) (\<lambda>_ f.
        io_then (read_exact 1 f) (\<lambda>byte f.
        io_then (seek_start offset f) (\<lambda>_ f.
        io_then (write_all [hd byte XOR bits] f) (\<lambda>_. sync_data))))) fx)"

text \<open>Opened for appending, every write goes to the end; a missing file is created.\<close>

definition append_raw :: "bytes \<Rightarrow> wal_file option \<Rightarrow> (io_error + unit) \<times> wal_file option" where
  "append_raw bytes fx =
     with_file (\<lambda>f. io_then (write_all bytes (f\<lparr>io_pos := length (io_bytes f)\<rparr>)) (\<lambda>_. sync_data))
       (Some (case fx of None \<Rightarrow> \<lparr>io_bytes = [], io_pos = 0, io_synced = [], io_script = []\<rparr> | Some f \<Rightarrow> f))"

definition wal_len :: "wal_file option \<Rightarrow> (io_error + nat) \<times> wal_file option" where
  "wal_len fx = (case fx of None \<Rightarrow> (Inr 0, None) | Some f \<Rightarrow> map_prod id Some (file_len f))"

section \<open>What they do to a healthy file\<close>

lemma overwrite_one: "i < length bs \<Longrightarrow> overwrite bs i [b] = bs[i := b]"
  by (simp add: overwrite_def upd_conv_take_nth_drop)

lemma flip_bits_exact:
  assumes "healthy f" and "offset < length (io_bytes f)" and "bits \<noteq> 0"
  shows "\<exists>f'. flip_bits offset bits (Some f) = (Inr (), Some f') \<and> healthy f' \<and>
    io_bytes f' = (io_bytes f)[offset := io_bytes f ! offset XOR bits] \<and> io_synced f' = io_bytes f'"
  using assms
  by (simp add: flip_bits_def with_file_def io_then_def seek_start_def read_exact_def write_all_def sync_data_def
      io_call_def io_decide_def healthy_def put_bytes_def overwrite_one hd_drop_conv_nth)

lemma flip_bits_twice:
  assumes "healthy f" and "offset < length (io_bytes f)" and "bits \<noteq> 0"
    and "flip_bits offset bits (Some f) = (r, Some f')"
  shows "\<exists>f''. flip_bits offset bits (Some f') = (Inr (), Some f'') \<and> io_bytes f'' = io_bytes f"
proof -
  from flip_bits_exact [OF assms(1-3)] assms(4)
  have f': "healthy f'" "io_bytes f' = (io_bytes f)[offset := io_bytes f ! offset XOR bits]" by auto
  have "offset < length (io_bytes f')" using assms(2) f'(2) by simp
  from flip_bits_exact [OF f'(1) this assms(3)] show ?thesis
    using assms(2) by (auto simp: f'(2) xor.assoc)
qed

lemma append_raw_exact:
  assumes "healthy f"
  shows "\<exists>f'. append_raw bs (Some f) = (Inr (), Some f') \<and> io_bytes f' = io_bytes f @ bs \<and> io_synced f' = io_bytes f'"
  using assms
  by (simp add: append_raw_def with_file_def io_then_def write_all_def sync_data_def io_call_def io_decide_def
      healthy_def put_bytes_def overwrite_def)

lemma truncate_to_exact:
  assumes "healthy f" and "n \<le> length (io_bytes f)"
  shows "\<exists>f'. truncate_to n (Some f) = (Inr (), Some f') \<and> io_bytes f' = take n (io_bytes f) \<and> io_synced f' = io_bytes f'"
  using assms
  by (simp add: truncate_to_def with_file_def io_then_def set_len_def sync_data_def io_call_def io_decide_def healthy_def)

end
