(* ===== verification/Wal_Crc.thy ===== *)
theory Wal_Crc
  imports Iron_Prelude
begin

unbundle bit_operations_syntax

text \<open>
  CRC-32C itself (Castagnoli, reflected), as its standard describes it: the function the crate \<open>crc32c\<close> computes and
  for which the parameter \<open>crc\<close> of the WAL model stands. It is an instance only, no theorem about the code depends
  on it: it detects every change of one byte, so the hypothesis \<open>detects_byte\<close> holds of the real checksum, and it
  gives the bytes of the golden frame of \<open>format.rs\<close>.
\<close>

definition detects_byte :: "(bytes \<Rightarrow> u32) \<Rightarrow> bool" where
  "detects_byte crc \<longleftrightarrow> (\<forall>bs i b. i < length bs \<longrightarrow> b \<noteq> bs ! i \<longrightarrow> crc (bs[i := b]) \<noteq> crc bs)"

lemma detects_byteD: "detects_byte crc \<Longrightarrow> i < length bs \<Longrightarrow> b \<noteq> bs ! i \<Longrightarrow> crc (bs[i := b]) \<noteq> crc bs"
  by (simp add: detects_byte_def)

section \<open>The checksum\<close>

definition CASTAGNOLI :: u32 where "CASTAGNOLI = 0x82F63B78"

definition crc32c_bit :: "u32 \<Rightarrow> u32" where
  "crc32c_bit c = (if bit c 0 then drop_bit 1 c XOR CASTAGNOLI else drop_bit 1 c)"

definition crc32c_byte :: "u32 \<Rightarrow> u8 \<Rightarrow> u32" where
  "crc32c_byte c b =
     crc32c_bit (crc32c_bit (crc32c_bit (crc32c_bit (crc32c_bit (crc32c_bit (crc32c_bit (crc32c_bit (c XOR ucast b))))))))"

definition crc32c :: "bytes \<Rightarrow> u32" where
  "crc32c bs = NOT (foldl crc32c_byte (- 1) bs)"

section \<open>Every changed byte is detected\<close>

lemma ucast_8_32_inject: "(ucast a :: u32) = ucast b \<longleftrightarrow> a = (b :: u8)"
proof -
  have "unat (ucast x :: u32) = unat x" for x :: u8
  proof -
    have "unat x < 2 ^ LENGTH(8)" by (rule unsigned_less)
    then show ?thesis by (simp add: unsigned_ucast_eq take_bit_nat_eq_self)
  qed
  then show ?thesis by (simp add: word_unat_eq_iff)
qed

lemma xor_left_inject: "(a :: u32) XOR b = a XOR c \<longleftrightarrow> b = c"
  by (metis xor.assoc xor.left_neutral xor_self_eq)

lemma crc32c_bit_inject: "crc32c_bit a = crc32c_bit b \<longleftrightarrow> a = b"
proof
  assume eq: "crc32c_bit a = crc32c_bit b"
  have top: "bit CASTAGNOLI 31" by code_simp
  have "bit (crc32c_bit c) 31 = bit c 0" for c
    using top by (auto simp: crc32c_bit_def bit_simps dest: bit_imp_le_length)
  with eq have low: "bit a 0 = bit b 0" by metis
  then have "drop_bit 1 a = drop_bit 1 b"
    using eq xor_left_inject [of CASTAGNOLI] by (auto simp: crc32c_bit_def xor.commute [of _ CASTAGNOLI] split: if_splits)
  then have high: "bit a (Suc n) = bit b (Suc n)" for n
    by (metis bit_drop_bit_eq comp_apply plus_1_eq_Suc)
  show "a = b"
  proof (rule bit_word_eqI)
    show "bit a n = bit b n" for n using low high by (cases n) simp_all
  qed
qed simp

lemma crc32c_byte_inject:
  "crc32c_byte a x = crc32c_byte b x \<longleftrightarrow> a = b" "crc32c_byte a x = crc32c_byte a y \<longleftrightarrow> x = y"
proof -
  show "crc32c_byte a x = crc32c_byte b x \<longleftrightarrow> a = b"
    using xor_left_inject [of "ucast x" a b] by (simp add: crc32c_byte_def crc32c_bit_inject xor.commute)
  show "crc32c_byte a x = crc32c_byte a y \<longleftrightarrow> x = y"
    by (simp only: crc32c_byte_def crc32c_bit_inject xor_left_inject ucast_8_32_inject)
qed

lemma crc32c_rest_inject: "foldl crc32c_byte a bs = foldl crc32c_byte b bs \<longleftrightarrow> a = b"
  by (induction bs arbitrary: a b) (simp_all add: crc32c_byte_inject)

lemma crc32c_detects: "detects_byte crc32c"
  unfolding detects_byte_def
proof (intro allI impI)
  fix bs :: bytes and i b
  assume i: "i < length bs" "b \<noteq> bs ! i"
  have "bs = take i bs @ bs ! i # drop (Suc i) bs" using i(1) by (rule id_take_nth_drop)
  then have "crc32c bs = NOT (foldl crc32c_byte (- 1) (take i bs @ bs ! i # drop (Suc i) bs))"
    by (simp only: crc32c_def)
  moreover have "crc32c (bs[i := b]) = NOT (foldl crc32c_byte (- 1) (take i bs @ b # drop (Suc i) bs))"
    using i(1) by (simp only: crc32c_def upd_conv_take_nth_drop)
  ultimately show "crc32c (bs[i := b]) \<noteq> crc32c bs"
    using i(2) by (simp add: crc32c_rest_inject crc32c_byte_inject)
qed

lemmas crc32c_run = crc32c_def crc32c_byte_def crc32c_bit_def CASTAGNOLI_def

text \<open>The check value of the standard.\<close>

lemma crc32c_check: "crc32c [49, 50, 51, 52, 53, 54, 55, 56, 57] = 0xE3069283"
  by (simp add: crc32c_run)

end
