(* ===== verification/Wal_Damage.thy ===== *)
theory Wal_Damage
  imports Testkit_Wal Wal_Properties Wal_Crc
begin

unbundle bit_operations_syntax

text \<open>
  The damage tools of the test kit against recovery: flipping bits of any byte of a written log makes the
  scan stop with a corruption error at the frame that was hit.

  The checksum is the parameter \<open>crc\<close>; what is used of it is that it detects a change of one byte
  (\<open>detects_byte\<close>), which \<open>Wal_Crc\<close> proves of CRC-32C.
\<close>

section \<open>Damage to one frame\<close>

definition damage_kind :: "nat \<Rightarrow> corruption_kind" where
  "damage_kind i = (if i < 4 then BadMagic else if i < 40 then HeaderChecksum else PayloadChecksum)"

lemma list_update_changes: "i < length xs \<Longrightarrow> b \<noteq> xs ! i \<Longrightarrow> xs[i := b] \<noteq> xs"
  by (metis nth_list_update_eq)

lemma damaged_header:
  assumes crc: "detects_byte crc" and i: "i < 40" "b \<noteq> header_bytes crc d ! i"
  shows "decode_header crc ((header_bytes crc d)[i := b]) offset prev = Inl (Corruption offset prev (damage_kind i))"
proof -
  let ?h = "header_bytes crc d"
  let ?p = "take 36 ?h"
  have len: "length ?h = 40" "length ?p = 36" by simp_all
  have magic: "take 4 ?h = MAGIC" by (simp add: header_bytes_def Let_def)
  have stored: "drop 36 ?h = be32 (crc ?p)" by (simp add: header_bytes_def Let_def)
  consider "i < 4" | "4 \<le> i" "i < 36" | "36 \<le> i" by linarith
  then show ?thesis
  proof cases
    case 1
    have "take 4 (?h[i := b]) = MAGIC[i := b]" by (simp add: take_update_swap magic)
    moreover have "MAGIC[i := b] \<noteq> MAGIC"
      using 1 i(2) magic by (intro list_update_changes) (auto simp: MAGIC_def dest: nth_take [of i 4 ?h])
    ultimately show ?thesis using 1 by (simp add: decode_header_def damage_kind_def)
  next
    case 2
    have "take 4 (?h[i := b]) = MAGIC" using 2 magic by simp
    moreover have "read_u32 (?h[i := b]) 36 = crc ?p" using 2 stored by (simp add: read_u32_def)
    moreover have "crc (take 36 (?h[i := b])) \<noteq> crc ?p"
      using detects_byteD [OF crc, of i ?p b] 2 i(2) len by (simp add: take_update_swap)
    ultimately show ?thesis using 2 by (auto simp: decode_header_def damage_kind_def)
  next
    case 3
    have "take 4 (?h[i := b]) = MAGIC" "take 36 (?h[i := b]) = ?p" using 3 magic by simp_all
    moreover have "read_u32 (?h[i := b]) 36 \<noteq> crc ?p"
    proof
      let ?s = "(drop 36 ?h)[i - 36 := b]"
      assume "read_u32 (?h[i := b]) 36 = crc ?p"
      moreover have "take 4 (drop 36 (?h[i := b])) = ?s" using 3 i(1) len by (simp add: drop_update_swap)
      ultimately have "be32 (from_be32 ?s) = drop 36 ?h" using stored by (simp add: read_u32_def)
      then have "?s = drop 36 ?h" using len by (simp add: be_from_be)
      moreover have "?s \<noteq> drop 36 ?h" using 3 i len by (intro list_update_changes) auto
      ultimately show False by simp
    qed
    ultimately show ?thesis using 3 i(1) by (simp add: decode_header_def damage_kind_def)
  qed
qed

lemma damaged_frame:
  assumes crc: "detects_byte crc" and f: "healthy f" "io_pos f = length pre" "io_bytes f = pre @ frame[i := b] @ rest"
    and r: "record_ok m r" "encode_frame crc l r = Inr frame" and i: "i < length frame" "b \<noteq> frame ! i"
    and len: "length (io_bytes f) < 2 ^ 63"
  shows "\<exists>g. scan_frame crc m (length (io_bytes f)) (length pre) prev f =
    (Inl (Corruption (length pre) prev (damage_kind i)), g) \<and> io_bytes g = io_bytes f"
proof -
  let ?h = "header_bytes crc (header_of crc l r)"
  note d = record_okD [OF r]
  show ?thesis
  proof (cases "i < 40")
    case True
    have "frame[i := b] = ?h[i := b] @ inp_payload r" using True d(4) by (simp add: list_update_append1)
    then have "read_exact HEADER_LEN f = (Inr (?h[i := b]), f\<lparr>io_pos := length pre + 40\<rparr>)"
      using f by (simp add: io_healthy HEADER_LEN_def)
    moreover have "decode_header crc (?h[i := b]) (length pre) prev = Inl (Corruption (length pre) prev (damage_kind i))"
      by (rule damaged_header [OF crc True]) (use True i(2) d(4) in \<open>simp add: nth_append\<close>)
    moreover have "HEADER_LEN \<le> length (io_bytes f) - length pre" using f(3) d(5) by (simp add: HEADER_LEN_def)
    ultimately show ?thesis by (simp add: scan_frame_def)
  next
    case False
    let ?p = "(inp_payload r)[i - 40 := b]"
    have p: "i - 40 < length (inp_payload r)" "b \<noteq> inp_payload r ! (i - 40)"
      using False i d(4,5) by (auto simp: nth_append)
    have "frame[i := b] = ?h @ ?p" using False d(4) by (simp add: list_update_append)
    then have "io_bytes f = pre @ ?h @ ?p @ rest" using f(3) by simp
    from scan_frame_body [OF f(1,2) this r] len
    have "scan_frame crc m (length (io_bytes f)) (length pre) prev f =
      (and_then (validate_payload_checksum crc ?p (crc (inp_payload r)) (length pre) prev) (\<lambda>_.
       and_then (validate_lsn (lsn_get l) prev (length pre)) (\<lambda>l'.
         Inr (ScanRecord (from_validated l' (inp_record_kind r) (inp_schema_version r) ?p)
           (length pre + length frame)))), f\<lparr>io_pos := length pre + length frame\<rparr>)" by simp
    moreover have "crc ?p \<noteq> crc (inp_payload r)" by (rule detects_byteD [OF crc p])
    ultimately show ?thesis using False by (simp add: validate_payload_checksum_def damage_kind_def)
  qed
qed

section \<open>Damage to a log\<close>

lemma frame_at:
  assumes "log_bytes crc prev rs = Some bs" and "i < length bs"
  shows "\<exists>k pre l frame post. k < length rs \<and> log_bytes crc prev (take k rs) = Some pre \<and>
    next_lsn (log_last prev (take k rs)) = Some l \<and> encode_frame crc l (rs ! k) = Inr frame \<and>
    bs = pre @ frame @ post \<and> length pre \<le> i \<and> i < length pre + length frame"
  using assms
proof (induction rs arbitrary: prev bs i)
  case (Cons r rs)
  from Cons.prems(1) obtain l frame tail where l: "next_lsn prev = Some l" "encode_frame crc l r = Inr frame"
    "log_bytes crc (Some l) rs = Some tail" "bs = frame @ tail"
    by (auto simp: next_lsn_prefix simp del: log_bytes.simps(2))
  show ?case
  proof (cases "i < length frame")
    case True
    with l show ?thesis
      by (intro exI [of _ 0] exI [of _ "[]"] exI [of _ l] exI [of _ frame] exI [of _ tail]) simp
  next
    case False
    with Cons.prems(2) l(4) have "i - length frame < length tail" by simp
    from Cons.IH [OF l(3) this] obtain k pre l' frame' post where k: "k < length rs"
      "log_bytes crc (Some l) (take k rs) = Some pre" "next_lsn (log_last (Some l) (take k rs)) = Some l'"
      "encode_frame crc l' (rs ! k) = Inr frame'" "tail = pre @ frame' @ post"
      "length pre \<le> i - length frame" "i - length frame < length pre + length frame'" by blast
    with l False show ?thesis
      by (intro exI [of _ "Suc k"] exI [of _ "frame @ pre"] exI [of _ l'] exI [of _ frame'] exI [of _ post]) auto
  qed
qed simp

text \<open>C9: Damage is detected: after bits of any one byte of a written log are flipped, a scan under either
  policy stops with a corruption error at the frame that was hit, naming the last record before it, and
  leaves the file alone. No altered record is ever returned, and no record is cut off as a torn tail. \<close>

theorem flipped_byte_detected:
  assumes "detects_byte crc" and "healthy f" and "log_bytes crc None rs = Some (io_bytes f)"
    and "list_all (record_ok m) rs" and "length (io_bytes f) < 2 ^ 63"
    and "offset < length (io_bytes f)" and "bits \<noteq> 0"
    and "flip_bits offset bits (Some f) = (r, Some g)" and "scan crc m policy g = (res, h)"
  shows "\<exists>k pre. k < length rs \<and> log_bytes crc None (take k rs) = Some pre \<and>
    length pre \<le> offset \<and> offset < length pre + 40 + length (inp_payload (rs ! k)) \<and>
    res = Inl (Corruption (length pre) (log_last None (take k rs)) (damage_kind (offset - length pre))) \<and>
    io_bytes h = io_bytes g"
proof -
  from frame_at [OF assms(3,6)] obtain k pre l frame post where k: "k < length rs"
    "log_bytes crc None (take k rs) = Some pre" "next_lsn (log_last None (take k rs)) = Some l"
    "encode_frame crc l (rs ! k) = Inr frame" "io_bytes f = pre @ frame @ post"
    "length pre \<le> offset" "offset < length pre + length frame" by blast
  let ?i = "offset - length pre" and ?b = "io_bytes f ! offset XOR bits"
  from flip_bits_exact [OF assms(2,6,7)] assms(8)
  have g: "healthy g" "io_bytes g = (io_bytes f)[offset := ?b]" by auto
  have "?i < length frame" using k(6,7) by simp
  then have i: "?i < length frame" "io_bytes f ! offset = frame ! ?i" using k(5,6) by (simp_all add: nth_append)
  have b: "?b \<noteq> frame ! ?i" using assms(7) i(2) by (metis xor.left_neutral xor.right_neutral xor_self_eq xor.assoc)
  have bytes: "io_bytes g = pre @ frame[?i := ?b] @ post"
    using g(2) k(5,6) i(1) by (simp add: list_update_append)
  have ok: "list_all (record_ok m) (take k rs)" "record_ok m (rs ! k)"
    using assms(4) k(1) by (auto simp: list_all_iff dest: in_set_takeD)
  have len: "length (io_bytes g) < 2 ^ 63" using g(2) assms(5) by simp
  let ?g = "g\<lparr>io_pos := length pre\<rparr>"
  have at: "length pre < length (io_bytes g)"
    using bytes i(1) length_list_update [of frame ?i ?b] by (metis length_append less_add_same_cancel1 add_pos_nonneg gr_zeroI not_less_zero zero_le)
  have n: "length (take k rs) < 2 ^ 64" using log_bytes_length [OF k(2)] bytes len by simp
  from damaged_frame [OF assms(1) _ _ _ ok(2) k(4) i(1) b, of ?g pre post "log_last None (take k rs)"] g(1) bytes len
  obtain h' where hit: "scan_frame crc m (length (io_bytes ?g)) (length pre) (log_last None (take k rs)) ?g =
      (Inl (Corruption (length pre) (log_last None (take k rs)) (damage_kind ?i)), h')" "io_bytes h' = io_bytes g"
    by (auto simp: healthy_def)
  have "scan crc m policy g = scan_loop crc m policy (length (io_bytes g)) (length pre)
      (log_last None (take k rs)) (log_records None (take k rs)) (length (take k rs)) ?g"
    using scan_loop_frames [of "g\<lparr>io_pos := 0\<rparr>" "[]" pre "frame[?i := ?b] @ post" crc None "take k rs" m 0 policy "[]"]
      g(1) bytes k(2) ok(1) len n
    by (simp add: scan_healthy healthy_def)
  also have "\<dots> = (Inl (Corruption (length pre) (log_last None (take k rs)) (damage_kind ?i)), h')"
    using hit(1) at by (subst scan_loop.simps) simp
  finally show ?thesis
    using assms(9) k(1,2,6,7) hit(2) frame_length [OF k(4)] by (intro exI [of _ k] exI [of _ pre]) simp
qed

section \<open>A damaged log under CRC-32C\<close>

definition second_input :: wal_record_input where
  "second_input = sample_input\<lparr>inp_payload := [1, 2]\<rparr>"

definition two_records :: "wal_record_input list" where
  "two_records = [sample_input, second_input]"

definition two_frames :: bytes where
  "two_frames = header_bytes crc32c (header_of crc32c LSN_FIRST sample_input) @ [97, 98, 99] @
     header_bytes crc32c (header_of crc32c (Lsn 2) second_input) @ [1, 2]"

definition flipped_frames :: wal_file where
  "flipped_frames = (case flip_bits 84 8 (Some (sample_file two_frames)) of (_, Some g) \<Rightarrow> g)"

lemma two_frames_facts:
  "log_bytes crc32c None two_records = Some two_frames" "list_all (record_ok 1024) two_records"
  "length two_frames = 85" "flip_bits 84 8 (Some (sample_file two_frames)) = (Inr (), Some flipped_frames)"
proof -
  have "next_lsn None = Some LSN_FIRST" "next_lsn (Some LSN_FIRST) = Some (Lsn 2)" by code_simp+
  moreover have "encode_frame crc32c LSN_FIRST sample_input =
      Inr (header_bytes crc32c (header_of crc32c LSN_FIRST sample_input) @ [97, 98, 99])"
    "encode_frame crc32c (Lsn 2) second_input = Inr (header_bytes crc32c (header_of crc32c (Lsn 2) second_input) @ [1, 2])"
    by (simp_all add: encode_frame_Inr_iff second_input_def sample_input_def)
  ultimately show "log_bytes crc32c None two_records = Some two_frames"
    by (simp add: two_frames_def two_records_def)
  show len: "length two_frames = 85" by (simp add: two_frames_def)
  show "list_all (record_ok 1024) two_records" by code_simp
  have "84 < length (io_bytes (sample_file two_frames))" using len by (simp add: sample_file_def)
  from flip_bits_exact [OF _ this, of 8] show "flip_bits 84 8 (Some (sample_file two_frames)) = (Inr (), Some flipped_frames)"
    by (auto simp: flipped_frames_def sample_file_def healthy_def)
qed

theorem flipped_byte_detected_witness:
  "\<exists>k. \<exists>pre :: bytes. k < length two_records \<and> length pre \<le> 84 \<and>
     fst (scan crc32c 1024 Truncate flipped_frames) =
       Inl (Corruption (length pre) (log_last None (take k two_records)) (damage_kind (84 - length pre)))"
proof -
  have f: "healthy (sample_file two_frames)" "log_bytes crc32c None two_records = Some (io_bytes (sample_file two_frames))"
    "length (io_bytes (sample_file two_frames)) < 2 ^ 63" "84 < length (io_bytes (sample_file two_frames))" "(8 :: u8) \<noteq> 0"
    using two_frames_facts(1,3) by (simp_all add: sample_file_def healthy_def)
  from flipped_byte_detected [OF crc32c_detects f(1,2) two_frames_facts(2) f(3-5) two_frames_facts(4) surjective_pairing,
      of Truncate]
  show ?thesis by blast
qed

end
