(* ===== verification/Iron_Sha.thy ===== *)
theory Iron_Sha
  imports Iron_Envelope
begin

unbundle bit_operations_syntax

text \<open>
  SHA-256 itself, as FIPS 180-4 describes it: the function the crate \<open>sha2\<close> computes and for which the parameter
  \<open>sha\<close> of the fingerprints stands. It is an instance only, no theorem about the code depends on it: with it the
  model of the fingerprint gives the golden digests of the unit tests of \<open>envelope.rs\<close>. The 32-bit words of the
  standard are integers, and every sum is taken modulo \<open>2 ^ 32\<close>.
\<close>

section \<open>The compression function\<close>

definition rotr :: "nat \<Rightarrow> int \<Rightarrow> int" where
  "rotr n x = x div 2 ^ n + x mod 2 ^ n * 2 ^ (32 - n)"

definition small_sigma0 :: "int \<Rightarrow> int" where
  "small_sigma0 x = rotr 7 x XOR rotr 18 x XOR x div 8"

definition small_sigma1 :: "int \<Rightarrow> int" where
  "small_sigma1 x = rotr 17 x XOR rotr 19 x XOR x div 1024"

definition big_sigma0 :: "int \<Rightarrow> int" where
  "big_sigma0 x = rotr 2 x XOR rotr 13 x XOR rotr 22 x"

definition big_sigma1 :: "int \<Rightarrow> int" where
  "big_sigma1 x = rotr 6 x XOR rotr 11 x XOR rotr 25 x"

definition sha_choose :: "int \<Rightarrow> int \<Rightarrow> int \<Rightarrow> int" where
  "sha_choose x y z = (x AND y) XOR ((4294967295 - x) AND z)"

definition sha_majority :: "int \<Rightarrow> int \<Rightarrow> int \<Rightarrow> int" where
  "sha_majority x y z = (x AND y) XOR (x AND z) XOR (y AND z)"

fun shift_in :: "int \<Rightarrow> int \<Rightarrow> int list \<Rightarrow> int list" where
  "shift_in t1 t2 [a, b, c, d, e, f, g, h] =
     [(t1 + t2) mod 4294967296, a, b, c, (d + t1) mod 4294967296, e, f, g]"
| "shift_in t1 t2 st = st"

fun sha_round :: "int \<Rightarrow> int \<Rightarrow> int list \<Rightarrow> int list" where
  "sha_round k w [a, b, c, d, e, f, g, h] =
     shift_in (h + big_sigma1 e + sha_choose e f g + k + w) (big_sigma0 a + sha_majority a b c) [a, b, c, d, e, f, g, h]"
| "sha_round k w st = st"

text \<open>The message schedule is a window of sixteen words; the first one is used and the next one is appended.\<close>

definition next_word :: "int \<Rightarrow> int list \<Rightarrow> int" where
  "next_word w ws = (small_sigma1 (ws ! 13) + ws ! 8 + small_sigma0 (ws ! 0) + w) mod 4294967296"

fun rounds :: "int list \<Rightarrow> int list \<Rightarrow> int list \<Rightarrow> int list" where
  "rounds (k # ks) (w # ws) st = rounds ks (ws @ [next_word w ws]) (sha_round k w st)"
| "rounds _ _ st = st"

definition SHA_K :: "int list" where
  "SHA_K =
    [
     1116352408, 1899447441, 3049323471, 3921009573, 961987163, 1508970993, 2453635748, 2870763221,
     3624381080, 310598401, 607225278, 1426881987, 1925078388, 2162078206, 2614888103, 3248222580,
     3835390401, 4022224774, 264347078, 604807628, 770255983, 1249150122, 1555081692, 1996064986, 2554220882,
     2821834349, 2952996808, 3210313671, 3336571891, 3584528711, 113926993, 338241895, 666307205, 773529912,
     1294757372, 1396182291, 1695183700, 1986661051, 2177026350, 2456956037, 2730485921, 2820302411,
     3259730800, 3345764771, 3516065817, 3600352804, 4094571909, 275423344, 430227734, 506948616, 659060556,
     883997877, 958139571, 1322822218, 1537002063, 1747873779, 1955562222, 2024104815, 2227730452,
     2361852424, 2428436474, 2756734187, 3204031479, 3329325298]"

definition SHA_START :: "int list" where
  "SHA_START =
    [
     1779033703, 3144134277, 1013904242, 2773480762, 1359893119, 2600822924, 528734635, 1541459225]"

definition compress :: "int list \<Rightarrow> int list \<Rightarrow> int list" where
  "compress st block = map2 (\<lambda>x y. (x + y) mod 4294967296) st (rounds SHA_K block st)"

section \<open>Messages\<close>

fun words_of :: "bytes \<Rightarrow> int list" where
  "words_of (a # b # c # d # rest) = (((uint a * 256 + uint b) * 256 + uint c) * 256 + uint d) # words_of rest"
| "words_of _ = []"

definition sha_pad :: "bytes \<Rightarrow> bytes" where
  "sha_pad bs = bs @ [128] @ replicate ((119 - length bs mod 64) mod 64) 0 @ be_bytes 8 (8 * length bs)"

function sha_blocks :: "int list \<Rightarrow> int list \<Rightarrow> int list" where
  "sha_blocks st ws = (if ws = [] then st else sha_blocks (compress st (take 16 ws)) (drop 16 ws))"
  by pat_completeness auto
termination
  by (relation "measure (\<lambda>(st, ws). length ws)") auto

declare sha_blocks.simps [simp del]

definition sha256 :: "bytes \<Rightarrow> bytes" where
  "sha256 bs = concat (map (\<lambda>x. be_bytes 4 (nat x)) (sha_blocks SHA_START (words_of (sha_pad bs))))"

lemma sha_step: "sha_blocks st (w # ws) = sha_blocks (compress st (take 16 (w # ws))) (drop 16 (w # ws))"
  by (subst sha_blocks.simps) simp

lemma sha_done: "sha_blocks st [] = st"
  by (simp add: sha_blocks.simps)

section \<open>The blocks of two messages\<close>

lemma golden_block1:
  "compress
    [
     1779033703, 3144134277, 1013904242, 2773480762, 1359893119, 2600822924, 528734635, 1541459225]
    [
     1229145680, 65536, 1048576, 0, 0, 0, 65536, 421487, 1684352353, 6, 1852793957, 761397248, 1048576, 0, 0,
     0] =
    [
     3992150983, 3909223679, 669830038, 3044810607, 1637809042, 1315770234, 850633506, 3304209713]"
  by code_simp

lemma golden_block2:
  "compress
    [
     3992150983, 3909223679, 669830038, 3044810607, 1637809042, 1315770234, 850633506, 3304209713]
    [
     131072, 0, 291425, 1718878208, 942448, 1885695588, 778399348, 1919509875, 2, 458752, 262145, 50298880,
     0, 0, 0, 880] =
    [
     2913637558, 2271818045, 1773084218, 3787370365, 554501445, 883345375, 3737983615, 971125456]"
  by code_simp

lemma golden_block3:
  "compress
    [
     3992150983, 3909223679, 669830038, 3044810607, 1637809042, 1315770234, 850633506, 3304209713]
    [
     131072, 1048576, 0, 0, 0, 196608, 291425, 1718878208, 942448, 1885695588, 778399348, 1919509875, 2,
     458752, 262145, 50298880] =
    [
     898021518, 3028809816, 4010139548, 2756714643, 576584926, 326743885, 4234158821, 2871005431]"
  by code_simp

lemma golden_block4:
  "compress
    [
     898021518, 3028809816, 4010139548, 2756714643, 576584926, 326743885, 4234158821, 2871005431]
    [
     0, 0, 0, 0, 0, 0, 0, 0, 0, 0, 0, 0, 0, 0, 0, 1008] =
    [
     1448166554, 296922118, 3663012, 2516721533, 1472176154, 509353066, 2153096706, 1363848775]"
  by code_simp

lemma zeros9: "replicate 9 (0 :: u8) = [0, 0, 0, 0, 0, 0, 0, 0, 0]"
  by (simp add: eval_nat_numeral)

lemma length1: "be_bytes 8 880 = [0, 0, 0, 0, 0, 0, 3, 112]"
  by (simp add: be_bytes_numeral)

lemma digest_bytes1:
  "be_bytes 4 2913637558 = [173, 170, 148, 182]"
  "be_bytes 4 2271818045 = [135, 105, 49, 61]"
  "be_bytes 4 1773084218 = [105, 175, 30, 58]"
  "be_bytes 4 3787370365 = [225, 190, 175, 125]"
  "be_bytes 4 554501445 = [33, 13, 5, 69]"
  "be_bytes 4 883345375 = [52, 166, 199, 223]"
  "be_bytes 4 3737983615 = [222, 205, 26, 127]"
  "be_bytes 4 971125456 = [57, 226, 50, 208]"
  by (simp_all add: be_bytes_numeral)

lemma golden_length1:
  "length ([
     73, 67, 70, 80, 0, 1, 0, 0, 0, 16, 0, 0, 0, 0, 0, 0, 0, 0, 0, 0, 0, 0, 0, 0, 0, 1, 0, 0, 0, 6, 110, 111,
     100, 101, 45, 97, 0, 0, 0, 6, 110, 111, 100, 101, 45, 98, 0, 0, 0, 16, 0, 0, 0, 0, 0, 0, 0, 0, 0, 0, 0,
     0, 0, 0, 0, 2, 0, 0, 0, 0, 0, 0, 0, 4, 114, 97, 102, 116, 0, 0, 0, 14, 97, 112, 112, 101, 110, 100, 46,
     101, 110, 116, 114, 105, 101, 115, 0, 0, 0, 2, 0, 7, 0, 0, 0, 4, 0, 1, 2, 255] :: bytes) = 110"
  by simp

lemma golden_words1:
  "words_of (sha_pad [
     73, 67, 70, 80, 0, 1, 0, 0, 0, 16, 0, 0, 0, 0, 0, 0, 0, 0, 0, 0, 0, 0, 0, 0, 0, 1, 0, 0, 0, 6, 110, 111,
     100, 101, 45, 97, 0, 0, 0, 6, 110, 111, 100, 101, 45, 98, 0, 0, 0, 16, 0, 0, 0, 0, 0, 0, 0, 0, 0, 0, 0,
     0, 0, 0, 0, 2, 0, 0, 0, 0, 0, 0, 0, 4, 114, 97, 102, 116, 0, 0, 0, 14, 97, 112, 112, 101, 110, 100, 46,
     101, 110, 116, 114, 105, 101, 115, 0, 0, 0, 2, 0, 7, 0, 0, 0, 4, 0, 1, 2, 255]) =
    [
     1229145680, 65536, 1048576, 0, 0, 0, 65536, 421487, 1684352353, 6, 1852793957, 761397248, 1048576, 0, 0,
     0] @
    [
     131072, 0, 291425, 1718878208, 942448, 1885695588, 778399348, 1919509875, 2, 458752, 262145, 50298880,
     0, 0, 0, 880]"
  unfolding sha_pad_def golden_length1 by (simp add: zeros9 length1)

lemma sha256_golden1:
  "sha256 [
     73, 67, 70, 80, 0, 1, 0, 0, 0, 16, 0, 0, 0, 0, 0, 0, 0, 0, 0, 0, 0, 0, 0, 0, 0, 1, 0, 0, 0, 6, 110, 111,
     100, 101, 45, 97, 0, 0, 0, 6, 110, 111, 100, 101, 45, 98, 0, 0, 0, 16, 0, 0, 0, 0, 0, 0, 0, 0, 0, 0, 0,
     0, 0, 0, 0, 2, 0, 0, 0, 0, 0, 0, 0, 4, 114, 97, 102, 116, 0, 0, 0, 14, 97, 112, 112, 101, 110, 100, 46,
     101, 110, 116, 114, 105, 101, 115, 0, 0, 0, 2, 0, 7, 0, 0, 0, 4, 0, 1, 2, 255] =
    [
     173, 170, 148, 182, 135, 105, 49, 61, 105, 175, 30, 58, 225, 190, 175, 125, 33, 13, 5, 69, 52, 166, 199,
     223, 222, 205, 26, 127, 57, 226, 50, 208]"
  unfolding sha256_def golden_words1 by (simp add: SHA_START_def sha_step sha_done golden_block1 golden_block2 digest_bytes1)

lemma zeros57: "replicate 57 (0 :: u8) = [0, 0, 0, 0, 0, 0, 0, 0, 0, 0, 0, 0, 0, 0, 0, 0, 0, 0, 0, 0, 0, 0, 0, 0, 0, 0, 0, 0, 0, 0, 0, 0, 0, 0, 0, 0, 0, 0, 0, 0, 0, 0, 0, 0, 0, 0, 0, 0, 0, 0, 0, 0, 0, 0, 0, 0, 0]"
  by (simp add: eval_nat_numeral)

lemma length2: "be_bytes 8 1008 = [0, 0, 0, 0, 0, 0, 3, 240]"
  by (simp add: be_bytes_numeral)

lemma digest_bytes2:
  "be_bytes 4 1448166554 = [86, 81, 68, 154]"
  "be_bytes 4 296922118 = [17, 178, 172, 6]"
  "be_bytes 4 3663012 = [0, 55, 228, 164]"
  "be_bytes 4 2516721533 = [150, 2, 31, 125]"
  "be_bytes 4 1472176154 = [87, 191, 160, 26]"
  "be_bytes 4 509353066 = [30, 92, 28, 106]"
  "be_bytes 4 2153096706 = [128, 85, 166, 2]"
  "be_bytes 4 1363848775 = [81, 74, 174, 71]"
  by (simp_all add: be_bytes_numeral)

lemma golden_length2:
  "length ([
     73, 67, 70, 80, 0, 1, 0, 0, 0, 16, 0, 0, 0, 0, 0, 0, 0, 0, 0, 0, 0, 0, 0, 0, 0, 1, 0, 0, 0, 6, 110, 111,
     100, 101, 45, 97, 0, 0, 0, 6, 110, 111, 100, 101, 45, 98, 0, 0, 0, 16, 0, 0, 0, 0, 0, 0, 0, 0, 0, 0, 0,
     0, 0, 0, 0, 2, 0, 0, 0, 16, 0, 0, 0, 0, 0, 0, 0, 0, 0, 0, 0, 0, 0, 0, 0, 3, 0, 0, 0, 4, 114, 97, 102,
     116, 0, 0, 0, 14, 97, 112, 112, 101, 110, 100, 46, 101, 110, 116, 114, 105, 101, 115, 0, 0, 0, 2, 0, 7,
     0, 0, 0, 4, 0, 1, 2, 255] :: bytes) = 126"
  by simp

lemma golden_words2:
  "words_of (sha_pad [
     73, 67, 70, 80, 0, 1, 0, 0, 0, 16, 0, 0, 0, 0, 0, 0, 0, 0, 0, 0, 0, 0, 0, 0, 0, 1, 0, 0, 0, 6, 110, 111,
     100, 101, 45, 97, 0, 0, 0, 6, 110, 111, 100, 101, 45, 98, 0, 0, 0, 16, 0, 0, 0, 0, 0, 0, 0, 0, 0, 0, 0,
     0, 0, 0, 0, 2, 0, 0, 0, 16, 0, 0, 0, 0, 0, 0, 0, 0, 0, 0, 0, 0, 0, 0, 0, 3, 0, 0, 0, 4, 114, 97, 102,
     116, 0, 0, 0, 14, 97, 112, 112, 101, 110, 100, 46, 101, 110, 116, 114, 105, 101, 115, 0, 0, 0, 2, 0, 7,
     0, 0, 0, 4, 0, 1, 2, 255]) =
    [
     1229145680, 65536, 1048576, 0, 0, 0, 65536, 421487, 1684352353, 6, 1852793957, 761397248, 1048576, 0, 0,
     0] @
    [
     131072, 1048576, 0, 0, 0, 196608, 291425, 1718878208, 942448, 1885695588, 778399348, 1919509875, 2,
     458752, 262145, 50298880] @
    [
     0, 0, 0, 0, 0, 0, 0, 0, 0, 0, 0, 0, 0, 0, 0, 1008]"
  unfolding sha_pad_def golden_length2 by (simp add: zeros57 length2)

lemma sha256_golden2:
  "sha256 [
     73, 67, 70, 80, 0, 1, 0, 0, 0, 16, 0, 0, 0, 0, 0, 0, 0, 0, 0, 0, 0, 0, 0, 0, 0, 1, 0, 0, 0, 6, 110, 111,
     100, 101, 45, 97, 0, 0, 0, 6, 110, 111, 100, 101, 45, 98, 0, 0, 0, 16, 0, 0, 0, 0, 0, 0, 0, 0, 0, 0, 0,
     0, 0, 0, 0, 2, 0, 0, 0, 16, 0, 0, 0, 0, 0, 0, 0, 0, 0, 0, 0, 0, 0, 0, 0, 3, 0, 0, 0, 4, 114, 97, 102,
     116, 0, 0, 0, 14, 97, 112, 112, 101, 110, 100, 46, 101, 110, 116, 114, 105, 101, 115, 0, 0, 0, 2, 0, 7,
     0, 0, 0, 4, 0, 1, 2, 255] =
    [
     86, 81, 68, 154, 17, 178, 172, 6, 0, 55, 228, 164, 150, 2, 31, 125, 87, 191, 160, 26, 30, 92, 28, 106,
     128, 85, 166, 2, 81, 74, 174, 71]"
  unfolding sha256_def golden_words2 by (simp add: SHA_START_def sha_step sha_done golden_block1 golden_block3 golden_block4 digest_bytes2)

end
