(* ===== verification/Test_Support.thy ===== *)
theory Test_Support
  imports Iron_Prelude "HOL-Library.Monad_Syntax"
begin

text \<open>
  What the translations of the crates' own tests share. A test is an optional unit: an assertion that fails or an
  \<open>expect\<close> on an error is \<open>None\<close>, so a test that equals \<open>Some ()\<close> has run to its end with every assertion true.
\<close>

definition expect :: "'e + 'a \<Rightarrow> 'a option" where
  "expect r = (case r of Inl _ \<Rightarrow> None | Inr x \<Rightarrow> Some x)"

text \<open>\<open>expect\<close> on the result of a call that changes a state; and a call whose result is not unwrapped.\<close>

definition call :: "('e + 'a) \<times> 's \<Rightarrow> ('a \<times> 's) option" where
  "call r = (case fst r of Inl _ \<Rightarrow> None | Inr x \<Rightarrow> Some (x, snd r))"

definition assert_that :: "bool \<Rightarrow> unit option" where
  "assert_that b = (if b then Some () else None)"

lemma test_simps [simp]:
  "expect (Inr x) = Some x" "expect (Inl e) = None" "call (Inr x, s) = Some (x, s)" "call (Inl e, s) = None"
  "assert_that True = Some ()" "assert_that False = None"
  by (simp_all add: expect_def call_def assert_that_def)

end
