(* ===== verification/Test_Core.thy ===== *)
theory Test_Core
  imports Test_Support Iron_Text Dedup_Refinement Iron_Sha
begin

text \<open>
  The unit tests of \<open>iron-core\<close> (\<open>id.rs\<close>, \<open>limits.rs\<close>, \<open>error.rs\<close>, \<open>envelope.rs\<close>, \<open>dedup.rs\<close>), run on the model.
  The UUID parser and printer of the \<open>uuid\<close> crate and SHA-256 are parameters, as everywhere; the test of the golden
  digests, which is also a statement about SHA-256, passes with the SHA-256 of \<open>Iron_Sha\<close>.
\<close>

section \<open>Identifiers\<close>

definition UUID_TEXT :: string where
  "UUID_TEXT = ''00000000-0000-0000-0000-000000000001''"

definition counter_next_id :: "128 word \<Rightarrow> bytes \<times> 128 word" where
  "counter_next_id c = (be_bytes 16 (unat (c + 1)), c + 1)"

definition check_id ::
  "(string \<Rightarrow> bytes option) \<Rightarrow> (bytes \<Rightarrow> string) \<Rightarrow> string \<Rightarrow> (bytes \<Rightarrow> 'i) \<Rightarrow> ('i \<Rightarrow> bytes) \<Rightarrow> unit option" where
  "check_id uuid_parse uuid_text kind mk to_bytes = do {
     assert_that (isl (opaque_from_bytes kind mk (replicate 16 0)));
     i \<leftarrow> expect (opaque_parse kind mk uuid_parse UUID_TEXT);
     assert_that (opaque_display uuid_text (to_bytes i) = UUID_TEXT);
     assert_that (to_bytes i ! 15 = 1)
   }"

definition opaque_ids_reject_zero_and_format_canonically ::
  "(string \<Rightarrow> bytes option) \<Rightarrow> (bytes \<Rightarrow> string) \<Rightarrow> unit option" where
  "opaque_ids_reject_zero_and_format_canonically p d = do {
     check_id p d ''cluster ID'' ClusterId cluster_bytes;
     check_id p d ''message ID'' MessageId message_bytes;
     check_id p d ''correlation ID'' CorrelationId correlation_bytes;
     check_id p d ''client request ID'' ClientRequestId client_request_bytes;
     check_id p d ''timer ID'' TimerId timer_bytes
   }"

definition generator_is_explicit_and_zero_is_checked :: "(bytes \<Rightarrow> string) \<Rightarrow> unit option" where
  "generator_is_explicit_and_zero_is_checked uuid_text = do {
     (i, counter) \<leftarrow> call (message_id_generate counter_next_id 0);
     assert_that (opaque_display uuid_text (message_bytes i) = UUID_TEXT);
     assert_that (isl (fst (opaque_generate ''timer ID'' TimerId (\<lambda>u. (replicate 16 0, u)) ())))
   }"

definition node_id_boundaries_and_alphabet_are_enforced :: "unit option" where
  "node_id_boundaries_and_alphabet_are_enforced = do {
     assert_that (is_ok (node_id_parse ''a''));
     assert_that (is_ok (node_id_parse (replicate 64 (CHR ''a''))));
     assert_that (list_all (\<lambda>rejected. isl (node_id_parse rejected))
       ['''', ''-a'', ''a-'', ''A'', ''a_b'', ''a.b'', [CHR 0xC3, CHR 0xA9]]);
     assert_that (isl (node_id_parse (replicate 65 (CHR ''a''))))
   }"

definition protocol_and_message_names_have_distinct_validated_types :: "unit option" where
  "protocol_and_message_names_have_distinct_validated_types = do {
     assert_that (is_ok (protocol_name_parse ''raft.v1_leader-election''));
     assert_that (is_ok (message_type_parse ''append.entries_1''));
     assert_that (list_all (\<lambda>rejected. isl (protocol_name_parse rejected) \<and> isl (message_type_parse rejected))
       ['''', ''Upper'', ''has/slash'', ''has space'', [CHR 0xC3, CHR 0xA9]]);
     assert_that (isl (protocol_name_parse (replicate 65 (CHR ''a''))))
   }"

definition numeric_ids_reject_zero_and_lsn_successor_is_checked :: "unit option" where
  "numeric_ids_reject_zero_and_lsn_successor_is_checked = do {
     assert_that (isl (lsn_new 0));
     assert_that (lsn_get LSN_FIRST = 1);
     assert_that (map_option lsn_get (checked_successor LSN_FIRST) = Some 2);
     l \<leftarrow> expect (lsn_new (- 1));
     assert_that (checked_successor l = None);
     assert_that (isl (schema_version_new 0));
     assert_that (envelope_version_get ENVELOPE_V1 = 1)
   }"

lemma check_id_passes:
  assumes "p UUID_TEXT = Some (replicate 15 0 @ [1])" "d (replicate 15 0 @ [1]) = UUID_TEXT" "\<And>bs. to_bytes (mk bs) = bs"
  shows "check_id p d kind mk to_bytes = Some ()"
  using assms by (simp add: check_id_def opaque_parse_def opaque_from_bytes_def opaque_display_def
      OPAQUE_ID_BYTES_def eval_nat_numeral)

lemma be_bytes_one: "be_bytes (Suc n) 1 = replicate n 0 @ [1]"
proof (induction n)
  case (Suc n)
  have "(1::nat) < 256 ^ Suc n" by (rule one_less_power) simp_all
  then show ?case using Suc by simp
qed simp

lemma opaque_id_tests_pass:
  assumes "p UUID_TEXT = Some (replicate 15 0 @ [1])" "d (replicate 15 0 @ [1]) = UUID_TEXT"
  shows "opaque_ids_reject_zero_and_format_canonically p d = Some ()"
    "generator_is_explicit_and_zero_is_checked d = Some ()"
proof -
  show "opaque_ids_reject_zero_and_format_canonically p d = Some ()"
    using assms by (simp add: opaque_ids_reject_zero_and_format_canonically_def check_id_passes)
  have "replicate 15 0 @ [1] \<noteq> replicate 16 (0 :: u8)"
    by (simp add: eval_nat_numeral)
  moreover have "counter_next_id 0 = (replicate 15 0 @ [1], 1)"
    using be_bytes_one [of 15] by (simp add: counter_next_id_def del: be_bytes.simps)
  ultimately show "generator_is_explicit_and_zero_is_checked d = Some ()"
    using assms by (simp add: generator_is_explicit_and_zero_is_checked_def message_id_generate_def
        opaque_generate_def opaque_display_def OPAQUE_ID_BYTES_def)
qed

lemma id_tests_pass:
  "node_id_boundaries_and_alphabet_are_enforced = Some ()"
  "protocol_and_message_names_have_distinct_validated_types = Some ()"
  by code_simp+

lemma numeric_id_tests_pass: "numeric_ids_reject_zero_and_lsn_successor_is_checked = Some ()"
  by (simp add: numeric_ids_reject_zero_and_lsn_successor_is_checked_def lsn_new_def schema_version_new_def
      nonzero_new_def LSN_FIRST_def checked_successor_def checked_add_def ENVELOPE_V1_def
      unsigned_minus_1_eq_mask mask_eq_exp_minus_1)

section \<open>Limits and validation errors\<close>

definition record_size_boundaries_are_exact :: "unit option" where
  "record_size_boundaries_are_exact = do {
     assert_that (is_ok (max_record_bytes_new (ucast MIN_RECORD_BYTES)));
     assert_that (is_ok (max_record_bytes_new (ucast MAX_RECORD_BYTES)));
     assert_that (isl (max_record_bytes_new (ucast (MIN_RECORD_BYTES - 1))));
     assert_that (isl (max_record_bytes_new (ucast MAX_RECORD_BYTES + 1)))
   }"

definition timeout_boundaries_are_exact_and_zero_is_never_infinite :: "unit option" where
  "timeout_boundaries_are_exact_and_zero_is_never_infinite = do {
     assert_that (is_ok (timeout_millis_new 1));
     assert_that (is_ok (timeout_millis_new (ucast MAX_TIMEOUT_MILLIS)));
     assert_that (isl (timeout_millis_new 0));
     assert_that (isl (timeout_millis_new (ucast MAX_TIMEOUT_MILLIS + 1)))
   }"

definition every_count_and_byte_limit_rejects_invalid_boundaries :: "unit option" where
  "every_count_and_byte_limit_rejects_invalid_boundaries = do {
     assert_that (isl (max_message_bytes_new 0));
     assert_that (isl (max_dedup_entries_new 0));
     assert_that (isl (max_unsynced_records_new 0));
     assert_that (isl (max_outcome_bytes_new 0));
     assert_that (is_ok (max_total_outcome_bytes_new (ucast MIN_TOTAL_OUTCOME_BYTES)));
     assert_that (isl (max_total_outcome_bytes_new (ucast (MIN_TOTAL_OUTCOME_BYTES - 1))));
     assert_that (isl (max_total_outcome_bytes_new (ucast MAX_TOTAL_OUTCOME_BYTES + 1)))
   }"

definition validation_errors_are_nonempty_and_sorted :: "unit option" where
  "validation_errors_are_nonempty_and_sorted =
     (let errors = validation_errors_new (ValidationError ''z'' ''b'' ''last'')
            [ValidationError ''a'' ''z'' ''second'', ValidationError ''a'' ''a'' ''first'']
      in do {
        assert_that (map (\<lambda>e. (ve_field_path e, ve_code e)) errors = [(''a'', ''a''), (''a'', ''z''), (''z'', ''b'')]);
        assert_that (errors \<noteq> [])
      })"

lemma limit_tests_pass:
  "record_size_boundaries_are_exact = Some ()"
  "timeout_boundaries_are_exact_and_zero_is_never_infinite = Some ()"
  "every_count_and_byte_limit_rejects_invalid_boundaries = Some ()"
  by (simp_all add: record_size_boundaries_are_exact_def timeout_boundaries_are_exact_and_zero_is_never_infinite_def
      every_count_and_byte_limit_rejects_invalid_boundaries_def bounded_u32_new_def limit_defs Let_def
      max_record_bytes_new_def timeout_millis_new_def max_message_bytes_new_def max_dedup_entries_new_def
      max_outcome_bytes_new_def max_total_outcome_bytes_new_def max_unsynced_records_new_def)

lemma error_tests_pass: "validation_errors_are_nonempty_and_sorted = Some ()"
  by code_simp

section \<open>Envelopes\<close>

definition last_byte :: "nat \<Rightarrow> u8 \<Rightarrow> bytes" where
  "last_byte n b = replicate (n - 1) 0 @ [b]"

definition fixture :: "u32 \<Rightarrow> envelope option" where
  "fixture attempt = do {
     cluster \<leftarrow> expect (cluster_id_from_bytes (last_byte 16 1));
     node_a \<leftarrow> expect (node_id_parse ''node-a'');
     node_b \<leftarrow> expect (node_id_parse ''node-b'');
     message \<leftarrow> expect (message_id_from_bytes (last_byte 16 2));
     protocol \<leftarrow> expect (protocol_name_parse ''raft'');
     mtype \<leftarrow> expect (message_type_parse ''append.entries'');
     schema \<leftarrow> expect (schema_version_new 7);
     maximum \<leftarrow> expect (max_message_bytes_new 4);
     expect (new_v1 (fields_new cluster node_a node_b message None protocol mtype schema attempt [0, 1, 2, 255]) maximum)
   }"

definition unknown_versions_fail_closed :: "unit option" where
  "unknown_versions_fail_closed = do {
     envelope \<leftarrow> fixture 0;
     maximum \<leftarrow> expect (max_message_bytes_new 4);
     assert_that (try_from_version 2
        (fields_new (envelope_cluster_id envelope) (envelope_source envelope) (envelope_destination envelope)
           (envelope_message_id envelope) (envelope_correlation_id envelope) (envelope_protocol envelope)
           (envelope_message_type envelope) (envelope_schema_version envelope) (envelope_delivery_attempt envelope)
           (envelope_payload envelope)) maximum
      = Inl (UnsupportedEnvelopeVersion 2))
   }"

definition payload_limit_is_checked_at_the_constructor :: "unit option" where
  "payload_limit_is_checked_at_the_constructor = do {
     envelope \<leftarrow> fixture 0;
     maximum \<leftarrow> expect (max_message_bytes_new 4);
     assert_that (new_v1
        (fields_new (envelope_cluster_id envelope) (envelope_source envelope) (envelope_destination envelope)
           (envelope_message_id envelope) None (envelope_protocol envelope)
           (envelope_message_type envelope) (envelope_schema_version envelope) 0 (replicate 5 0)) maximum
      = Inl (PayloadTooLarge 5 4))
   }"

definition retry_changes_only_attempt_and_preserves_fingerprint :: "(bytes \<Rightarrow> bytes) \<Rightarrow> unit option" where
  "retry_changes_only_attempt_and_preserves_fingerprint sha = do {
     original \<leftarrow> fixture 0;
     retried \<leftarrow> expect (retry original);
     assert_that (envelope_delivery_attempt retried = 1);
     assert_that (envelope_message_id original = envelope_message_id retried);
     assert_that (envelope_payload original = envelope_payload retried);
     assert_that (semantic_fingerprint sha original = semantic_fingerprint sha retried)
   }"

definition retry_overflow_is_reported_without_wrapping :: "unit option" where
  "retry_overflow_is_reported_without_wrapping = do {
     envelope \<leftarrow> fixture (- 1);
     assert_that (retry envelope = Inl DeliveryAttemptOverflow)
   }"

definition semantic_fingerprint_has_a_golden_vector :: "(bytes \<Rightarrow> bytes) \<Rightarrow> unit option" where
  "semantic_fingerprint_has_a_golden_vector sha = do {
     envelope \<leftarrow> fixture 0;
     digest \<leftarrow> semantic_fingerprint sha envelope;
     assert_that (fingerprint_display digest = ''adaa94b68769313d69af1e3ae1beaf7d210d054534a6c7dfdecd1a7f39e232d0'');
     parsed \<leftarrow> expect (fingerprint_parse (fingerprint_display digest));
     assert_that (parsed = digest);
     base \<leftarrow> fixture 99;
     correlation \<leftarrow> expect (correlation_id_from_bytes (last_byte 16 3));
     maximum \<leftarrow> expect (max_message_bytes_new 4);
     correlated \<leftarrow> expect (new_v1
        (fields_new (envelope_cluster_id base) (envelope_source base) (envelope_destination base)
           (envelope_message_id base) (Some correlation) (envelope_protocol base) (envelope_message_type base)
           (envelope_schema_version base) 99 (envelope_payload base)) maximum);
     digest \<leftarrow> semantic_fingerprint sha correlated;
     assert_that (fingerprint_display digest = ''5651449a11b2ac060037e4a496021f7d57bfa01a1e5c1c6a8055a602514aae47'')
   }"

definition response_uses_fresh_generated_id_and_request_correlation :: "unit option" where
  "response_uses_fresh_generated_id_and_request_correlation = do {
     request \<leftarrow> fixture 3;
     mtype \<leftarrow> expect (message_type_parse ''append.response'');
     schema \<leftarrow> expect (schema_version_new 1);
     maximum \<leftarrow> expect (max_message_bytes_new 4);
     (response, _) \<leftarrow> call (response_v1 request (\<lambda>generated. (generated, generated)) (last_byte 16 9) mtype schema [1] maximum);
     assert_that (message_bytes (envelope_message_id response) = last_byte 16 9);
     assert_that (map_option correlation_bytes (envelope_correlation_id response)
       = Some (message_bytes (envelope_message_id request)));
     assert_that (envelope_source response = envelope_destination request);
     assert_that (envelope_destination response = envelope_source request);
     assert_that (envelope_delivery_attempt response = 0)
   }"

text \<open>The fixture is built once; the tests then only look at the operation they are about.\<close>

definition fixture_fields :: "u32 \<Rightarrow> envelope_v1" where
  "fixture_fields attempt =
     \<lparr>env_cluster_id = ClusterId (last_byte 16 1), env_source = NodeId ''node-a'', env_destination = NodeId ''node-b'',
      env_message_id = MessageId (last_byte 16 2), env_correlation_id = None, env_protocol = ProtocolName ''raft'',
      env_message_type = MessageType ''append.entries'', env_schema_version = SchemaVersion 7,
      env_delivery_attempt = attempt, env_payload = [0, 1, 2, 255]\<rparr>"

lemma small_limit [simp]: "expect (max_message_bytes_new 4) = Some 4"
  by (simp add: max_message_bytes_new_def bounded_u32_new_def limit_defs Let_def)

lemma last_byte_nonzero: "b \<noteq> 0 \<Longrightarrow> last_byte 16 b \<noteq> replicate OPAQUE_ID_BYTES 0"
  by (simp add: last_byte_def OPAQUE_ID_BYTES_def eval_nat_numeral)

lemma fixture_names:
  "expect (node_id_parse ''node-a'') = Some (NodeId ''node-a'')" "expect (node_id_parse ''node-b'') = Some (NodeId ''node-b'')"
  "expect (protocol_name_parse ''raft'') = Some (ProtocolName ''raft'')"
  "expect (message_type_parse ''append.entries'') = Some (MessageType ''append.entries'')"
  "expect (message_type_parse ''append.response'') = Some (MessageType ''append.response'')"
  by code_simp+

lemma fixture_value: "fixture attempt = Some (V1 (fixture_fields attempt))"
  by (simp add: fixture_def fixture_names fixture_fields_def id_from_bytes_defs opaque_from_bytes_def last_byte_nonzero
      schema_version_new_def nonzero_new_def new_v1_def from_fields_def fields_new_def len64_def and_then_def Let_def)

lemma envelope_tests_pass:
  "unknown_versions_fail_closed = Some ()"
  "payload_limit_is_checked_at_the_constructor = Some ()"
  "retry_changes_only_attempt_and_preserves_fingerprint sha = Some ()"
  "retry_overflow_is_reported_without_wrapping = Some ()"
  "response_uses_fresh_generated_id_and_request_correlation = Some ()"
  by (simp_all add: unknown_versions_fail_closed_def payload_limit_is_checked_at_the_constructor_def
      retry_changes_only_attempt_and_preserves_fingerprint_def retry_overflow_is_reported_without_wrapping_def
      response_uses_fresh_generated_id_and_request_correlation_def fixture_value fixture_names fixture_fields_def
      try_from_version_def ENVELOPE_V1_def new_v1_def from_fields_def fields_defs len64_def and_then_def Let_def
      retry_def ok_or_def checked_add_def semantic_fingerprint_def fingerprint_input_def semantic_fields_def
      response_v1_def message_id_generate_def opaque_generate_def last_byte_nonzero correlation_of_message_def
      schema_version_new_def nonzero_new_def unsigned_minus_1_eq_mask mask_eq_exp_minus_1)

lemma last_byte_value: "last_byte 16 b = [0, 0, 0, 0, 0, 0, 0, 0, 0, 0, 0, 0, 0, 0, 0, b]"
  by (simp add: last_byte_def eval_nat_numeral)

lemma golden_input1:
  "fingerprint_input (fixture_fields a) =
    Some [
     73, 67, 70, 80, 0, 1, 0, 0, 0, 16, 0, 0, 0, 0, 0, 0, 0, 0, 0, 0, 0, 0, 0, 0, 0, 1, 0, 0, 0, 6, 110, 111,
     100, 101, 45, 97, 0, 0, 0, 6, 110, 111, 100, 101, 45, 98, 0, 0, 0, 16, 0, 0, 0, 0, 0, 0, 0, 0, 0, 0, 0,
     0, 0, 0, 0, 2, 0, 0, 0, 0, 0, 0, 0, 4, 114, 97, 102, 116, 0, 0, 0, 14, 97, 112, 112, 101, 110, 100, 46,
     101, 110, 116, 114, 105, 101, 115, 0, 0, 0, 2, 0, 7, 0, 0, 0, 4, 0, 1, 2, 255]"
  by (simp add: fingerprint_input_def semantic_fields_def fixture_fields_def FINGERPRINT_MAGIC_def
      FINGERPRINT_FORMAT_VERSION_def update_field_def str_bytes_def last_byte_value be16_def be32_def be_bytes_numeral)

lemma golden_input2:
  "fingerprint_input ((fixture_fields a)\<lparr>env_correlation_id := Some (CorrelationId (last_byte 16 3))\<rparr>) =
    Some [
     73, 67, 70, 80, 0, 1, 0, 0, 0, 16, 0, 0, 0, 0, 0, 0, 0, 0, 0, 0, 0, 0, 0, 0, 0, 1, 0, 0, 0, 6, 110, 111,
     100, 101, 45, 97, 0, 0, 0, 6, 110, 111, 100, 101, 45, 98, 0, 0, 0, 16, 0, 0, 0, 0, 0, 0, 0, 0, 0, 0, 0,
     0, 0, 0, 0, 2, 0, 0, 0, 16, 0, 0, 0, 0, 0, 0, 0, 0, 0, 0, 0, 0, 0, 0, 0, 3, 0, 0, 0, 4, 114, 97, 102,
     116, 0, 0, 0, 14, 97, 112, 112, 101, 110, 100, 46, 101, 110, 116, 114, 105, 101, 115, 0, 0, 0, 2, 0, 7,
     0, 0, 0, 4, 0, 1, 2, 255]"
  by (simp add: fingerprint_input_def semantic_fields_def fixture_fields_def FINGERPRINT_MAGIC_def
      FINGERPRINT_FORMAT_VERSION_def update_field_def str_bytes_def last_byte_value be16_def be32_def be_bytes_numeral)

lemma golden_texts:
  "fingerprint_display (SemanticFingerprint [
     173, 170, 148, 182, 135, 105, 49, 61, 105, 175, 30, 58, 225, 190, 175, 125, 33, 13, 5, 69, 52, 166, 199,
     223, 222, 205, 26, 127, 57, 226, 50, 208]) =
    ''adaa94b68769313d69af1e3ae1beaf7d210d054534a6c7dfdecd1a7f39e232d0''"
  "fingerprint_display (SemanticFingerprint [
     86, 81, 68, 154, 17, 178, 172, 6, 0, 55, 228, 164, 150, 2, 31, 125, 87, 191, 160, 26, 30, 92, 28, 106,
     128, 85, 166, 2, 81, 74, 174, 71]) =
    ''5651449a11b2ac060037e4a496021f7d57bfa01a1e5c1c6a8055a602514aae47''"
  "fingerprint_parse ''adaa94b68769313d69af1e3ae1beaf7d210d054534a6c7dfdecd1a7f39e232d0'' = Inr (SemanticFingerprint [
     173, 170, 148, 182, 135, 105, 49, 61, 105, 175, 30, 58, 225, 190, 175, 125, 33, 13, 5, 69, 52, 166, 199,
     223, 222, 205, 26, 127, 57, 226, 50, 208])"
  by code_simp+

lemma golden_vector_test_passes: "semantic_fingerprint_has_a_golden_vector sha256 = Some ()"
proof -
  have "semantic_fingerprint sha256 (V1 (fixture_fields 0)) = Some (SemanticFingerprint [
     173, 170, 148, 182, 135, 105, 49, 61, 105, 175, 30, 58, 225, 190, 175, 125, 33, 13, 5, 69, 52, 166, 199,
     223, 222, 205, 26, 127, 57, 226, 50, 208])"
    by (simp only: semantic_fingerprint_def envelope.sel golden_input1 option.map sha256_golden1)
  moreover have "semantic_fingerprint sha256
      (V1 ((fixture_fields 99)\<lparr>env_correlation_id := Some (CorrelationId (last_byte 16 3))\<rparr>)) = Some (SemanticFingerprint [
     86, 81, 68, 154, 17, 178, 172, 6, 0, 55, 228, 164, 150, 2, 31, 125, 87, 191, 160, 26, 30, 92, 28, 106,
     128, 85, 166, 2, 81, 74, 174, 71])"
    by (simp only: semantic_fingerprint_def envelope.sel golden_input2 option.map sha256_golden2)
  ultimately show ?thesis
    by (simp add: semantic_fingerprint_has_a_golden_vector_def fixture_value golden_texts id_from_bytes_defs
        opaque_from_bytes_def last_byte_nonzero new_v1_def from_fields_def fields_new_def len64_def and_then_def Let_def
        fixture_fields_def)
qed

end
