(* ===== verification/Test_Dedup.thy ===== *)
theory Test_Dedup
  imports Test_Core
begin

text \<open>
  The unit tests of \<open>dedup.rs\<close>, run on the model. The keys, fingerprints and configurations are built by the
  constructors the tests call.
\<close>

definition test_config :: "u64 \<Rightarrow> u64 \<Rightarrow> u64 \<Rightarrow> dedup_config option" where
  "test_config max_entries max_outcome max_total =
     Option.bind (dedup_config_try_from \<lparr>rd_max_entries = max_entries, rd_max_outcome_bytes = max_outcome,
       rd_max_total_outcome_bytes = max_total\<rparr>) expect"

definition test_key :: "u8 \<Rightarrow> dedup_key option" where
  "test_key ordinal = do {
     cluster \<leftarrow> expect (cluster_id_from_bytes (last_byte 16 1));
     source \<leftarrow> expect (node_id_parse ''source'');
     message \<leftarrow> expect (message_id_from_bytes (last_byte 16 ordinal));
     Some (DedupKey cluster source message)
   }"

definition test_fingerprint :: "u8 \<Rightarrow> semantic_fingerprint" where
  "test_fingerprint ordinal = SemanticFingerprint (last_byte 32 ordinal)"

definition reservation_replay_abort_and_conflict_are_explicit :: "unit option" where
  "reservation_replay_abort_and_conflict_are_explicit = do {
     cfg \<leftarrow> test_config 4 16 65536;
     k \<leftarrow> test_key 1;
     (r, t) \<leftarrow> call (dedup_begin k (test_fingerprint 1) (dedup_new cfg));
     assert_that (r = BeginNew);
     (r, t) \<leftarrow> call (dedup_begin k (test_fingerprint 1) t);
     assert_that (r = BeginInFlight);
     (r, t) \<leftarrow> call (dedup_begin k (test_fingerprint 2) t);
     assert_that (r = BeginConflict);
     (a, t) \<leftarrow> Some (dedup_abort k (test_fingerprint 2) t);
     assert_that (a = AbortConflict);
     (a, t) \<leftarrow> Some (dedup_abort k (test_fingerprint 1) t);
     assert_that (a = AbortAborted);
     (r, t) \<leftarrow> call (dedup_begin k (test_fingerprint 1) t);
     assert_that (r = BeginNew);
     (c, t) \<leftarrow> call (dedup_complete k (test_fingerprint 1) (str_bytes ''outcome'') t);
     assert_that (c = CompleteCompleted);
     (r, t) \<leftarrow> call (dedup_begin k (test_fingerprint 1) t);
     assert_that (r = BeginReplay (str_bytes ''outcome''));
     assert_that (fst (dedup_abort k (test_fingerprint 1) t) = AbortAlreadyCompleted)
   }"

definition entry_eviction_uses_insertion_fifo_without_access_refresh :: "unit option" where
  "entry_eviction_uses_insertion_fifo_without_access_refresh = do {
     cfg \<leftarrow> test_config 2 16 65536;
     first \<leftarrow> test_key 1;
     second \<leftarrow> test_key 2;
     third \<leftarrow> test_key 3;
     (r, t) \<leftarrow> call (dedup_begin first (test_fingerprint 1) (dedup_new cfg));
     assert_that (r = BeginNew);
     (c, t) \<leftarrow> call (dedup_complete first (test_fingerprint 1) [message_bytes (key_message_id first) ! 15] t);
     assert_that (c = CompleteCompleted);
     (r, t) \<leftarrow> call (dedup_begin second (test_fingerprint 2) t);
     assert_that (r = BeginNew);
     (c, t) \<leftarrow> call (dedup_complete second (test_fingerprint 2) [message_bytes (key_message_id second) ! 15] t);
     assert_that (c = CompleteCompleted);
     (r, t) \<leftarrow> call (dedup_begin first (test_fingerprint 1) t);
     assert_that (case r of BeginReplay _ \<Rightarrow> True | _ \<Rightarrow> False);
     (r, t) \<leftarrow> call (dedup_begin third (test_fingerprint 3) t);
     assert_that (r = BeginNew);
     (r, t) \<leftarrow> call (dedup_begin first (test_fingerprint 1) t);
     assert_that (r = BeginNew)
   }"

definition insertion_order_survives_out_of_order_completion :: "unit option" where
  "insertion_order_survives_out_of_order_completion = do {
     cfg \<leftarrow> test_config 2 16 65536;
     first \<leftarrow> test_key 1;
     second \<leftarrow> test_key 2;
     third \<leftarrow> test_key 3;
     (r, t) \<leftarrow> call (dedup_begin first (test_fingerprint 1) (dedup_new cfg));
     assert_that (r = BeginNew);
     (r, t) \<leftarrow> call (dedup_begin second (test_fingerprint 2) t);
     assert_that (r = BeginNew);
     (_, t) \<leftarrow> call (dedup_complete second (test_fingerprint 2) [2] t);
     (_, t) \<leftarrow> call (dedup_complete first (test_fingerprint 1) [1] t);
     (r, t) \<leftarrow> call (dedup_begin third (test_fingerprint 3) t);
     assert_that (r = BeginNew);
     (r, t) \<leftarrow> call (dedup_begin first (test_fingerprint 1) t);
     assert_that (r = BeginNew)
   }"

definition in_flight_entries_are_never_evicted :: "unit option" where
  "in_flight_entries_are_never_evicted = do {
     cfg \<leftarrow> test_config 2 16 65536;
     first \<leftarrow> test_key 1;
     second \<leftarrow> test_key 2;
     third \<leftarrow> test_key 3;
     (_, t) \<leftarrow> call (dedup_begin first (test_fingerprint 1) (dedup_new cfg));
     (_, t) \<leftarrow> call (dedup_begin second (test_fingerprint 2) t);
     (r, t) \<leftarrow> call (dedup_begin third (test_fingerprint 3) t);
     assert_that (r = BeginFull);
     (_, t) \<leftarrow> call (dedup_complete first (test_fingerprint 1) [1] t);
     (r, t) \<leftarrow> call (dedup_begin third (test_fingerprint 3) t);
     assert_that (r = BeginNew);
     (r, t) \<leftarrow> call (dedup_begin second (test_fingerprint 2) t);
     assert_that (r = BeginInFlight)
   }"

definition total_outcome_bytes_evict_oldest_completed_entry :: "unit option" where
  "total_outcome_bytes_evict_oldest_completed_entry = do {
     cfg \<leftarrow> test_config 4 40000 65536;
     first \<leftarrow> test_key 1;
     second \<leftarrow> test_key 2;
     (_, t) \<leftarrow> call (dedup_begin first (test_fingerprint 1) (dedup_new cfg));
     (_, t) \<leftarrow> call (dedup_complete first (test_fingerprint 1) (replicate 40000 1) t);
     (_, t) \<leftarrow> call (dedup_begin second (test_fingerprint 2) t);
     (_, t) \<leftarrow> call (dedup_complete second (test_fingerprint 2) (replicate 40000 2) t);
     assert_that (dt_retained_outcome_bytes t = 40000);
     (r, t) \<leftarrow> call (dedup_begin first (test_fingerprint 1) t);
     assert_that (r = BeginNew)
   }"

definition oversized_completion_keeps_the_reservation_in_flight :: "unit option" where
  "oversized_completion_keeps_the_reservation_in_flight = do {
     cfg \<leftarrow> test_config 2 4 65536;
     k \<leftarrow> test_key 1;
     (_, t) \<leftarrow> call (dedup_begin k (test_fingerprint 1) (dedup_new cfg));
     (c, t) \<leftarrow> Some (dedup_complete k (test_fingerprint 1) (replicate 5 0) t);
     assert_that (c = Inl (OutcomeTooLarge 5 4));
     (r, t) \<leftarrow> call (dedup_begin k (test_fingerprint 1) t);
     assert_that (r = BeginInFlight)
   }"

definition recovery_uses_the_same_bounded_algorithm :: "unit option" where
  "recovery_uses_the_same_bounded_algorithm = do {
     cfg \<leftarrow> test_config 1 16 65536;
     first \<leftarrow> test_key 1;
     second \<leftarrow> test_key 2;
     (r, t) \<leftarrow> call (restore_completed first (test_fingerprint 1) [1] (dedup_new cfg));
     assert_that (r = RestoreRestored);
     (r, t) \<leftarrow> call (restore_completed second (test_fingerprint 2) [2] t);
     assert_that (r = RestoreRestored);
     (r, t) \<leftarrow> call (dedup_begin first (test_fingerprint 1) t);
     assert_that (r = BeginNew)
   }"

definition sequence_overflow_is_nonmutating :: "unit option" where
  "sequence_overflow_is_nonmutating = do {
     cfg \<leftarrow> test_config 2 16 65536;
     k \<leftarrow> test_key 1;
     (r, t) \<leftarrow> Some (dedup_begin k (test_fingerprint 1) ((dedup_new cfg)\<lparr>dt_last_insertion_sequence := - 1\<rparr>));
     assert_that (r = Inl (SequenceExhausted ''dedup insertion''));
     assert_that (dedup_len t = 0)
   }"

section \<open>They pass\<close>

definition made_key :: "u8 \<Rightarrow> dedup_key" where
  "made_key ordinal = DedupKey (ClusterId (last_byte 16 1)) (NodeId ''source'') (MessageId (last_byte 16 ordinal))"

lemma key_value: "ordinal \<noteq> 0 \<Longrightarrow> test_key ordinal = Some (made_key ordinal)"
proof -
  have "expect (node_id_parse ''source'') = Some (NodeId ''source'')" by code_simp
  then show "ordinal \<noteq> 0 \<Longrightarrow> test_key ordinal = Some (made_key ordinal)"
    by (simp add: test_key_def made_key_def id_from_bytes_defs opaque_from_bytes_def last_byte_nonzero)
qed

lemma made_keys [simp]:
  "made_key a = made_key b \<longleftrightarrow> a = b" "test_fingerprint a = test_fingerprint b \<longleftrightarrow> a = b"
  "message_bytes (key_message_id (made_key a)) ! 15 = a"
  by (simp_all add: made_key_def test_fingerprint_def last_byte_def nth_append)

lemma config_values:
  "test_config 4 16 65536 = Some \<lparr>cfg_max_entries = 4, cfg_max_outcome_bytes = 16, cfg_max_total_outcome_bytes = 65536\<rparr>"
  "test_config 2 16 65536 = Some \<lparr>cfg_max_entries = 2, cfg_max_outcome_bytes = 16, cfg_max_total_outcome_bytes = 65536\<rparr>"
  "test_config 4 40000 65536 = Some \<lparr>cfg_max_entries = 4, cfg_max_outcome_bytes = 40000, cfg_max_total_outcome_bytes = 65536\<rparr>"
  "test_config 2 4 65536 = Some \<lparr>cfg_max_entries = 2, cfg_max_outcome_bytes = 4, cfg_max_total_outcome_bytes = 65536\<rparr>"
  "test_config 1 16 65536 = Some \<lparr>cfg_max_entries = 1, cfg_max_outcome_bytes = 16, cfg_max_total_outcome_bytes = 65536\<rparr>"
  by (simp_all add: test_config_def dedup_config_try_from_def check_def errors_from_vec_def max_dedup_entries_new_def
      max_outcome_bytes_new_def max_total_outcome_bytes_new_def bounded_u32_new_def limit_defs Let_def
      unsigned_minus_1_eq_mask mask_eq_exp_minus_1)

lemmas dedup_run = key_value config_values dedup_new_def dedup_begin_def dedup_complete_def dedup_abort_def
  restore_completed_def evict_for_entry.simps evict_for_outcome.simps evict_oldest_completed_def evictable_def
  over_total_def dedup_len_def checked_add_def len64_def remove_nth_def Let_def fcard_finsert_if fcard_fempty

lemma reservation_test_passes: "reservation_replay_abort_and_conflict_are_explicit = Some ()"
  by (simp add: reservation_replay_abort_and_conflict_are_explicit_def dedup_run)

lemma fifo_test_passes: "entry_eviction_uses_insertion_fifo_without_access_refresh = Some ()"
  by (simp add: entry_eviction_uses_insertion_fifo_without_access_refresh_def dedup_run)

lemma order_test_passes: "insertion_order_survives_out_of_order_completion = Some ()"
  by (simp add: insertion_order_survives_out_of_order_completion_def dedup_run)

lemma in_flight_test_passes: "in_flight_entries_are_never_evicted = Some ()"
  by (simp add: in_flight_entries_are_never_evicted_def dedup_run)

lemma outcome_bytes_test_passes: "total_outcome_bytes_evict_oldest_completed_entry = Some ()"
  by (simp add: total_outcome_bytes_evict_oldest_completed_entry_def dedup_run)

lemma dedup_error_tests_pass:
  "oversized_completion_keeps_the_reservation_in_flight = Some ()"
  "recovery_uses_the_same_bounded_algorithm = Some ()"
  "sequence_overflow_is_nonmutating = Some ()"
  by (simp_all add: oversized_completion_keeps_the_reservation_in_flight_def
      recovery_uses_the_same_bounded_algorithm_def sequence_overflow_is_nonmutating_def dedup_run
      unsigned_minus_1_eq_mask mask_eq_exp_minus_1)

end
