(* ===== verification/Test_Config.thy ===== *)
theory Test_Config
  imports Test_Support Config_Properties
begin

text \<open>
  The unit tests of \<open>config.rs\<close>, run on the model. The parsers of the \<open>url\<close> and \<open>uuid\<close> crates and of socket addresses
  are the parameter of every test, as in the code's model; the tests are run on a table of what those parsers answer
  to the texts the tests use.
\<close>

definition CLUSTER :: string where
  "CLUSTER = ''00000000-0000-0000-0000-000000000001''"

definition valid_raw :: raw_node_config where
  "valid_raw =
     \<lparr>rnc_cluster_id = CLUSTER, rnc_node_id = ''node-1'',
      rnc_members = Mapping.update ''node-2'' ''https://node-2.example:5001''
        (Mapping.update ''node-1'' ''http://127.0.0.1:5001'' Mapping.empty),
      rnc_wal = \<lparr>rw_directory = ''data/wal'', rw_max_record_bytes = ucast DEFAULT_MAX_RECORD_BYTES,
        rw_sync_policy = RawAlways, rw_tail_repair = Reject\<rparr>,
      rnc_transport = \<lparr>rt_listen_address = ''127.0.0.1:5001'', rt_advertised_url = ''http://127.0.0.1:5001'',
        rt_request_timeout_ms = 1000, rt_connect_timeout_ms = 500,
        rt_max_message_bytes = ucast DEFAULT_MAX_MESSAGE_BYTES\<rparr>,
      rnc_dedup = raw_dedup_default\<rparr>"

text \<open>The outcome of a \<open>try_from\<close>: the value, or the errors of \<open>expect_err\<close>.\<close>

definition valid :: "'a validated \<Rightarrow> 'a option" where
  "valid v = Option.bind v expect"

definition invalid :: "'a validated \<Rightarrow> validation_error list option" where
  "invalid v = (case v of Some (Inl es) \<Rightarrow> Some es | _ \<Rightarrow> None)"

definition valid_node_config_exposes_only_validated_values :: "'a parsers \<Rightarrow> ('a \<Rightarrow> u16) \<Rightarrow> unit option" where
  "valid_node_config_exposes_only_validated_values ps port = do {
     cfg \<leftarrow> valid (node_config_try_from ps valid_raw);
     assert_that (node_str (nc_node_id cfg) = ''node-1'');
     assert_that (Mapping.size (nc_members cfg) = 2);
     assert_that (port (tc_listen_address (nc_transport cfg)) = 5001);
     assert_that (wcfg_sync_policy (nc_wal cfg) = Always)
   }"

definition standalone_subconfig_conversions_are_available :: "'a parsers \<Rightarrow> unit option" where
  "standalone_subconfig_conversions_are_available ps = do {
     assert_that (valid (wal_config_try_from (rnc_wal valid_raw)) \<noteq> None);
     assert_that (valid (transport_config_try_from ps (rnc_transport valid_raw)) \<noteq> None);
     assert_that (valid (dedup_config_try_from (rnc_dedup valid_raw)) \<noteq> None)
   }"

definition peer_endpoint_rules_are_exact :: "'a parsers \<Rightarrow> unit option" where
  "peer_endpoint_rules_are_exact ps = do {
     assert_that (is_ok (peer_endpoint_parse ps ''http://host.example/path''));
     assert_that (is_ok (peer_endpoint_parse ps ''https://127.0.0.1:443''));
     assert_that (list_all (\<lambda>rejected. isl (peer_endpoint_parse ps rejected))
       [''ftp://host.example'', ''http://user@host.example'', ''http://host.example?q=1'',
        ''http://host.example#fragment'', ''not a url''])
   }"

definition validation_aggregates_and_sorts_independent_failures :: "'a parsers \<Rightarrow> unit option" where
  "validation_aggregates_and_sorts_independent_failures ps =
     (let raw = valid_raw
            \<lparr>rnc_cluster_id := ''not-a-uuid'', rnc_node_id := ''BAD'', rnc_members := Mapping.empty,
             rnc_wal := (rnc_wal valid_raw)\<lparr>rw_directory := [], rw_max_record_bytes := 0\<rparr>,
             rnc_transport := (rnc_transport valid_raw)
               \<lparr>rt_listen_address := ''localhost:5'', rt_request_timeout_ms := 0, rt_connect_timeout_ms := 300001\<rparr>,
             rnc_dedup := (rnc_dedup valid_raw)\<lparr>rd_max_entries := 0, rd_max_total_outcome_bytes := 1\<rparr>\<rparr>
      in do {
        errors \<leftarrow> invalid (node_config_try_from ps raw);
        assert_that (length errors \<ge> 8);
        sorted \<leftarrow> Some (map (\<lambda>e. (ve_field_path e, ve_code e)) errors);
        assert_that (sort sorted = sorted)
      })"

definition duplicate_canonical_endpoints_and_missing_local_member_are_rejected :: "'a parsers \<Rightarrow> unit option" where
  "duplicate_canonical_endpoints_and_missing_local_member_are_rejected ps = do {
     errors \<leftarrow> invalid (node_config_try_from ps (valid_raw\<lparr>rnc_members :=
       Mapping.update ''node-3'' ''http://example.com/'' (Mapping.update ''node-2'' ''HTTP://EXAMPLE.COM'' Mapping.empty)\<rparr>));
     assert_that (list_ex (\<lambda>e. ve_code e = ''duplicate_endpoint'') errors);
     assert_that (list_ex (\<lambda>e. ve_code e = ''missing_local_node'') errors)
   }"

definition cross_config_byte_relationships_are_enforced :: "'a parsers \<Rightarrow> unit option" where
  "cross_config_byte_relationships_are_enforced ps =
     (let message = 1024 - ucast WAL_FRAME_OVERHEAD_BYTES + 1;
          raw = valid_raw
            \<lparr>rnc_wal := (rnc_wal valid_raw)\<lparr>rw_max_record_bytes := 1024\<rparr>,
             rnc_transport := (rnc_transport valid_raw)\<lparr>rt_max_message_bytes := message\<rparr>,
             rnc_dedup := (rnc_dedup valid_raw)
               \<lparr>rd_max_outcome_bytes := message + 1, rd_max_total_outcome_bytes := 65536\<rparr>\<rparr>
      in do {
        errors \<leftarrow> invalid (node_config_try_from ps raw);
        assert_that (list_ex (\<lambda>e. ve_code e = ''exceeds_wal_record_limit'') errors);
        assert_that (list_ex (\<lambda>e. ve_code e = ''exceeds_message_limit'') errors)
      })"

definition batch_sync_count_must_be_nonzero :: "unit option" where
  "batch_sync_count_must_be_nonzero = do {
     assert_that (invalid (wal_config_try_from ((rnc_wal valid_raw)\<lparr>rw_sync_policy := RawBatch 0\<rparr>)) \<noteq> None);
     assert_that (is_ok (sync_policy_batch 1))
   }"

section \<open>They pass\<close>

definition plain_url :: "string \<Rightarrow> string \<Rightarrow> url" where
  "plain_url scheme text =
     \<lparr>url_text = text, url_scheme = scheme, url_has_host = True, url_cannot_be_a_base = False, url_username = [],
      url_password = None, url_query = None, url_fragment = None\<rparr>"

definition url_answers :: "(string \<times> url) list" where
  "url_answers =
     [(''http://127.0.0.1:5001'', plain_url ''http'' ''http://127.0.0.1:5001/''),
      (''https://node-2.example:5001'', plain_url ''https'' ''https://node-2.example:5001/''),
      (''http://host.example/path'', plain_url ''http'' ''http://host.example/path''),
      (''https://127.0.0.1:443'', plain_url ''https'' ''https://127.0.0.1/''),
      (''ftp://host.example'', plain_url ''ftp'' ''ftp://host.example/''),
      (''http://user@host.example'', (plain_url ''http'' ''http://user@host.example/'')\<lparr>url_username := ''user''\<rparr>),
      (''http://host.example?q=1'', (plain_url ''http'' ''http://host.example/?q=1'')\<lparr>url_query := Some ''q=1''\<rparr>),
      (''http://host.example#fragment'',
         (plain_url ''http'' ''http://host.example/#fragment'')\<lparr>url_fragment := Some ''fragment''\<rparr>),
      (''HTTP://EXAMPLE.COM'', plain_url ''http'' ''http://example.com/''),
      (''http://example.com/'', plain_url ''http'' ''http://example.com/'')]"

definition test_parsers :: "(bytes \<times> u16) parsers" where
  "test_parsers =
     \<lparr>parse_url = map_of url_answers, parse_uuid = map_of [(CLUSTER, replicate 15 0 @ [1])],
      parse_socket = map_of [(''127.0.0.1:5001'', ([127, 0, 0, 1], 5001))]\<rparr>"

lemma peer_endpoint_test_passes: "peer_endpoint_rules_are_exact test_parsers = Some ()"
  by code_simp

lemmas config_run = valid_def invalid_def node_config_try_from_def validate_members_def wal_config_try_from_def
  transport_config_try_from_def dedup_config_try_from_def validate_timeout_def check_nested_def extend_prefixed_def
  message_limit_errors_def sync_policy_from_raw_def sync_policy_batch_def check_def and_then_def
  max_record_bytes_new_def max_message_bytes_new_def timeout_millis_new_def max_dedup_entries_new_def
  max_outcome_bytes_new_def max_total_outcome_bytes_new_def max_unsynced_records_new_def bounded_u32_new_def
  checked_add_def limit_defs DEFAULT_MAX_RECORD_BYTES_def DEFAULT_MAX_DEDUP_ENTRIES_def DEFAULT_MAX_OUTCOME_BYTES_def
  DEFAULT_MAX_TOTAL_OUTCOME_BYTES_def raw_dedup_default_def valid_raw_def Let_def
  unsigned_minus_1_eq_mask mask_eq_exp_minus_1

lemma errors_from_vec_cases [simp]:
  "errors_from_vec [] = None" "errors_from_vec (e # es) = Some (sort (e # es))"
  by (simp_all add: errors_from_vec_def)

lemma config_answers [simp]:
  "parse_socket test_parsers ''127.0.0.1:5001'' = Some ([127, 0, 0, 1], 5001)"
  "parse_socket test_parsers ''localhost:5'' = None"
  "peer_endpoint_parse test_parsers ''http://127.0.0.1:5001'' = Inr (PeerEndpoint (plain_url ''http'' ''http://127.0.0.1:5001/''))"
  "peer_endpoint_parse test_parsers ''https://node-2.example:5001'' = Inr (PeerEndpoint (plain_url ''https'' ''https://node-2.example:5001/''))"
  "peer_endpoint_parse test_parsers ''HTTP://EXAMPLE.COM'' = Inr (PeerEndpoint (plain_url ''http'' ''http://example.com/''))"
  "peer_endpoint_parse test_parsers ''http://example.com/'' = Inr (PeerEndpoint (plain_url ''http'' ''http://example.com/''))"
  "cluster_id_parse test_parsers ''not-a-uuid'' = Inl (InvalidUuid ''cluster ID'')"
  "cluster_id_parse test_parsers CLUSTER = Inr (ClusterId (replicate 15 0 @ [1]))"
  "node_id_parse ''node-1'' = Inr (NodeId ''node-1'')" "node_id_parse ''node-2'' = Inr (NodeId ''node-2'')"
  "node_id_parse ''node-3'' = Inr (NodeId ''node-3'')" "isl (node_id_parse ''BAD'')"
  by code_simp+

lemma endpoint_texts [simp]: "endpoint_str (PeerEndpoint (plain_url scheme text)) = text"
  by (simp add: endpoint_str_def plain_url_def)

lemma batch_test_passes: "batch_sync_count_must_be_nonzero = Some ()"
  by (simp add: batch_sync_count_must_be_nonzero_def config_run)

lemma subconfig_test_passes: "standalone_subconfig_conversions_are_available test_parsers = Some ()"
  by (simp add: standalone_subconfig_conversions_are_available_def config_run)

lemma members_entries:
  "Mapping.ordered_entries (Mapping.update ''node-2'' x (Mapping.update ''node-1'' y Mapping.empty)) = [(''node-1'', y), (''node-2'', x)]"
  "Mapping.ordered_entries (Mapping.update ''node-3'' x (Mapping.update ''node-2'' y Mapping.empty)) = [(''node-2'', y), (''node-3'', x)]"
proof -
  have "''node-1'' \<le> ''node-2''" "''node-2'' \<le> ''node-3''" by code_simp+
  then show "Mapping.ordered_entries (Mapping.update ''node-2'' x (Mapping.update ''node-1'' y Mapping.empty)) = [(''node-1'', y), (''node-2'', x)]"
    "Mapping.ordered_entries (Mapping.update ''node-3'' x (Mapping.update ''node-2'' y Mapping.empty)) = [(''node-2'', y), (''node-3'', x)]"
    by (auto simp: insort_insert_key_def)
qed

lemma node_config_test_passes:
  "valid_node_config_exposes_only_validated_values test_parsers snd = Some ()"
  by (simp add: valid_node_config_exposes_only_validated_values_def config_run members_entries Mapping.lookup_update' Mapping.size_update)

lemma duplicate_endpoint_test_passes:
  "duplicate_canonical_endpoints_and_missing_local_member_are_rejected test_parsers = Some ()"
  by (simp add: duplicate_canonical_endpoints_and_missing_local_member_are_rejected_def config_run members_entries
      Mapping.lookup_update' list_ex_iff del: sort_key_simps)

lemma byte_relationships_test_passes: "cross_config_byte_relationships_are_enforced test_parsers = Some ()"
  by (simp add: cross_config_byte_relationships_are_enforced_def config_run members_entries Mapping.lookup_update'
      list_ex_iff del: sort_key_simps)

lemma sorted_by_path_and_code: "sorted es \<Longrightarrow> sorted (map (\<lambda>e. (ve_field_path e, ve_code e)) es)"
  by (rule sorted_map_mono)
    (auto intro!: mono_onI simp: less_eq_validation_error_def error_key_def less_eq_prod_def)

lemma aggregation_test_passes: "validation_aggregates_and_sorts_independent_failures test_parsers = Some ()"
proof -
  obtain e where e: "node_id_parse ''BAD'' = Inl e"
    using config_answers(12) by (auto simp: isl_def)
  show ?thesis
    by (simp add: validation_aggregates_and_sorts_independent_failures_def config_run e sorted_by_path_and_code
        sorted_sort_id del: sort_key_simps)
qed

end
