(* ===== verification/Test_Wal.thy ===== *)
theory Test_Wal
  imports Test_Support Wal_Damage Wal_Open Iron_Config Iron_Envelope
begin

text \<open>
  The unit tests of \<open>format.rs\<close> and \<open>writer.rs\<close>, run on the model. The checksum is the parameter of every test. Most of
  them pass with any checksum; the golden frame and the corrupted payload need CRC-32C (\<open>Wal_Crc\<close>). A temporary
  directory is an empty \<open>wal_dir\<close>.
\<close>

section \<open>Frames\<close>

definition frame_has_exact_header_and_payload_lengths :: "(bytes \<Rightarrow> u32) \<Rightarrow> unit option" where
  "frame_has_exact_header_and_payload_lengths crc = do {
     schema \<leftarrow> expect (schema_version_new 1);
     input \<leftarrow> expect (wal_record_input_new 1024 schema (str_bytes ''abc''));
     frame \<leftarrow> expect (encode_frame crc LSN_FIRST input);
     assert_that (frame =
       [73, 67, 87, 76, 0, 1, 0, 40, 0, 0, 0, 43, 0, 0, 0, 0, 0, 0, 0, 0, 0, 0, 0, 1, 4, 0, 0,
        1, 0, 0, 0, 3, 54, 75, 63, 183, 124, 119, 10, 152, 97, 98, 99])
   }"

definition frame_of :: "(bytes \<Rightarrow> u32) \<Rightarrow> lsn \<Rightarrow> wal_record_input \<Rightarrow> bytes" where
  "frame_of crc l r = header_bytes crc (header_of crc l r) @ inp_payload r"

lemma frame_of_encodes: "length (inp_payload r) + 40 < 2 ^ 32 \<Longrightarrow> encode_frame crc l r = Inr (frame_of crc l r)"
  by (simp add: encode_frame_Inr_iff frame_of_def)

lemma golden_crcs:
  "crc32c [97, 98, 99] = 0x364B3FB7"
  "crc32c [73, 67, 87, 76, 0, 1, 0, 40, 0, 0, 0, 43, 0, 0, 0, 0, 0, 0, 0, 0, 0, 0, 0, 1, 4, 0, 0, 1, 0, 0, 0, 3, 54, 75, 63, 183]
    = 0x7C770A98"
  by (simp_all add: crc32c_run)

lemma golden_fields:
  "be16 1024 = [4, 0]" "be32 0x364B3FB7 = [54, 75, 63, 183]" "be32 0x7C770A98 = [124, 119, 10, 152]"
  by (simp_all add: be16_def be32_def be_bytes_numeral)

lemma str_abc: "str_bytes ''abc'' = [97, 98, 99]"
  by (simp add: str_bytes_def)

lemma golden_frame_test_passes: "frame_has_exact_header_and_payload_lengths crc32c = Some ()"
  by (simp add: frame_has_exact_header_and_payload_lengths_def schema_version_new_def nonzero_new_def
      wal_record_input_new_def str_abc frame_of_encodes frame_of_def header_bytes_def header_of_def Let_def
      frame_prefix_def frame_constants LSN_FIRST_def golden_fields golden_crcs,
      simp add: be16_def be32_def be64_def be_bytes_numeral golden_crcs golden_fields)

section \<open>The writer\<close>

definition test_wal_config :: "u64 \<Rightarrow> raw_sync_policy \<Rightarrow> tail_repair \<Rightarrow> wal_config option" where
  "test_wal_config max_record_bytes sync_policy tail_repair =
     Option.bind (wal_config_try_from \<lparr>rw_directory = ''tmp'', rw_max_record_bytes = max_record_bytes,
       rw_sync_policy = sync_policy, rw_tail_repair = tail_repair\<rparr>) (\<lambda>r. map_option wal_config.truncate (expect r))"

definition default_wal_config :: "raw_sync_policy \<Rightarrow> tail_repair \<Rightarrow> wal_config option" where
  "default_wal_config = test_wal_config (ucast DEFAULT_MAX_RECORD_BYTES)"

definition wal_input :: "bytes \<Rightarrow> wal_record_input option" where
  "wal_input payload = Option.bind (expect (schema_version_new 1)) (\<lambda>schema. expect (wal_record_input_new 1024 schema payload))"

text \<open>A temporary directory, and one that holds a fixture; neither has faults to come.\<close>

definition tempdir :: wal_dir where
  "tempdir = \<lparr>wd_created = True, wd_file = None, wd_locked = False, wd_faults = [], wd_script = []\<rparr>"

definition written_dir :: "bytes \<Rightarrow> wal_dir" where
  "written_dir bs = tempdir\<lparr>wd_file := Some \<lparr>io_bytes = bs, io_pos = 0, io_synced = [], io_script = []\<rparr>\<rparr>"

definition empty_replay_and_reopen_continuation_are_gapless :: "(bytes \<Rightarrow> u32) \<Rightarrow> unit option" where
  "empty_replay_and_reopen_continuation_are_gapless crc = do {
     cfg \<leftarrow> default_wal_config RawAlways Reject;
     (wal, dir) \<leftarrow> call (wal_open crc cfg tempdir);
     (empty, wal) \<leftarrow> call (wal_replay crc wal);
     assert_that (report_record_count (replay_report empty) = 0);
     assert_that (report_last_lsn (replay_report empty) = None);
     first \<leftarrow> wal_input (str_bytes ''first'');
     (outcome, wal) \<leftarrow> call (wal_append crc first wal);
     assert_that (outcome_lsn outcome = LSN_FIRST);
     assert_that (outcome_durable_through outcome = Some LSN_FIRST);
     (again, dir) \<leftarrow> Some (wal_open crc cfg dir);
     assert_that (again = Inl AlreadyOpen);
     (reopened, dir) \<leftarrow> call (wal_open crc cfg (wal_drop wal dir));
     second \<leftarrow> wal_input (str_bytes ''second'');
     (outcome, reopened) \<leftarrow> call (wal_append crc second reopened);
     assert_that (lsn_get (outcome_lsn outcome) = 2);
     (replay, reopened) \<leftarrow> call (wal_replay crc reopened);
     assert_that (map rec_payload (replay_records replay) = [str_bytes ''first'', str_bytes ''second''])
   }"

definition sync_policies_report_only_known_durability :: "(bytes \<Rightarrow> u32) \<Rightarrow> unit option" where
  "sync_policies_report_only_known_durability crc = do {
     manual_cfg \<leftarrow> default_wal_config RawManual Reject;
     (manual, _) \<leftarrow> call (wal_open crc manual_cfg tempdir);
     one \<leftarrow> wal_input (str_bytes ''one'');
     (first, manual) \<leftarrow> call (wal_append crc one manual);
     assert_that (outcome_durable_through first = None);
     (durable, manual) \<leftarrow> call (wal_flush manual);
     assert_that (durable = Some LSN_FIRST);
     batch_cfg \<leftarrow> default_wal_config (RawBatch 2) Reject;
     (batch, _) \<leftarrow> call (wal_open crc batch_cfg tempdir);
     (outcome, batch) \<leftarrow> call (wal_append crc one batch);
     assert_that (outcome_durable_through outcome = None);
     two \<leftarrow> wal_input (str_bytes ''two'');
     (outcome, batch) \<leftarrow> call (wal_append crc two batch);
     assert_that (map_option lsn_get (outcome_durable_through outcome) = Some 2)
   }"

definition append_rejects_payload_above_configured_limit :: "(bytes \<Rightarrow> u32) \<Rightarrow> unit option" where
  "append_rejects_payload_above_configured_limit crc = do {
     cfg \<leftarrow> test_wal_config 1024 RawAlways Reject;
     (wal, _) \<leftarrow> call (wal_open crc cfg tempdir);
     input \<leftarrow> wal_input (replicate 1025 0);
     (outcome, wal) \<leftarrow> Some (wal_append crc input wal);
     assert_that (outcome = Inl (RecordTooLarge 1025 1024));
     assert_that (fw_last_lsn wal = None)
   }"

definition incomplete_cut_obeys :: "(bytes \<Rightarrow> u32) \<Rightarrow> bytes \<Rightarrow> nat \<Rightarrow> tail_repair \<Rightarrow> unit option" where
  "incomplete_cut_obeys crc frame n tail_repair = do {
     cfg \<leftarrow> default_wal_config RawAlways tail_repair;
     (result, dir) \<leftarrow> Some (wal_open crc cfg (written_dir (take n frame)));
     (case tail_repair of
        Reject \<Rightarrow> do {
          assert_that (case result of Inl (TornTail 0 _ _) \<Rightarrow> True | _ \<Rightarrow> False);
          file \<leftarrow> wd_file dir;
          assert_that (length (io_bytes file) = n)
        }
      | Truncate \<Rightarrow> do {
          wal \<leftarrow> expect result;
          repair \<leftarrow> report_tail_repair (fw_open_report wal);
          assert_that (repair_bytes_removed repair = n);
          assert_that (report_durable_file_length (fw_open_report wal) = 0)
        })
   }"

definition every_incomplete_frame_cut_obeys_both_tail_policies :: "(bytes \<Rightarrow> u32) \<Rightarrow> unit option" where
  "every_incomplete_frame_cut_obeys_both_tail_policies crc = do {
     input \<leftarrow> wal_input (str_bytes ''payload'');
     frame \<leftarrow> expect (encode_frame crc LSN_FIRST input);
     assert_that (list_all (\<lambda>n. list_all (\<lambda>tail_repair. incomplete_cut_obeys crc frame n tail_repair = Some ())
       [Reject, Truncate]) [1..<length frame])
   }"

definition payload_corruption_is_never_repaired :: "(bytes \<Rightarrow> u32) \<Rightarrow> unit option" where
  "payload_corruption_is_never_repaired crc = do {
     cfg \<leftarrow> default_wal_config RawAlways Truncate;
     (wal, dir) \<leftarrow> call (wal_open crc cfg tempdir);
     input \<leftarrow> wal_input (str_bytes ''payload'');
     (_, wal) \<leftarrow> call (wal_append crc input wal);
     dir \<leftarrow> Some (wal_drop wal dir);
     file \<leftarrow> wd_file dir;
     (_, file) \<leftarrow> call (seek_start HEADER_LEN (file\<lparr>io_pos := 0\<rparr>));
     (_, file) \<leftarrow> call (write_all (str_bytes ''P'') file);
     (_, file) \<leftarrow> call (sync_data file);
     (result, _) \<leftarrow> Some (wal_open crc cfg (dir\<lparr>wd_file := Some file\<rparr>));
     assert_that (case result of Inl (Corruption _ _ PayloadChecksum) \<Rightarrow> True | _ \<Rightarrow> False)
   }"

definition bad_magic_and_lsn_gap_are_hard_corruption :: "(bytes \<Rightarrow> u32) \<Rightarrow> unit option" where
  "bad_magic_and_lsn_gap_are_hard_corruption crc = do {
     x \<leftarrow> wal_input (str_bytes ''x'');
     frame \<leftarrow> expect (encode_frame crc LSN_FIRST x);
     repairing \<leftarrow> default_wal_config RawAlways Truncate;
     (result, _) \<leftarrow> Some (wal_open crc repairing (written_dir (frame[0 := frame ! 0 XOR 1])));
     assert_that (case result of Inl (Corruption _ _ BadMagic) \<Rightarrow> True | _ \<Rightarrow> False);
     one \<leftarrow> wal_input (str_bytes ''one'');
     first \<leftarrow> expect (encode_frame crc LSN_FIRST one);
     lsn_three \<leftarrow> expect (lsn_new 3);
     three \<leftarrow> wal_input (str_bytes ''three'');
     third \<leftarrow> expect (encode_frame crc lsn_three three);
     rejecting \<leftarrow> default_wal_config RawAlways Reject;
     (result, _) \<leftarrow> Some (wal_open crc rejecting (written_dir (first @ third)));
     assert_that (case result of Inl (Corruption _ _ kind) \<Rightarrow> kind = LsnSequence 2 3 | _ \<Rightarrow> False)
   }"

text \<open>The faulty device of the last test: what it does to the calls of one \<open>append\<close> (seek, write, synchronize).\<close>

definition failing_sync :: wal_file where
  "failing_sync = \<lparr>io_bytes = [], io_pos = 0, io_synced = [], io_script = [None, None, Some (IoError 0, 0)]\<rparr>"

definition failing_partial_write :: "nat \<Rightarrow> wal_file" where
  "failing_partial_write limit = \<lparr>io_bytes = [], io_pos = 0, io_synced = [], io_script = [None, Some (IoError 1, limit)]\<rparr>"

definition faulty_wal :: "wal_file \<Rightarrow> wal_config \<Rightarrow> file_wal" where
  "faulty_wal file config =
     \<lparr>fw_file = file, fw_config = config, fw_last_lsn = None, fw_durable_through = None, fw_valid_length = 0,
      fw_unsynced_records = 0, fw_poisoned = False,
      fw_open_report = \<lparr>report_record_count = 0, report_last_lsn = None, report_durable_file_length = 0,
        report_tail_repair = None\<rparr>\<rparr>"

definition sync_and_partial_write_failures_poison_writer :: "(bytes \<Rightarrow> u32) \<Rightarrow> unit option" where
  "sync_and_partial_write_failures_poison_writer crc = do {
     cfg \<leftarrow> default_wal_config RawAlways Reject;
     x \<leftarrow> wal_input (str_bytes ''x'');
     (outcome, sync_failure) \<leftarrow> Some (wal_append crc x (faulty_wal failing_sync cfg));
     assert_that (case outcome of Inl (WalIo _ _) \<Rightarrow> True | _ \<Rightarrow> False);
     assert_that (fw_poisoned sync_failure);
     again \<leftarrow> wal_input (str_bytes ''again'');
     assert_that (fst (wal_append crc again sync_failure) = Inl Poisoned);
     payload \<leftarrow> wal_input (str_bytes ''payload'');
     (outcome, write_failure) \<leftarrow> Some (wal_append crc payload (faulty_wal (failing_partial_write 7) cfg));
     assert_that (case outcome of Inl (WalIo _ _) \<Rightarrow> True | _ \<Rightarrow> False);
     assert_that (fw_poisoned write_failure)
   }"

section \<open>They pass\<close>

definition made_input :: "bytes \<Rightarrow> wal_record_input" where
  "made_input payload = \<lparr>inp_record_kind = 1024, inp_schema_version = SchemaVersion 1, inp_payload = payload\<rparr>"

lemma wal_input_value: "wal_input payload = Some (made_input payload)"
  by (simp add: wal_input_def made_input_def schema_version_new_def nonzero_new_def wal_record_input_new_def)

lemma wal_config_values:
  "default_wal_config RawAlways policy = Some \<lparr>wcfg_max_record_bytes = 8388608, wcfg_sync_policy = Always, wcfg_tail_repair = policy\<rparr>"
  "default_wal_config RawManual policy = Some \<lparr>wcfg_max_record_bytes = 8388608, wcfg_sync_policy = Manual, wcfg_tail_repair = policy\<rparr>"
  "default_wal_config (RawBatch 2) policy = Some \<lparr>wcfg_max_record_bytes = 8388608, wcfg_sync_policy = Batch 2, wcfg_tail_repair = policy\<rparr>"
  "test_wal_config 1024 RawAlways policy = Some \<lparr>wcfg_max_record_bytes = 1024, wcfg_sync_policy = Always, wcfg_tail_repair = policy\<rparr>"
  by (simp_all add: default_wal_config_def test_wal_config_def wal_config_try_from_def check_def errors_from_vec_def
      sync_policy_from_raw_def sync_policy_batch_def max_record_bytes_new_def max_unsynced_records_new_def
      bounded_u32_new_def limit_defs DEFAULT_MAX_RECORD_BYTES_def and_then_def Let_def wal_config.truncate_def
      unsigned_minus_1_eq_mask mask_eq_exp_minus_1)

lemma length_frame_of [simp]: "length (frame_of crc l r) = 40 + length (inp_payload r)"
  by (simp add: frame_of_def)

lemma made_input_simps [simp]:
  "inp_payload (made_input p) = p" "inp_record_kind (made_input p) = 1024"
  "inp_schema_version (made_input p) = SchemaVersion 1" "length p \<le> unat m \<Longrightarrow> record_ok m (made_input p)"
  "length p + 40 < 2 ^ 32 \<Longrightarrow> encode_frame crc l (made_input p) = Inr (frame_of crc l (made_input p))"
  by (simp_all add: made_input_def record_ok_def schema_ok_def frame_of_encodes)

lemma lsn_steps [simp]: "next_lsn None = Some LSN_FIRST" "next_lsn (Some LSN_FIRST) = Some (Lsn 2)"
    "checked_successor LSN_FIRST = Some (Lsn 2)"
  by (simp_all add: next_lsn_def checked_successor_def checked_add_def LSN_FIRST_def)

lemma batch_open [simp]: "\<not> (2 :: u32) \<le> 1"
  by code_simp

lemma scan_none [simp]:
  "scan crc m policy \<lparr>io_bytes = [], io_pos = p, io_synced = s, io_script = []\<rparr> =
     (Inr (replay_of [] 0 None 0 None), \<lparr>io_bytes = [], io_pos = 0, io_synced = s, io_script = []\<rparr>)"
  using scan_complete_log [of "\<lparr>io_bytes = [], io_pos = p, io_synced = s, io_script = []\<rparr>" crc "[]" m policy]
  by (simp add: healthy_def)

lemma scan_one:
  assumes "length bs \<le> unat m" "length bs < 2 ^ 32 - 40"
  shows "scan crc m policy \<lparr>io_bytes = frame_of crc LSN_FIRST (made_input bs), io_pos = p, io_synced = s, io_script = []\<rparr> =
     (Inr (replay_of (log_records None [made_input bs]) 1 (Some LSN_FIRST) (40 + length bs) None),
      \<lparr>io_bytes = frame_of crc LSN_FIRST (made_input bs), io_pos = 40 + length bs, io_synced = s, io_script = []\<rparr>)"
  using assms scan_complete_log [of "\<lparr>io_bytes = frame_of crc LSN_FIRST (made_input bs), io_pos = p, io_synced = s, io_script = []\<rparr>"
      crc "[made_input bs]" m policy]
  by (simp add: healthy_def)

lemma scan_two:
  assumes "length bs \<le> unat m" "length bs < 2 ^ 32 - 40" "length cs \<le> unat m" "length cs < 2 ^ 32 - 40"
  shows "scan crc m policy \<lparr>io_bytes = frame_of crc LSN_FIRST (made_input bs) @ frame_of crc (Lsn 2) (made_input cs),
       io_pos = p, io_synced = s, io_script = []\<rparr> =
     (Inr (replay_of (log_records None [made_input bs, made_input cs]) (Suc (Suc 0)) (Some (Lsn 2))
        (80 + (length bs + length cs)) None),
      \<lparr>io_bytes = frame_of crc LSN_FIRST (made_input bs) @ frame_of crc (Lsn 2) (made_input cs),
       io_pos = 80 + (length bs + length cs), io_synced = s, io_script = []\<rparr>)"
  using assms scan_complete_log [of "\<lparr>io_bytes = frame_of crc LSN_FIRST (made_input bs) @ frame_of crc (Lsn 2) (made_input cs),
      io_pos = p, io_synced = s, io_script = []\<rparr>" crc "[made_input bs, made_input cs]" m policy]
  by (simp add: healthy_def)

lemmas wal_run = wal_input_value wal_config_values tempdir_def written_dir_def wal_open_def dir_step_def dir_call_def
  path_exists_def open_file_def opened_file_def try_lock_exclusive_def sync_created_def sync_directory_def sync_all_def
  file_wal_open_def wal_replay_def wal_flush_def ensure_writable_def sync_current_def wal_append_def append_written_def
  must_sync_def seek_start_def write_all_def sync_data_def io_call_def io_decide_def put_bytes_def overwrite_def
  replay_of_def wal_drop_def len64_def checked_add_def checked_add64_def Let_def ok_or_def

lemma str_lengths [simp]: "length (str_bytes s) = length s"
  by (simp add: str_bytes_def)

lemma limit_test_passes: "append_rejects_payload_above_configured_limit crc = Some ()"
  by (simp add: append_rejects_payload_above_configured_limit_def wal_run)

lemma durability_test_passes: "sync_policies_report_only_known_durability crc = Some ()"
  by (simp add: sync_policies_report_only_known_durability_def wal_run)

lemma poisoning_test_passes: "sync_and_partial_write_failures_poison_writer crc = Some ()"
  by (simp add: sync_and_partial_write_failures_poison_writer_def wal_run failing_sync_def failing_partial_write_def
      faulty_wal_def)

lemma reopen_test_passes: "empty_replay_and_reopen_continuation_are_gapless crc = Some ()"
  by (simp add: empty_replay_and_reopen_continuation_are_gapless_def wal_run scan_one scan_two from_validated_def)

subsection \<open>Damaged logs\<close>

lemma incomplete_cut:
  assumes "length bs \<le> 1024" "0 < n" "n < 40 + length bs"
  shows "incomplete_cut_obeys crc (frame_of crc LSN_FIRST (made_input bs)) n policy = Some ()"
proof -
  let ?frame = "frame_of crc LSN_FIRST (made_input bs)"
  let ?f = "\<lparr>io_bytes = take n ?frame, io_pos = 0, io_synced = [], io_script = []\<rparr>"
  obtain res g where scan: "scan crc 8388608 policy ?f = (res, g)" by fastforce
  have "?frame \<noteq> []" by (metis add_is_0 length_frame_of list.size(3) zero_neq_numeral)
  then have "take n ?frame \<noteq> []" "drop n ?frame \<noteq> []" using assms by auto
  then have "case policy of
      Reject \<Rightarrow> res = Inl (TornTail 0 n None) \<and> io_bytes g = take n ?frame
    | Truncate \<Rightarrow> res = Inr (replay_of [] 0 None 0
          (Some \<lparr>repair_offset = 0, repair_bytes_removed = n, repair_last_valid_lsn = None\<rparr>))"
    using scan_torn_log [of ?f "[]" "take n ?frame" crc "[]" 8388608 LSN_FIRST "made_input bs" "drop n ?frame"
        policy res g] scan assms
    by (auto simp: healthy_def min_def split: tail_repair.splits)
  then show ?thesis using scan assms by (cases policy) (simp_all add: incomplete_cut_obeys_def wal_run)
qed

lemma cuts_test_passes: "every_incomplete_frame_cut_obeys_both_tail_policies crc = Some ()"
  by (simp add: every_incomplete_frame_cut_obeys_both_tail_policies_def wal_input_value list_all_iff incomplete_cut
      del: upt_conv_Cons_Cons)

lemma scan_first_error:
  assumes "healthy f" "io_bytes f \<noteq> []"
    "fst (scan_frame crc m (length (io_bytes f)) 0 None (f\<lparr>io_pos := 0\<rparr>)) = Inl e"
  shows "fst (scan crc m policy f) = Inl e"
  using assms by (auto simp: scan_healthy scan_loop.simps [of _ _ _ _ 0] split: prod.splits)

lemma fst_pair: "fst x = a \<Longrightarrow> \<exists>b. x = (a, b)"
  by (cases x) simp

lemma scan_bad_payload:
  assumes "healthy f" "io_bytes f = header_bytes crc (header_of crc LSN_FIRST (made_input bs)) @ cs" "length cs = length bs"
    "crc cs \<noteq> crc bs" "length bs \<le> unat m" "length bs \<le> 1024"
  shows "fst (scan crc m policy f) = Inl (Corruption 0 None PayloadChecksum)"
proof (rule scan_first_error)
  show "io_bytes f \<noteq> []" using assms(2) by (metis append_is_Nil_conv length_header_bytes list.size(3) zero_neq_numeral)
  show "fst (scan_frame crc m (length (io_bytes f)) 0 None (f\<lparr>io_pos := 0\<rparr>)) = Inl (Corruption 0 None PayloadChecksum)"
    using assms scan_frame_body [of "f\<lparr>io_pos := 0\<rparr>" "[]" crc LSN_FIRST "made_input bs" cs "[]" m
        "frame_of crc LSN_FIRST (made_input bs)" None]
    by (simp add: validate_payload_checksum_def and_then_def)
qed (fact assms(1))

lemma corruption_test_passes:
  assumes "detects_byte crc"
  shows "payload_corruption_is_never_repaired crc = Some ()"
proof -
  let ?bs = "str_bytes ''payload''" and ?cs = "str_bytes ''Payload''"
  have "?cs = ?bs[0 := str_bytes ''P'' ! 0]" "str_bytes ''P'' ! 0 \<noteq> ?bs ! 0" by (simp_all add: str_bytes_def)
  then have "crc ?cs \<noteq> crc ?bs" using detects_byteD [OF assms, of 0 ?bs "str_bytes ''P'' ! 0"] by simp
  moreover have "overwrite (frame_of crc LSN_FIRST (made_input ?bs)) 40 (str_bytes ''P'') =
      header_bytes crc (header_of crc LSN_FIRST (made_input ?bs)) @ ?cs"
    by (simp add: overwrite_def frame_of_def) (simp add: str_bytes_def)
  moreover obtain g where "scan crc 8388608 Truncate
      \<lparr>io_bytes = header_bytes crc (header_of crc LSN_FIRST (made_input ?bs)) @ ?cs, io_pos = 0,
       io_synced = header_bytes crc (header_of crc LSN_FIRST (made_input ?bs)) @ ?cs, io_script = []\<rparr> =
      (Inl (Corruption 0 None PayloadChecksum), g)"
    using fst_pair [OF scan_bad_payload [of "\<lparr>io_bytes = header_bytes crc (header_of crc LSN_FIRST (made_input ?bs)) @ ?cs,
        io_pos = 0, io_synced = header_bytes crc (header_of crc LSN_FIRST (made_input ?bs)) @ ?cs, io_script = []\<rparr>"
        crc ?bs ?cs 8388608 Truncate]] calculation(1)
    by (auto simp: healthy_def)
  ultimately show ?thesis
    by (simp add: payload_corruption_is_never_repaired_def wal_run HEADER_LEN_def)
qed

lemma scan_bad_magic:
  assumes "healthy f" "40 \<le> length (io_bytes f)" "take 4 (io_bytes f) \<noteq> MAGIC"
  shows "fst (scan crc m policy f) = Inl (Corruption 0 None BadMagic)"
proof (rule scan_first_error)
  show "fst (scan_frame crc m (length (io_bytes f)) 0 None (f\<lparr>io_pos := 0\<rparr>)) = Inl (Corruption 0 None BadMagic)"
    using assms by (simp add: scan_frame_def HEADER_LEN_def io_healthy decode_header_def min_def)
qed (use assms in auto)

lemma scan_gap:
  assumes "length bs \<le> 1024" "length cs \<le> 1024" "healthy f"
    "io_bytes f = frame_of crc LSN_FIRST (made_input bs) @ frame_of crc (Lsn 3) (made_input cs)"
  shows "fst (scan crc 8388608 policy f) = Inl (Corruption (40 + length bs) (Some LSN_FIRST) (LsnSequence 2 3))"
proof -
  let ?a = "frame_of crc LSN_FIRST (made_input bs)" and ?b = "frame_of crc (Lsn 3) (made_input cs)"
  let ?e = "Corruption (40 + length bs) (Some LSN_FIRST) (LsnSequence 2 3)"
  have loop: "scan crc 8388608 policy f =
      scan_loop crc 8388608 policy (length (io_bytes f)) (length ?a) (Some LSN_FIRST)
        (log_records None [made_input bs]) 1 (f\<lparr>io_pos := length ?a\<rparr>)"
    using scan_loop_frames [of "f\<lparr>io_pos := 0\<rparr>" "[]" ?a ?b crc None "[made_input bs]" 8388608 0 policy "[]"] assms
    by (simp add: scan_healthy)
  have body: "io_bytes f = ?a @ header_bytes crc (header_of crc (Lsn 3) (made_input cs)) @ cs @ []"
    using assms(4) by (simp add: frame_of_def [of crc "Lsn 3"])
  have "length (io_bytes f) < 2 ^ 64" using assms by simp
  have "scan_frame crc 8388608 (length (io_bytes (f\<lparr>io_pos := length ?a\<rparr>))) (length ?a) (Some LSN_FIRST) (f\<lparr>io_pos := length ?a\<rparr>) =
      (and_then (validate_payload_checksum crc cs (crc (inp_payload (made_input cs))) (length ?a) (Some LSN_FIRST)) (\<lambda>_.
       and_then (validate_lsn (lsn_get (Lsn 3)) (Some LSN_FIRST) (length ?a)) (\<lambda>l.
         Inr (ScanRecord (from_validated l (inp_record_kind (made_input cs)) (inp_schema_version (made_input cs)) cs)
           (length ?a + length ?b)))),
       f\<lparr>io_pos := length ?a\<rparr>\<lparr>io_pos := length ?a + length ?b\<rparr>)"
  proof (rule scan_frame_body)
    show "io_bytes (f\<lparr>io_pos := length ?a\<rparr>) = ?a @ header_bytes crc (header_of crc (Lsn 3) (made_input cs)) @ cs @ []"
      using body by simp
  qed (use assms(1-3) \<open>length (io_bytes f) < 2 ^ 64\<close> in simp_all)
  then have "fst (scan_frame crc 8388608 (length (io_bytes f)) (length ?a) (Some LSN_FIRST) (f\<lparr>io_pos := length ?a\<rparr>)) = Inl ?e"
    by (simp add: validate_payload_checksum_def validate_lsn_def and_then_def ok_or_def)
  from fst_pair [OF this] obtain g where hit: "scan_frame crc 8388608 (length (io_bytes f)) (length ?a) (Some LSN_FIRST)
      (f\<lparr>io_pos := length ?a\<rparr>) = (Inl ?e, g)" by (elim exE)
  have "length ?a < length (io_bytes f)" using assms(4) by simp
  then show ?thesis
    unfolding loop by (subst scan_loop.simps) (simp only: hit if_True prod.case sum.case fst_conv)
qed

lemma corruption_kinds_test_passes: "bad_magic_and_lsn_gap_are_hard_corruption crc = Some ()"
proof -
  let ?x = "frame_of crc LSN_FIRST (made_input (str_bytes ''x''))"
  let ?m = "\<lparr>io_bytes = ?x[0 := ?x ! 0 XOR 1], io_pos = 0, io_synced = [], io_script = []\<rparr>"
  let ?g = "\<lparr>io_bytes = frame_of crc LSN_FIRST (made_input (str_bytes ''one'')) @
      frame_of crc (Lsn 3) (made_input (str_bytes ''three'')), io_pos = 0, io_synced = [], io_script = []\<rparr>"
  have "take 4 ?x = MAGIC" by (simp add: frame_of_def header_bytes_def Let_def)
  then have "?x ! 0 = 73" "take 4 (?x[0 := 72]) = MAGIC[0 := 72]"
    using nth_take [of 0 4 ?x] by (simp_all add: MAGIC_def take_update_swap)
  then have "take 4 (io_bytes ?m) \<noteq> MAGIC" by (simp add: MAGIC_def)
  then obtain a where "scan crc 8388608 Truncate ?m = (Inl (Corruption 0 None BadMagic), a)"
    using fst_pair [OF scan_bad_magic [of ?m crc 8388608 Truncate]] by (auto simp: healthy_def)
  moreover obtain b where "scan crc 8388608 Reject ?g = (Inl (Corruption 43 (Some LSN_FIRST) (LsnSequence 2 3)), b)"
    using fst_pair [OF scan_gap [of "str_bytes ''one''" "str_bytes ''three''" ?g crc Reject]] by (auto simp: healthy_def)
  ultimately show ?thesis
    by (simp add: bad_magic_and_lsn_gap_are_hard_corruption_def wal_run lsn_new_def nonzero_new_def)
qed

lemma crc32c_tests_pass:
  "frame_has_exact_header_and_payload_lengths crc32c = Some ()" "payload_corruption_is_never_repaired crc32c = Some ()"
  using golden_frame_test_passes corruption_test_passes crc32c_detects by simp_all

end
