(* ===== verification/Test_Testkit.thy ===== *)
theory Test_Testkit
  imports Test_Support Testkit_Network Testkit_Wal Iron_Grpc Iron_Text
begin

text \<open>
  The unit tests of the protocol boundary (\<open>iron-protocol\<close>, \<open>iron-transport\<close>), of the wire adapter and of the test
  kit, and the workspace test \<open>foundation_simulation.rs\<close>, run on the model. The random generator, the protobuf codec
  and SHA-256 are parameters.
\<close>

section \<open>The protocol boundary\<close>

definition logical_duration_rejects_zero :: "unit option" where
  "logical_duration_rejects_zero = do {
     assert_that (isl (logical_duration_from_ticks 0));
     one \<leftarrow> expect (logical_duration_from_ticks 1);
     assert_that (ticks one = 1);
     most \<leftarrow> expect (logical_duration_from_ticks (- 1));
     assert_that (ticks most = - 1)
   }"

definition no_op_has_no_durability_or_effects :: "unit option" where
  "no_op_has_no_durability_or_effects = do {
     assert_that (tr_durable_record transition_no_op = None);
     assert_that (tr_actions transition_no_op = [])
   }"

definition action_order_is_retained_for_stateless_transition :: "unit option" where
  "action_order_is_retained_for_stateless_transition = assert_that (tr_actions (transition_stateless []) = [])"

definition retryability_is_variant_based :: "unit option" where
  "retryability_is_variant_based = do {
     assert_that (is_retryable (Timeout ''send''));
     assert_that (is_retryable Unavailable);
     assert_that (\<not> is_retryable (RemoteRejected ''cluster-mismatch'' ''wrong cluster''))
   }"

lemma boundary_tests_pass:
  "logical_duration_rejects_zero = Some ()" "no_op_has_no_durability_or_effects = Some ()"
  "action_order_is_retained_for_stateless_transition = Some ()" "retryability_is_variant_based = Some ()"
  by (simp_all add: logical_duration_rejects_zero_def logical_duration_from_ticks_def transition_no_op_def
      no_op_has_no_durability_or_effects_def action_order_is_retained_for_stateless_transition_def
      transition_stateless_def retryability_is_variant_based_def is_retryable_def)

section \<open>The wire adapter\<close>

definition wire_round_trip_preserves_semantics ::
  "(wire_envelope \<Rightarrow> bytes) \<Rightarrow> (bytes \<Rightarrow> 'e + wire_envelope) \<Rightarrow> unit option" where
  "wire_round_trip_preserves_semantics encode_to_vec decode = do {
     cluster \<leftarrow> expect (cluster_id_from_bytes (replicate 16 1));
     message \<leftarrow> expect (message_id_from_bytes (replicate 16 2));
     a \<leftarrow> expect (node_id_parse ''a'');
     b \<leftarrow> expect (node_id_parse ''b'');
     protocol \<leftarrow> expect (protocol_name_parse ''raft'');
     mtype \<leftarrow> expect (message_type_parse ''append'');
     schema \<leftarrow> expect (schema_version_new 1);
     maximum \<leftarrow> expect (max_message_bytes_new 1024);
     envelope \<leftarrow> expect (new_v1 (fields_initial cluster a b message None protocol mtype schema (str_bytes ''hello'')) maximum);
     decoded \<leftarrow> expect (decode (encode_to_vec (from_core envelope)));
     restored \<leftarrow> expect (into_core decoded maximum);
     assert_that (restored = envelope)
   }"

lemma wire_names:
  "node_id_parse ''a'' = Inr (NodeId ''a'')" "node_id_parse ''b'' = Inr (NodeId ''b'')"
  "protocol_name_parse ''raft'' = Inr (ProtocolName ''raft'')" "message_type_parse ''append'' = Inr (MessageType ''append'')"
  by code_simp+

lemma wire_test_passes:
  assumes "\<And>w. decode (encode_to_vec w) = Inr w"
  shows "wire_round_trip_preserves_semantics encode_to_vec decode = Some ()"
  using assms by (simp add: wire_round_trip_preserves_semantics_def wire_names id_from_bytes_defs opaque_from_bytes_def
      OPAQUE_ID_BYTES_def replicate_eq_replicate schema_version_new_def nonzero_new_def max_message_bytes_new_def
      bounded_u32_new_def limit_defs Let_def new_v1_def from_fields_def fields_defs len64_def str_bytes_def and_then_def
      from_core_def into_core_def bytes16_def core_result_def correlation_from_wire_def u16_try_from_def
      try_from_version_def ENVELOPE_V1_def)

section \<open>The test kit\<close>

definition clock_is_checked_and_manual :: "unit option" where
  "clock_is_checked_and_manual = do {
     (now, clock) \<leftarrow> call (advance_by 7 clock_new);
     assert_that (tick_get now = 7);
     assert_that (clk_now clock = LogicalTick 7);
     assert_that (tick_checked_add (LogicalTick (- 1)) 1 = Inl ClockOverflow)
   }"

definition popped :: "(driver_error + 't scheduled option) \<times> 't driver \<Rightarrow> ('t \<times> 't driver) option" where
  "popped r = do {
     (next, driver) \<leftarrow> call r;
     event \<leftarrow> next;
     Some (sc_event event, driver)
   }"

definition queue_orders_by_tick_then_insertion :: "unit option" where
  "queue_orders_by_tick_then_insertion = do {
     (_, driver) \<leftarrow> call (schedule_at (LogicalTick 2) ''later'' driver_new);
     (_, driver) \<leftarrow> call (schedule_at (LogicalTick 1) ''first'' driver);
     (_, driver) \<leftarrow> call (schedule_at (LogicalTick 1) ''second'' driver);
     (a, driver) \<leftarrow> popped (pop_next driver);
     (b, driver) \<leftarrow> popped (pop_next driver);
     (c, driver) \<leftarrow> popped (pop_next driver);
     assert_that ([a, b, c] = [''first'', ''second'', ''later''])
   }"

definition queue_rejects_the_past :: "unit option" where
  "queue_rejects_the_past = do {
     (_, driver) \<leftarrow> call (schedule_at (LogicalTick 4) () driver_new);
     (_, driver) \<leftarrow> call (pop_next driver);
     assert_that (case fst (schedule_at (LogicalTick 3) () driver) of Inl (PastTick _ _) \<Rightarrow> True | _ \<Rightarrow> False)
   }"

fun next_words :: "('g \<Rightarrow> u64 \<times> 'g) \<Rightarrow> nat \<Rightarrow> 'g scenario \<Rightarrow> u64 list" where
  "next_words next_word 0 s = []"
| "next_words next_word (Suc n) s = (case scenario_next next_word s of (w, s) \<Rightarrow> w # next_words next_word n s)"

definition seeded_scenarios_are_reproducible :: "(u64 \<Rightarrow> 'g) \<Rightarrow> ('g \<Rightarrow> u64 \<times> 'g) \<Rightarrow> unit option" where
  "seeded_scenarios_are_reproducible seed_from next_word =
     (let left = scenario_new seed_from 41;
          right = scenario_new seed_from 41;
          left_values = next_words next_word 8 left;
          right_values = next_words next_word 8 right
      in do {
        assert_that (left_values = right_values);
        assert_that (left_values \<noteq> next_words next_word 8 (scenario_new seed_from 42))
      })"

text \<open>The context of a failing scenario prints the trace with the \<open>Debug\<close> format of a list of strings. The model is
  of ASCII text: quotes, backslashes and control characters are escaped, everything else stands for itself.\<close>

definition debug_char :: "char \<Rightarrow> string" where
  "debug_char c =
     (let n = of_char c :: nat; backslash = CHR 0x5C in
      if c = CHR 0x22 \<or> c = backslash then [backslash, c]
      else if n = 0 then [backslash, CHR ''0'']
      else if n = 9 then [backslash, CHR ''t'']
      else if n = 10 then [backslash, CHR ''n'']
      else if n = 13 then [backslash, CHR ''r'']
      else if n < 16 then [backslash] @ ''u{'' @ [hex_digit n] @ ''}''
      else if n < 32 \<or> n = 127 then [backslash] @ ''u{'' @ [hex_digit (n div 16), hex_digit (n mod 16)] @ ''}''
      else [c])"

definition debug_string :: "string \<Rightarrow> string" where
  "debug_string s = CHR 0x22 # concat (map debug_char s) @ [CHR 0x22]"

fun join_comma :: "string list \<Rightarrow> string" where
  "join_comma [] = []"
| "join_comma [s] = s"
| "join_comma (s # rest) = s @ '', '' @ join_comma rest"

definition failure_context :: "'g scenario \<Rightarrow> string" where
  "failure_context s =
     ''seed='' @ show_nat (unat (sn_seed s)) @ '' trace=['' @ join_comma (map debug_string (sn_trace s)) @ '']''"

definition failure_context_contains_seed_and_trace :: "(u64 \<Rightarrow> 'g) \<Rightarrow> unit option" where
  "failure_context_contains_seed_and_trace seed_from =
     (let scenario = scenario_record ''drop message 3'' (scenario_new seed_from 7)
      in assert_that (failure_context scenario =
        ''seed=7 trace=['' @ [CHR 0x22] @ ''drop message 3'' @ [CHR 0x22] @ '']''))"

lemma failure_context_test_passes: "failure_context_contains_seed_and_trace seed_from = Some ()"
proof -
  have "char_of (55 :: nat) = CHR ''7''" by code_simp
  then show ?thesis
    by (simp add: failure_context_contains_seed_and_trace_def failure_context_def scenario_record_def scenario_new_def
        show_nat.simps debug_string_def debug_char_def Let_def)
qed

definition byte_operations_are_explicit_and_repeatable :: "unit option" where
  "byte_operations_are_explicit_and_repeatable = do {
     (_, file) \<leftarrow> call (append_raw [1, 2, 3] None);
     (_, file) \<leftarrow> call (flip_bits 1 1 file);
     contents \<leftarrow> map_option io_bytes file;
     assert_that (contents = [1, 3, 3]);
     (_, file) \<leftarrow> call (truncate_to 2 file);
     (length, _) \<leftarrow> call (wal_len file);
     assert_that (length = 2)
   }"

lemma testkit_tests_pass:
  "queue_orders_by_tick_then_insertion = Some ()"
  "queue_rejects_the_past = Some ()"
  by (simp_all add: queue_orders_by_tick_then_insertion_def queue_rejects_the_past_def popped_def schedule_at_def
      pop_next_def driver_new_def driver_now_def clock_new_def TICK_ZERO_def advance_to_def less_logical_tick_def
      checked_add_def Let_def)

lemma clock_test_passes: "clock_is_checked_and_manual = Some ()"
  by (simp add: clock_is_checked_and_manual_def advance_by_def tick_checked_add_def clock_new_def TICK_ZERO_def
      checked_add_def ok_or_def unsigned_minus_1_eq_mask mask_eq_exp_minus_1)

lemma fixture_test_passes: "byte_operations_are_explicit_and_repeatable = Some ()"
  by (simp add: byte_operations_are_explicit_and_repeatable_def append_raw_def flip_bits_def truncate_to_def wal_len_def
      with_file_def io_then_def io_call_def io_decide_def seek_start_def read_exact_def write_all_def sync_data_def
      set_len_def file_len_def put_bytes_def overwrite_def)

text \<open>That two seeds differ is a fact about ChaCha8; that one seed repeats is not.\<close>

lemma scenario_test_passes:
  assumes "next_words next_word 8 (scenario_new seed_from 41) \<noteq> next_words next_word 8 (scenario_new seed_from 42)"
  shows "seeded_scenarios_are_reproducible seed_from next_word = Some ()"
  using assms by (simp add: seeded_scenarios_are_reproducible_def Let_def)

section \<open>foundation_simulation.rs\<close>

definition opaque :: "u8 \<Rightarrow> bytes" where
  "opaque last_byte = replicate 15 0 @ [last_byte]"

definition foundation_envelope :: "envelope option" where
  "foundation_envelope = do {
     cluster \<leftarrow> expect (cluster_id_from_bytes (opaque 1));
     source \<leftarrow> expect (node_id_parse ''node-a'');
     destination \<leftarrow> expect (node_id_parse ''node-b'');
     message \<leftarrow> expect (message_id_from_bytes (opaque 2));
     protocol \<leftarrow> expect (protocol_name_parse ''foundation.echo'');
     mtype \<leftarrow> expect (message_type_parse ''request'');
     schema \<leftarrow> expect (schema_version_new 1);
     maximum \<leftarrow> expect (max_message_bytes_new 1024);
     expect (new_v1 (fields_initial cluster source destination message None protocol mtype schema
       (str_bytes ''command'')) maximum)
   }"

text \<open>The loop of the test pops until the network is empty; the fuel bounds the deliveries it may find.\<close>

fun pop_all :: "nat \<Rightarrow> sim_network \<Rightarrow> envelope list option" where
  "pop_all 0 n = None"
| "pop_all (Suc fuel) n = do {
     (next, n) \<leftarrow> Option.bind (pop_delivery n) call;
     (case next of
        None \<Rightarrow> Some []
      | Some delivery \<Rightarrow> map_option (\<lambda>es. sc_event delivery # es) (pop_all fuel n))
   }"

definition duplicating_network :: sim_network where
  "duplicating_network = add_fault (fault_rule_new \<lparr>fp_ordinal = Some 1, fp_source = None, fp_destination = None,
     fp_protocol = None, fp_message_type = None\<rparr> (FaultDuplicate 1) True) network_new"

definition scripted_duplicate_delivery_preserves_transport_and_envelope_contracts ::
  "(bytes \<Rightarrow> bytes) \<Rightarrow> unit option" where
  "scripted_duplicate_delivery_preserves_transport_and_envelope_contracts sha =
     do {
        sent \<leftarrow> foundation_envelope;
        (_, transport) \<leftarrow> call (exercise_at_least_once_contract simulated_send sent (unlocked duplicating_network));
        assert_that (\<not> mx_poisoned transport);
        delivered \<leftarrow> pop_all 4 (mx_value transport);
        assert_that (length delivered = 3);
        assert_that (list_all (\<lambda>copy. envelope_message_id copy = envelope_message_id sent \<and>
          envelope_delivery_attempt copy = envelope_delivery_attempt sent \<and>
          semantic_fingerprint sha copy = semantic_fingerprint sha sent) delivered)
     }"

definition echo_handle :: "event \<Rightarrow> protocol_error + transition" where
  "echo_handle event =
     (case event of
        ClientRequest request \<Rightarrow>
          and_then (durable_record_new 1024 (cr_schema_version request) (cr_command request)) (\<lambda>record.
            Inr (transition_durable record
              [ReplyToClient (reply_to_client_new (cr_request_id request) (cr_command request))]))
      | _ \<Rightarrow> Inr transition_no_op)"

definition identical_protocol_state_and_event_produce_identical_transition :: "unit option" where
  "identical_protocol_state_and_event_produce_identical_transition = do {
     name \<leftarrow> expect (protocol_name_parse ''foundation.echo'');
     request \<leftarrow> expect (opaque_from_bytes ''client request ID'' ClientRequestId (opaque 3));
     schema \<leftarrow> expect (schema_version_new 1);
     event \<leftarrow> Some (ClientRequest (client_request_new request schema (str_bytes ''deterministic'')));
     left \<leftarrow> expect (echo_handle event);
     right \<leftarrow> expect (echo_handle event);
     assert_that (left = right);
     record \<leftarrow> tr_durable_record left;
     assert_that (dr_payload record = str_bytes ''deterministic'')
   }"

lemma foundation_names:
  "node_id_parse ''node-a'' = Inr (NodeId ''node-a'')" "node_id_parse ''node-b'' = Inr (NodeId ''node-b'')"
  "protocol_name_parse ''foundation.echo'' = Inr (ProtocolName ''foundation.echo'')"
  "message_type_parse ''request'' = Inr (MessageType ''request'')"
  by code_simp+

lemma opaque_nonzero [simp]: "b \<noteq> 0 \<Longrightarrow> opaque b \<noteq> replicate OPAQUE_ID_BYTES 0"
  by (simp add: opaque_def OPAQUE_ID_BYTES_def eval_nat_numeral)

definition made_envelope :: envelope where
  "made_envelope = V1
     \<lparr>env_cluster_id = ClusterId (opaque 1), env_source = NodeId ''node-a'', env_destination = NodeId ''node-b'',
      env_message_id = MessageId (opaque 2), env_correlation_id = None,
      env_protocol = ProtocolName ''foundation.echo'', env_message_type = MessageType ''request'',
      env_schema_version = SchemaVersion 1, env_delivery_attempt = 0, env_payload = str_bytes ''command''\<rparr>"

lemma foundation_envelope_value: "foundation_envelope = Some made_envelope"
  by (simp add: foundation_envelope_def made_envelope_def foundation_names id_from_bytes_defs opaque_from_bytes_def
      schema_version_new_def nonzero_new_def max_message_bytes_new_def bounded_u32_new_def limit_defs Let_def new_v1_def
      from_fields_def fields_defs len64_def and_then_def str_bytes_def)

lemma echo_test_passes: "identical_protocol_state_and_event_produce_identical_transition = Some ()"
  by (simp add: identical_protocol_state_and_event_produce_identical_transition_def foundation_names
      opaque_from_bytes_def schema_version_new_def nonzero_new_def echo_handle_def durable_record_new_def
      client_request_new_def transition_durable_def and_then_def)

lemma both_sends_arrive:
  "(case exercise_at_least_once_contract simulated_send made_envelope (unlocked duplicating_network) of (r, t) \<Rightarrow>
     r = Inr () \<and> \<not> mx_poisoned t \<and> pop_all 4 (mx_value t) = Some [made_envelope, made_envelope, made_envelope])"
  by code_simp

lemma duplicate_test_passes: "scripted_duplicate_delivery_preserves_transport_and_envelope_contracts sha = Some ()"
  using both_sends_arrive
  by (auto simp: scripted_duplicate_delivery_preserves_transport_and_envelope_contracts_def foundation_envelope_value
      split: prod.splits)

end
