(* ===== verification/Test_Recovery.thy ===== *)
theory Test_Recovery
  imports Test_Wal Test_Dedup
begin

text \<open>
  The workspace test \<open>foundation_recovery.rs\<close>, run on the model: the writer, recovery, the deduplication table and the
  fixture of the test kit together. Both tests pass with any checksum.
\<close>

definition fixture_wal_config :: "raw_sync_policy \<Rightarrow> tail_repair \<Rightarrow> wal_config option" where
  "fixture_wal_config policy repair =
     Option.bind (fixture_config ''tmp'' (ucast DEFAULT_MAX_RECORD_BYTES) policy repair)
       (\<lambda>r. map_option wal_config.truncate (expect r))"

definition dedup_config_default :: dedup_config where
  "dedup_config_default = \<lparr>cfg_max_entries = max_dedup_entries_default, cfg_max_outcome_bytes = max_outcome_bytes_default,
     cfg_max_total_outcome_bytes = max_total_outcome_bytes_default\<rparr>"

text \<open>The loop over the replayed records, each of which must be restored.\<close>

fun restore_all :: "dedup_key \<Rightarrow> semantic_fingerprint \<Rightarrow> wal_record list \<Rightarrow> dedup_table \<Rightarrow> dedup_table option" where
  "restore_all key fingerprint [] t = Some t"
| "restore_all key fingerprint (r # rs) t = do {
     (restored, t) \<leftarrow> call (restore_completed key fingerprint (rec_payload r) t);
     assert_that (restored = RestoreRestored);
     restore_all key fingerprint rs t
   }"

definition append_flush_crash_replay_restores_completed_dedup_outcome :: "(bytes \<Rightarrow> u32) \<Rightarrow> unit option" where
  "append_flush_crash_replay_restores_completed_dedup_outcome crc = do {
     cfg \<leftarrow> fixture_wal_config RawManual Reject;
     cluster \<leftarrow> expect (cluster_id_from_bytes (last_byte 16 1));
     node \<leftarrow> expect (node_id_parse ''node-a'');
     message \<leftarrow> expect (message_id_from_bytes (last_byte 16 2));
     key \<leftarrow> Some (DedupKey cluster node message);
     fingerprint \<leftarrow> Some (SemanticFingerprint (replicate 32 7));
     outcome \<leftarrow> Some (str_bytes ''committed'');
     (begun, volatile) \<leftarrow> call (dedup_begin key fingerprint (dedup_new dedup_config_default));
     assert_that (begun = BeginNew);
     (_, volatile) \<leftarrow> call (dedup_complete key fingerprint outcome volatile);
     (wal, dir) \<leftarrow> call (wal_open crc cfg tempdir);
     record \<leftarrow> wal_input outcome;
     (append, wal) \<leftarrow> call (wal_append crc record wal);
     assert_that (outcome_durable_through append = None);
     (flushed, wal) \<leftarrow> call (wal_flush wal);
     assert_that (flushed = Some (outcome_lsn append));
     (restarted_wal, dir) \<leftarrow> call (wal_open crc cfg (wal_drop wal dir));
     (replay, restarted_wal) \<leftarrow> call (wal_replay crc restarted_wal);
     assert_that (length (replay_records replay) = 1);
     assert_that (rec_lsn (replay_records replay ! 0) = outcome_lsn append);
     restored \<leftarrow> restore_all key fingerprint (replay_records replay) (dedup_new dedup_config_default);
     (again, restored) \<leftarrow> call (dedup_begin key fingerprint restored);
     assert_that (again = BeginReplay outcome)
   }"

definition explicit_tail_fixture_is_reported_and_repaired_only_by_policy :: "(bytes \<Rightarrow> u32) \<Rightarrow> unit option" where
  "explicit_tail_fixture_is_reported_and_repaired_only_by_policy crc = do {
     truncate_cfg \<leftarrow> fixture_wal_config RawAlways Truncate;
     (wal, dir) \<leftarrow> call (wal_open crc truncate_cfg tempdir);
     record \<leftarrow> wal_input (str_bytes ''valid'');
     (_, wal) \<leftarrow> call (wal_append crc record wal);
     dir \<leftarrow> Some (wal_drop wal dir);
     (valid_length, _) \<leftarrow> call (wal_len (wd_file dir));
     (_, file) \<leftarrow> call (append_raw (str_bytes ''torn'') (wd_file dir));
     (wal, dir) \<leftarrow> call (wal_open crc truncate_cfg (dir\<lparr>wd_file := file\<rparr>));
     repair \<leftarrow> report_tail_repair (fw_open_report wal);
     assert_that (repair_offset repair = valid_length);
     assert_that (repair_bytes_removed repair = 4);
     (repaired_length, _) \<leftarrow> call (wal_len (wd_file dir));
     assert_that (repaired_length = valid_length)
   }"

section \<open>They pass\<close>

lemma fixture_config_values:
  "fixture_wal_config RawAlways policy = Some \<lparr>wcfg_max_record_bytes = 8388608, wcfg_sync_policy = Always, wcfg_tail_repair = policy\<rparr>"
  "fixture_wal_config RawManual policy = Some \<lparr>wcfg_max_record_bytes = 8388608, wcfg_sync_policy = Manual, wcfg_tail_repair = policy\<rparr>"
  using wal_config_values(1,2) [of policy]
  by (simp_all add: fixture_wal_config_def fixture_config_def default_wal_config_def test_wal_config_def)

lemma dedup_default_value:
  "dedup_config_default = \<lparr>cfg_max_entries = 65536, cfg_max_outcome_bytes = 65536, cfg_max_total_outcome_bytes = 67108864\<rparr>"
  by (simp add: dedup_config_default_def max_dedup_entries_default_def max_outcome_bytes_default_def
      max_total_outcome_bytes_default_def DEFAULT_MAX_DEDUP_ENTRIES_def DEFAULT_MAX_OUTCOME_BYTES_def
      DEFAULT_MAX_TOTAL_OUTCOME_BYTES_def limit_defs)

lemma recovery_test_passes: "append_flush_crash_replay_restores_completed_dedup_outcome crc = Some ()"
  by (simp add: append_flush_crash_replay_restores_completed_dedup_outcome_def fixture_config_values fixture_names
      id_from_bytes_defs opaque_from_bytes_def last_byte_nonzero dedup_default_value dedup_run wal_run scan_one
      from_validated_def)

lemma scan_short_tail:
  assumes "length bs \<le> 1024" "0 < length tail" "length tail < 40"
  shows "scan crc 8388608 Truncate \<lparr>io_bytes = frame_of crc LSN_FIRST (made_input bs) @ tail, io_pos = p, io_synced = s, io_script = []\<rparr> =
    (Inr (replay_of (log_records None [made_input bs]) 1 (Some LSN_FIRST) (40 + length bs)
       (Some \<lparr>repair_offset = 40 + length bs, repair_bytes_removed = length tail, repair_last_valid_lsn = Some LSN_FIRST\<rparr>)),
     \<lparr>io_bytes = frame_of crc LSN_FIRST (made_input bs), io_pos = 40 + length bs,
      io_synced = frame_of crc LSN_FIRST (made_input bs), io_script = []\<rparr>)"
proof -
  let ?a = "frame_of crc LSN_FIRST (made_input bs)"
  let ?f = "\<lparr>io_bytes = ?a @ tail, io_pos = 0, io_synced = s, io_script = []\<rparr>"
  have "scan crc 8388608 Truncate \<lparr>io_bytes = ?a @ tail, io_pos = p, io_synced = s, io_script = []\<rparr> =
      scan_loop crc 8388608 Truncate (length (?a @ tail)) (length ?a) (Some LSN_FIRST)
        (log_records None [made_input bs]) 1 (?f\<lparr>io_pos := length ?a\<rparr>)"
    using scan_loop_frames [of ?f "[]" ?a tail crc None "[made_input bs]" 8388608 0 Truncate "[]"] assms
    by (simp add: scan_healthy healthy_def)
  also have "\<dots> = finish_torn_tail (?f\<lparr>io_pos := length ?a\<rparr>) (log_records None [made_input bs]) 1 (Some LSN_FIRST)
      (length ?a) (length (?a @ tail)) Truncate"
    using assms by (subst scan_loop.simps) (simp add: scan_frame_def HEADER_LEN_def)
  finally show ?thesis
    by (simp add: finish_torn_tail_def io_healthy healthy_def replay_of_def)
qed

lemma tail_test_passes: "explicit_tail_fixture_is_reported_and_repaired_only_by_policy crc = Some ()"
  by (simp add: explicit_tail_fixture_is_reported_and_repaired_only_by_policy_def fixture_config_values wal_run
      wal_len_def file_len_def append_raw_def with_file_def io_then_def scan_short_tail)

end
