(* ===== verification/Test_Protocols.thy ===== *)
theory Test_Protocols
  imports Test_Support Iron_Envelope Raft_Node Two_Phase_Commit Three_Phase_Commit Paxos_Node
begin

text \<open>
  The unit tests of \<open>iron-raft\<close>, \<open>iron-2pc\<close>, \<open>iron-3pc\<close> and \<open>iron-multipaxos\<close>, run on the model: each definition is the
  body of a test, and each lemma says that it runs to its end.
\<close>

definition election_requires_a_majority_and_leader_accepts_commands :: "unit option" where
  "election_requires_a_majority_and_leader_accepts_commands = do {
     node_a \<leftarrow> expect (node_id_parse ''a'');
     node_b \<leftarrow> expect (node_id_parse ''b'');
     node_c \<leftarrow> expect (node_id_parse ''c'');
     a \<leftarrow> expect (raft_new node_a [node_a, node_b, node_c] 1);
     (requests, a) \<leftarrow> call (raft_tick a);
     assert_that (rn_role a = Candidate);
     (vote, a) \<leftarrow> call (raft_receive (Vote 1 node_b True) a);
     assert_that (rn_role a = Leader);
     assert_that (length vote = 2);
     (proposal, a) \<leftarrow> call (raft_propose (str_bytes ''set x'') a);
     assert_that (length proposal = 2);
     assert_that (length requests = 2)
   }"

definition follower_rejects_conflicting_previous_log :: "unit option" where
  "follower_rejects_conflicting_previous_log = do {
     node_a \<leftarrow> expect (node_id_parse ''a'');
     node_b \<leftarrow> expect (node_id_parse ''b'');
     a \<leftarrow> expect (raft_new node_a [node_a, node_b] 3);
     (out, a) \<leftarrow> call (raft_receive (AppendEntries 1 node_b 1 1 [] 0) a);
     assert_that (case out of
       o1 # _ \<Rightarrow> (case out_message o1 of AppendResponse _ _ success _ \<Rightarrow> \<not> success | _ \<Rightarrow> True)
     | [] \<Rightarrow> False)
   }"

definition coordinator_commits_only_after_all_prepared :: "unit option" where
  "coordinator_commits_only_after_all_prepared = do {
     node_a \<leftarrow> expect (node_id_parse ''a'');
     node_b \<leftarrow> expect (node_id_parse ''b'');
     c \<leftarrow> expect (coordinator_new [node_a, node_b]);
     (begun, c) \<leftarrow> call (coordinator_begin c);
     assert_that (begun = DoPrepare);
     (vote, c) \<leftarrow> call (vote_prepared node_a c);
     assert_that (vote = None);
     (vote, c) \<leftarrow> call (vote_prepared node_b c);
     assert_that (vote = Some DoCommit);
     assert_that (coordinator_decision c = Some DecideCommit)
   }"

definition participant_recovery_actions_are_idempotent_at_the_boundary :: "unit option" where
  "participant_recovery_actions_are_idempotent_at_the_boundary =
     (case participant_prepare True participant_new of (answer, p) \<Rightarrow> do {
        assert_that (answer = SayPrepared);
        (committed, p) \<leftarrow> call (participant_commit p);
        assert_that (committed = SayCommitted);
        assert_that (isl (fst (participant_commit p)))
      })"

definition precommit_requires_all_votes_and_partition_is_explicit :: "unit option" where
  "precommit_requires_all_votes_and_partition_is_explicit = do {
     node_a \<leftarrow> expect (node_id_parse ''a'');
     node_b \<leftarrow> expect (node_id_parse ''b'');
     c \<leftarrow> expect (c3_new [node_a, node_b]);
     (begun, c) \<leftarrow> call (c3_begin c);
     assert_that (begun = ActPrepare);
     (vote, c) \<leftarrow> call (c3_vote_prepared node_a c);
     assert_that (vote = None);
     (vote, c) \<leftarrow> call (c3_vote_prepared node_b c);
     assert_that (vote = Some ActPreCommit);
     assert_that (fst (c3_timeout c) = Inl PartitionMayBlock)
   }"

definition proposer_forms_a_quorum_and_acceptors_learn :: "unit option" where
  "proposer_forms_a_quorum_and_acceptors_learn = do {
     node_a \<leftarrow> expect (node_id_parse ''a'');
     node_b \<leftarrow> expect (node_id_parse ''b'');
     node_c \<leftarrow> expect (node_id_parse ''c'');
     a \<leftarrow> expect (paxos_new node_a [node_a, node_b, node_c]);
     (prepares, a) \<leftarrow> call (start_round a);
     assert_that (length prepares = 2);
     (_, a) \<leftarrow> call (paxos_receive node_b (Promise (pn_ballot a) []) a);
     (accepts, a) \<leftarrow> call (paxos_propose \<lparr>pv_slot = 1, pv_command = str_bytes ''x''\<rparr> a);
     assert_that (length accepts = 3)
   }"

lemma protocol_tests_pass:
  "election_requires_a_majority_and_leader_accepts_commands = Some ()"
  "follower_rejects_conflicting_previous_log = Some ()"
  "coordinator_commits_only_after_all_prepared = Some ()"
  "participant_recovery_actions_are_idempotent_at_the_boundary = Some ()"
  "precommit_requires_all_votes_and_partition_is_explicit = Some ()"
  "proposer_forms_a_quorum_and_acceptors_learn = Some ()"
  by code_simp+

end
