(* ===== verification/Spec2Isabelle.thy ===== *)
theory Spec2Isabelle
  imports Iron_Prelude Iron_Id Iron_Envelope Envelope_Properties Iron_Dedup Dedup_Refinement Wal_Format Wal_Io
    Wal_Reader Wal_Log Wal_Writer Wal_Recovery Wal_Properties Wal_Open Iron_Protocol Iron_Runtime Runtime_Properties
    Quorums_Majority Raft_Node Raft_Cluster Raft_Log Raft_Properties Raft_History Raft_Commit Raft_Progress
    Commit_Interface Two_Phase_Commit Three_Phase_Commit Commit_Properties Commit_Progress
    Paxos_Node Paxos_Cluster Paxos_Properties Paxos_Agreement
    Iron_Config Config_Properties Iron_Text Text_Properties
    Iron_Grpc Iron_Services Testkit_Driver Testkit_Network Testkit_Wal Wal_Crc Wal_Damage
    Iron_Sha Test_Support Test_Core Test_Dedup Test_Config Test_Wal Test_Testkit Test_Recovery Test_Protocols
begin

text \<open>
  A model of the Rust workspace \<open>iron-consensus\<close> (\<open>src/crates/\<close>) and the theorems that make it correct.

  \<^bold>\<open>The program.\<close> Deterministic protocol cores without I/O (Raft, Multi-Paxos, two-phase and three-phase
  commit) sit on a foundation: validated identifiers, limits, envelopes and configuration
  (\<open>iron-core\<close>), a bounded deduplication table, a checksummed write-ahead log (\<open>iron-wal\<close>), boundary
  types (\<open>iron-protocol\<close>, \<open>iron-transport\<close>), a runtime that makes a record durable before it performs
  the effects that follow from it (\<open>iron-runtime\<close>), a protobuf adapter (\<open>iron-grpc\<close>), three binaries that
  put a core behind a delivery service, and a deterministic simulator for the tests (\<open>iron-testkit\<close>).
  Components interact by calls only; the messages of the cores are values that their caller delivers.

  \<^bold>\<open>The theories.\<close>
  \<^item> \<open>Iron_Prelude\<close>: machine integers, checked addition, big-endian encodings, results, ordered removal,
    mutexes, runs, and the refinement contract \<open>refined_component\<close>.
  \<^item> \<open>Iron_Id\<close>, \<open>Iron_Envelope\<close>, \<open>Envelope_Properties\<close>: \<open>id.rs\<close>, \<open>limits.rs\<close>, \<open>error.rs\<close>, \<open>envelope.rs\<close>; every
    constructor with its checks, what a value built by it satisfies (\<open>envelope_ok\<close>), and that the
    fingerprint identifies a request up to its delivery attempt, and what retries and responses are.
  \<^item> \<open>Iron_Dedup\<close>, \<open>Dedup_Refinement\<close>: \<open>dedup.rs\<close>; the table refines a bounded queue that drops the oldest
    completed entry. Bounds, protection of reservations, exact replay and recovery follow.
  \<^item> \<open>Iron_Config\<close>, \<open>Config_Properties\<close>: \<open>config.rs\<close>; which raw configurations are accepted, that validation
    never panics, and what an accepted one guarantees to the other components.
  \<^item> \<open>Iron_Text\<close>, \<open>Text_Properties\<close>: the \<open>Display\<close>, \<open>FromStr\<close>, \<open>Serialize\<close> and \<open>Deserialize\<close> impls that \<open>id.rs\<close>,
    \<open>limits.rs\<close>, \<open>envelope.rs\<close>, \<open>config.rs\<close> and \<open>error.rs\<close> write by hand: printing and parsing are inverse, and
    no format can make a deserialized value miss the check of its constructor; a faithful format brings every
    value back, a limit only where integers are delivered to wider requests.
  \<^item> \<open>Wal_Format\<close> (\<open>format.rs\<close>, \<open>record.rs\<close>, \<open>error.rs\<close>), \<open>Wal_Io\<close> (the trait \<open>WalIo\<close> over a file with a script of
    faults), \<open>Wal_Reader\<close> (\<open>reader.rs\<close>), \<open>Wal_Log\<close> (the byte form of a log as a code), \<open>Wal_Writer\<close> and
    \<open>Wal_Open\<close> (\<open>writer.rs\<close>), \<open>Wal_Recovery\<close> (the contract \<open>durable_log\<close> of a write-ahead log and its
    interpretation by \<open>FileWal\<close>, and what a reopening finds after a crash), \<open>Wal_Properties\<close> (scanning,
    crashes, poisoning, sync policies). A crash keeps what \<open>sync_data\<close> put on stable storage and may turn
    everything behind it into anything (\<open>crash_leaves\<close>); that reopening also succeeds needs the crash to be a
    plain cut (\<open>crash_cuts\<close>) and a healthy machine (\<open>restarted\<close>).
  \<^item> \<open>Iron_Protocol\<close>, \<open>Iron_Runtime\<close>, \<open>Runtime_Properties\<close>: events, actions and transitions, the runtime over any
    protocol and any log that keeps \<open>durable_log\<close>, and its composition with \<open>FileWal\<close>: the record of every
    transition whose effects were attempted is in the log that is opened after a crash.
  \<^item> \<open>Quorums_Majority\<close>: the contract \<open>quorum_system\<close>, interpreted by majorities; Raft and Paxos rest on it.
  \<^item> \<open>Raft_Node\<close> (\<open>iron-raft\<close>), \<open>Raft_Cluster\<close> (nodes over a network that loses, delays, duplicates and
    reorders), \<open>Raft_Log\<close> (log matching), \<open>Raft_Properties\<close>; \<open>Raft_History\<close> and \<open>Raft_Commit\<close>: what
    the caller has to check (\<open>careful_ack\<close>) for commits to agree and to be kept by every later leader; \<open>Raft_Progress\<close>: such a cluster is never stuck.
  \<^item> \<open>Commit_Interface\<close> (the contract \<open>atomic_commitment\<close>), \<open>Two_Phase_Commit\<close> (\<open>iron-2pc\<close>),
    \<open>Three_Phase_Commit\<close> (\<open>iron-3pc\<close>), each with its composition over an unreliable network, and
    \<open>Commit_Properties\<close>; \<open>Commit_Progress\<close>: two-phase commit does not block.
  \<^item> \<open>Paxos_Node\<close> (\<open>iron-multipaxos\<close>), \<open>Paxos_Cluster\<close>, \<open>Paxos_Properties\<close>, and
    \<open>Paxos_Agreement\<close>: what the caller has to add for the nodes to agree, with the invariant behind it, and
    runs in which they do not when one of these duties is left out.
  \<^item> \<open>Iron_Grpc\<close> (\<open>iron-grpc\<close>): the wire envelope and the delivery service; \<open>Iron_Services\<close>: the handlers of
    \<open>iron-coordinator\<close>, \<open>iron-participant\<close> and \<open>iron-consensus-node\<close>, their main functions up to \<open>serve\<close>, and the
    served node as the run of its service over the wire envelopes it is given.
  \<^item> \<open>Testkit_Driver\<close> (\<open>clock.rs\<close>, \<open>driver.rs\<close>) with the contract \<open>event_queue\<close> of a scheduler, \<open>Testkit_Network\<close>
    (\<open>fault.rs\<close>, \<open>network.rs\<close>), \<open>Testkit_Wal\<close> (\<open>wal_fixture.rs\<close>), and \<open>Wal_Damage\<close>: what a scan reports after the
    fixture has damaged a log.
  \<^item> \<open>Wal_Crc\<close> and \<open>Iron_Sha\<close>: CRC-32C and SHA-256 by their standards, as instances of the parameters that stand
    for them. CRC-32C is proved to detect every changed byte; both reproduce the golden bytes of the unit tests.
  \<^item> \<open>Test_Support\<close>, \<open>Test_Core\<close>, \<open>Test_Dedup\<close>, \<open>Test_Config\<close>, \<open>Test_Wal\<close>, \<open>Test_Testkit\<close>, \<open>Test_Recovery\<close>,
    \<open>Test_Protocols\<close>: the program's own tests run on the model, as a check of the model against what the authors
    observe of the code. Each definition is the body of a test, under its name in the source, and a lemma says
    that it runs to its end with every assertion true.

  \<^bold>\<open>Conventions.\<close> A \<open>Result\<close> is a sum (\<open>Inl\<close> is \<open>Err\<close>); an operation on \<open>&mut self\<close> takes the state last and
  returns the result and the new state, also on an error. Integers are words of their width, with
  checked addition where the code checks; \<open>usize\<close> and file offsets are natural numbers, with the
  check against 64 bits where the code converts. A \<open>BTreeSet\<close> is a set, read in ascending order; a
  \<open>BTreeMap\<close> is a mapping or a sorted list of entries. A panic (\<open>expect\<close>, a failed assertion) is a value
  of its own, and theorems show that it is never reached. Strings are byte sequences.

  \<^bold>\<open>Bounds and termination.\<close> Payloads and files are assumed shorter than \<open>2 ^ 64\<close> bytes where lengths are
  converted. There is no fuel (but for \<open>pop_all\<close>, the loop of one test, which ends at its third delivery): loops over lists are structural, the scan of a log recurses on the
  bytes left, evictions on the entries left, and the delivery loop of the simulated network is a
  partial function that \<open>pop_delivery_terminates\<close> shows to return.

  \<^bold>\<open>What holds with a restriction.\<close> The cores leave gaps that theorems make precise:
  \<open>committed_entries_can_differ\<close> (Raft counts acknowledgements of any length towards a commit; \<open>careful_commits_agree\<close> says what suffices),
  \<open>decisions_can_differ\<close> (Paxos votes are counted per slot, not per ballot, and a proposer does not record
  its own promise; \<open>careful_callers_agree\<close> says what suffices), \<open>three_pc_blocks\<close>, \<open>open_reports_unsynced_records_durable\<close>,
  \<open>consensus_service_never_leads\<close>, \<open>limits_unreadable_at_fixed_width\<close> (limits are written as \<open>u32\<close> and read as \<open>u64\<close>). The safety theorems beside them
  (election safety, log matching, promises, atomic commitment) state what does hold.

  \<^bold>\<open>Parameters.\<close> \<open>crc32c\<close> and SHA-256 are arbitrary functions (\<open>Wal_Damage\<close> assumes of \<open>crc32c\<close> that it detects
  the change of one byte, \<open>detects_byte\<close>, which \<open>crc32c_detects\<close> proves of CRC-32C); URL, UUID and socket address parsing, UUID printing and the generator
  of \<open>rand_chacha\<close> are arguments; a protocol, a transport and a request handler are functions on a
  state of their own; a format of \<open>serde\<close> is a record of its answers; the device decides by a script which
  call fails.

  \<^bold>\<open>Not modelled.\<close> The derived \<open>serde\<close> impls and the generated protobuf code (written by macros and by the
  protobuf compiler), the HTTP/2 server that \<open>serve\<close> starts (\<open>tonic\<close>), the trait
  declarations (their implementations are function parameters) with the two tests that they are object safe,
  accessors that only return a field (they are the fields of the records), and the temporary directory of the
  WAL fixture.
\<close>

end
